(* ===== verification/Prelude.thy ===== *)
theory Prelude
  imports Main "HOL-Library.Word"
begin

text \<open>
  What every component shares: the result type of a C function that may fault, C \<open>int\<close>
  arithmetic with its overflow check, bounds-checked access to a block of memory, and the
  little-endian layout of integers (the program is built by gcc for x86-64 and all its shared
  structures are packed).
\<close>

named_theorems cstep \<open>rules that run one step of a modelled function forwards\<close>

section \<open>Results and faults\<close>

text \<open>
  \<open>Inl\<close> is behaviour C leaves undefined or that stops the process; an error the code handles
  (a return value of -1) is an ordinary \<open>Inr\<close> result. \<open>Exhausted\<close> says that a loop used
  up its fuel or the sequence of answers the kernel was assumed to give.
\<close>

datatype fault = OutOfBounds | SignedOverflow | BadSize | NullDeref | UseAfterFree | BadFree | AssertFailed | Exhausted

type_synonym byte = "8 word"
type_synonym 'a res = "fault + 'a"

definition rbind :: "'a res \<Rightarrow> ('a \<Rightarrow> 'b res) \<Rightarrow> 'b res" where
  "rbind m f = (case m of Inl e \<Rightarrow> Inl e | Inr x \<Rightarrow> f x)"

lemma rbind_simps [simp]:
  "rbind (Inl e) f = Inl e"
  "rbind (Inr x) f = f x"
  by (simp_all add: rbind_def)

lemma rbind_Inr_iff: "rbind m f = Inr y \<longleftrightarrow> (\<exists>x. m = Inr x \<and> f x = Inr y)"
  by (cases m) auto

lemma rbind_InrE:
  assumes "rbind m f = Inr y"
  obtains x where "m = Inr x" and "f x = Inr y"
  using assms by (auto simp: rbind_Inr_iff)

lemma rbind_assoc: "rbind (rbind m f) h = rbind m (\<lambda>x. rbind (f x) h)"
  by (cases m) simp_all

lemma rbind_cong [fundef_cong]:
  "m = m' \<Longrightarrow> (\<And>x. m' = Inr x \<Longrightarrow> f x = f' x) \<Longrightarrow> rbind m f = rbind m' f'"
  by (cases m') auto

definition ok :: "'a res \<Rightarrow> bool" where
  "ok r = (case r of Inl _ \<Rightarrow> False | Inr _ \<Rightarrow> True)"

lemma ok_simps [simp]: "ok (Inr x)" "\<not> ok (Inl e)"
  by (simp_all add: ok_def)

section \<open>Predicates on results\<close>

text \<open>\<open>sat P r\<close>: a result that is no fault has \<open>P\<close>; the rules follow a function of the model step by step.\<close>

definition sat :: "('a \<Rightarrow> bool) \<Rightarrow> 'a res \<Rightarrow> bool" where
  "sat P r \<longleftrightarrow> (\<forall>x. r = Inr x \<longrightarrow> P x)"

lemma sat_simps [simp]: "sat P (Inr x) = P x" "sat P (Inl e)"
  by (simp_all add: sat_def)

lemma satD: "sat P r \<Longrightarrow> r = Inr x \<Longrightarrow> P x"
  by (simp add: sat_def)

lemma sat_bind: "sat Q m \<Longrightarrow> (\<And>x. Q x \<Longrightarrow> sat P (f x)) \<Longrightarrow> sat P (rbind m f)"
  by (cases m) auto

lemma sat_bind_any: "(\<And>x. m = Inr x \<Longrightarrow> sat P (f x)) \<Longrightarrow> sat P (rbind m f)"
  by (cases m) auto

lemma sat_mono: "sat Q r \<Longrightarrow> (\<And>x. Q x \<Longrightarrow> P x) \<Longrightarrow> sat P r"
  by (simp add: sat_def)

lemma sat_if: "(b \<Longrightarrow> sat P x) \<Longrightarrow> (\<not> b \<Longrightarrow> sat P y) \<Longrightarrow> sat P (if b then x else y)"
  by simp

lemma sat_prod: "(\<And>a b. r = (a, b) \<Longrightarrow> sat P (f a b)) \<Longrightarrow> sat P (case r of (a, b) \<Rightarrow> f a b)"
  by (cases r) simp

lemma sat_option: "(r = None \<Longrightarrow> sat P x) \<Longrightarrow> (\<And>a. r = Some a \<Longrightarrow> sat P (f a)) \<Longrightarrow>
    sat P (case r of None \<Rightarrow> x | Some a \<Rightarrow> f a)"
  by (cases r) simp_all

lemma sat_let: "(\<And>x. x = t \<Longrightarrow> sat P (f x)) \<Longrightarrow> sat P (let x = t in f x)"
  by simp

lemmas sat_split = sat_if sat_prod sat_option sat_let

text \<open>For results found by evaluation.\<close>

lemma evaluated: "(case m of Inl e \<Rightarrow> False | Inr (r, p) \<Rightarrow> Q r p) \<Longrightarrow> \<exists>r p. m = Inr (r, p) \<and> Q r p"
  by (cases m) auto

section \<open>The C type int\<close>

abbreviation INT_MAX :: int where "INT_MAX \<equiv> 2147483647"
abbreviation INT_MIN :: int where "INT_MIN \<equiv> -2147483648"

definition is_cint :: "int \<Rightarrow> bool" where
  "is_cint i \<longleftrightarrow> INT_MIN \<le> i \<and> i \<le> INT_MAX"

definition cint :: "int \<Rightarrow> int res" where
  "cint i = (if is_cint i then Inr i else Inl SignedOverflow)"

lemma cint_ok [simp]: "is_cint i \<Longrightarrow> cint i = Inr i"
  by (simp add: cint_def)

lemma cint_Inr_iff: "cint i = Inr j \<longleftrightarrow> is_cint i \<and> j = i"
  by (auto simp: cint_def)

text \<open>Reading the low 32 bits of a number as a two's complement \<open>int\<close>.\<close>

definition s32 :: "int \<Rightarrow> int" where
  "s32 u = (if u < 2147483648 then u else u - 4294967296)"

lemma s32_mod: "is_cint i \<Longrightarrow> s32 (i mod 4294967296) = i"
proof (cases "0 \<le> i")
  case True
  moreover assume "is_cint i"
  ultimately show ?thesis by (simp add: s32_def is_cint_def)
next
  case False
  moreover assume "is_cint i"
  ultimately have i: "- 2147483648 \<le> i" "i < 0" by (simp_all add: is_cint_def)
  have "i mod 4294967296 = (i + 4294967296) mod 4294967296" by simp
  also have "\<dots> = i + 4294967296" by (rule mod_pos_pos_trivial) (use i in auto)
  finally show ?thesis using i by (simp add: s32_def)
qed

section \<open>Memory\<close>

text \<open>
  A mapping or buffer is the list of its bytes; an address is an offset into it. An access
  that is not inside the buffer is a fault, and never a wrong value.
\<close>

definition load :: "byte list \<Rightarrow> int \<Rightarrow> int \<Rightarrow> byte list res" where
  "load m a n =
     (if 0 \<le> a \<and> 0 \<le> n \<and> a + n \<le> int (length m)
      then Inr (take (nat n) (drop (nat a) m)) else Inl OutOfBounds)"

definition store :: "byte list \<Rightarrow> int \<Rightarrow> byte list \<Rightarrow> byte list res" where
  "store m a bs =
     (if 0 \<le> a \<and> a + int (length bs) \<le> int (length m)
      then Inr (take (nat a) m @ bs @ drop (nat a + length bs) m) else Inl OutOfBounds)"

text \<open>
  \<open>memcpy(dst, src, n)\<close> out of a source of which \<open>src\<close> lists the readable bytes. A
  negative \<open>n\<close> is converted to a huge \<open>size_t\<close>, which no buffer holds.
\<close>

definition memcpy_src :: "byte list \<Rightarrow> int \<Rightarrow> byte list res" where
  "memcpy_src src n =
     (if n < 0 then Inl BadSize
      else if n \<le> int (length src) then Inr (take (nat n) src) else Inl OutOfBounds)"

lemma length_store: "store m a bs = Inr m' \<Longrightarrow> length m' = length m"
  by (auto simp: store_def split: if_splits)

lemma store_Inr: "0 \<le> a \<Longrightarrow> a + int (length bs) \<le> int (length m) \<Longrightarrow> \<exists>m'. store m a bs = Inr m'"
  by (simp add: store_def)

lemma load_Inr_length: "load m a n = Inr bs \<Longrightarrow> int (length bs) = n"
  by (auto simp: load_def split: if_splits)

lemma load_store_same:
  "store m a bs = Inr m' \<Longrightarrow> load m' a (int (length bs)) = Inr bs"
  by (auto simp: store_def load_def split: if_splits)

lemma store_again: "store m a bs = Inr m' \<Longrightarrow> store m' a bs = Inr m'"
  by (auto simp: store_def split: if_splits)

lemma load_store_disjoint:
  assumes "store m p bs = Inr m'" and "a + n \<le> p \<or> p + int (length bs) \<le> a"
  shows "load m' a n = load m a n"
proof (cases "0 \<le> a \<and> 0 \<le> n \<and> a + n \<le> int (length m)")
  case True
  have m': "m' = take (nat p) m @ bs @ drop (nat p + length bs) m"
    and p: "0 \<le> p" "p + int (length bs) \<le> int (length m)"
    using assms(1) by (auto simp: store_def split: if_splits)
  from assms(2) have "take (nat n) (drop (nat a) m') = take (nat n) (drop (nat a) m)"
  proof
    assume "a + n \<le> p"
    then have "nat a + nat n \<le> nat p" "nat p \<le> length m" using True p by auto
    then show ?thesis by (intro nth_equalityI) (auto simp: m' nth_append)
  next
    assume "p + int (length bs) \<le> a"
    then have "nat p + length bs \<le> nat a" "nat p \<le> length m" using True p by auto
    then show ?thesis by (simp add: m' min_def)
  qed
  then show ?thesis using length_store[OF assms(1)] by (simp add: load_def)
next
  case False
  then show ?thesis using length_store[OF assms(1)] by (auto simp: load_def)
qed

lemma load_sub:
  assumes "load m a n = Inr bs" and "0 \<le> i" and "0 \<le> k" and "i + k \<le> n"
  shows "load m (a + i) k = Inr (take (nat k) (drop (nat i) bs))"
proof -
  have a: "0 \<le> a" "0 \<le> n" "a + n \<le> int (length m)" and bs: "bs = take (nat n) (drop (nat a) m)"
    using assms(1) by (auto simp: load_def split: if_splits)
  have "nat (a + i) = nat i + nat a" "nat k \<le> nat n - nat i" using assms a by auto
  then show ?thesis using assms a by (simp add: load_def bs drop_take min_def)
qed

section \<open>Little-endian integers\<close>

text \<open>\<open>le_bytes n i\<close> is the integer \<open>i\<close> in \<open>n\<close> bytes, the low byte first; \<open>le_val\<close> reads it.\<close>

fun le_bytes :: "nat \<Rightarrow> int \<Rightarrow> byte list" where
  "le_bytes 0 i = []"
| "le_bytes (Suc n) i = word_of_int i # le_bytes n (i div 256)"

fun le_val :: "byte list \<Rightarrow> int" where
  "le_val [] = 0"
| "le_val (b # bs) = uint b + 256 * le_val bs"

lemma length_le_bytes [simp]: "length (le_bytes n i) = n"
  by (induction n arbitrary: i) auto

lemma uint_byte: "uint (word_of_int i :: byte) = i mod 256"
  by (simp add: uint_word_of_int)

lemma uint_byte_lt [simp]: "uint (b :: byte) < 256"
  using uint_bounded[of b] by simp

lemma le_val_bytes: "le_val (le_bytes n i) = i mod 256 ^ n"
proof (induction n arbitrary: i)
  case 0
  then show ?case by simp
next
  case (Suc n)
  have "i mod (256 * 256 ^ n) = 256 * (i div 256 mod 256 ^ n) + i mod 256"
    by (simp add: zmod_zmult2_eq)
  then show ?case using Suc by (simp add: uint_byte)
qed

lemma le_bytes_val: "le_bytes (length bs) (le_val bs) = bs"
proof (induction bs)
  case (Cons b bs)
  have "(word_of_int (uint b + 256 * le_val bs) :: byte) = b"
    by (rule word_uint_eqI) (simp only: uint_byte, simp)
  moreover have "(uint b + 256 * le_val bs) div 256 = le_val bs"
    by (simp add: div_add1_eq div_pos_pos_trivial uint_byte_lt)
  ultimately show ?case using Cons by simp
qed simp

lemma le_val_nonneg: "0 \<le> le_val bs"
  by (induction bs) auto

lemma le_val_less: "le_val bs < 256 ^ length bs"
proof -
  have "le_val bs = le_val bs mod 256 ^ length bs" using le_val_bytes[of "length bs" "le_val bs"] by (simp add: le_bytes_val)
  also have "\<dots> < 256 ^ length bs" by simp
  finally show ?thesis .
qed

definition le32 :: "int \<Rightarrow> byte list" where
  "le32 i = le_bytes 4 i"

definition get32 :: "byte list \<Rightarrow> int" where
  "get32 bs = s32 (le_val bs)"

lemma length_le32 [simp]: "length (le32 i) = 4"
  by (simp add: le32_def)

lemma get32_le32 [simp]: "is_cint i \<Longrightarrow> get32 (le32 i) = i"
  by (simp add: get32_def le32_def le_val_bytes s32_mod)

lemma get32_cint: "length bs = 4 \<Longrightarrow> is_cint (get32 bs)"
  using le_val_less[of bs] le_val_nonneg[of bs] by (auto simp: get32_def s32_def is_cint_def)

end
