(* ===== verification/Mem_Queue.thy ===== *)
theory Mem_Queue
  imports Prelude
begin

text \<open>
  The shared-memory queue of \<^verbatim>\<open>mem_queue.c\<close> / \<^verbatim>\<open>mem_queue.h\<close>: variable-length blocks in a ring
  of bytes, one producer and one consumer. The queue header \<open>mem_head_t\<close> (three \<open>int\<close>s in the
  first 12 bytes of the mapping) is kept decoded in the fields \<open>mq_head\<close>, \<open>mq_tail\<close> and
  \<open>mq_blk_cnt\<close>; the blocks are bytes of \<open>mq_shm\<close>, at the offsets the code uses. That the block
  writes never touch the header's 12 bytes is proved (\<open>mq_push_keeps_header_bytes\<close>), so keeping
  the two apart is exact. \<open>mq_notes\<close> counts the one-byte writes to the notification pipe.
\<close>

section \<open>Data\<close>

datatype mem_block_type = BLK_DATA | BLK_ALIGN | BLK_CLOSE | BLK_OPEN

fun blk_code :: "mem_block_type \<Rightarrow> byte" where
  "blk_code BLK_DATA = 0"
| "blk_code BLK_ALIGN = 1"
| "blk_code BLK_CLOSE = 2"
| "blk_code BLK_OPEN = 3"

datatype mem_type = MEM_TYPE_RECV | MEM_TYPE_SEND

text \<open>The header of a block (\<open>mem_block_t\<close> without its flexible array \<open>data\<close>), 13 packed bytes.\<close>

record mem_block =
  blk_id :: int
  blk_fd :: int
  blk_type :: byte
  blk_len :: int

definition blk_head_len :: int where "blk_head_len = 13"
definition mem_head_len :: int where "mem_head_len = 12"

definition enc_head :: "mem_block \<Rightarrow> byte list" where
  "enc_head b = le32 (blk_id b) @ le32 (blk_fd b) @ [blk_type b] @ le32 (blk_len b)"

definition dec_head :: "byte list \<Rightarrow> mem_block" where
  "dec_head bs = \<lparr>blk_id = get32 (take 4 bs), blk_fd = get32 (take 4 (drop 4 bs)),
                  blk_type = hd (drop 8 bs), blk_len = get32 (take 4 (drop 9 bs))\<rparr>"

record mem_queue =
  mq_head :: int
  mq_tail :: int
  mq_blk_cnt :: int
  mq_shm :: "byte list"
  mq_len :: int
  mq_pipefd :: "int \<times> int"
  mq_nonblock :: bool
  mq_type :: mem_type
  mq_notes :: nat

section \<open>Operations\<close>

text \<open>Reading \<open>q->ptr->head\<close> and its neighbours touches the first 12 bytes of the mapping.\<close>

definition mapped :: "mem_queue \<Rightarrow> bool" where
  "mapped q \<longleftrightarrow> mem_head_len \<le> int (length (mq_shm q))"

text \<open>
  \<open>pfd\<close> are the two descriptors \<open>pipe\<close> returns and \<open>mmap_ok\<close> says whether \<open>mmap\<close> succeeds; an
  anonymous mapping is zero-filled, hence \<open>blk_cnt = 0\<close>.
\<close>

definition mq_init :: "mem_queue \<Rightarrow> int \<Rightarrow> mem_type \<Rightarrow> int \<times> int \<Rightarrow> bool \<Rightarrow> (int \<times> mem_queue) res" where
  "mq_init q sz typ pfd mmap_ok =
     (let q1 = q\<lparr>mq_len := sz, mq_type := typ, mq_pipefd := pfd, mq_nonblock := True, mq_notes := 0\<rparr>
      in if \<not> mmap_ok then Inr (- 1, q1\<lparr>mq_shm := []\<rparr>)
         else if sz < mem_head_len then Inl OutOfBounds
         else Inr (0, q1\<lparr>mq_shm := replicate (nat sz) 0, mq_head := mem_head_len,
                         mq_tail := mem_head_len, mq_blk_cnt := 0\<rparr>))"

text \<open>
  \<open>munmap\<close> removes the page of the queue's header (it fails for a size of 0): afterwards every
  access faults. The pipe stays open.
\<close>

definition mq_fini :: "mem_queue \<Rightarrow> int \<Rightarrow> int \<times> mem_queue" where
  "mq_fini q sz = (0, if 0 < sz then q\<lparr>mq_shm := []\<rparr> else q)"

text \<open>\<open>blk_head\<close> and \<open>blk_tail\<close> are the offsets \<open>mq_head\<close> and \<open>mq_tail\<close>; a block there is read by\<close>

definition read_head :: "mem_queue \<Rightarrow> int \<Rightarrow> mem_block res" where
  "read_head q a = rbind (load (mq_shm q) a blk_head_len) (\<lambda>bs. Inr (dec_head bs))"

definition read_data :: "mem_queue \<Rightarrow> int \<Rightarrow> int \<Rightarrow> byte list res" where
  "read_data q a n = load (mq_shm q) (a + blk_head_len) n"

definition read_msg :: "mem_queue \<Rightarrow> int \<Rightarrow> (mem_block \<times> byte list) res" where
  "read_msg q a =
     rbind (read_head q a) (\<lambda>b. rbind (read_data q a (blk_len b - blk_head_len)) (\<lambda>d. Inr (b, d)))"

text \<open>
  \<open>mq_get\<close>. The jump \<open>goto get_again\<close> is the recursive call; the result is the offset of the
  block at the tail, or \<open>None\<close> for the null pointer. Two rounds are enough
  (\<open>mq_get_loop_fuel\<close>): after one jump the tail is at \<open>mem_head_len\<close> and a further one changes nothing.
\<close>

fun mq_get_loop :: "nat \<Rightarrow> mem_queue \<Rightarrow> (int option \<times> mem_queue) res" where
  "mq_get_loop 0 q = Inl Exhausted"
| "mq_get_loop (Suc n) q =
     (if mq_tail q < mq_head q then
        rbind (cint (mq_tail q + blk_head_len)) (\<lambda>t.
        if t \<le> mq_head q then Inr (Some (mq_tail q), q) else Inr (None, q))
      else if mq_head q < mq_tail q then
        rbind (cint (mq_tail q + blk_head_len)) (\<lambda>t.
        if mq_len q < t then mq_get_loop n (q\<lparr>mq_tail := mem_head_len\<rparr>)
        else rbind (load (mq_shm q) (mq_tail q + 8) 1) (\<lambda>ty.
          if ty = [blk_code BLK_ALIGN] then mq_get_loop n (q\<lparr>mq_tail := mem_head_len\<rparr>)
          else Inr (Some (mq_tail q), q)))
      else Inr (None, q))"

definition mq_get :: "mem_queue \<Rightarrow> (int option \<times> mem_queue) res" where
  "mq_get q = (if mapped q then mq_get_loop 2 q else Inl OutOfBounds)"

text \<open>The two \<open>memcpy\<close>s of \<open>mq_push\<close> with the header update and the notification.\<close>

definition write_blk :: "mem_queue \<Rightarrow> mem_block \<Rightarrow> byte list \<Rightarrow> mem_queue res" where
  "write_blk q b data =
     rbind (store (mq_shm q) (mq_head q) (enc_head b)) (\<lambda>m1.
     rbind (memcpy_src data (blk_len b - blk_head_len)) (\<lambda>d.
     rbind (store m1 (mq_head q + blk_head_len) d) (\<lambda>m2.
     rbind (cint (mq_head q + blk_len b)) (\<lambda>h.
     rbind (cint (mq_blk_cnt q + 1)) (\<lambda>c.
       Inr (q\<lparr>mq_shm := m2, mq_head := h, mq_blk_cnt := c, mq_notes := Suc (mq_notes q)\<rparr>))))))"

text \<open>The fill block at the head: only \<open>type\<close> and \<open>len\<close> (offsets 8 to 12) are written.\<close>

definition mark_align :: "mem_queue \<Rightarrow> mem_queue res" where
  "mark_align q =
     rbind (cint (mq_head q + blk_head_len)) (\<lambda>h.
     if h \<le> mq_len q then
       rbind (store (mq_shm q) (mq_head q + 8) (blk_code BLK_ALIGN # le32 (mq_len q - mq_head q)))
         (\<lambda>m. Inr (q\<lparr>mq_shm := m\<rparr>))
     else Inr q)"

text \<open>
  \<open>mq_push\<close> with its jump \<open>goto push_again\<close>, when no step of the other process falls into the
  call: each of the code's tests of \<open>head\<close> against \<open>tail\<close> is a test here. The two fields are
  volatile and the second test reads them again. What the other process can do between two
  accesses is in \<open>Mem_Queue_Fine\<close>, where every access is a step of its own and the steps of one call
  taken in a row are shown to be this function.
\<close>

fun mq_push_loop :: "nat \<Rightarrow> mem_queue \<Rightarrow> mem_block \<Rightarrow> byte list \<Rightarrow> (int \<times> mem_queue) res" where
  "mq_push_loop 0 q b data = Inl Exhausted"
| "mq_push_loop (Suc n) q b data =
     (if mq_tail q \<le> mq_head q then
        rbind (cint (mq_head q + blk_len b)) (\<lambda>e.
        if mq_len q \<le> e then
          rbind (mark_align q) (\<lambda>q1.
          if mem_head_len = mq_tail q1 then Inr (- 1, q1)
          else mq_push_loop n (q1\<lparr>mq_head := mem_head_len\<rparr>) b data)
        else rbind (write_blk q b data) (\<lambda>q1. Inr (0, q1)))
      else if mq_head q < mq_tail q then
        rbind (cint (mq_head q + blk_len b)) (\<lambda>e.
        if mq_tail q \<le> e then Inr (- 1, q)
        else rbind (write_blk q b data) (\<lambda>q1. Inr (0, q1)))
      else Inr (0, q))"

definition mq_push :: "mem_queue \<Rightarrow> mem_block \<Rightarrow> byte list \<Rightarrow> (int \<times> mem_queue) res" where
  "mq_push q b data = (if mapped q then mq_push_loop 2 q b data else Inl OutOfBounds)"

definition mq_pop :: "mem_queue \<Rightarrow> mem_queue res" where
  "mq_pop q =
     (if mapped q then
        rbind (load (mq_shm q) (mq_tail q + 9) 4) (\<lambda>l.
        rbind (cint (mq_tail q + get32 l)) (\<lambda>t.
        rbind (cint (mq_blk_cnt q - 1)) (\<lambda>c.
          Inr (q\<lparr>mq_tail := t, mq_blk_cnt := c\<rparr>))))
      else Inl OutOfBounds)"

section \<open>The codec of a block header\<close>

definition cint_head :: "mem_block \<Rightarrow> bool" where
  "cint_head b \<longleftrightarrow> is_cint (blk_id b) \<and> is_cint (blk_fd b) \<and> is_cint (blk_len b)"

lemma length_enc_head [simp]: "length (enc_head b) = 13"
  by (simp add: enc_head_def)

lemma dec_enc_head: "cint_head b \<Longrightarrow> dec_head (enc_head b) = b"
  by (simp add: dec_head_def enc_head_def cint_head_def)

lemma enc_head_type: "take (Suc 0) (drop 8 (enc_head b)) = [blk_type b]"
  by (simp add: enc_head_def)

lemma enc_head_len: "take 4 (drop 9 (enc_head b)) = le32 (blk_len b)"
  by (simp add: enc_head_def)

section \<open>The loops stop after two rounds\<close>

text \<open>In a call that nothing interrupts the last branch is never taken.\<close>

lemma mq_push_round:
  "mq_push_loop (Suc n) q b data =
     rbind (cint (mq_head q + blk_len b)) (\<lambda>e.
     if mq_tail q \<le> mq_head q then
       if mq_len q \<le> e then
         rbind (mark_align q) (\<lambda>q1.
         if mem_head_len = mq_tail q1 then Inr (- 1, q1)
         else mq_push_loop n (q1\<lparr>mq_head := mem_head_len\<rparr>) b data)
       else rbind (write_blk q b data) (\<lambda>q1. Inr (0, q1))
     else if mq_tail q \<le> e then Inr (- 1, q)
     else rbind (write_blk q b data) (\<lambda>q1. Inr (0, q1)))"
  by (cases "mq_tail q \<le> mq_head q") (simp_all add: mq_push_loop.simps(2))

lemma mq_tail_same: "mq_tail q = a \<Longrightarrow> q\<lparr>mq_tail := a\<rparr> = q"
  by (cases q) simp

lemma mq_head_same: "mq_head q = a \<Longrightarrow> q\<lparr>mq_head := a\<rparr> = q"
  by (cases q) simp

lemma mq_get_loop_at_start:
  assumes "mq_tail q = mem_head_len"
  shows "mq_get_loop (Suc n) q = mq_get_loop (Suc 0) q"
proof -
  define body where "body k =
     (if mq_tail q < mq_head q then
        rbind (cint (mq_tail q + blk_head_len)) (\<lambda>t.
        if t \<le> mq_head q then Inr (Some (mq_tail q), q) else Inr (None, q))
      else if mq_head q < mq_tail q then
        rbind (cint (mq_tail q + blk_head_len)) (\<lambda>t.
        if mq_len q < t then k
        else rbind (load (mq_shm q) (mq_tail q + 8) 1) (\<lambda>ty.
          if ty = [blk_code BLK_ALIGN] then k else Inr (Some (mq_tail q), q)))
      else Inr (None, q))" for k
  have body: "mq_get_loop (Suc n) q = body (mq_get_loop n q)" for n
    by (simp add: body_def mq_tail_same[OF assms] cong: if_cong)
  have idem: "body (body k) = body k" for k
    by (auto simp: body_def rbind_def split: sum.splits)
  show ?thesis
    by (induction n) (simp_all only: body idem)
qed

lemma mq_get_loop_fuel: "mq_get_loop (Suc (Suc n)) q = mq_get_loop 2 q"
proof -
  have "mq_get_loop (Suc n) (q\<lparr>mq_tail := mem_head_len\<rparr>)
          = mq_get_loop (Suc 0) (q\<lparr>mq_tail := mem_head_len\<rparr>)"
    by (rule mq_get_loop_at_start) simp
  then show ?thesis
    by (simp only: numeral_2_eq_2 mq_get_loop.simps(2)[of "Suc n" q]
        mq_get_loop.simps(2)[of "Suc 0" q])
qed

lemma mark_align_again: "mark_align q = Inr q1 \<Longrightarrow> mark_align q1 = Inr q1"
  by (auto simp: mark_align_def rbind_Inr_iff cint_Inr_iff store_again split: if_splits)

lemma mark_align_frame:
  assumes "mark_align q = Inr q1"
  shows "mq_head q1 = mq_head q" "mq_tail q1 = mq_tail q" "mq_len q1 = mq_len q"
    "mq_blk_cnt q1 = mq_blk_cnt q" "mq_notes q1 = mq_notes q"
    "length (mq_shm q1) = length (mq_shm q)"
  using assms
  by (auto simp: mark_align_def rbind_Inr_iff cint_Inr_iff length_store split: if_splits)

lemma mq_push_loop_stuck:
  assumes "mq_head q = mem_head_len" and "mq_tail q < mem_head_len"
    and "mark_align q = Inr q" and "cint (mq_head q + blk_len b) = Inr e" and "mq_len q \<le> e"
  shows "mq_push_loop n q b d = Inl Exhausted"
  using assms by (induction n) (simp_all add: mq_head_same)

lemma mq_push_loop_at_start:
  assumes h: "mq_head q = mem_head_len" and t: "mq_tail q \<noteq> mem_head_len"
  shows "mq_push_loop (Suc n) q b d = mq_push_loop (Suc 0) q b d"
proof (cases "cint (mq_head q + blk_len b)")
  case (Inr e)
  show ?thesis
  proof (cases "mq_tail q \<le> mq_head q \<and> mq_len q \<le> e")
    case True
    show ?thesis
    proof (cases "mark_align q")
      case (Inr q1)
      note f = mark_align_frame[OF Inr] mark_align_again[OF Inr]
      have "mq_push_loop n q1 b d = Inl Exhausted" for n
        by (rule mq_push_loop_stuck[where e = e])
          (use f h t True \<open>cint (mq_head q + blk_len b) = Inr e\<close> in auto)
      then show ?thesis using f h t True Inr \<open>cint (mq_head q + blk_len b) = Inr e\<close>
        by (simp add: mq_head_same)
    qed (use True Inr in simp)
  qed (use Inr in auto)
qed simp

lemma mq_push_loop_fuel: "mq_push_loop (Suc (Suc n)) q b d = mq_push_loop 2 q b d"
proof -
  have e: "(if mem_head_len = mq_tail q1 then Inr (- 1, q1)
       else mq_push_loop (Suc n) (q1\<lparr>mq_head := mem_head_len\<rparr>) b d) =
      (if mem_head_len = mq_tail q1 then Inr (- 1, q1)
       else mq_push_loop (Suc 0) (q1\<lparr>mq_head := mem_head_len\<rparr>) b d)" for q1
    using mq_push_loop_at_start[of "q1\<lparr>mq_head := mem_head_len\<rparr>" n b d]
    by (simp del: mq_push_loop.simps)
  show ?thesis
    by (simp only: numeral_2_eq_2 mq_push_loop.simps(2)[of "Suc n" q]
        mq_push_loop.simps(2)[of "Suc 0" q] e)
qed

text \<open>From here on the two loops are unfolded by hand, one round at a time.\<close>

declare mq_get_loop.simps(2) [simp del] mq_push_loop.simps(2) [simp del]

lemmas mq_get_round = mq_get_loop.simps(2)

section \<open>The data of a push\<close>

lemma memcpy_src_take: "n \<le> int (length d) \<Longrightarrow> memcpy_src d n = memcpy_src (take (nat n) d) n"
  by (auto simp: memcpy_src_def)

lemma mq_push_loop_data:
  assumes "\<And>q. write_blk q b d = write_blk q b d'"
  shows "mq_push_loop n q b d = mq_push_loop n q b d'"
proof (induction n arbitrary: q)
  case (Suc n)
  show ?case by (simp only: mq_push_loop.simps Suc.IH assms)
qed simp

text \<open>Only the first \<open>len - 13\<close> bytes at the data pointer matter.\<close>

lemma mq_push_take:
  assumes "blk_len b - blk_head_len \<le> int (length d)"
  shows "mq_push q b d = mq_push q b (take (nat (blk_len b - blk_head_len)) d)"
proof -
  define d' where "d' = take (nat (blk_len b - blk_head_len)) d"
  have "write_blk q b d = write_blk q b d'" for q
    using memcpy_src_take[OF assms] by (simp add: write_blk_def d'_def)
  then show ?thesis unfolding d'_def[symmetric] mq_push_def by (simp add: mq_push_loop_data[of b d d'])
qed

end
