(* ===== verification/Mem_Queue_Fifo.thy ===== *)
theory Mem_Queue_Fifo
  imports Mem_Queue
begin

text \<open>
  What \<^verbatim>\<open>mem_queue.c\<close> promises: a bounded FIFO of messages. \<open>chain m a xs e\<close> says that the bytes
  from \<open>a\<close> up to \<open>e\<close> are exactly the blocks \<open>xs\<close>; \<open>mq_rel q xs\<close> relates a queue state to the list
  of the messages it holds, with the two shapes a ring can have (unwrapped, and wrapped with an
  end mark); \<open>mq_front q x xs\<close> adds that the tail stands on the block of \<open>x\<close>, as it does between
  \<open>mq_get\<close> and \<open>mq_pop\<close>. The locale \<open>block_queue\<close> is the contract the master and the workers use.
\<close>

section \<open>The contract of a block queue\<close>

type_synonym msg = "mem_block \<times> byte list"

locale block_queue =
  fixes push :: "'q \<Rightarrow> 'm \<Rightarrow> (int \<times> 'q) res"
    and get :: "'q \<Rightarrow> ('a option \<times> 'q) res"
    and pop :: "'q \<Rightarrow> 'q res"
    and rel :: "'q \<Rightarrow> 'm list \<Rightarrow> bool"
    and front :: "'q \<Rightarrow> 'm \<Rightarrow> 'm list \<Rightarrow> bool"
    and valid :: "'m \<Rightarrow> bool"
    and at :: "'q \<Rightarrow> 'a \<Rightarrow> 'm \<Rightarrow> bool"
  assumes push_rel: "rel q xs \<Longrightarrow> valid m \<Longrightarrow>
      \<exists>r q'. push q m = Inr (r, q') \<and> (r = 0 \<and> rel q' (xs @ [m]) \<or> r = - 1 \<and> rel q' xs)"
    and push_front: "front q x xs \<Longrightarrow> valid m \<Longrightarrow> push q m = Inr (r, q') \<Longrightarrow>
      front q' x (xs @ (if r = 0 then [m] else []))"
    and get_nil: "rel q [] \<Longrightarrow> \<exists>q'. get q = Inr (None, q') \<and> rel q' []"
    and get_cons: "rel q (x # xs) \<Longrightarrow> \<exists>a q'. get q = Inr (Some a, q') \<and> front q' x xs \<and> at q' a x"
    and front_rel: "front q x xs \<Longrightarrow> rel q (x # xs)"
    and pop_front: "front q x xs \<Longrightarrow> \<exists>q'. pop q = Inr q' \<and> rel q' xs"
    and at_unique: "at q a x \<Longrightarrow> at q a y \<Longrightarrow> x = y"
    and push_at: "front q x xs \<Longrightarrow> at q a x \<Longrightarrow> valid m \<Longrightarrow> push q m = Inr (r, q') \<Longrightarrow> at q' a x"
begin

lemma get_some_front:
  assumes "rel q xs" and "get q = Inr (Some a, q')" and "at q' a x"
  obtains ys where "xs = x # ys" and "front q' x ys"
proof (cases xs)
  case Nil
  then show ?thesis using get_nil[of q] assms by auto
next
  case (Cons y ys)
  then have "front q' y ys" "at q' a y" using get_cons[of q y ys] assms by auto
  then show ?thesis using that Cons at_unique assms(3) by blast
qed

text \<open>The abstraction is a function: a queue state stands for one list of messages only.\<close>

lemma rel_unique: "rel q xs \<Longrightarrow> rel q ys \<Longrightarrow> xs = ys"
proof (induction xs arbitrary: q ys)
  case Nil
  then show ?case using get_nil[of q] get_cons[of q "hd ys" "tl ys"] by (cases ys) auto
next
  case (Cons x xs)
  obtain a q' where g: "get q = Inr (Some a, q')" "front q' x xs" "at q' a x"
    using get_cons[OF Cons.prems(1)] by blast
  then obtain zs where z: "ys = x # zs" "front q' x zs"
    using get_some_front[OF Cons.prems(2) g(1,3)] by blast
  then show ?case using pop_front[OF g(2)] pop_front[OF z(2)] Cons.IH by auto
qed

lemma get_none_rel: "rel q xs \<Longrightarrow> get q = Inr (None, q') \<Longrightarrow> xs = [] \<and> rel q' []"
  using get_nil[of q] get_cons[of q "hd xs" "tl xs"] by (cases xs) auto

text \<open>
  A consumer is idle (\<open>None\<close>) or holds the block it got and has not popped yet (\<open>Some a\<close>). Whatever
  the two sides do, in any order, what was accepted is what was popped followed by what is in the
  queue, and the held block stays the next message while the producer goes on pushing.
\<close>

definition holds :: "'q \<Rightarrow> 'a option \<Rightarrow> 'm list \<Rightarrow> 'm list \<Rightarrow> bool" where
  "holds q h acc del \<longleftrightarrow> (case h of
     None \<Rightarrow> \<exists>pend. acc = del @ pend \<and> rel q pend
   | Some a \<Rightarrow> \<exists>x pend. acc = del @ x # pend \<and> front q x pend \<and> at q a x)"

lemma holds_push:
  assumes "holds q h acc del" and v: "valid m" and p: "push q m = Inr (r, q')"
  shows "holds q' h (acc @ (if r = 0 then [m] else [])) del"
proof (cases h)
  case None
  then obtain pend where "acc = del @ pend" "rel q pend" using assms(1) by (auto simp: holds_def)
  then show ?thesis using None push_rel[OF \<open>rel q pend\<close> v] p by (auto simp: holds_def)
next
  case (Some a)
  then obtain x pend where x: "acc = del @ x # pend" "front q x pend" "at q a x"
    using assms(1) by (auto simp: holds_def)
  then show ?thesis using Some push_front[OF x(2) v p] push_at[OF x(2,3) v p]
    by (auto simp: holds_def)
qed

lemma holds_get_none:
  "holds q None acc del \<Longrightarrow> get q = Inr (None, q') \<Longrightarrow> holds q' None acc del"
  using get_none_rel by (auto simp: holds_def)

lemma holds_get_some:
  assumes "holds q None acc del" and "get q = Inr (Some a, q')" shows "holds q' (Some a) acc del"
proof -
  obtain pend where p: "acc = del @ pend" "rel q pend" using assms(1) by (auto simp: holds_def)
  then obtain x ys where "pend = x # ys" using get_nil[of q] assms(2) by (cases pend) auto
  then show ?thesis using get_cons[of q x ys] p assms(2) by (auto simp: holds_def)
qed

lemma holds_pop:
  "holds q (Some a) acc del \<Longrightarrow> at q a x \<Longrightarrow> pop q = Inr q' \<Longrightarrow> holds q' None acc (del @ [x])"
  using pop_front[of q] at_unique[of q a] by (fastforce simp: holds_def)

text \<open>No operation faults in such a state.\<close>

lemma holds_no_fault:
  assumes "holds q h acc del"
  shows "valid m \<Longrightarrow> ok (push q m)" "h = None \<Longrightarrow> ok (get q)" "h \<noteq> None \<Longrightarrow> ok (pop q)"
proof -
  have r: "\<exists>xs. rel q xs" using assms front_rel by (auto simp: holds_def split: option.splits)
  then show "valid m \<Longrightarrow> ok (push q m)" using push_rel by fastforce
  obtain xs where "rel q xs" using r ..
  then show "h = None \<Longrightarrow> ok (get q)" using get_nil[of q] get_cons[of q "hd xs" "tl xs"]
    by (cases xs) (auto simp: ok_def)
  show "h \<noteq> None \<Longrightarrow> ok (pop q)" using assms pop_front by (fastforce simp: holds_def)
qed

end

section \<open>Blocks in memory\<close>

definition MQ_MAX :: int where "MQ_MAX = 1073741823"

definition valid_msg :: "msg \<Rightarrow> bool" where
  "valid_msg x \<longleftrightarrow> (case x of (b, d) \<Rightarrow> cint_head b \<and> blk_type b \<noteq> blk_code BLK_ALIGN \<and>
     blk_len b = blk_head_len + int (length d) \<and> blk_len b \<le> MQ_MAX)"

fun chain :: "byte list \<Rightarrow> int \<Rightarrow> msg list \<Rightarrow> int \<Rightarrow> bool" where
  "chain m a [] e \<longleftrightarrow> a = e"
| "chain m a (x # xs) e \<longleftrightarrow> valid_msg x \<and> load m a blk_head_len = Inr (enc_head (fst x)) \<and>
     load m (a + blk_head_len) (int (length (snd x))) = Inr (snd x) \<and>
     chain m (a + blk_len (fst x)) xs e"

lemma valid_msg_len: "valid_msg x \<Longrightarrow> blk_len (fst x) = 13 + int (length (snd x))"
  by (cases x) (simp add: valid_msg_def blk_head_len_def)

lemma chain_append:
  "chain m a (xs @ ys) e \<longleftrightarrow> (\<exists>k. chain m a xs k \<and> chain m k ys e)"
  by (induction xs arbitrary: a) auto

lemma chain_extent: "chain m a xs e \<Longrightarrow> a + 13 * int (length xs) \<le> e"
proof (induction xs arbitrary: a)
  case (Cons x xs)
  then have "a + blk_len (fst x) + 13 * int (length xs) \<le> e" "valid_msg x" by auto
  then show ?case using valid_msg_len by auto
qed simp

lemma chain_frame:
  assumes "chain m a xs e" and "store m p bs = Inr m'" and "e \<le> p \<or> p + int (length bs) \<le> a"
  shows "chain m' a xs e"
  using assms(1,3)
proof (induction xs arbitrary: a)
  case (Cons x xs)
  note ext = chain_extent[of m "a + blk_len (fst x)" xs e]
  have c: "valid_msg x" "chain m (a + blk_len (fst x)) xs e" using Cons.prems by auto
  then have l: "a + blk_len (fst x) \<le> e" "blk_len (fst x) = 13 + int (length (snd x))"
    using ext valid_msg_len by auto
  have "load m' a blk_head_len = load m a blk_head_len"
    "load m' (a + blk_head_len) (int (length (snd x))) = load m (a + blk_head_len) (int (length (snd x)))"
    using Cons.prems(2) l by (auto intro!: load_store_disjoint[OF assms(2)] simp: blk_head_len_def)
  moreover have "chain m' (a + blk_len (fst x)) xs e"
    using Cons.IH[OF c(2)] Cons.prems(2) l by auto
  ultimately show ?case using Cons.prems(1) by simp
qed simp

section \<open>The queue as a list of messages\<close>

definition end_mark :: "mem_queue \<Rightarrow> int \<Rightarrow> bool" where
  "end_mark q e \<longleftrightarrow> mq_len q < e + blk_head_len \<or> load (mq_shm q) (e + 8) 1 = Inr [blk_code BLK_ALIGN]"

definition mq_wf :: "mem_queue \<Rightarrow> bool" where
  "mq_wf q \<longleftrightarrow> int (length (mq_shm q)) = mq_len q \<and> mq_len q \<le> MQ_MAX \<and>
     mem_head_len \<le> mq_head q \<and> mq_head q < mq_len q \<and>
     mem_head_len \<le> mq_tail q \<and> mq_tail q < mq_len q"

text \<open>Wrapped: the pending blocks run from the tail to an end mark, and on from the start.\<close>

definition wrapped :: "mem_queue \<Rightarrow> msg list \<Rightarrow> bool" where
  "wrapped q xs \<longleftrightarrow> mq_head q < mq_tail q \<and>
     (\<exists>xs1 xs2 e. xs = xs1 @ xs2 \<and> chain (mq_shm q) (mq_tail q) xs1 e \<and> e < mq_len q \<and>
        end_mark q e \<and> chain (mq_shm q) mem_head_len xs2 (mq_head q))"

definition unwrapped :: "mem_queue \<Rightarrow> msg list \<Rightarrow> bool" where
  "unwrapped q xs \<longleftrightarrow> mq_tail q \<le> mq_head q \<and> chain (mq_shm q) (mq_tail q) xs (mq_head q)"

definition mq_rel :: "mem_queue \<Rightarrow> msg list \<Rightarrow> bool" where
  "mq_rel q xs \<longleftrightarrow> mq_wf q \<and> mq_blk_cnt q = int (length xs) \<and> (unwrapped q xs \<or> wrapped q xs)"

definition mq_front :: "mem_queue \<Rightarrow> msg \<Rightarrow> msg list \<Rightarrow> bool" where
  "mq_front q x xs \<longleftrightarrow> mq_rel q (x # xs) \<and> (mq_head q < mq_tail q \<longrightarrow> \<not> end_mark q (mq_tail q))"

text \<open>The block at the tail, whose offset is \<open>a\<close>, reads back as the message \<open>x\<close>, header and data.\<close>

definition blk_is :: "mem_queue \<Rightarrow> int \<Rightarrow> msg \<Rightarrow> bool" where
  "blk_is q a x \<longleftrightarrow> a = mq_tail q \<and> read_msg q a = Inr x"

lemma mq_wf_mapped: "mq_wf q \<Longrightarrow> mapped q"
  by (auto simp: mq_wf_def mapped_def)

lemma mq_relD:
  assumes "mq_rel q xs"
  shows "mq_wf q" "mapped q" "mq_blk_cnt q = int (length xs)"
  using assms mq_wf_mapped by (auto simp: mq_rel_def)

text \<open>The count of blocks stays far below the range of \<open>int\<close>.\<close>

lemma mq_rel_count: assumes "mq_rel q xs" shows "13 * int (length xs) \<le> 2 * MQ_MAX"
proof -
  have wf: "mq_wf q" using assms by (rule mq_relD)
  from assms consider "unwrapped q xs" | "wrapped q xs" by (auto simp: mq_rel_def)
  then show ?thesis
  proof cases
    case 1
    then show ?thesis using wf chain_extent[of "mq_shm q" "mq_tail q" xs "mq_head q"]
      by (auto simp: unwrapped_def mq_wf_def mem_head_len_def)
  next
    case 2
    then obtain xs1 xs2 e where c: "xs = xs1 @ xs2" "chain (mq_shm q) (mq_tail q) xs1 e"
      "e < mq_len q" "chain (mq_shm q) mem_head_len xs2 (mq_head q)" by (auto simp: wrapped_def)
    show ?thesis using c(1,3) wf chain_extent[OF c(2)] chain_extent[OF c(4)]
      by (auto simp: mq_wf_def mem_head_len_def)
  qed
qed

section \<open>Reading a block\<close>

lemma chain_type:
  assumes "chain m a (x # xs) e"
  shows "load m (a + 8) 1 = Inr [blk_type (fst x)]" "load m (a + 9) 4 = Inr (le32 (blk_len (fst x)))"
  using assms load_sub[of m a 13 "enc_head (fst x)" 8 1] load_sub[of m a 13 "enc_head (fst x)" 9 4]
  by (simp_all add: enc_head_type enc_head_len blk_head_len_def)

lemma not_end_mark:
  assumes "chain (mq_shm q) a (x # xs) e" and "e < mq_len q"
  shows "\<not> end_mark q a"
  using assms chain_type[OF assms(1)] chain_extent[OF assms(1)]
  by (cases x) (auto simp: end_mark_def valid_msg_def blk_head_len_def)

lemma chain_read_msg:
  assumes "chain (mq_shm q) a (x # xs) e" shows "read_msg q a = Inr x"
  using assms
  by (cases x) (auto simp: read_msg_def read_head_def read_data_def dec_enc_head valid_msg_def)

lemma chain_blk_is: "chain (mq_shm q) (mq_tail q) (x # xs) e \<Longrightarrow> blk_is q (mq_tail q) x"
  by (simp add: blk_is_def chain_read_msg del: chain.simps)

section \<open>Getting and popping\<close>

lemma mq_get_equal: "mq_wf q \<Longrightarrow> mq_head q = mq_tail q \<Longrightarrow> mq_get q = Inr (None, q)"
  by (simp add: mq_get_def mq_wf_mapped numeral_2_eq_2 mq_get_round)

lemma mq_get_behind:
  "mq_wf q \<Longrightarrow> mq_tail q + blk_head_len \<le> mq_head q \<Longrightarrow> mq_get q = Inr (Some (mq_tail q), q)"
  by (simp add: mq_get_def mq_wf_mapped numeral_2_eq_2 mq_get_round mq_wf_def is_cint_def
      MQ_MAX_def blk_head_len_def mem_head_len_def)

lemma mq_get_block:
  assumes "mq_wf q" and "mq_head q < mq_tail q" and "\<not> end_mark q (mq_tail q)"
  shows "mq_get q = Inr (Some (mq_tail q), q)"
proof -
  have "cint (mq_tail q + blk_head_len) = Inr (mq_tail q + blk_head_len)"
    using assms(1) by (simp add: mq_wf_def is_cint_def MQ_MAX_def blk_head_len_def mem_head_len_def)
  moreover have "ok (load (mq_shm q) (mq_tail q + 8) 1)"
    using assms by (auto simp: mq_wf_def end_mark_def load_def blk_head_len_def mem_head_len_def)
  ultimately show ?thesis using assms
    by (auto simp: mq_get_def mq_wf_mapped numeral_2_eq_2 mq_get_round end_mark_def rbind_def ok_def
        split: sum.splits)
qed

lemma mq_get_end:
  assumes "mq_wf q" and "mq_head q < mq_tail q" and "end_mark q (mq_tail q)"
  shows "mq_get q = mq_get (q\<lparr>mq_tail := mem_head_len\<rparr>)"
proof -
  have "cint (mq_tail q + blk_head_len) = Inr (mq_tail q + blk_head_len)"
    using assms(1) by (simp add: mq_wf_def is_cint_def MQ_MAX_def blk_head_len_def mem_head_len_def)
  then have "mq_get_loop 2 q = mq_get_loop (Suc 0) (q\<lparr>mq_tail := mem_head_len\<rparr>)"
    using assms(2,3) by (auto simp: numeral_2_eq_2 mq_get_round[of _ q] end_mark_def)
  then show ?thesis
    using mq_get_loop_at_start[of "q\<lparr>mq_tail := mem_head_len\<rparr>" 1]
    by (simp add: mq_get_def mapped_def numeral_2_eq_2)
qed

lemma mq_get_unwrapped:
  assumes "mq_rel q xs" and "unwrapped q xs"
  shows "mq_get q = Inr (if xs = [] then None else Some (mq_tail q), q)"
proof (cases xs)
  case Nil
  then show ?thesis using assms mq_get_equal[of q] by (auto simp: unwrapped_def dest: mq_relD(1))
next
  case (Cons x ys)
  then show ?thesis
    using assms mq_get_behind[of q] chain_extent[of "mq_shm q" "mq_tail q" "x # ys" "mq_head q"]
    by (auto simp: unwrapped_def blk_head_len_def dest: mq_relD(1))
qed

text \<open>Moving the tail over the end mark leaves the list of messages as it is.\<close>

lemma skip_end_mark:
  assumes "mq_rel q xs" and "wrapped q xs" and "end_mark q (mq_tail q)"
  shows "mq_rel (q\<lparr>mq_tail := mem_head_len\<rparr>) xs \<and> unwrapped (q\<lparr>mq_tail := mem_head_len\<rparr>) xs"
proof -
  obtain xs1 xs2 e where c: "xs = xs1 @ xs2" "chain (mq_shm q) (mq_tail q) xs1 e"
    "e < mq_len q" "chain (mq_shm q) mem_head_len xs2 (mq_head q)"
    using assms(2) by (auto simp: wrapped_def)
  have "xs1 = []" using not_end_mark[of q "mq_tail q"] c(2,3) assms(3) by (cases xs1) auto
  then have "unwrapped (q\<lparr>mq_tail := mem_head_len\<rparr>) xs"
    using c assms(1) by (auto simp: unwrapped_def mq_rel_def mq_wf_def)
  then show ?thesis using assms(1) by (auto simp: mq_rel_def mq_wf_def mem_head_len_def)
qed

lemma mq_get_rel_nil:
  assumes "mq_rel q []" shows "\<exists>q'. mq_get q = Inr (None, q') \<and> mq_rel q' []"
proof (cases "unwrapped q []")
  case True
  then show ?thesis using mq_get_unwrapped[OF assms] assms by auto
next
  case False
  then have w: "wrapped q []" using assms by (auto simp: mq_rel_def)
  then have e: "end_mark q (mq_tail q)" "mq_head q < mq_tail q" by (auto simp: wrapped_def)
  show ?thesis
    using mq_get_end[OF mq_relD(1)[OF assms] e(2,1)] skip_end_mark[OF assms w e(1)]
      mq_get_unwrapped[of "q\<lparr>mq_tail := mem_head_len\<rparr>" "[]"] by auto
qed

lemma unwrapped_front:
  "mq_rel q (x # xs) \<Longrightarrow> unwrapped q (x # xs) \<Longrightarrow> mq_front q x xs \<and> blk_is q (mq_tail q) x"
  by (auto simp: mq_front_def unwrapped_def intro!: chain_blk_is)

lemma mq_front_chain:
  assumes "mq_front q x xs"
  obtains ys e where "chain (mq_shm q) (mq_tail q) (x # ys) e" "e < mq_len q"
    "mq_tail q \<le> mq_head q \<Longrightarrow> ys = xs \<and> e = mq_head q"
    "mq_head q < mq_tail q \<Longrightarrow> \<exists>xs2. xs = ys @ xs2 \<and> end_mark q e \<and>
       chain (mq_shm q) mem_head_len xs2 (mq_head q)"
proof -
  have r: "mq_rel q (x # xs)" and n: "mq_head q < mq_tail q \<Longrightarrow> \<not> end_mark q (mq_tail q)"
    using assms by (auto simp: mq_front_def)
  from r consider "unwrapped q (x # xs)" | "wrapped q (x # xs)" by (auto simp: mq_rel_def)
  then show ?thesis
  proof cases
    case 1
    then show ?thesis using that[of xs "mq_head q"] r by (auto simp: unwrapped_def mq_rel_def mq_wf_def)
  next
    case 2
    then obtain xs1 xs2 e where c: "x # xs = xs1 @ xs2" "chain (mq_shm q) (mq_tail q) xs1 e"
      "e < mq_len q" "end_mark q e" "chain (mq_shm q) mem_head_len xs2 (mq_head q)"
      "mq_head q < mq_tail q"
      by (auto simp: wrapped_def)
    obtain ys where "xs1 = x # ys" using c n by (cases xs1) auto
    then show ?thesis using that[of ys e] c by auto
  qed
qed

lemma mq_front_blk_is: "mq_front q x xs \<Longrightarrow> blk_is q (mq_tail q) x"
  by (erule mq_front_chain) (rule chain_blk_is)

lemma mq_get_rel_cons:
  assumes "mq_rel q (x # xs)"
  shows "\<exists>a q'. mq_get q = Inr (Some a, q') \<and> mq_front q' x xs \<and> blk_is q' a x"
proof -
  consider "unwrapped q (x # xs)" | "wrapped q (x # xs)" "end_mark q (mq_tail q)"
    | "wrapped q (x # xs)" "\<not> end_mark q (mq_tail q)"
    using assms by (auto simp: mq_rel_def)
  then show ?thesis
  proof cases
    case 1
    then show ?thesis using mq_get_unwrapped[OF assms] unwrapped_front[OF assms] by simp
  next
    case 2
    let ?q = "q\<lparr>mq_tail := mem_head_len\<rparr>"
    have r: "mq_rel ?q (x # xs)" "unwrapped ?q (x # xs)" using skip_end_mark[OF assms 2] by auto
    have "mq_get q = mq_get ?q"
      using mq_get_end[of q] mq_relD(1)[OF assms] 2 by (simp add: wrapped_def)
    then show ?thesis using mq_get_unwrapped[OF r] unwrapped_front[OF r] by simp
  next
    case 3
    then have f: "mq_front q x xs" using assms by (simp add: mq_front_def)
    obtain ys e where "chain (mq_shm q) (mq_tail q) (x # ys) e" using mq_front_chain[OF f] by blast
    then have "blk_is q (mq_tail q) x" by (rule chain_blk_is)
    then show ?thesis using f mq_get_block[of q] mq_relD(1)[OF assms] 3 by (auto simp: wrapped_def)
  qed
qed

lemma mq_pop_rel:
  assumes "mq_front q x xs" shows "\<exists>q'. mq_pop q = Inr q' \<and> mq_rel q' xs"
proof -
  have r: "mq_rel q (x # xs)" using assms by (simp add: mq_front_def)
  note wf = mq_relD[OF r]
  obtain ys e where c: "chain (mq_shm q) (mq_tail q) (x # ys) e" "e < mq_len q"
    and u: "mq_tail q \<le> mq_head q \<Longrightarrow> ys = xs \<and> e = mq_head q"
    and w: "mq_head q < mq_tail q \<Longrightarrow> \<exists>xs2. xs = ys @ xs2 \<and> end_mark q e \<and>
       chain (mq_shm q) mem_head_len xs2 (mq_head q)"
    using mq_front_chain[OF assms] by blast
  define t where "t = mq_tail q + blk_len (fst x)"
  define q' where "q' = q\<lparr>mq_tail := t, mq_blk_cnt := int (length xs)\<rparr>"
  have v: "valid_msg x" and c': "chain (mq_shm q) t ys e" using c by (auto simp: t_def)
  then have len: "is_cint (blk_len (fst x))" "13 \<le> blk_len (fst x)"
    by (auto simp: valid_msg_def cint_head_def blk_head_len_def split: prod.splits)
  have "t \<le> e" using chain_extent[OF c'] by simp
  then have t: "mq_tail q + 13 \<le> t" "t < mq_len q" using len c(2) by (auto simp: t_def)
  have "is_cint t" "is_cint (int (length xs))"
    using t wf(1) mq_rel_count[OF r] by (auto simp: mq_wf_def is_cint_def MQ_MAX_def mem_head_len_def)
  then have "mq_pop q = Inr q'"
    using wf chain_type(2)[OF c(1)] len by (simp add: mq_pop_def q'_def t_def)
  moreover have "mq_wf q'" using wf(1) t by (auto simp: q'_def mq_wf_def)
  moreover have "unwrapped q' xs \<or> wrapped q' xs"
  proof (cases "mq_tail q \<le> mq_head q")
    case True
    then show ?thesis using u c' \<open>t \<le> e\<close> by (simp add: unwrapped_def q'_def)
  next
    case False
    then obtain xs2 where "xs = ys @ xs2" "end_mark q e" "chain (mq_shm q) mem_head_len xs2 (mq_head q)"
      using w by auto
    moreover have "mq_head q < t" using False t by simp
    ultimately have "wrapped q' xs" using c' c(2) by (auto simp: wrapped_def q'_def end_mark_def)
    then show ?thesis ..
  qed
  ultimately show ?thesis by (simp add: mq_rel_def q'_def)
qed

section \<open>Pushing\<close>

definition blk_room :: "mem_queue \<Rightarrow> mem_block \<Rightarrow> bool" where
  "blk_room q b \<longleftrightarrow> 0 \<le> mq_head q \<and> mq_head q + blk_len b \<le> int (length (mq_shm q)) \<and>
     is_cint (mq_head q + blk_len b) \<and> is_cint (mq_blk_cnt q + 1)"

lemma write_blk_ok:
  assumes v: "valid_msg (b, d)" and room: "blk_room q b"
  obtains m where
    "write_blk q b d = Inr (q\<lparr>mq_shm := m, mq_head := mq_head q + blk_len b,
        mq_blk_cnt := mq_blk_cnt q + 1, mq_notes := Suc (mq_notes q)\<rparr>)"
    "length m = length (mq_shm q)"
    "chain m (mq_head q) [(b, d)] (mq_head q + blk_len b)"
    "\<And>a n. a + n \<le> mq_head q \<or> mq_head q + blk_len b \<le> a \<Longrightarrow> load m a n = load (mq_shm q) a n"
    "\<And>a xs e. chain (mq_shm q) a xs e \<Longrightarrow> e \<le> mq_head q \<or> mq_head q + blk_len b \<le> a \<Longrightarrow>
        chain m a xs e"
proof -
  let ?h = "mq_head q"
  have len: "blk_len b = 13 + int (length d)" using v by (simp add: valid_msg_def blk_head_len_def)
  obtain m1 where m1: "store (mq_shm q) ?h (enc_head b) = Inr m1"
    using store_Inr[of ?h "enc_head b" "mq_shm q"] room len by (auto simp: blk_room_def)
  obtain m where m: "store m1 (?h + 13) d = Inr m"
    using store_Inr[of "?h + 13" d m1] room len length_store[OF m1] by (auto simp: blk_room_def)
  have w: "write_blk q b d = Inr (q\<lparr>mq_shm := m, mq_head := ?h + blk_len b,
        mq_blk_cnt := mq_blk_cnt q + 1, mq_notes := Suc (mq_notes q)\<rparr>)"
    using m1 m len room by (simp add: write_blk_def memcpy_src_def blk_head_len_def blk_room_def)
  have "load m ?h 13 = Inr (enc_head b)"
    using load_store_same[OF m1] load_store_disjoint[OF m, of ?h 13] by simp
  then have c: "chain m ?h [(b, d)] (?h + blk_len b)"
    using load_store_same[OF m] v len by (simp add: blk_head_len_def)
  have fr: "load m a n = load (mq_shm q) a n" if "a + n \<le> ?h \<or> ?h + blk_len b \<le> a" for a n
    using that len load_store_disjoint[OF m1, of a n] load_store_disjoint[OF m, of a n] by auto
  have ch: "chain m a xs e"
    if "chain (mq_shm q) a xs e" "e \<le> ?h \<or> ?h + blk_len b \<le> a" for a xs e
    using that len chain_frame[OF chain_frame[OF that(1) m1] m] by auto
  show ?thesis
    by (rule that[OF w _ c fr ch]) (simp add: length_store[OF m1] length_store[OF m])
qed

lemma mark_align_ok:
  assumes "mq_wf q"
  obtains m where "mark_align q = Inr (q\<lparr>mq_shm := m\<rparr>)" "length m = length (mq_shm q)"
    "end_mark (q\<lparr>mq_shm := m\<rparr>) (mq_head q)"
    "\<And>a xs e. chain (mq_shm q) a xs e \<Longrightarrow> e \<le> mq_head q \<Longrightarrow> chain m a xs e"
    "\<And>a n. a + n \<le> mq_head q \<Longrightarrow> load m a n = load (mq_shm q) a n"
proof (cases "mq_head q + blk_head_len \<le> mq_len q")
  case True
  let ?bs = "blk_code BLK_ALIGN # le32 (mq_len q - mq_head q)"
  have c: "cint (mq_head q + blk_head_len) = Inr (mq_head q + blk_head_len)"
    using assms by (simp add: mq_wf_def is_cint_def MQ_MAX_def blk_head_len_def mem_head_len_def)
  obtain m where m: "store (mq_shm q) (mq_head q + 8) ?bs = Inr m"
    using store_Inr[of "mq_head q + 8" ?bs "mq_shm q"] assms True
    by (auto simp: mq_wf_def blk_head_len_def mem_head_len_def)
  have "load m (mq_head q + 8) 1 = Inr [blk_code BLK_ALIGN]"
    using load_sub[OF load_store_same[OF m], of 0 1] by simp
  show ?thesis
  proof (rule that[of m])
    show "mark_align q = Inr (q\<lparr>mq_shm := m\<rparr>)" using c m True by (simp add: mark_align_def)
    show "end_mark (q\<lparr>mq_shm := m\<rparr>) (mq_head q)"
      using \<open>load m (mq_head q + 8) 1 = _\<close> by (simp add: end_mark_def)
    show "chain m a xs e" if "chain (mq_shm q) a xs e" "e \<le> mq_head q" for a xs e
      using chain_frame[OF that(1) m] that(2) by simp
    show "load m a n = load (mq_shm q) a n" if "a + n \<le> mq_head q" for a n
      using load_store_disjoint[OF m] that by simp
  qed (rule length_store[OF m])
next
  case False
  have c: "cint (mq_head q + blk_head_len) = Inr (mq_head q + blk_head_len)"
    using assms by (simp add: mq_wf_def is_cint_def MQ_MAX_def blk_head_len_def mem_head_len_def)
  have "q\<lparr>mq_shm := mq_shm q\<rparr> = q" by simp
  then show ?thesis using that[of "mq_shm q"] c False by (auto simp: mark_align_def end_mark_def)
qed

text \<open>A push into a queue of each shape; \<open>pushed\<close> is what the caller may rely on.\<close>

definition pushed :: "mem_queue \<Rightarrow> msg list \<Rightarrow> msg \<Rightarrow> int \<Rightarrow> mem_queue \<Rightarrow> bool" where
  "pushed q xs m r q' \<longleftrightarrow> mq_tail q' = mq_tail q \<and> mq_len q' = mq_len q \<and>
     load (mq_shm q') 0 mem_head_len = load (mq_shm q) 0 mem_head_len \<and>
     (r = 0 \<and> mq_rel q' (xs @ [m]) \<and> mq_notes q' = Suc (mq_notes q) \<or>
      r = - 1 \<and> mq_rel q' xs \<and> mq_notes q' = mq_notes q)"

lemma mq_push_cint:
  assumes "mq_wf q" and "valid_msg (b, d)"
  shows "cint (mq_head q + blk_len b) = Inr (mq_head q + blk_len b)"
    "is_cint (mq_head q + blk_len b)" "13 \<le> blk_len b"
  using assms by (auto simp: mq_wf_def valid_msg_def is_cint_def MQ_MAX_def mem_head_len_def blk_head_len_def)

lemma mq_rel_cint: "mq_rel q xs \<Longrightarrow> is_cint (mq_blk_cnt q + 1)"
  using mq_rel_count[of q xs] mq_relD(3)[of q xs] by (simp add: is_cint_def MQ_MAX_def)

lemma push_wrapped:
  assumes r: "mq_rel q xs" and v: "valid_msg (b, d)" and w: "mq_head q < mq_tail q"
  shows "\<exists>r q'. mq_push_loop (Suc n) q b d = Inr (r, q') \<and> pushed q xs (b, d) r q' \<and>
    r = (if mq_head q + blk_len b < mq_tail q then 0 else - 1) \<and>
    load (mq_shm q') (mq_tail q + 8) 1 = load (mq_shm q) (mq_tail q + 8) 1"
proof (cases "mq_tail q \<le> mq_head q + blk_len b")
  case True
  then show ?thesis using r w mq_push_cint[OF mq_relD(1)[OF r] v]
    by (simp add: mq_push_round pushed_def)
next
  case False
  note wf = mq_relD(1)[OF r]
  have room: "blk_room q b"
    using False wf mq_push_cint[OF wf v] mq_rel_cint[OF r]
    by (auto simp: blk_room_def mq_wf_def mem_head_len_def)
  obtain m where m: "write_blk q b d = Inr (q\<lparr>mq_shm := m, mq_head := mq_head q + blk_len b,
        mq_blk_cnt := mq_blk_cnt q + 1, mq_notes := Suc (mq_notes q)\<rparr>)" (is "_ = Inr ?q")
    "length m = length (mq_shm q)"
    "chain m (mq_head q) [(b, d)] (mq_head q + blk_len b)"
    "\<And>a n. a + n \<le> mq_head q \<or> mq_head q + blk_len b \<le> a \<Longrightarrow> load m a n = load (mq_shm q) a n"
    "\<And>a xs e. chain (mq_shm q) a xs e \<Longrightarrow> e \<le> mq_head q \<or> mq_head q + blk_len b \<le> a \<Longrightarrow> chain m a xs e"
    using write_blk_ok[OF v room] by blast
  obtain xs1 xs2 e where c: "xs = xs1 @ xs2" "chain (mq_shm q) (mq_tail q) xs1 e" "e < mq_len q"
    "end_mark q e" "chain (mq_shm q) mem_head_len xs2 (mq_head q)"
    using r w by (auto simp: mq_rel_def wrapped_def unwrapped_def)
  have te: "mq_tail q \<le> e" using chain_extent[OF c(2)] by simp
  have "chain m mem_head_len (xs2 @ [(b, d)]) (mq_head q + blk_len b)"
    using m(3) m(5)[OF c(5)] by (auto simp: chain_append simp del: chain.simps)
  moreover have "chain m (mq_tail q) xs1 e" using m(5)[OF c(2)] False by simp
  moreover have "end_mark ?q e" using c(4) m(4)[of "e + 8" 1] te False by (auto simp: end_mark_def)
  ultimately have "wrapped ?q (xs @ [(b, d)])"
    using c(1,3) False unfolding wrapped_def
    by (intro conjI exI[of _ xs1] exI[of _ "xs2 @ [(b, d)]"] exI[of _ e]) auto
  moreover have "mq_wf ?q"
    using wf False w mq_push_cint(3)[OF wf v] by (auto simp: mq_wf_def m(2))
  ultimately have "mq_rel ?q (xs @ [(b, d)])" using mq_relD(3)[OF r] by (simp add: mq_rel_def)
  moreover have "mq_push_loop (Suc n) q b d = Inr (0, ?q)"
    using False w m(1) mq_push_cint[OF wf v] by (simp add: mq_push_round)
  moreover have "load m 0 mem_head_len = load (mq_shm q) 0 mem_head_len"
    using m(4)[of 0 mem_head_len] wf by (simp add: mq_wf_def)
  ultimately show ?thesis using m(4)[of "mq_tail q + 8" 1] False by (simp add: pushed_def)
qed

lemma push_unwrapped_fits:
  assumes r: "mq_rel q xs" and v: "valid_msg (b, d)" and u: "mq_tail q \<le> mq_head q"
    and f: "mq_head q + blk_len b < mq_len q"
  shows "\<exists>q'. mq_push_loop (Suc n) q b d = Inr (0, q') \<and> pushed q xs (b, d) 0 q' \<and>
    mq_tail q' \<le> mq_head q'"
proof -
  note wf = mq_relD(1)[OF r]
  have room: "blk_room q b"
    using f wf mq_push_cint[OF wf v] mq_rel_cint[OF r] by (auto simp: blk_room_def mq_wf_def mem_head_len_def)
  obtain m where m: "write_blk q b d = Inr (q\<lparr>mq_shm := m, mq_head := mq_head q + blk_len b,
        mq_blk_cnt := mq_blk_cnt q + 1, mq_notes := Suc (mq_notes q)\<rparr>)" (is "_ = Inr ?q")
    "length m = length (mq_shm q)"
    "chain m (mq_head q) [(b, d)] (mq_head q + blk_len b)"
    "\<And>a n. a + n \<le> mq_head q \<or> mq_head q + blk_len b \<le> a \<Longrightarrow> load m a n = load (mq_shm q) a n"
    "\<And>a xs e. chain (mq_shm q) a xs e \<Longrightarrow> e \<le> mq_head q \<or> mq_head q + blk_len b \<le> a \<Longrightarrow> chain m a xs e"
    using write_blk_ok[OF v room] by blast
  have "chain (mq_shm q) (mq_tail q) xs (mq_head q)"
    using r u by (auto simp: mq_rel_def unwrapped_def wrapped_def)
  then have "chain m (mq_tail q) (xs @ [(b, d)]) (mq_head q + blk_len b)"
    using m(3) m(5)[of "mq_tail q" xs "mq_head q"] by (auto simp: chain_append simp del: chain.simps)
  then have "unwrapped ?q (xs @ [(b, d)])"
    using u mq_push_cint(3)[OF wf v] by (simp add: unwrapped_def)
  moreover have "mq_wf ?q" using wf f mq_push_cint(3)[OF wf v] by (auto simp: mq_wf_def m(2))
  ultimately have "mq_rel ?q (xs @ [(b, d)])" using mq_relD(3)[OF r] by (simp add: mq_rel_def)
  moreover have "mq_push_loop (Suc n) q b d = Inr (0, ?q)"
    using f u m(1) mq_push_cint[OF wf v] by (simp add: mq_push_round)
  moreover have "load m 0 mem_head_len = load (mq_shm q) 0 mem_head_len"
    using m(4)[of 0 mem_head_len] wf by (simp add: mq_wf_def)
  ultimately show ?thesis using u mq_push_cint(3)[OF wf v] by (simp add: pushed_def)
qed

text \<open>The head jumps back to the start behind an end mark: same messages, other shape.\<close>

lemma wrap_head:
  assumes r: "mq_rel q xs" and u: "mq_tail q \<le> mq_head q" and m: "mark_align q = Inr q1"
  shows "mq_rel q1 xs \<and> mq_head q1 = mq_head q \<and> mq_tail q1 = mq_tail q \<and> mq_len q1 = mq_len q \<and>
    mq_notes q1 = mq_notes q \<and> load (mq_shm q1) 0 mem_head_len = load (mq_shm q) 0 mem_head_len \<and>
    (mem_head_len \<noteq> mq_tail q \<longrightarrow> mq_rel (q1\<lparr>mq_head := mem_head_len\<rparr>) xs \<and>
      (xs \<noteq> [] \<longrightarrow> \<not> end_mark (q1\<lparr>mq_head := mem_head_len\<rparr>) (mq_tail q)))"
proof -
  note wf = mq_relD(1)[OF r]
  obtain n where n: "q1 = q\<lparr>mq_shm := n\<rparr>" "length n = length (mq_shm q)"
    "end_mark q1 (mq_head q)" "\<And>a xs e. chain (mq_shm q) a xs e \<Longrightarrow> e \<le> mq_head q \<Longrightarrow> chain n a xs e"
    "\<And>a k. a + k \<le> mq_head q \<Longrightarrow> load n a k = load (mq_shm q) a k"
    using mark_align_ok[OF wf] m by auto
  have c: "chain n (mq_tail q) xs (mq_head q)"
    using r u n(4) by (auto simp: mq_rel_def unwrapped_def wrapped_def)
  have "mq_wf q1" using wf by (simp add: mq_wf_def n(1,2))
  then have "mq_rel q1 xs" using c u mq_relD(3)[OF r] by (simp add: mq_rel_def unwrapped_def n(1))
  moreover have "mq_rel (q1\<lparr>mq_head := mem_head_len\<rparr>) xs" if "mem_head_len \<noteq> mq_tail q"
  proof -
    have "wrapped (q1\<lparr>mq_head := mem_head_len\<rparr>) xs"
      unfolding wrapped_def using that c wf n(3)
      by (intro conjI exI[of _ xs] exI[of _ "[]"] exI[of _ "mq_head q"])
        (auto simp: n(1) mq_wf_def end_mark_def)
    then show ?thesis using wf mq_relD(3)[OF r] by (auto simp: mq_rel_def mq_wf_def n(1,2))
  qed
  moreover have "\<not> end_mark (q1\<lparr>mq_head := mem_head_len\<rparr>) (mq_tail q)" if "xs \<noteq> []"
    using not_end_mark[of "q1\<lparr>mq_head := mem_head_len\<rparr>" "mq_tail q" "hd xs" "tl xs" "mq_head q"] c wf that
    by (auto simp: n(1) mq_wf_def)
  moreover have "load n 0 mem_head_len = load (mq_shm q) 0 mem_head_len"
    using n(5) wf by (simp add: mq_wf_def)
  ultimately show ?thesis by (simp add: n(1))
qed

definition front_kept :: "mem_queue \<Rightarrow> mem_queue \<Rightarrow> bool" where
  "front_kept q q' \<longleftrightarrow> ((mq_head q < mq_tail q \<longrightarrow> \<not> end_mark q (mq_tail q)) \<longrightarrow>
     (mq_head q' < mq_tail q' \<longrightarrow> \<not> end_mark q' (mq_tail q')))"

text \<open>When there is room for a block: behind the head, or at the start in front of the tail.\<close>

definition accepts :: "mem_queue \<Rightarrow> mem_block \<Rightarrow> bool" where
  "accepts q b \<longleftrightarrow> (if mq_tail q \<le> mq_head q
     then mq_head q + blk_len b < mq_len q \<or> mem_head_len + blk_len b < mq_tail q
     else mq_head q + blk_len b < mq_tail q)"

lemma mq_push_pushed:
  assumes r: "mq_rel q xs" and v: "valid_msg (b, d)"
  shows "\<exists>r q'. mq_push q b d = Inr (r, q') \<and> pushed q xs (b, d) r q' \<and>
    r = (if accepts q b then 0 else - 1) \<and> (xs \<noteq> [] \<longrightarrow> front_kept q q')"
proof -
  note wf = mq_relD(1)[OF r] and int = mq_push_cint[OF mq_relD(1)[OF r] v]
  have two: "mq_push q b d = mq_push_loop (Suc (Suc 0)) q b d"
    using mq_relD(2)[OF r] by (simp add: mq_push_def numeral_2_eq_2)
  consider "mq_head q < mq_tail q" | "mq_tail q \<le> mq_head q" "mq_head q + blk_len b < mq_len q"
    | "mq_tail q \<le> mq_head q" "mq_len q \<le> mq_head q + blk_len b" by linarith
  then show ?thesis
  proof cases
    case 1
    then show ?thesis using push_wrapped[OF r v 1, of "Suc 0"] two
      by (auto simp: front_kept_def end_mark_def pushed_def accepts_def)
  next
    case 2
    then show ?thesis using push_unwrapped_fits[OF r v 2, of "Suc 0"] two
      by (auto simp: front_kept_def accepts_def)
  next
    case 3
    obtain q1 where m: "mark_align q = Inr q1" by (rule mark_align_ok[OF wf])
    note wr = wrap_head[OF r 3(1) m]
    let ?q = "q1\<lparr>mq_head := mem_head_len\<rparr>"
    show ?thesis
    proof (cases "mem_head_len = mq_tail q")
      case True
      then have "mq_push_loop (Suc (Suc 0)) q b d = Inr (- 1, q1)"
        using 3 m int wr by (simp add: mq_push_round[of "Suc 0"])
      then show ?thesis using wr 3 two True mq_push_cint(3)[OF wf v]
        by (simp add: pushed_def front_kept_def accepts_def)
    next
      case False
      then have s: "mq_push_loop (Suc (Suc 0)) q b d = mq_push_loop (Suc 0) ?q b d"
        using 3 m int wr by (simp add: mq_push_round[of "Suc 0"])
      have rel: "mq_rel ?q xs" and w: "mq_head ?q < mq_tail ?q"
        using wr False wf by (auto simp: mq_wf_def)
      obtain r q' where p: "mq_push_loop (Suc 0) ?q b d = Inr (r, q')" "pushed ?q xs (b, d) r q'"
        "r = (if mq_head ?q + blk_len b < mq_tail ?q then 0 else - 1)"
        "load (mq_shm q') (mq_tail ?q + 8) 1 = load (mq_shm ?q) (mq_tail ?q + 8) 1"
        using push_wrapped[OF rel v w, of 0] by blast
      have "pushed q xs (b, d) r q'" using p(2) wr by (simp add: pushed_def)
      moreover have "front_kept q q'" if "xs \<noteq> []"
      proof -
        have "\<not> end_mark ?q (mq_tail q)" using wr False that by simp
        then show ?thesis using p(2,4) wr by (simp add: front_kept_def end_mark_def pushed_def)
      qed
      ultimately show ?thesis using p(1,3) s two 3 wr by (auto simp: accepts_def)
    qed
  qed
qed

lemma mq_push_front:
  assumes "mq_front q x xs" and "valid_msg m" and "mq_push q (fst m) (snd m) = Inr (r, q')"
  shows "mq_front q' x (xs @ (if r = 0 then [m] else []))"
proof -
  have "mq_rel q (x # xs)" and "mq_head q < mq_tail q \<longrightarrow> \<not> end_mark q (mq_tail q)"
    using assms(1) by (auto simp: mq_front_def)
  then show ?thesis using mq_push_pushed[of q "x # xs" "fst m" "snd m"] assms(2,3)
    by (auto simp: mq_front_def pushed_def front_kept_def)
qed

section \<open>The contract holds for the code's queue\<close>

interpretation mq: block_queue "\<lambda>q m. mq_push q (fst m) (snd m)" mq_get mq_pop mq_rel mq_front
  valid_msg blk_is
proof unfold_locales
  fix q xs m assume "mq_rel q xs" "valid_msg m"
  then show "\<exists>r q'. mq_push q (fst m) (snd m) = Inr (r, q') \<and>
      (r = 0 \<and> mq_rel q' (xs @ [m]) \<or> r = - 1 \<and> mq_rel q' xs)"
    using mq_push_pushed[of q xs "fst m" "snd m"] by (auto simp: pushed_def)
next
  fix q x xs m r q'
  assume "mq_front q x xs" "valid_msg m" "mq_push q (fst m) (snd m) = Inr (r, q')"
  then show "mq_front q' x (xs @ (if r = 0 then [m] else []))" by (rule mq_push_front)
next
  fix q assume "mq_rel q []"
  then show "\<exists>q'. mq_get q = Inr (None, q') \<and> mq_rel q' []" by (rule mq_get_rel_nil)
next
  fix q x xs assume "mq_rel q (x # xs)"
  then show "\<exists>a q'. mq_get q = Inr (Some a, q') \<and> mq_front q' x xs \<and> blk_is q' a x"
    by (rule mq_get_rel_cons)
next
  fix q x xs assume "mq_front q x xs"
  then show "mq_rel q (x # xs)" by (simp add: mq_front_def)
next
  fix q x xs assume "mq_front q x xs"
  then show "\<exists>q'. mq_pop q = Inr q' \<and> mq_rel q' xs" by (rule mq_pop_rel)
next
  fix q a x y assume "blk_is q a x" "blk_is q a y"
  then show "x = y" by (auto simp: blk_is_def)
next
  fix q x xs a m r q'
  assume "mq_front q x xs" "blk_is q a x" "valid_msg m" "mq_push q (fst m) (snd m) = Inr (r, q')"
  then show "blk_is q' a x"
    using mq_push_front[of q x xs m r q'] mq_front_blk_is[of q' x]
      mq_push_pushed[of q "x # xs" "fst m" "snd m"]
    by (auto simp: pushed_def blk_is_def mq_front_def)
qed

lemma mq_init_rel:
  assumes "mem_head_len < sz" and "sz \<le> MQ_MAX"
  shows "\<exists>q'. mq_init q sz typ pfd True = Inr (0, q') \<and> mq_rel q' []"
  using assms
  by (auto simp: mq_init_def mem_head_len_def mq_rel_def mq_wf_def unwrapped_def)

end
