(* ===== verification/Mem_Queue_Chan.thy ===== *)
theory Mem_Queue_Chan
  imports Mem_Queue_Fifo
begin

text \<open>
  The two processes at one queue of \<^verbatim>\<open>mem_queue.c\<close>, in any interleaving of whole calls, and
  properties of the calls: absence of faults, the exact condition under which a push is accepted,
  recovery of an empty queue that refused a message. The interleaving of single accesses, and
  the order and completeness of delivery in it, are in \<open>Mem_Queue_Fine\<close>.
\<close>

section \<open>A channel: one producer, one consumer\<close>

text \<open>
  The consumer calls \<open>mq_get\<close>, works on the block it was given a pointer to (offset \<open>ch_held\<close>) and
  then calls \<open>mq_pop\<close>, as the loops of \<open>handle_mq_recv\<close> and \<open>handle_mq_send\<close> do; the producer
  pushes at any time, also in between. \<open>ch_acc\<close> and \<open>ch_del\<close> record the messages accepted and
  delivered so far.
\<close>

record chan =
  ch_q :: mem_queue
  ch_held :: "int option"
  ch_acc :: "msg list"
  ch_del :: "msg list"

inductive chan_step :: "chan \<Rightarrow> chan \<Rightarrow> bool" where
  accept: "mq_push (ch_q c) (fst m) (snd m) = Inr (0, q) \<Longrightarrow> valid_msg m \<Longrightarrow>
     chan_step c (c\<lparr>ch_q := q, ch_acc := ch_acc c @ [m]\<rparr>)"
| refuse: "mq_push (ch_q c) (fst m) (snd m) = Inr (- 1, q) \<Longrightarrow> valid_msg m \<Longrightarrow>
     chan_step c (c\<lparr>ch_q := q\<rparr>)"
| get_none: "ch_held c = None \<Longrightarrow> mq_get (ch_q c) = Inr (None, q) \<Longrightarrow> chan_step c (c\<lparr>ch_q := q\<rparr>)"
| get_some: "ch_held c = None \<Longrightarrow> mq_get (ch_q c) = Inr (Some a, q) \<Longrightarrow>
     chan_step c (c\<lparr>ch_q := q, ch_held := Some a\<rparr>)"
| pop: "ch_held c = Some a \<Longrightarrow> read_msg (ch_q c) a = Inr m \<Longrightarrow> mq_pop (ch_q c) = Inr q \<Longrightarrow>
     chan_step c (c\<lparr>ch_q := q, ch_held := None, ch_del := ch_del c @ [m]\<rparr>)"

inductive chan_reach :: "int \<Rightarrow> chan \<Rightarrow> bool" for sz where
  start: "mq_init q0 sz ty pfd True = Inr (0, q) \<Longrightarrow>
     chan_reach sz \<lparr>ch_q = q, ch_held = None, ch_acc = [], ch_del = []\<rparr>"
| step: "chan_reach sz c \<Longrightarrow> chan_step c c' \<Longrightarrow> chan_reach sz c'"

definition chan_inv :: "chan \<Rightarrow> bool" where
  "chan_inv c \<longleftrightarrow> mq.holds (ch_q c) (ch_held c) (ch_acc c) (ch_del c)"

lemma chan_step_inv:
  assumes "chan_step c c'" and inv: "chan_inv c" shows "chan_inv c'"
  using assms(1)
proof (cases rule: chan_step.cases)
  case (accept m q)
  then show ?thesis using mq.holds_push[of "ch_q c" "ch_held c"] inv by (fastforce simp: chan_inv_def)
next
  case (refuse m q)
  then show ?thesis using mq.holds_push[of "ch_q c" "ch_held c" "ch_acc c" "ch_del c" m "- 1" q] inv
    by (simp add: chan_inv_def)
next
  case (get_none q)
  then show ?thesis using mq.holds_get_none inv by (simp add: chan_inv_def)
next
  case (get_some a q)
  then show ?thesis using mq.holds_get_some inv by (simp add: chan_inv_def)
next
  case (pop a m q)
  then have "blk_is (ch_q c) a m" using inv by (auto simp: chan_inv_def mq.holds_def blk_is_def)
  then show ?thesis using pop mq.holds_pop inv by (simp add: chan_inv_def)
qed

lemma chan_reach_inv:
  assumes "mem_head_len < sz" and "sz \<le> MQ_MAX"
  shows "chan_reach sz c \<Longrightarrow> chan_inv c"
proof (induction rule: chan_reach.induct)
  case (start q0 ty pfd q)
  then show ?case using mq_init_rel[OF assms, of q0 ty pfd] by (auto simp: chan_inv_def mq.holds_def)
next
  case (step c c')
  then show ?case using chan_step_inv by blast
qed

section \<open>Properties of the queue\<close>

text \<open>A queue of 64 bytes as \<open>mq_init\<close> leaves it, and a message, for the concrete instances below.\<close>

definition demo_queue :: mem_queue where
  "demo_queue = \<lparr>mq_head = 12, mq_tail = 12, mq_blk_cnt = 0, mq_shm = replicate 64 0, mq_len = 64,
     mq_pipefd = (3, 4), mq_nonblock = True, mq_type = MEM_TYPE_RECV, mq_notes = 0\<rparr>"

definition demo_msg :: msg where
  "demo_msg = (\<lparr>blk_id = 1, blk_fd = 7, blk_type = blk_code BLK_DATA, blk_len = 15\<rparr>, [104, 105])"

lemma demo_queue_init: "mq_init demo_queue 64 MEM_TYPE_RECV (3, 4) True = Inr (0, demo_queue)"
  by (simp add: mq_init_def demo_queue_def mem_head_len_def)

lemma demo_queue_rel: "mq_rel demo_queue []"
  by (simp add: demo_queue_def mq_rel_def mq_wf_def unwrapped_def mem_head_len_def MQ_MAX_def)

lemma demo_msg_valid: "valid_msg demo_msg"
  by (simp add: demo_msg_def valid_msg_def cint_head_def is_cint_def blk_head_len_def MQ_MAX_def)

lemma demo_reach: "chan_reach 64 \<lparr>ch_q = demo_queue, ch_held = None, ch_acc = [], ch_del = []\<rparr>"
  by (rule chan_reach.start[OF demo_queue_init])

lemma demo_push: "\<exists>q. mq_push demo_queue (fst demo_msg) (snd demo_msg) = Inr (0, q) \<and> mq_rel q [demo_msg]"
  using mq_push_pushed[OF demo_queue_rel, of "fst demo_msg" "snd demo_msg"] demo_msg_valid
  by (auto simp: accepts_def pushed_def demo_queue_def demo_msg_def)

text \<open>
  C20: in no interleaving does a call fault: every memory access stays inside the mapping, no
  \<open>int\<close> overflows and both \<open>goto\<close> loops stop, for every message of legal length.
\<close>

theorem chan_no_fault:
  assumes "mem_head_len < sz" and "sz \<le> MQ_MAX" and "chan_reach sz c" and "valid_msg m"
  shows "ok (mq_push (ch_q c) (fst m) (snd m)) \<and> (ch_held c = None \<longrightarrow> ok (mq_get (ch_q c))) \<and>
    (ch_held c \<noteq> None \<longrightarrow> ok (mq_pop (ch_q c)))"
proof -
  have "mq.holds (ch_q c) (ch_held c) (ch_acc c) (ch_del c)"
    using chan_reach_inv[OF assms(1-3)] by (simp add: chan_inv_def)
  note ok = mq.holds_no_fault[OF this]
  show ?thesis using ok(1)[OF assms(4)] ok(2,3) by blast
qed

theorem chan_no_fault_witness:
  "ok (mq_push demo_queue (fst demo_msg) (snd demo_msg)) \<and> ok (mq_get demo_queue)"
  using chan_no_fault[OF _ _ demo_reach demo_msg_valid]
  by (simp add: mem_head_len_def MQ_MAX_def)

text \<open>
  what a push does to a queue that holds \<open>xs\<close>. It is accepted exactly when the block fits
  behind the head with a byte to spare, or (unwrapped) at the start with a byte left in front of
  the tail; then it becomes the last message and one notification is written. Otherwise the call
  returns -1, writes no notification and no message is lost or changed.
\<close>

theorem mq_push_accepts:
  assumes "mq_rel q xs" and "valid_msg (b, d)"
  shows "\<exists>q'. mq_push q b d = Inr (if accepts q b then 0 else - 1, q') \<and>
    mq_rel q' (if accepts q b then xs @ [(b, d)] else xs) \<and>
    mq_notes q' = (if accepts q b then Suc (mq_notes q) else mq_notes q)"
  using mq_push_pushed[OF assms] by (auto simp: pushed_def)

theorem mq_push_accepts_witness:
  "\<exists>q'. mq_push demo_queue (fst demo_msg) (snd demo_msg) = Inr (0, q') \<and>
     mq_rel q' [demo_msg] \<and> mq_notes q' = 1"
  using mq_push_accepts[OF demo_queue_rel, of "fst demo_msg" "snd demo_msg"] demo_msg_valid
  by (auto simp: accepts_def demo_queue_def demo_msg_def)

lemma mq_push_refused_empty:
  assumes r: "mq_rel q []" and v: "valid_msg (b, d)" and f: "mem_head_len + blk_len b < mq_len q"
    and n: "\<not> accepts q b"
  shows "\<exists>q1. mq_push q b d = Inr (- 1, q1) \<and> mq_rel q1 [] \<and> wrapped q1 [] \<and> mq_len q1 = mq_len q"
proof -
  note wf = mq_relD(1)[OF r] and int = mq_push_cint[OF mq_relD(1)[OF r] v]
  have two: "mq_push q b d = mq_push_loop (Suc (Suc 0)) q b d"
    using mq_relD(2)[OF r] by (simp add: mq_push_def numeral_2_eq_2)
  show ?thesis
  proof (cases "wrapped q []")
    case True
    then show ?thesis using r n int two by (auto simp: accepts_def wrapped_def mq_push_round)
  next
    case False
    then have h: "mq_head q = mq_tail q" using r by (auto simp: mq_rel_def unwrapped_def)
    obtain q1 where m: "mark_align q = Inr q1" by (rule mark_align_ok[OF wf])
    have nt: "mem_head_len \<noteq> mq_tail q" using n f h by (auto simp: accepts_def)
    let ?q = "q1\<lparr>mq_head := mem_head_len\<rparr>"
    have w: "mq_rel ?q []" "mq_head q1 = mq_head q" "mq_tail q1 = mq_tail q" "mq_len q1 = mq_len q"
      using wrap_head[OF r _ m] h nt by auto
    have lt: "mem_head_len < mq_tail q" using nt wf by (simp add: mq_wf_def)
    have "mq_push_loop (Suc (Suc 0)) q b d = mq_push_loop (Suc 0) ?q b d"
      using n h nt m int w by (simp add: accepts_def mq_push_round[of "Suc 0"])
    also have "\<dots> = Inr (- 1, ?q)"
      using n h lt w mq_push_cint[OF mq_relD(1)[OF w(1)] v] by (simp add: accepts_def mq_push_round)
    finally show ?thesis using two w lt by (auto simp: mq_rel_def unwrapped_def)
  qed
qed

lemma mq_get_wrapped_empty:
  assumes "mq_rel q []" and "wrapped q []"
  shows "mq_get q = Inr (None, q\<lparr>mq_tail := mem_head_len\<rparr>) \<and> mq_rel (q\<lparr>mq_tail := mem_head_len\<rparr>) [] \<and>
    mq_head q = mem_head_len"
proof -
  have e: "end_mark q (mq_tail q)" "mq_head q < mq_tail q" "mq_head q = mem_head_len"
    using assms(2) by (auto simp: wrapped_def)
  show ?thesis
    using mq_get_end[OF mq_relD(1)[OF assms(1)] e(2,1)] skip_end_mark[OF assms e(1)] e(3)
      mq_get_unwrapped[of "q\<lparr>mq_tail := mem_head_len\<rparr>" "[]"] by simp
qed

text \<open>
  C31: an empty queue that refuses a message which fits the ring accepts it after the consumer's
  next \<open>mq_get\<close>, so the producer is never locked out for good.
\<close>

theorem mq_empty_retry:
  assumes "mq_rel q []" and v: "valid_msg (b, d)" and f: "mem_head_len + blk_len b < mq_len q"
  shows "\<exists>r q1. mq_push q b d = Inr (r, q1) \<and>
    (r = 0 \<or> (\<exists>q2 q3. mq_get q1 = Inr (None, q2) \<and> mq_push q2 b d = Inr (0, q3) \<and> mq_rel q3 [(b, d)]))"
proof (cases "accepts q b")
  case True
  then show ?thesis using mq_push_pushed[OF assms(1) v] by auto
next
  case False
  then obtain q1 where q1: "mq_push q b d = Inr (- 1, q1)" "mq_rel q1 []" "wrapped q1 []"
    "mq_len q1 = mq_len q" using mq_push_refused_empty[OF assms False] by blast
  let ?q = "q1\<lparr>mq_tail := mem_head_len\<rparr>"
  have g: "mq_get q1 = Inr (None, ?q)" "mq_rel ?q []" "mq_head q1 = mem_head_len"
    using mq_get_wrapped_empty[OF q1(2,3)] by auto
  then have "accepts ?q b" using f q1(4) by (simp add: accepts_def)
  then have "\<exists>q3. mq_push ?q b d = Inr (0, q3) \<and> mq_rel q3 [(b, d)]"
    using mq_push_pushed[OF g(2) v] by (auto simp: pushed_def)
  then show ?thesis using q1(1) g(1) by blast
qed

text \<open>The queue of 64 bytes with head and tail both at 45, as after one message of 33 bytes.\<close>

definition demo_mid :: mem_queue where
  "demo_mid = demo_queue\<lparr>mq_head := 45, mq_tail := 45\<rparr>"

definition demo_big :: msg where
  "demo_big = (\<lparr>blk_id = 1, blk_fd = 7, blk_type = blk_code BLK_DATA, blk_len = 33\<rparr>, replicate 20 65)"

lemma demo_mid_rel: "mq_rel demo_mid []"
  by (simp add: demo_mid_def demo_queue_def mq_rel_def mq_wf_def unwrapped_def mem_head_len_def MQ_MAX_def)

lemma demo_big_valid: "valid_msg demo_big"
  by (simp add: demo_big_def valid_msg_def cint_head_def is_cint_def blk_head_len_def MQ_MAX_def)

theorem mq_empty_retry_witness:
  "\<exists>r q1. mq_push demo_mid (fst demo_big) (snd demo_big) = Inr (r, q1) \<and>
    (r = 0 \<or> (\<exists>q2 q3. mq_get q1 = Inr (None, q2) \<and>
       mq_push q2 (fst demo_big) (snd demo_big) = Inr (0, q3) \<and> mq_rel q3 [demo_big]))"
  using mq_empty_retry[OF demo_mid_rel, of "fst demo_big" "snd demo_big"] demo_big_valid
  by (simp add: demo_mid_def demo_queue_def demo_big_def mem_head_len_def)

text \<open>
  Such a refusal happens: a queue with no message in it returns -1 for a block of 33 bytes
  although the ring has room for 51, because the head stands in the middle.
\<close>

theorem mq_push_refuses_when_empty:
  "mq_rel demo_mid [] \<and> valid_msg demo_big \<and> mem_head_len + blk_len (fst demo_big) < mq_len demo_mid \<and>
   (\<exists>q'. mq_push demo_mid (fst demo_big) (snd demo_big) = Inr (- 1, q'))"
  using demo_mid_rel demo_big_valid mq_push_pushed[OF demo_mid_rel, of "fst demo_big" "snd demo_big"]
  by (auto simp: accepts_def demo_mid_def demo_queue_def demo_big_def mem_head_len_def)

text \<open>
  No block write reaches the queue header: the first 12 bytes of the mapping are as before.
\<close>

theorem mq_push_keeps_header_bytes:
  assumes "mq_rel q xs" and "valid_msg (b, d)" and "mq_push q b d = Inr (r, q')"
  shows "load (mq_shm q') 0 mem_head_len = load (mq_shm q) 0 mem_head_len"
  using mq_push_pushed[OF assms(1,2)] assms(3) by (auto simp: pushed_def)

theorem mq_push_keeps_header_bytes_witness:
  "\<exists>q'. mq_push demo_queue (fst demo_msg) (snd demo_msg) = Inr (0, q') \<and>
     load (mq_shm q') 0 mem_head_len = load (mq_shm demo_queue) 0 mem_head_len"
  using demo_push mq_push_keeps_header_bytes[OF demo_queue_rel, of "fst demo_msg" "snd demo_msg"]
    demo_msg_valid by auto

end
