(* ===== verification/Tcp_IO.thy ===== *)
theory Tcp_IO
  imports Prelude
begin

text \<open>
  The socket helpers of \<^verbatim>\<open>net_util.c\<close>: receiving and sending a number of bytes, accepting,
  listening and connecting. What the kernel answers is an argument: the list of the results of the
  successive system calls, consumed in order. A list that ends before the code stops calling is
  the fault \<open>Exhausted\<close>, so a result \<open>Inr\<close> is a run that returned.
\<close>

section \<open>Answers of the kernel\<close>

datatype errno = EINTR | EAGAIN | EWOULDBLOCK | EOTHER

text \<open>\<open>recv\<close>: the bytes delivered (none: the peer has closed) or -1 with an error.\<close>

datatype recv_ans = RData "byte list" | RErr errno

text \<open>\<open>send\<close>: the number of bytes the kernel took or -1 with an error.\<close>

datatype send_ans = SDone nat | SErr errno

text \<open>\<open>accept\<close>: a descriptor with the peer's address and port, or -1 with an error.\<close>

datatype accept_ans = ADone int "32 word" "16 word" | AErr errno

section \<open>safe_tcp_recv_n\<close>

text \<open>
  \<open>got\<close> is what has been stored at \<open>buf\<close> so far; the result is the return value, all the bytes
  stored at \<open>buf\<close>, and the answers not used. An answer longer than the room asked for is no
  answer of \<open>recv\<close>.
\<close>

fun recv_loop :: "int \<Rightarrow> byte list \<Rightarrow> recv_ans list \<Rightarrow> (int \<times> byte list \<times> recv_ans list) res" where
  "recv_loop n got [] =
     (if int (length got) < n then Inl Exhausted else Inr (int (length got), got, []))"
| "recv_loop n got (a # rest) =
     (if int (length got) < n then
        (case a of
           RData d \<Rightarrow>
             if d = [] then Inr (0, got, rest)
             else if n < int (length got + length d) then Inl OutOfBounds
             else recv_loop n (got @ d) rest
         | RErr e \<Rightarrow>
             if e = EINTR then recv_loop n got rest
             else if e = EAGAIN \<or> e = EWOULDBLOCK then Inr (int (length got), got, rest)
             else Inr (- 1, got, rest))
      else Inr (int (length got), got, a # rest))"

definition safe_tcp_recv_n :: "int \<Rightarrow> recv_ans list \<Rightarrow> (int \<times> byte list \<times> recv_ans list) res" where
  "safe_tcp_recv_n n ans = (if n \<le> 0 then Inl AssertFailed else recv_loop n [] ans)"

section \<open>safe_tcp_send_n\<close>

text \<open>\<open>buf\<close> are the bytes still to send; the result carries the bytes that went out.\<close>

fun send_loop :: "byte list \<Rightarrow> byte list \<Rightarrow> send_ans list \<Rightarrow> (int \<times> byte list \<times> send_ans list) res" where
  "send_loop buf sent [] =
     (if buf \<noteq> [] then Inl Exhausted else Inr (int (length sent), sent, []))"
| "send_loop buf sent (a # rest) =
     (if buf \<noteq> [] then
        (case a of
           SDone n \<Rightarrow>
             if length buf < n then Inl OutOfBounds
             else send_loop (drop n buf) (sent @ take n buf) rest
         | SErr e \<Rightarrow>
             if e = EINTR then send_loop buf sent rest
             else if e = EAGAIN \<or> e = EWOULDBLOCK then Inr (int (length sent), sent, rest)
             else Inr (- 1, sent, rest))
      else Inr (int (length sent), sent, a # rest))"

definition safe_tcp_send_n :: "byte list \<Rightarrow> int \<Rightarrow> send_ans list \<Rightarrow> (int \<times> byte list \<times> send_ans list) res" where
  "safe_tcp_send_n buf n ans =
     (if n \<le> 0 then Inl AssertFailed
      else if int (length buf) < n then Inl OutOfBounds
      else send_loop (take (nat n) buf) [] ans)"

text \<open>
  The same call with a null pointer: the kernel refuses to read from it (\<open>EFAULT\<close>, an \<open>EOTHER\<close>) unless
  it answers before it looks at the bytes; it takes none.
\<close>

fun send_null_loop :: "send_ans list \<Rightarrow> (int \<times> byte list \<times> send_ans list) res" where
  "send_null_loop [] = Inl Exhausted"
| "send_null_loop (SDone k # rest) = Inl NullDeref"
| "send_null_loop (SErr e # rest) =
     (if e = EINTR then send_null_loop rest
      else if e = EAGAIN \<or> e = EWOULDBLOCK then Inr (0, [], rest)
      else Inr (- 1, [], rest))"

definition safe_tcp_send_null :: "int \<Rightarrow> send_ans list \<Rightarrow> (int \<times> byte list \<times> send_ans list) res" where
  "safe_tcp_send_null n ans = (if n \<le> 0 then Inl AssertFailed else send_null_loop ans)"

section \<open>safe_tcp_accept\<close>

text \<open>
  \<open>nonblock_ok\<close> is whether \<open>set_io_nonblock\<close> on the new descriptor succeeds; if it does not, the
  descriptor is closed again (the second component of the result is the descriptor closed).
\<close>

fun accept_loop :: "accept_ans list \<Rightarrow> ((int \<times> 32 word \<times> 16 word) option \<times> accept_ans list) res" where
  "accept_loop [] = Inl Exhausted"
| "accept_loop (ADone fd ip port # rest) =
     (if 0 \<le> fd then Inr (Some (fd, ip, port), rest) else Inl OutOfBounds)"
| "accept_loop (AErr e # rest) = (if e = EINTR then accept_loop rest else Inr (None, rest))"

definition safe_tcp_accept ::
  "accept_ans list \<Rightarrow> bool \<Rightarrow> bool \<Rightarrow> (int \<times> (32 word \<times> 16 word) \<times> int list \<times> accept_ans list) res" where
  "safe_tcp_accept ans nonblock nonblock_ok =
     rbind (accept_loop ans) (\<lambda>(r, rest). case r of
       None \<Rightarrow> Inr (- 1, (0, 0), [], rest)
     | Some (newfd, ip, port) \<Rightarrow>
         if nonblock \<and> \<not> nonblock_ok then Inr (- 1, (ip, port), [newfd], rest)
         else Inr (newfd, (ip, port), [], rest))"

section \<open>Socket options and timeouts\<close>

text \<open>C division rounds towards zero.\<close>

definition cquot :: "int \<Rightarrow> int \<Rightarrow> int" where
  "cquot a b = sgn a * sgn b * (\<bar>a\<bar> div \<bar>b\<bar>)"

definition crem :: "int \<Rightarrow> int \<Rightarrow> int" where
  "crem a b = a - b * cquot a b"

text \<open>The \<open>struct timeval\<close> (seconds, microseconds) of a timeout in milliseconds.\<close>

definition timeo_val :: "int \<Rightarrow> int \<times> int" where
  "timeo_val millisec = (cquot millisec 1000, crem millisec 1000 * 1000)"

datatype net_call =
    SetSndTimeo int "int \<times> int"
  | SetRcvTimeo int "int \<times> int"
  | SetSndBuf int int
  | SetRcvBuf int int
  | SetReuseAddr int
  | Bind int "32 word" "16 word"
  | Listen int int
  | Connect int "32 word" "16 word"
  | Close int

definition set_sock_snd_timeo :: "int \<Rightarrow> int \<Rightarrow> net_call" where
  "set_sock_snd_timeo sockfd millisec = SetSndTimeo sockfd (timeo_val millisec)"

definition set_sock_rcv_timeo :: "int \<Rightarrow> int \<Rightarrow> net_call" where
  "set_sock_rcv_timeo sockfd millisec = SetRcvTimeo sockfd (timeo_val millisec)"

definition set_sock_sndbuf_size :: "int \<Rightarrow> int \<Rightarrow> net_call" where
  "set_sock_sndbuf_size sockfd sz = SetSndBuf sockfd sz"

definition set_sock_rcvbuf_size :: "int \<Rightarrow> int \<Rightarrow> net_call" where
  "set_sock_rcvbuf_size sockfd sz = SetRcvBuf sockfd sz"

section \<open>safe_socket_listen\<close>

datatype sock_type = SOCK_STREAM | SOCK_DGRAM

text \<open>What the system calls of one run answer; \<open>True\<close> is success.\<close>

record listen_ans =
  la_socket :: int
  la_reuse :: bool
  la_rcvbuf :: bool
  la_sndbuf :: bool
  la_bind :: bool
  la_listen :: bool

text \<open>
  \<open>inet_pton\<close> is the C library's parser of dotted addresses. Its result is not looked at: the
  address stays 0, which is \<open>INADDR_ANY\<close>, when the text is no address.
\<close>

definition listen_addr :: "(string \<Rightarrow> 32 word option) \<Rightarrow> string option \<Rightarrow> 32 word" where
  "listen_addr inet_pton ipaddr =
     (case ipaddr of None \<Rightarrow> 0 | Some s \<Rightarrow> (case inet_pton s of Some a \<Rightarrow> a | None \<Rightarrow> 0))"

text \<open>The calls made before the first failure, and whether all of them succeeded.\<close>

definition listen_calls ::
  "listen_ans \<Rightarrow> 32 word \<Rightarrow> 16 word \<Rightarrow> sock_type \<Rightarrow> int \<Rightarrow> int \<Rightarrow> net_call list \<times> bool" where
  "listen_calls a addr port stype backlog bufsize =
     (let fd = la_socket a;
          c1 = (if stype \<noteq> SOCK_DGRAM then [SetReuseAddr fd] else []) in
      if stype \<noteq> SOCK_DGRAM \<and> \<not> la_reuse a then (c1, False)
      else let c2 = c1 @ [set_sock_rcvbuf_size fd bufsize] in
      if \<not> la_rcvbuf a then (c2, False)
      else let c3 = c2 @ [set_sock_sndbuf_size fd bufsize] in
      if \<not> la_sndbuf a then (c3, False)
      else let c4 = c3 @ [Bind fd addr port] in
      if \<not> la_bind a then (c4, False)
      else if stype = SOCK_STREAM then (c4 @ [Listen fd backlog], la_listen a)
      else (c4, True))"

definition safe_socket_listen ::
  "(string \<Rightarrow> 32 word option) \<Rightarrow> listen_ans \<Rightarrow> string option \<Rightarrow> 16 word \<Rightarrow> sock_type \<Rightarrow> int \<Rightarrow> int \<Rightarrow>
     (int \<times> net_call list) res" where
  "safe_socket_listen inet_pton a ipaddr port stype backlog bufsize =
     (if \<not> (backlog > 0 \<and> bufsize > 0 \<and> bufsize \<le> 10 * 1024 * 1024) then Inl AssertFailed
      else if la_socket a = - 1 then Inr (- 1, [])
      else (case listen_calls a (listen_addr inet_pton ipaddr) port stype backlog bufsize of
          (cs, True) \<Rightarrow> Inr (la_socket a, cs)
        | (cs, False) \<Rightarrow> Inr (- 1, cs @ [Close (la_socket a)])))"

section \<open>safe_tcp_connect\<close>

definition safe_tcp_connect ::
  "(string \<Rightarrow> 32 word option) \<Rightarrow> int \<Rightarrow> bool \<Rightarrow> string \<Rightarrow> 16 word \<Rightarrow> int \<Rightarrow> int \<Rightarrow> int \<times> net_call list" where
  "safe_tcp_connect inet_pton sockfd connect_ok ipaddr port bufsize timeout =
     (case inet_pton ipaddr of
        None \<Rightarrow> (- 1, [])
      | Some addr \<Rightarrow>
          if sockfd = - 1 then (- 1, [])
          else let c1 = (if timeout > 0 then [set_sock_snd_timeo sockfd timeout,
                                              set_sock_rcv_timeo sockfd timeout] else [])
                      @ [Connect sockfd addr port]
          in if \<not> connect_ok then (- 1, c1 @ [Close sockfd])
             else (sockfd, c1 @ (if bufsize \<noteq> 0 then [set_sock_sndbuf_size sockfd bufsize,
                                                   set_sock_rcvbuf_size sockfd bufsize] else [])))"

section \<open>What the helpers guarantee\<close>

text \<open>The bytes an answer list delivers up to a point, and what the loop has consumed.\<close>

definition recv_bytes :: "recv_ans list \<Rightarrow> byte list" where
  "recv_bytes ans = concat (map (\<lambda>a. case a of RData d \<Rightarrow> d | RErr _ \<Rightarrow> []) ans)"

lemma recv_bytes_simps [simp]:
  "recv_bytes [] = []"
  "recv_bytes (RData d # ans) = d @ recv_bytes ans"
  "recv_bytes (RErr e # ans) = recv_bytes ans"
  by (simp_all add: recv_bytes_def)

lemma recv_loop_result:
  "recv_loop n got ans = Inr (r, bs, rest) \<Longrightarrow> int (length got) \<le> n \<Longrightarrow>
     \<exists>used. ans = used @ rest \<and> bs = got @ recv_bytes used \<and> int (length bs) \<le> n \<and>
       (r = int (length bs) \<or> r = 0 \<or> r = - 1)"
proof (induction ans arbitrary: got)
  case Nil
  then show ?case by (auto split: if_splits)
next
  case (Cons a ans)
  consider "n \<le> int (length got)"
    | d where "int (length got) < n" "a = RData d" "d \<noteq> []" "int (length got + length d) \<le> n"
        "recv_loop n (got @ d) ans = Inr (r, bs, rest)"
    | "int (length got) < n" "a = RErr EINTR" "recv_loop n got ans = Inr (r, bs, rest)"
    | "int (length got) < n" "recv_bytes [a] = []" "bs = got" "rest = ans"
        "r = int (length bs) \<or> r = 0 \<or> r = - 1"
    using Cons.prems by (cases a) (auto split: if_splits)
  then show ?case
  proof cases
    case 1
    then show ?thesis using Cons.prems by (auto intro!: exI[of _ "[]"])
  next
    case (2 d)
    then obtain used where "ans = used @ rest" "bs = (got @ d) @ recv_bytes used" "int (length bs) \<le> n"
      "r = int (length bs) \<or> r = 0 \<or> r = - 1" using Cons.IH[OF 2(5)] by auto
    then show ?thesis using 2(2) by (intro exI[of _ "a # used"]) simp
  next
    case 3
    then obtain used where "ans = used @ rest" "bs = got @ recv_bytes used" "int (length bs) \<le> n"
      "r = int (length bs) \<or> r = 0 \<or> r = - 1" using Cons.IH[OF 3(3)] by auto
    then show ?thesis using 3(2) by (intro exI[of _ "a # used"]) simp
  next
    case 4
    then show ?thesis using Cons.prems by (intro exI[of _ "[a]"]) (auto simp: recv_bytes_def)
  qed
qed

lemma send_loop_result:
  "send_loop buf sent ans = Inr (r, out, rest) \<Longrightarrow>
     \<exists>k. out = sent @ take k buf \<and> k \<le> length buf \<and> (r = int (length out) \<or> r = - 1)"
proof (induction ans arbitrary: buf sent)
  case Nil
  then show ?case by (auto split: if_splits)
next
  case (Cons a ans)
  consider "buf = []"
    | n where "a = SDone n" "n \<le> length buf" "send_loop (drop n buf) (sent @ take n buf) ans = Inr (r, out, rest)"
    | "send_loop buf sent ans = Inr (r, out, rest)"
    | "out = sent" "r = int (length out) \<or> r = - 1"
    using Cons.prems by (cases a) (auto split: if_splits)
  then show ?case
  proof cases
    case 1
    then show ?thesis using Cons.prems by auto
  next
    case (2 n)
    obtain k where k: "out = (sent @ take n buf) @ take k (drop n buf)" "k \<le> length (drop n buf)"
      "r = int (length out) \<or> r = - 1" using Cons.IH[OF 2(3)] by blast
    then have "out = sent @ take (n + k) buf" by (simp add: take_add)
    then show ?thesis using k 2(2) by (intro exI[of _ "n + k"]) auto
  next
    case 3
    then show ?thesis by (rule Cons.IH)
  next
    case 4
    then show ?thesis by (auto intro: exI[of _ 0])
  qed
qed

text \<open>A short count without an error means that the kernel's buffer is full.\<close>

lemma send_loop_short:
  "send_loop buf sent ans = Inr (r, out, rest) \<Longrightarrow> r \<noteq> - 1 \<Longrightarrow>
     r < int (length sent + length buf) \<Longrightarrow> SErr EAGAIN \<in> set ans \<or> SErr EWOULDBLOCK \<in> set ans"
proof (induction ans arbitrary: buf sent)
  case (Cons a ans)
  show ?case
  proof (cases a)
    case (SDone n)
    then show ?thesis using Cons.prems Cons.IH[of "drop n buf" "sent @ take n buf"] by (auto split: if_splits)
  next
    case (SErr e)
    then show ?thesis using Cons.prems Cons.IH[of buf sent] by (auto split: if_splits)
  qed
qed (auto split: if_splits)

end
