(* ===== verification/Net_State.thy ===== *)
theory Net_State
  imports Mem_Queue_Chan Tcp_IO
begin

text \<open>
  The state of one process of the server (\<^verbatim>\<open>net_util.h\<close>, \<^verbatim>\<open>fds.h\<close>, \<^verbatim>\<open>global.c\<close>): the table of
  connections with their buffers, the epoll bookkeeping, the workers' queues, and the interfaces to
  code that is not part of the repository, which are arguments of the model: the intrusive lists of
  libnanc, the hash tables of GLib and the business library loaded at run time (\<open>so\<close>).
\<close>

section \<open>Interfaces\<close>

text \<open>
  \<open>libnanc/list.h\<close>: a \<open>list_head_t\<close> is the head of one of the two lists or the node in an entry of
  the descriptor table; \<open>'l\<close> is the state of all the links. \<open>nl_items h\<close> are the nodes
  \<open>list_for_each_entry_safe\<close> visits from \<open>h\<close> when the body removes at most the node it is at.
\<close>

datatype lnode = Read_head | Close_head | Node int

record 'l nlist =
  nl_init :: "lnode \<Rightarrow> 'l \<Rightarrow> 'l"
  nl_add_tail :: "lnode \<Rightarrow> lnode \<Rightarrow> 'l \<Rightarrow> 'l"
  nl_del_init :: "lnode \<Rightarrow> 'l \<Rightarrow> 'l"
  nl_items :: "lnode \<Rightarrow> 'l \<Rightarrow> lnode list"

definition list_head :: "lnode \<Rightarrow> bool" where
  "list_head h \<longleftrightarrow> h = Read_head \<or> h = Close_head"

definition nlist_laws :: "'l nlist \<Rightarrow> bool" where
  "nlist_laws L \<longleftrightarrow>
     (\<forall>h h' l. list_head h \<longrightarrow> list_head h' \<longrightarrow>
        nl_items L h' (nl_init L h l) = (if h' = h then [] else nl_items L h' l)) \<and>
     (\<forall>h h' fd l. list_head h \<longrightarrow> list_head h' \<longrightarrow>
        Node fd \<notin> set (nl_items L Read_head l) \<union> set (nl_items L Close_head l) \<longrightarrow>
        nl_items L h' (nl_add_tail L (Node fd) h l)
          = (if h' = h then nl_items L h' l @ [Node fd] else nl_items L h' l)) \<and>
     (\<forall>h fd l. list_head h \<longrightarrow>
        nl_items L h (nl_del_init L (Node fd) l) = removeAll (Node fd) (nl_items L h l))"

text \<open>GLib's hash tables, with the comparison of keys by value that the program asks for.\<close>

record ('h, 'k, 'v) ghash =
  gh_new :: 'h
  gh_lookup :: "'h \<Rightarrow> 'k \<Rightarrow> 'v option"
  gh_insert :: "'h \<Rightarrow> 'k \<Rightarrow> 'v \<Rightarrow> 'h"
  gh_remove :: "'h \<Rightarrow> 'k \<Rightarrow> 'h"

definition ghash_laws :: "('h, 'k, 'v) ghash \<Rightarrow> bool" where
  "ghash_laws G \<longleftrightarrow>
     (\<forall>k. gh_lookup G (gh_new G) k = None) \<and>
     (\<forall>h k v k'. gh_lookup G (gh_insert G h k v) k' = (if k' = k then Some v else gh_lookup G h k')) \<and>
     (\<forall>h k k'. gh_lookup G (gh_remove G h k) k' = (if k' = k then None else gh_lookup G h k'))"

lemma ghash_simps:
  assumes "ghash_laws G"
  shows "gh_lookup G (gh_new G) k = None"
    "gh_lookup G (gh_insert G h k v) k' = (if k' = k then Some v else gh_lookup G h k')"
    "gh_lookup G (gh_remove G h k) k' = (if k' = k then None else gh_lookup G h k')"
  using assms by (simp_all add: ghash_laws_def)

text \<open>Concrete instances, for the examples: lists of nodes, and maps.\<close>

definition demo_nlist :: "(lnode \<Rightarrow> lnode list) nlist" where
  "demo_nlist = \<lparr>nl_init = (\<lambda>h l. l(h := [])), nl_add_tail = (\<lambda>x h l. l(h := l h @ [x])),
     nl_del_init = (\<lambda>x l h. removeAll x (l h)), nl_items = (\<lambda>h l. l h)\<rparr>"

definition demo_ghash :: "('k \<rightharpoonup> 'v, 'k, 'v) ghash" where
  "demo_ghash = \<lparr>gh_new = Map.empty, gh_lookup = (\<lambda>h k. h k), gh_insert = (\<lambda>h k v. h(k \<mapsto> v)),
     gh_remove = (\<lambda>h k. h(k := None))\<rparr>"

lemma demo_nlist_laws: "nlist_laws demo_nlist"
  by (auto simp: nlist_laws_def demo_nlist_def)

lemma demo_ghash_laws: "ghash_laws demo_ghash"
  by (simp add: ghash_laws_def demo_ghash_def)

section \<open>Data\<close>

datatype fd_type = fd_type_listen | fd_type_connect | fd_type_mcast | fd_type_pipe | fd_type_cli
  | fd_type_svr | fd_type_null

definition CACHE_READ :: byte where "CACHE_READ = 1"
definition CACHE_CLOSE :: byte where "CACHE_CLOSE = 2"

text \<open>
  A buffer pointer is the list of the bytes allocated, \<open>None\<close> for the null pointer; \<open>slen\<close> and
  \<open>rlen\<close> are the numbers of bytes in use.
\<close>

record fd_buff =
  slen :: int
  rlen :: int
  sbf :: "byte list option"
  rbf :: "byte list option"
  msglen :: int
  sbf_size :: int

record fd_addr =
  addr_ip :: "32 word"
  addr_port :: "16 word"

record fd_wrap =
  w_type :: fd_type
  w_fd :: int
  w_idx :: int
  w_flag :: byte
  w_buff :: fd_buff
  w_addr :: fd_addr

record svr_setting =
  nr_max_event :: int
  nr_max_fd :: int
  mem_queue_len :: int
  max_msg_len :: int
  max_buf_len :: int
  srv_name :: string
  mcast_msg_len :: int
  raw_buf_len :: int
  text_so :: string
  data_so :: string
  log_level :: byte
  log_maxfiles :: "32 word"
  log_size :: "32 word"
  log_dir :: string
  mcast_ip :: string
  mcast_port :: "16 word"
  mcast_out_ip :: string

record work =
  wk_id :: "32 word"
  wk_idx :: "16 word"
  wk_ip :: string
  wk_port :: "16 word"
  wk_proto_type :: byte
  wk_rq :: mem_queue
  wk_sq :: mem_queue
  next_syn_addr :: "32 word"
  next_del_expire_addr :: "32 word"

text \<open>Session of a client in a worker (\<open>fdsess_t\<close>); all fields are \<open>int\<close>.\<close>

record fdsess =
  fs_fd :: int
  fs_id :: int
  fs_ip :: int
  fs_port :: int

text \<open>System calls with an outside effect, in the order they are made.\<close>

datatype effect =
    ESend int "byte list"
  | EClose int
  | ENonblock int
  | ECtlAdd int "32 word"
  | ECtlMod int "32 word"
  | ECtlDel int
  | EMmap int
  | EMunmap int
  | ERead int int
  | EKill int int

text \<open>
  One process. \<open>p_recvs\<close>, \<open>p_sends\<close>, \<open>p_accepts\<close> are the answers of the kernel still to come,
  \<open>p_ctls\<close> those of \<open>epoll_ctl\<close> (\<open>EPOLL_CTL_ADD\<close>) and \<open>p_allocs\<close> those of \<open>malloc\<close>, \<open>realloc\<close> and
  \<open>mmap\<close>, \<open>True\<close> for success.
\<close>

record ('l, 'h) proc =
  p_epfd :: int
  p_fds :: "fd_wrap list"
  p_maxfd :: int
  p_seq :: "32 word"
  p_count :: "32 word"
  p_links :: 'l
  p_works :: "work list"
  p_nr_used :: int
  p_setting :: svr_setting
  p_sess :: 'h
  p_work_idx :: int
  p_stop :: int
  p_chl_pids :: "int list"
  p_recvs :: "recv_ans list"
  p_sends :: "send_ans list"
  p_accepts :: "accept_ans list"
  p_ctls :: "bool list"
  p_allocs :: "bool list"
  p_trace :: "effect list"

text \<open>
  \<open>serv_if_t\<close>: the functions of the business library. They may change the process (by
  \<open>send_to_cli\<close>, for example), so they take and return its state; \<open>None\<close> is a null pointer where
  the code tests for one. \<open>get_msg_len\<close> only computes.
\<close>

record 'w serv_if =
  so_handle_timer :: "('w \<Rightarrow> 'w res) option"
  so_proc_cli_msg :: "byte list \<Rightarrow> int \<Rightarrow> fdsess \<Rightarrow> 'w \<Rightarrow> (int \<times> 'w) res"
  so_proc_serv_msg :: "int \<Rightarrow> byte list \<Rightarrow> int \<Rightarrow> 'w \<Rightarrow> 'w res"
  so_on_cli_closed :: "int \<Rightarrow> 'w \<Rightarrow> 'w res"
  so_on_serv_closed :: "(int \<Rightarrow> 'w \<Rightarrow> 'w res) option"
  so_get_msg_len :: "int \<Rightarrow> byte list \<Rightarrow> int \<Rightarrow> int \<Rightarrow> int res"

section \<open>Access to the state\<close>

definition fdw :: "('l, 'h) proc \<Rightarrow> int \<Rightarrow> fd_wrap res" where
  "fdw p fd = (if 0 \<le> fd \<and> fd < int (length (p_fds p)) then Inr (p_fds p ! nat fd) else Inl OutOfBounds)"

definition upd_fdw :: "int \<Rightarrow> (fd_wrap \<Rightarrow> fd_wrap) \<Rightarrow> ('l, 'h) proc \<Rightarrow> ('l, 'h) proc res" where
  "upd_fdw fd f p = rbind (fdw p fd) (\<lambda>w. Inr (p\<lparr>p_fds := (p_fds p)[nat fd := f w]\<rparr>))"

definition upd_buff :: "int \<Rightarrow> (fd_buff \<Rightarrow> fd_buff) \<Rightarrow> ('l, 'h) proc \<Rightarrow> ('l, 'h) proc res" where
  "upd_buff fd f p = upd_fdw fd (\<lambda>w. w\<lparr>w_buff := f (w_buff w)\<rparr>) p"

definition eff :: "effect \<Rightarrow> ('l, 'h) proc \<Rightarrow> ('l, 'h) proc" where
  "eff e p = p\<lparr>p_trace := p_trace p @ [e]\<rparr>"

definition get_work :: "('l, 'h) proc \<Rightarrow> int \<Rightarrow> work res" where
  "get_work p i = (if 0 \<le> i \<and> i < int (length (p_works p)) then Inr (p_works p ! nat i) else Inl OutOfBounds)"

definition upd_work :: "int \<Rightarrow> (work \<Rightarrow> work) \<Rightarrow> ('l, 'h) proc \<Rightarrow> ('l, 'h) proc res" where
  "upd_work i f p = rbind (get_work p i) (\<lambda>k. Inr (p\<lparr>p_works := (p_works p)[nat i := f k]\<rparr>))"

text \<open>\<open>mq_push\<close> on the receive and on the send queue of worker \<open>i\<close>.\<close>

definition push_rq :: "int \<Rightarrow> mem_block \<Rightarrow> byte list \<Rightarrow> ('l, 'h) proc \<Rightarrow> (int \<times> ('l, 'h) proc) res" where
  "push_rq i b d p = rbind (get_work p i) (\<lambda>k. rbind (mq_push (wk_rq k) b d) (\<lambda>(r, q).
     rbind (upd_work i (\<lambda>k. k\<lparr>wk_rq := q\<rparr>) p) (\<lambda>p1. Inr (r, p1))))"

definition push_sq :: "int \<Rightarrow> mem_block \<Rightarrow> byte list \<Rightarrow> ('l, 'h) proc \<Rightarrow> (int \<times> ('l, 'h) proc) res" where
  "push_sq i b d p = rbind (get_work p i) (\<lambda>k. rbind (mq_push (wk_sq k) b d) (\<lambda>(r, q).
     rbind (upd_work i (\<lambda>k. k\<lparr>wk_sq := q\<rparr>) p) (\<lambda>p1. Inr (r, p1))))"

definition next_ctl :: "('l, 'h) proc \<Rightarrow> (bool \<times> ('l, 'h) proc) res" where
  "next_ctl p = (case p_ctls p of [] \<Rightarrow> Inl Exhausted | r # rs \<Rightarrow> Inr (r, p\<lparr>p_ctls := rs\<rparr>))"

definition next_alloc :: "('l, 'h) proc \<Rightarrow> (bool \<times> ('l, 'h) proc) res" where
  "next_alloc p = (case p_allocs p of [] \<Rightarrow> Inl Exhausted | r # rs \<Rightarrow> Inr (r, p\<lparr>p_allocs := rs\<rparr>))"

section \<open>Rules for the access functions\<close>

definition valid_fd :: "('l, 'h) proc \<Rightarrow> int \<Rightarrow> bool" where
  "valid_fd p fd \<longleftrightarrow> 0 \<le> fd \<and> fd < int (length (p_fds p))"

abbreviation wrap_of :: "('l, 'h) proc \<Rightarrow> int \<Rightarrow> fd_wrap" where
  "wrap_of p fd \<equiv> p_fds p ! nat fd"

abbreviation buff_of :: "('l, 'h) proc \<Rightarrow> int \<Rightarrow> fd_buff" where
  "buff_of p fd \<equiv> w_buff (wrap_of p fd)"

lemma fdw_ok [simp]: "valid_fd p fd \<Longrightarrow> fdw p fd = Inr (wrap_of p fd)"
  by (simp add: fdw_def valid_fd_def)

lemma fdw_Inr_iff: "fdw p fd = Inr w \<longleftrightarrow> valid_fd p fd \<and> w = wrap_of p fd"
  by (auto simp: fdw_def valid_fd_def)

lemma upd_fdw_ok [simp]:
  "valid_fd p fd \<Longrightarrow> upd_fdw fd f p = Inr (p\<lparr>p_fds := (p_fds p)[nat fd := f (wrap_of p fd)]\<rparr>)"
  by (simp add: upd_fdw_def)

lemma upd_buff_ok [simp]:
  "valid_fd p fd \<Longrightarrow> upd_buff fd f p = Inr (p\<lparr>p_fds := (p_fds p)[nat fd :=
     (wrap_of p fd)\<lparr>w_buff := f (buff_of p fd)\<rparr>]\<rparr>)"
  by (simp add: upd_buff_def)

lemma valid_fd_nat: "valid_fd p fd \<Longrightarrow> nat fd < length (p_fds p)"
  by (auto simp: valid_fd_def)

lemma valid_fd_update [simp]:
  "valid_fd (q\<lparr>p_fds := (p_fds p)[i := w]\<rparr>) fd = valid_fd p fd"
  "valid_fd (p\<lparr>p_count := n\<rparr>) fd = valid_fd p fd"
  "valid_fd (p\<lparr>p_maxfd := m\<rparr>) fd = valid_fd p fd"
  "valid_fd (p\<lparr>p_sess := h\<rparr>) fd = valid_fd p fd"
  "valid_fd (p\<lparr>p_sends := ss\<rparr>) fd = valid_fd p fd"
  "valid_fd (p\<lparr>p_recvs := rs\<rparr>) fd = valid_fd p fd"
  "valid_fd (p\<lparr>p_allocs := as\<rparr>) fd = valid_fd p fd"
  "valid_fd (p\<lparr>p_works := ws\<rparr>) fd = valid_fd p fd"
  "valid_fd (p\<lparr>p_links := l\<rparr>) fd = valid_fd p fd"
  "valid_fd (p\<lparr>p_trace := t\<rparr>) fd = valid_fd p fd"
  "valid_fd (eff e p) fd = valid_fd p fd"
  by (simp_all add: valid_fd_def eff_def)

lemma eff_simps [simp]:
  "p_fds (eff e p) = p_fds p" "p_works (eff e p) = p_works p" "p_trace (eff e p) = p_trace p @ [e]"
  "p_links (eff e p) = p_links p" "p_setting (eff e p) = p_setting p" "p_sends (eff e p) = p_sends p"
  "p_recvs (eff e p) = p_recvs p" "p_allocs (eff e p) = p_allocs p" "p_sess (eff e p) = p_sess p"
  "p_maxfd (eff e p) = p_maxfd p" "p_count (eff e p) = p_count p" "p_seq (eff e p) = p_seq p"
  "p_ctls (eff e p) = p_ctls p" "p_accepts (eff e p) = p_accepts p"
  "p_work_idx (eff e p) = p_work_idx p" "p_nr_used (eff e p) = p_nr_used p"
  by (simp_all add: eff_def)

section \<open>An example process\<close>

text \<open>
  For the concrete instances of the properties: buffers of 16 bytes, one worker with two queues of
  64 bytes, the connections given.
\<close>

definition demo_setting :: svr_setting where
  "demo_setting = \<lparr>nr_max_event = 10, nr_max_fd = 8, mem_queue_len = 64, max_msg_len = 8,
     max_buf_len = 16, srv_name = ''demo'', mcast_msg_len = 0, raw_buf_len = 16, text_so = ''t.so'',
     data_so = ''d.so'', log_level = 0, log_maxfiles = 1, log_size = 1, log_dir = ''log'',
     mcast_ip = ''239.0.0.2'', mcast_port = 8888, mcast_out_ip = ''127.0.0.1''\<rparr>"

definition demo_buff :: fd_buff where
  "demo_buff = \<lparr>slen = 0, rlen = 0, sbf = None, rbf = None, msglen = 0, sbf_size = 0\<rparr>"

definition demo_wrap :: "fd_type \<Rightarrow> int \<Rightarrow> fd_buff \<Rightarrow> fd_wrap" where
  "demo_wrap ty fd b = \<lparr>w_type = ty, w_fd = fd, w_idx = 0, w_flag = 0, w_buff = b,
     w_addr = \<lparr>addr_ip = 0, addr_port = 0\<rparr>\<rparr>"

definition demo_work :: work where
  "demo_work = \<lparr>wk_id = 1, wk_idx = 0, wk_ip = ''127.0.0.1'', wk_port = 7001, wk_proto_type = 0,
     wk_rq = demo_queue, wk_sq = demo_queue, next_syn_addr = 0, next_del_expire_addr = 0\<rparr>"

definition demo_proc :: "fd_wrap list \<Rightarrow> (lnode \<Rightarrow> lnode list, int \<rightharpoonup> fdsess) proc" where
  "demo_proc ws = \<lparr>p_epfd = 9, p_fds = ws, p_maxfd = int (length ws) - 1, p_seq = 0, p_count = 0,
     p_links = (\<lambda>_. []), p_works = [demo_work], p_nr_used = 1, p_setting = demo_setting,
     p_sess = Map.empty, p_work_idx = 0, p_stop = 0, p_chl_pids = [100], p_recvs = [], p_sends = [],
     p_accepts = [], p_ctls = [], p_allocs = [], p_trace = []\<rparr>"

lemma demo_proc_simps [simp]:
  "p_fds (demo_proc ws) = ws" "p_links (demo_proc ws) = (\<lambda>_. [])" "p_works (demo_proc ws) = [demo_work]"
  "p_setting (demo_proc ws) = demo_setting" "p_trace (demo_proc ws) = []" "p_sess (demo_proc ws) = Map.empty"
  "p_nr_used (demo_proc ws) = 1" "p_chl_pids (demo_proc ws) = [100]"
  "p_maxfd (demo_proc ws) = int (length ws) - 1"
  "valid_fd (demo_proc ws) fd \<longleftrightarrow> 0 \<le> fd \<and> fd < int (length ws)"
  by (simp_all add: demo_proc_def valid_fd_def)

lemma demo_wrap_simps [simp]:
  "w_flag (demo_wrap ty fd b) = 0" "w_buff (demo_wrap ty fd b) = b" "w_type (demo_wrap ty fd b) = ty"
  "w_idx (demo_wrap ty fd b) = 0" "w_fd (demo_wrap ty fd b) = fd"
  by (simp_all add: demo_wrap_def)

end
