(* ===== verification/Net_Util.thy ===== *)
theory Net_Util
  imports Net_State
begin

text \<open>
  The connection table of \<^verbatim>\<open>net_util.c\<close>: registering a descriptor, the lists of readable and
  closing connections, the send and receive buffers, and closing.
\<close>

section \<open>Registering a descriptor\<close>

definition EPOLLIN :: "32 word" where "EPOLLIN = 1"
definition EPOLLOUT :: "32 word" where "EPOLLOUT = 4"
definition EPOLLHUP :: "32 word" where "EPOLLHUP = 16"
definition EPOLLRDHUP :: "32 word" where "EPOLLRDHUP = 8192"
definition EPOLLET :: "32 word" where "EPOLLET = 2147483648"

definition mod_fd_to_epinfo :: "int \<Rightarrow> 32 word \<Rightarrow> ('l, 'h) proc \<Rightarrow> ('l, 'h) proc" where
  "mod_fd_to_epinfo fd events p = eff (ECtlMod fd (or events EPOLLET)) p"

definition rm_fd_from_epinfo :: "int \<Rightarrow> ('l, 'h) proc \<Rightarrow> ('l, 'h) proc" where
  "rm_fd_from_epinfo fd p = eff (ECtlDel fd) p"

definition reg_events :: "fd_type \<Rightarrow> 32 word" where
  "reg_events ty = (case ty of
      fd_type_listen \<Rightarrow> or EPOLLIN EPOLLET
    | fd_type_pipe \<Rightarrow> or EPOLLIN EPOLLET
    | fd_type_cli \<Rightarrow> or EPOLLIN EPOLLET
    | fd_type_svr \<Rightarrow> or EPOLLIN EPOLLET
    | _ \<Rightarrow> or (or EPOLLIN EPOLLOUT) EPOLLET)"

text \<open>The buffer of a new entry; the old buffers of the entry, if any, are forgotten, not freed.\<close>

definition empty_buff :: fd_buff where
  "empty_buff = \<lparr>slen = 0, rlen = 0, sbf = None, rbf = None, msglen = 0, sbf_size = 0\<rparr>"

definition add_fdinfo_to_epinfo ::
  "int \<Rightarrow> int \<Rightarrow> fd_type \<Rightarrow> 32 word \<Rightarrow> 16 word \<Rightarrow> ('l, 'h) proc \<Rightarrow> (int \<times> ('l, 'h) proc) res" where
  "add_fdinfo_to_epinfo fd idx ty ip port p =
     rbind (next_ctl (eff (ECtlAdd fd (reg_events ty)) (eff (ENonblock fd) p))) (\<lambda>(ctl_ok, p1).
     if \<not> ctl_ok then Inr (- 1, p1)
     else rbind (upd_fdw fd (\<lambda>w. w\<lparr>w_type := ty, w_idx := idx, w_fd := fd,
              w_addr := \<lparr>addr_ip = ip, addr_port = port\<rparr>, w_flag := 0, w_buff := empty_buff\<rparr>) p1) (\<lambda>p2.
       Inr (0, p2\<lparr>p_seq := p_seq p2 + 1, p_maxfd := (if p_maxfd p2 < fd then fd else p_maxfd p2)\<rparr>)))"

section \<open>The lists of readable and of closing connections\<close>

definition do_add_to_readlist :: "'l nlist \<Rightarrow> int \<Rightarrow> ('l, 'h) proc \<Rightarrow> ('l, 'h) proc res" where
  "do_add_to_readlist L fd p = rbind (fdw p fd) (\<lambda>w.
     if w_flag w = 0
     then upd_fdw fd (\<lambda>w. w\<lparr>w_flag := or (w_flag w) CACHE_READ\<rparr>)
            (p\<lparr>p_links := nl_add_tail L (Node fd) Read_head (p_links p)\<rparr>)
     else Inr p)"

definition do_del_from_readlist :: "'l nlist \<Rightarrow> int \<Rightarrow> ('l, 'h) proc \<Rightarrow> ('l, 'h) proc res" where
  "do_del_from_readlist L fd p = rbind (fdw p fd) (\<lambda>w.
     if and (w_flag w) CACHE_READ \<noteq> 0
     then upd_fdw fd (\<lambda>w. w\<lparr>w_flag := 0\<rparr>) (p\<lparr>p_links := nl_del_init L (Node fd) (p_links p)\<rparr>)
     else Inr p)"

definition do_add_to_closelist :: "'l nlist \<Rightarrow> int \<Rightarrow> ('l, 'h) proc \<Rightarrow> ('l, 'h) proc res" where
  "do_add_to_closelist L fd p = rbind (do_del_from_readlist L fd p) (\<lambda>p1. rbind (fdw p1 fd) (\<lambda>w.
     if and (w_flag w) CACHE_CLOSE = 0
     then upd_fdw fd (\<lambda>w. w\<lparr>w_flag := or (w_flag w) CACHE_CLOSE\<rparr>)
            (p1\<lparr>p_links := nl_add_tail L (Node fd) Close_head (p_links p1)\<rparr>)
     else Inr p1))"

definition do_del_from_closelist :: "'l nlist \<Rightarrow> int \<Rightarrow> ('l, 'h) proc \<Rightarrow> ('l, 'h) proc res" where
  "do_del_from_closelist L fd p = rbind (fdw p fd) (\<lambda>w.
     if and (w_flag w) CACHE_CLOSE \<noteq> 0
     then upd_fdw fd (\<lambda>w. w\<lparr>w_flag := 0\<rparr>) (p\<lparr>p_links := nl_del_init L (Node fd) (p_links p)\<rparr>)
     else Inr p)"

section \<open>Buffers\<close>

text \<open>\<open>free_buff\<close>: \<open>munmap\<close> of the receive buffer is given \<open>max_msg_len\<close>.\<close>

definition free_buff :: "int \<Rightarrow> ('l, 'h) proc \<Rightarrow> ('l, 'h) proc res" where
  "free_buff fd p = rbind (fdw p fd) (\<lambda>w.
     rbind (upd_buff fd (\<lambda>_. empty_buff) p) (\<lambda>p1.
       Inr (if rbf (w_buff w) \<noteq> None then eff (EMunmap (max_msg_len (p_setting p))) p1 else p1)))"

text \<open>\<open>memmove(bf, bf + k, n)\<close> inside one buffer.\<close>

definition shift_down :: "byte list \<Rightarrow> int \<Rightarrow> int \<Rightarrow> byte list" where
  "shift_down bf k n = take (nat n) (drop (nat k) bf) @ drop (nat n) bf"

definition do_fd_write :: "int \<Rightarrow> ('l, 'h) proc \<Rightarrow> (int \<times> ('l, 'h) proc) res" where
  "do_fd_write fd p = rbind (fdw p fd) (\<lambda>w. let b = w_buff w in
     rbind (case sbf b of
              None \<Rightarrow> safe_tcp_send_null (slen b) (p_sends p)
            | Some bs \<Rightarrow> safe_tcp_send_n bs (slen b) (p_sends p)) (\<lambda>(send_len, out, rest).
     let p1 = eff (ESend fd out) (p\<lparr>p_sends := rest\<rparr>) in
     if send_len > 0 \<and> send_len < slen b then
       rbind (upd_buff fd (\<lambda>b. b\<lparr>sbf := Some (shift_down (the (sbf b)) send_len (slen b - send_len)),
                               slen := slen b - send_len\<rparr>) p1) (\<lambda>p2. Inr (send_len, p2))
     else Inr (send_len, p1)))"

text \<open>The search for a smaller \<open>maxfd\<close>: it stops at the first entry whose type \<^emph>\<open>is\<close> null.\<close>

fun prev_null :: "fd_wrap list \<Rightarrow> nat \<Rightarrow> int" where
  "prev_null fds 0 = - 1"
| "prev_null fds (Suc i) = (if w_type (fds ! i) = fd_type_null then int i else prev_null fds i)"

definition do_fd_close ::
  "'l nlist \<Rightarrow> ('l, 'h) proc serv_if \<Rightarrow> int \<Rightarrow> int \<Rightarrow> ('l, 'h) proc \<Rightarrow> (int \<times> ('l, 'h) proc) res" where
  "do_fd_close L S fd ismaster p = rbind (fdw p fd) (\<lambda>w.
     if w_type w = fd_type_null then Inr (0, p)
     else
       rbind (if ismaster \<noteq> 0 then
                rbind (push_rq (w_idx w) \<lparr>blk_id = w_idx w, blk_fd = fd, blk_type = blk_code BLK_CLOSE,
                                         blk_len = blk_head_len\<rparr> [] p) (\<lambda>(_, p1). Inr p1)
              else (case so_on_serv_closed S of None \<Rightarrow> Inr p | Some f \<Rightarrow> f fd p)) (\<lambda>p1.
       rbind (do_del_from_readlist L fd p1) (\<lambda>p2.
       rbind (do_del_from_closelist L fd p2) (\<lambda>p3.
       rbind (free_buff fd p3) (\<lambda>p4.
       rbind (upd_fdw fd (\<lambda>w. w\<lparr>w_type := fd_type_null\<rparr>) p4) (\<lambda>p5.
       let p6 = (eff (EClose fd) p5)\<lparr>p_count := p_count p5 - 1\<rparr> in
       Inr (0, if p_maxfd p6 = fd then p6\<lparr>p_maxfd := prev_null (p_fds p6) (nat fd)\<rparr> else p6)))))))"

text \<open>
  Queueing what \<open>send\<close> did not take, in \<open>do_fd_send\<close>: room for \<open>n\<close> more bytes, then the copy. \<open>Some r\<close>
  is an early return with that value. The first branch is the code's: after \<open>malloc\<close> it
  returns when the pointer is \<^emph>\<open>not\<close> null.
\<close>

definition grow_sbf :: "int \<Rightarrow> int \<Rightarrow> ('l, 'h) proc \<Rightarrow> (int option \<times> ('l, 'h) proc) res" where
  "grow_sbf fd n p = rbind (fdw p fd) (\<lambda>w. let b = w_buff w in
     case sbf b of
       None \<Rightarrow>
         rbind (next_alloc p) (\<lambda>(alloc_ok, p1).
         if alloc_ok then
           rbind (upd_buff fd (\<lambda>b. b\<lparr>sbf := Some (replicate (nat n) 0)\<rparr>) p1) (\<lambda>p2. Inr (Some (- 1), p2))
         else rbind (upd_buff fd (\<lambda>b. b\<lparr>sbf_size := n\<rparr>) p1) (\<lambda>p2. Inr (None, p2)))
     | Some bs \<Rightarrow>
         rbind (cint (slen b + n)) (\<lambda>need.
         if sbf_size b < need then
           rbind (next_alloc p) (\<lambda>(alloc_ok, p1).
           if alloc_ok then
             rbind (upd_buff fd (\<lambda>b. b\<lparr>sbf := Some (take (nat need) bs @ replicate (nat need - length bs) 0),
                       sbf_size := need\<rparr>) p1) (\<lambda>p2. Inr (None, p2))
           else rbind (upd_buff fd (\<lambda>b. b\<lparr>sbf := None\<rparr>) p1) (\<lambda>p2. Inr (Some (- 1), p2)))
         else Inr (None, p)))"

definition buff_rest ::
  "int \<Rightarrow> byte list \<Rightarrow> ('l, 'h) proc \<Rightarrow> (int option \<times> ('l, 'h) proc) res" where
  "buff_rest fd left p = rbind (grow_sbf fd (int (length left)) p) (\<lambda>(early, p1).
     case early of
       Some r \<Rightarrow> Inr (Some r, p1)
     | None \<Rightarrow> rbind (fdw p1 fd) (\<lambda>w. let b = w_buff w in
         case sbf b of
           None \<Rightarrow> Inl NullDeref
         | Some bs \<Rightarrow>
             rbind (store bs (slen b) left) (\<lambda>bs1.
             rbind (cint (slen b + int (length left))) (\<lambda>n.
             rbind (upd_buff fd (\<lambda>b. b\<lparr>sbf := Some bs1, slen := n\<rparr>) p1) (\<lambda>p2.
               Inr (None, p2))))))"

text \<open>
  The four steps of \<open>do_fd_send\<close>: writing what is waiting (\<open>None\<close>: return -1, otherwise \<open>is_send\<close>),
  sending directly when nothing is waiting (\<open>None\<close>: return -1, otherwise \<open>send_len\<close>), queueing the rest
  (\<open>Some r\<close>: return \<open>r\<close>), and the events to wait for.
\<close>

definition flush_pending ::
  "'l nlist \<Rightarrow> ('l, 'h) proc serv_if \<Rightarrow> int \<Rightarrow> ('l, 'h) proc \<Rightarrow> (bool option \<times> ('l, 'h) proc) res" where
  "flush_pending L S fd p = rbind (fdw p fd) (\<lambda>w.
     if slen (w_buff w) > 0 then
       rbind (do_fd_write fd p) (\<lambda>(r, p1).
       if r = - 1 then rbind (do_fd_close L S fd 1 p1) (\<lambda>(_, p2). Inr (None, p2))
       else Inr (Some True, p1))
     else Inr (Some False, p))"

definition send_direct ::
  "'l nlist \<Rightarrow> ('l, 'h) proc serv_if \<Rightarrow> int \<Rightarrow> byte list \<Rightarrow> int \<Rightarrow> ('l, 'h) proc \<Rightarrow>
     (int option \<times> ('l, 'h) proc) res" where
  "send_direct L S fd data len p = rbind (fdw p fd) (\<lambda>w.
     if slen (w_buff w) = 0 then
       rbind (safe_tcp_send_n data len (p_sends p)) (\<lambda>(send_len, out, rest).
       let p1 = eff (ESend fd out) (p\<lparr>p_sends := rest\<rparr>) in
       if send_len = - 1 then rbind (do_fd_close L S fd 1 p1) (\<lambda>(_, p2). Inr (None, p2))
       else Inr (Some send_len, p1))
     else Inr (Some 0, p))"

definition queue_rest ::
  "'l nlist \<Rightarrow> ('l, 'h) proc serv_if \<Rightarrow> int \<Rightarrow> byte list \<Rightarrow> int \<Rightarrow> int \<Rightarrow> ('l, 'h) proc \<Rightarrow>
     (int option \<times> ('l, 'h) proc) res" where
  "queue_rest L S fd data len send_len p =
     (if len > send_len then
        rbind (memcpy_src (drop (nat send_len) data) (len - send_len)) (\<lambda>left.
        rbind (buff_rest fd left p) (\<lambda>(early, p1).
        case early of Some r \<Rightarrow> Inr (Some r, p1) | None \<Rightarrow>
        rbind (fdw p1 fd) (\<lambda>w.
        if max_buf_len (p_setting p1) \<noteq> 0 \<and> max_buf_len (p_setting p1) < slen (w_buff w)
        then rbind (do_fd_close L S fd 1 p1) (\<lambda>(_, p2). Inr (Some (- 1), p2))
        else Inr (None, p1))))
      else Inr (None, p))"

definition set_events :: "int \<Rightarrow> bool \<Rightarrow> ('l, 'h) proc \<Rightarrow> (int \<times> ('l, 'h) proc) res" where
  "set_events fd is_send p = rbind (fdw p fd) (\<lambda>w.
     if slen (w_buff w) > 0 \<and> \<not> is_send
     then Inr (0, mod_fd_to_epinfo fd (or EPOLLIN EPOLLOUT) p)
     else if slen (w_buff w) = 0 then Inr (0, mod_fd_to_epinfo fd EPOLLIN p)
     else Inr (0, p))"

definition do_fd_send ::
  "'l nlist \<Rightarrow> ('l, 'h) proc serv_if \<Rightarrow> int \<Rightarrow> byte list \<Rightarrow> int \<Rightarrow> ('l, 'h) proc \<Rightarrow>
     (int \<times> ('l, 'h) proc) res" where
  "do_fd_send L S fd data len p =
     rbind (flush_pending L S fd p) (\<lambda>(flushed, p1). case flushed of
       None \<Rightarrow> Inr (- 1, p1)
     | Some is_send \<Rightarrow>
         rbind (send_direct L S fd data len p1) (\<lambda>(sent, p2). case sent of
           None \<Rightarrow> Inr (- 1, p2)
         | Some send_len \<Rightarrow>
             rbind (queue_rest L S fd data len send_len p2) (\<lambda>(early, p3). case early of
               Some r \<Rightarrow> Inr (r, p3)
             | None \<Rightarrow> set_events fd is_send p3)))"

section \<open>Reading\<close>

text \<open>
  The first use of a receive buffer of \<open>n\<close> bytes, in \<open>handle_read\<close> and \<open>handle_pipe\<close>. A failed \<open>mmap\<close> leaves
  \<open>MAP_FAILED\<close> in the entry, a pointer that is not null and under which there is no memory (\<open>Some []\<close>).
\<close>

definition map_rbf :: "int \<Rightarrow> int \<Rightarrow> ('l, 'h) proc \<Rightarrow> (bool \<times> ('l, 'h) proc) res" where
  "map_rbf n fd p = rbind (fdw p fd) (\<lambda>w.
     if rbf (w_buff w) = None then
       rbind (next_alloc p) (\<lambda>(alloc_ok, p1).
       rbind (upd_buff fd (\<lambda>b. b\<lparr>msglen := 0, rlen := 0,
                rbf := Some (if alloc_ok then replicate (nat n) 0 else [])\<rparr>) p1) (\<lambda>p2.
         Inr (alloc_ok, if alloc_ok then eff (EMmap n) p2 else p2)))
     else Inr (True, p))"

text \<open>
  The rest of \<open>handle_read\<close>, for a buffer of \<open>cap\<close> bytes. The bytes are received straight into the buffer
  behind the \<open>rlen\<close> bytes already there, also when the call then returns -1.
\<close>

definition recv_more :: "'l nlist \<Rightarrow> int \<Rightarrow> int \<Rightarrow> ('l, 'h) proc \<Rightarrow> (int \<times> ('l, 'h) proc) res" where
  "recv_more L cap fd p = rbind (fdw p fd) (\<lambda>w. let b = w_buff w in
     if cap \<le> rlen b then Inr (0, p)
     else
       rbind (safe_tcp_recv_n (cap - rlen b) (p_recvs p)) (\<lambda>(recv_len, bs, rest).
       rbind (store (the (rbf b)) (rlen b) bs) (\<lambda>rb.
       rbind (upd_buff fd (\<lambda>b. b\<lparr>rbf := Some rb\<rparr>) (p\<lparr>p_recvs := rest\<rparr>)) (\<lambda>p2.
       if recv_len \<le> 0 then Inr (- 1, p2)
       else
         rbind (cint (rlen b + recv_len)) (\<lambda>rl.
         rbind (upd_buff fd (\<lambda>b. b\<lparr>rlen := rl\<rparr>) p2) (\<lambda>p3.
         rbind (if rl = cap then do_add_to_readlist L fd p3 else do_del_from_readlist L fd p3) (\<lambda>p4.
           Inr (recv_len, p4))))))))"

definition handle_read :: "'l nlist \<Rightarrow> int \<Rightarrow> ('l, 'h) proc \<Rightarrow> (int \<times> ('l, 'h) proc) res" where
  "handle_read L fd p = rbind (map_rbf (max_buf_len (p_setting p)) fd p) (\<lambda>(mapped_ok, p1).
     if \<not> mapped_ok then Inr (- 1, p1) else recv_more L (max_buf_len (p_setting p)) fd p1)"

end
