(* ===== verification/Net_Lists.thy ===== *)
theory Net_Lists
  imports Net_Util
begin

text \<open>
  The two lists of \<^verbatim>\<open>net_util.c\<close> on which a connection can be, \<open>readlist\<close> and \<open>closelist\<close>, with the flag
  in the connection's entry that says on which one it is.
\<close>

section \<open>The lists a process keeps\<close>

definition cache :: "'l nlist \<Rightarrow> ('l, 'h) proc \<Rightarrow> lnode list \<times> lnode list" where
  "cache L p = (nl_items L Read_head (p_links p), nl_items L Close_head (p_links p))"

definition flag_of :: "lnode list \<times> lnode list \<Rightarrow> int \<Rightarrow> byte" where
  "flag_of rc fd = (if Node fd \<in> set (fst rc) then CACHE_READ
     else if Node fd \<in> set (snd rc) then CACHE_CLOSE else 0)"

text \<open>
  The links are sound: no connection is on a list twice or on both lists, and the flag in its entry
  tells where it is.
\<close>

definition cache_ok :: "'l nlist \<Rightarrow> ('l, 'h) proc \<Rightarrow> bool" where
  "cache_ok L p \<longleftrightarrow> (case cache L p of (rs, cs) \<Rightarrow>
     distinct (rs @ cs) \<and> (\<forall>x\<in>set (rs @ cs). \<exists>fd. x = Node fd \<and> valid_fd p fd)) \<and>
     (\<forall>fd. valid_fd p fd \<longrightarrow> w_flag (wrap_of p fd) = flag_of (cache L p) fd)"

text \<open>What the four operations mean for the pair of lists.\<close>

fun add_read :: "int \<Rightarrow> lnode list \<times> lnode list \<Rightarrow> lnode list \<times> lnode list" where
  "add_read fd (rs, cs) = (if Node fd \<in> set rs \<union> set cs then (rs, cs) else (rs @ [Node fd], cs))"

fun del_read :: "int \<Rightarrow> lnode list \<times> lnode list \<Rightarrow> lnode list \<times> lnode list" where
  "del_read fd (rs, cs) = (removeAll (Node fd) rs, cs)"

fun add_close :: "int \<Rightarrow> lnode list \<times> lnode list \<Rightarrow> lnode list \<times> lnode list" where
  "add_close fd (rs, cs) = (removeAll (Node fd) rs, if Node fd \<in> set cs then cs else cs @ [Node fd])"

fun del_close :: "int \<Rightarrow> lnode list \<times> lnode list \<Rightarrow> lnode list \<times> lnode list" where
  "del_close fd (rs, cs) = (rs, removeAll (Node fd) cs)"

text \<open>Two processes that differ at most in the links and in the flag of \<open>fd\<close>'s entry.\<close>

definition same_but_flag :: "int \<Rightarrow> ('l, 'h) proc \<Rightarrow> ('l, 'h) proc \<Rightarrow> bool" where
  "same_but_flag fd p p' \<longleftrightarrow> (\<exists>fl l. p' = p\<lparr>p_links := l,
     p_fds := (p_fds p)[nat fd := (wrap_of p fd)\<lparr>w_flag := fl\<rparr>]\<rparr>)"

section \<open>Rules\<close>

lemma flag_bits:
  "and CACHE_READ CACHE_READ \<noteq> 0" "and CACHE_CLOSE CACHE_CLOSE \<noteq> 0" "and CACHE_CLOSE CACHE_READ = 0"
  "and CACHE_READ CACHE_CLOSE = 0" "or 0 CACHE_READ = CACHE_READ" "or 0 CACHE_CLOSE = CACHE_CLOSE"
  "CACHE_READ \<noteq> 0" "CACHE_CLOSE \<noteq> 0" "CACHE_READ \<noteq> CACHE_CLOSE"
  by (simp_all add: CACHE_READ_def CACHE_CLOSE_def)

lemma nlist_rules:
  assumes "nlist_laws L"
  shows "nl_items L Read_head (nl_del_init L (Node fd) l) = removeAll (Node fd) (nl_items L Read_head l)"
    "nl_items L Close_head (nl_del_init L (Node fd) l) = removeAll (Node fd) (nl_items L Close_head l)"
    "Node fd \<notin> set (nl_items L Read_head l) \<Longrightarrow> Node fd \<notin> set (nl_items L Close_head l) \<Longrightarrow>
       nl_items L Read_head (nl_add_tail L (Node fd) Read_head l) = nl_items L Read_head l @ [Node fd]"
    "Node fd \<notin> set (nl_items L Read_head l) \<Longrightarrow> Node fd \<notin> set (nl_items L Close_head l) \<Longrightarrow>
       nl_items L Close_head (nl_add_tail L (Node fd) Close_head l) = nl_items L Close_head l @ [Node fd]"
    "Node fd \<notin> set (nl_items L Read_head l) \<Longrightarrow> Node fd \<notin> set (nl_items L Close_head l) \<Longrightarrow>
       nl_items L Close_head (nl_add_tail L (Node fd) Read_head l) = nl_items L Close_head l"
    "Node fd \<notin> set (nl_items L Read_head l) \<Longrightarrow> Node fd \<notin> set (nl_items L Close_head l) \<Longrightarrow>
       nl_items L Read_head (nl_add_tail L (Node fd) Close_head l) = nl_items L Read_head l"
  using assms by (simp_all add: nlist_laws_def list_head_def)

lemma cache_okD:
  assumes "cache_ok L p"
  shows "distinct (fst (cache L p))" "distinct (snd (cache L p))"
    "set (fst (cache L p)) \<inter> set (snd (cache L p)) = {}"
    "\<And>x. x \<in> set (fst (cache L p)) \<union> set (snd (cache L p)) \<Longrightarrow> \<exists>fd. x = Node fd \<and> valid_fd p fd"
    "\<And>fd. valid_fd p fd \<Longrightarrow> w_flag (wrap_of p fd) = flag_of (cache L p) fd"
  using assms by (auto simp: cache_ok_def split: prod.splits)

text \<open>A change of the links and of one flag keeps the invariant if the lists fit the flag.\<close>

lemma cache_ok_change:
  assumes ok: "cache_ok L p" and v: "valid_fd p fd" and ca: "cache L p = (rs, cs)"
    and new: "nl_items L Read_head l = rs'" "nl_items L Close_head l = cs'"
    and d: "distinct (rs' @ cs')" and oth: "\<And>x. x \<noteq> Node fd \<Longrightarrow> (x \<in> set rs' \<longleftrightarrow> x \<in> set rs) \<and> (x \<in> set cs' \<longleftrightarrow> x \<in> set cs)"
    and fl: "fl = flag_of (rs', cs') fd"
  shows "cache_ok L (p\<lparr>p_links := l, p_fds := (p_fds p)[nat fd := (wrap_of p fd)\<lparr>w_flag := fl\<rparr>]\<rparr>)"
proof -
  let ?p = "p\<lparr>p_links := l, p_fds := (p_fds p)[nat fd := (wrap_of p fd)\<lparr>w_flag := fl\<rparr>]\<rparr>"
  have v': "valid_fd ?p k = valid_fd p k" for k by (simp add: valid_fd_def)
  have "w_flag (wrap_of ?p k) = flag_of (rs', cs') k" if k: "valid_fd p k" for k
  proof (cases "k = fd")
    case True then show ?thesis using fl valid_fd_nat[OF v] by simp
  next
    case False
    then have "nat k \<noteq> nat fd" using k v by (auto simp: valid_fd_def)
    then show ?thesis using False cache_okD(5)[OF ok k] oth[of "Node k"] ca by (simp add: flag_of_def)
  qed
  moreover have "\<exists>k. x = Node k \<and> valid_fd p k" if "x \<in> set rs' \<union> set cs'" for x
    using that v oth[of x] cache_okD(4)[OF ok, of x] ca by (cases "x = Node fd") auto
  ultimately show ?thesis using d by (auto simp: cache_ok_def cache_def new v')
qed

section \<open>The four operations\<close>

text \<open>What a client of one of the operations relies on: \<open>op\<close> does to the lists what \<open>ab\<close> says.\<close>

locale list_op =
  fixes upd :: "'l nlist \<Rightarrow> int \<Rightarrow> ('l, 'h) proc \<Rightarrow> ('l, 'h) proc res"
    and ab :: "int \<Rightarrow> lnode list \<times> lnode list \<Rightarrow> lnode list \<times> lnode list"
  assumes upd_law: "nlist_laws L \<Longrightarrow> cache_ok L p \<Longrightarrow> valid_fd p fd \<Longrightarrow>
    \<exists>p'. upd L fd p = Inr p' \<and> cache_ok L p' \<and> cache L p' = ab fd (cache L p) \<and> same_but_flag fd p p'"
begin

lemma upd_effect:
  assumes "nlist_laws L" and "cache_ok L p" and "valid_fd p fd"
  obtains l fl where
    "upd L fd p = Inr (p\<lparr>p_links := l, p_fds := (p_fds p)[nat fd := (wrap_of p fd)\<lparr>w_flag := fl\<rparr>]\<rparr>)"
    "cache_ok L (p\<lparr>p_links := l, p_fds := (p_fds p)[nat fd := (wrap_of p fd)\<lparr>w_flag := fl\<rparr>]\<rparr>)"
    "cache L (p\<lparr>p_links := l, p_fds := (p_fds p)[nat fd := (wrap_of p fd)\<lparr>w_flag := fl\<rparr>]\<rparr>)
       = ab fd (cache L p)"
  using upd_law[OF assms] by (auto simp: same_but_flag_def)

lemma upd_ok: "nlist_laws L \<Longrightarrow> cache_ok L p \<Longrightarrow> valid_fd p fd \<Longrightarrow> ok (upd L fd p)"
  using upd_law[of L p fd] by (auto simp: ok_def)

lemma upd_cache:
  "nlist_laws L \<Longrightarrow> cache_ok L p \<Longrightarrow> valid_fd p fd \<Longrightarrow> upd L fd p = Inr p' \<Longrightarrow>
     cache_ok L p' \<and> cache L p' = ab fd (cache L p)"
  using upd_law[of L p fd] by auto

lemma upd_frame:
  assumes "nlist_laws L" and "cache_ok L p" and "valid_fd p fd" and "upd L fd p = Inr p'"
  shows "valid_fd p' k = valid_fd p k" "buff_of p' fd = buff_of p fd" "w_type (wrap_of p' fd) = w_type (wrap_of p fd)"
    "valid_fd p k \<Longrightarrow> k \<noteq> fd \<Longrightarrow> wrap_of p' k = wrap_of p k" "p_works p' = p_works p" "p_trace p' = p_trace p"
    "p_setting p' = p_setting p" "p_sess p' = p_sess p"
proof -
  obtain l fl where e: "p' = p\<lparr>p_links := l, p_fds := (p_fds p)[nat fd := (wrap_of p fd)\<lparr>w_flag := fl\<rparr>]\<rparr>"
    using upd_law[OF assms(1,2,3)] assms(4) by (auto simp: same_but_flag_def)
  have n: "nat fd < length (p_fds p)" using assms(3) by (rule valid_fd_nat)
  show "valid_fd p' k = valid_fd p k" "p_works p' = p_works p" "p_trace p' = p_trace p"
    "p_setting p' = p_setting p" "p_sess p' = p_sess p" by (simp_all add: e valid_fd_def)
  show "buff_of p' fd = buff_of p fd" "w_type (wrap_of p' fd) = w_type (wrap_of p fd)" using n by (simp_all add: e)
  assume "valid_fd p k" "k \<noteq> fd"
  then have "nat k \<noteq> nat fd" using assms(3) by (auto simp: valid_fd_def)
  then show "wrap_of p' k = wrap_of p k" by (simp add: e)
qed

end

lemma same_but_flag_refl: "valid_fd p fd \<Longrightarrow> same_but_flag fd p p"
  by (auto simp: same_but_flag_def valid_fd_nat intro!: exI[of _ "w_flag (wrap_of p fd)"] exI[of _ "p_links p"])

lemma del_on_flag:
  assumes L: "nlist_laws L" and ok: "cache_ok L p" and v: "valid_fd p fd"
  shows "cache_ok L (p\<lparr>p_links := nl_del_init L (Node fd) (p_links p),
             p_fds := (p_fds p)[nat fd := (wrap_of p fd)\<lparr>w_flag := 0\<rparr>]\<rparr>)"
  by (rule cache_ok_change[OF ok v cache_def refl refl])
    (use cache_okD(1-3)[OF ok] in \<open>auto simp: cache_def nlist_rules(1,2)[OF L] flag_of_def distinct_removeAll\<close>)

lemma add_on_flag:
  assumes L: "nlist_laws L" and ok: "cache_ok L p" and v: "valid_fd p fd"
    and n: "Node fd \<notin> set (fst (cache L p))" "Node fd \<notin> set (snd (cache L p))"
  shows "cache_ok L (p\<lparr>p_links := nl_add_tail L (Node fd) Read_head (p_links p),
             p_fds := (p_fds p)[nat fd := (wrap_of p fd)\<lparr>w_flag := CACHE_READ\<rparr>]\<rparr>)"
    "cache_ok L (p\<lparr>p_links := nl_add_tail L (Node fd) Close_head (p_links p),
             p_fds := (p_fds p)[nat fd := (wrap_of p fd)\<lparr>w_flag := CACHE_CLOSE\<rparr>]\<rparr>)"
  by (rule cache_ok_change[OF ok v cache_def refl refl],
      use cache_okD(1-3)[OF ok] n in \<open>auto simp: cache_def nlist_rules(3-6)[OF L] flag_of_def\<close>)+

text \<open>Reading the flag of an entry.\<close>

lemma flag_tests:
  assumes "cache_ok L p" and "valid_fd p fd"
  shows "w_flag (wrap_of p fd) = 0 \<longleftrightarrow> Node fd \<notin> set (fst (cache L p)) \<union> set (snd (cache L p))"
    "and (w_flag (wrap_of p fd)) CACHE_READ = 0 \<longleftrightarrow> Node fd \<notin> set (fst (cache L p))"
    "and (w_flag (wrap_of p fd)) CACHE_CLOSE = 0 \<longleftrightarrow> Node fd \<notin> set (snd (cache L p))"
  using cache_okD(3)[OF assms(1)] cache_okD(5)[OF assms] flag_bits by (auto simp: flag_of_def)

lemma same_but_flag_sel:
  "same_but_flag fd p (p\<lparr>p_links := l, p_fds := (p_fds p)[nat fd := (wrap_of p fd)\<lparr>w_flag := fl\<rparr>]\<rparr>)"
  by (auto simp: same_but_flag_def)

lemma same_but_flag_trans:
  assumes "same_but_flag fd p q" and "same_but_flag fd q r" and "valid_fd p fd" shows "same_but_flag fd p r"
proof -
  obtain fl l fl' l' where q: "q = p\<lparr>p_links := l, p_fds := (p_fds p)[nat fd := (wrap_of p fd)\<lparr>w_flag := fl\<rparr>]\<rparr>"
    and r: "r = q\<lparr>p_links := l', p_fds := (p_fds q)[nat fd := (wrap_of q fd)\<lparr>w_flag := fl'\<rparr>]\<rparr>"
    using assms(1,2) unfolding same_but_flag_def by blast
  have "r = p\<lparr>p_links := l', p_fds := (p_fds p)[nat fd := (wrap_of p fd)\<lparr>w_flag := fl'\<rparr>]\<rparr>"
    using valid_fd_nat[OF assms(3)] by (simp add: r q)
  then show ?thesis by (simp add: same_but_flag_sel)
qed

lemma cache_ok_cong:
  assumes "p_links p' = p_links p" and "map w_flag (p_fds p') = map w_flag (p_fds p)"
  shows "cache_ok L p' = cache_ok L p" "cache L p' = cache L p"
proof -
  show c: "cache L p' = cache L p" using assms(1) by (simp add: cache_def)
  have v: "valid_fd p' = valid_fd p" using arg_cong[OF assms(2), of length] by (simp add: valid_fd_def fun_eq_iff)
  have "w_flag (wrap_of p' fd) = w_flag (wrap_of p fd)" if "valid_fd p fd" for fd
    using arg_cong[OF assms(2), of "\<lambda>xs. xs ! nat fd"] that v
    by (metis nth_map valid_fd_nat)
  then show "cache_ok L p' = cache_ok L p" by (simp add: cache_ok_def c v split: prod.splits)
qed

lemma do_add_to_readlist_law:
  assumes a: "nlist_laws L" "cache_ok L p" "valid_fd p fd"
  shows "\<exists>p'. do_add_to_readlist L fd p = Inr p' \<and> cache_ok L p' \<and>
      cache L p' = add_read fd (cache L p) \<and> same_but_flag fd p p'"
proof -
  note t = flag_tests[OF a(2,3)]
  show ?thesis
  proof (cases "w_flag (wrap_of p fd) = 0")
    case True
    have "do_add_to_readlist L fd p = Inr (p\<lparr>p_links := nl_add_tail L (Node fd) Read_head (p_links p),
        p_fds := (p_fds p)[nat fd := (wrap_of p fd)\<lparr>w_flag := CACHE_READ\<rparr>]\<rparr>)"
      using a(3) True by (simp add: do_add_to_readlist_def flag_bits)
    then show ?thesis using add_on_flag(1)[OF a] t(1) True
      by (simp add: same_but_flag_sel) (simp add: cache_def nlist_rules[OF a(1)])
  next
    case False
    then show ?thesis using a t(1) by (cases "cache L p") (simp add: do_add_to_readlist_def same_but_flag_refl)
  qed
qed

interpretation add_read: list_op do_add_to_readlist add_read
  by unfold_locales (rule do_add_to_readlist_law)

lemma do_del_from_readlist_law:
  assumes a: "nlist_laws L" "cache_ok L p" "valid_fd p fd"
  shows "\<exists>p'. do_del_from_readlist L fd p = Inr p' \<and> cache_ok L p' \<and>
      cache L p' = del_read fd (cache L p) \<and> same_but_flag fd p p'"
proof -
  note t = flag_tests[OF a(2,3)]
  show ?thesis
  proof (cases "and (w_flag (wrap_of p fd)) CACHE_READ = 0")
    case True
    then show ?thesis using a t(2) by (cases "cache L p") (simp add: do_del_from_readlist_def same_but_flag_refl)
  next
    case False
    have "do_del_from_readlist L fd p = Inr (p\<lparr>p_links := nl_del_init L (Node fd) (p_links p),
        p_fds := (p_fds p)[nat fd := (wrap_of p fd)\<lparr>w_flag := 0\<rparr>]\<rparr>)"
      using a(3) False by (simp add: do_del_from_readlist_def)
    moreover have "Node fd \<notin> set (snd (cache L p))" using False t(2) cache_okD(3)[OF a(2)] by auto
    ultimately show ?thesis using del_on_flag[OF a]
      by (simp add: same_but_flag_sel) (simp add: cache_def nlist_rules[OF a(1)])
  qed
qed

interpretation del_read: list_op do_del_from_readlist del_read
  by unfold_locales (rule do_del_from_readlist_law)

lemma do_del_from_closelist_law:
  assumes a: "nlist_laws L" "cache_ok L p" "valid_fd p fd"
  shows "\<exists>p'. do_del_from_closelist L fd p = Inr p' \<and> cache_ok L p' \<and>
      cache L p' = del_close fd (cache L p) \<and> same_but_flag fd p p'"
proof -
  note t = flag_tests[OF a(2,3)]
  show ?thesis
  proof (cases "and (w_flag (wrap_of p fd)) CACHE_CLOSE = 0")
    case True
    then show ?thesis using a t(3) by (cases "cache L p") (simp add: do_del_from_closelist_def same_but_flag_refl)
  next
    case False
    have "do_del_from_closelist L fd p = Inr (p\<lparr>p_links := nl_del_init L (Node fd) (p_links p),
        p_fds := (p_fds p)[nat fd := (wrap_of p fd)\<lparr>w_flag := 0\<rparr>]\<rparr>)"
      using a(3) False by (simp add: do_del_from_closelist_def)
    moreover have "Node fd \<notin> set (fst (cache L p))" using False t(3) cache_okD(3)[OF a(2)] by auto
    ultimately show ?thesis using del_on_flag[OF a]
      by (simp add: same_but_flag_sel) (simp add: cache_def nlist_rules[OF a(1)])
  qed
qed

interpretation del_close: list_op do_del_from_closelist del_close
  by unfold_locales (rule do_del_from_closelist_law)

lemma do_add_to_closelist_law:
  assumes a: "nlist_laws L" "cache_ok L p" "valid_fd p fd"
  shows "\<exists>p'. do_add_to_closelist L fd p = Inr p' \<and> cache_ok L p' \<and>
      cache L p' = add_close fd (cache L p) \<and> same_but_flag fd p p'"
proof -
  obtain p1 where p1: "do_del_from_readlist L fd p = Inr p1" "cache_ok L p1" "cache L p1 = del_read fd (cache L p)"
      "same_but_flag fd p p1" using del_read.upd_law[OF a] by auto
  then have v: "valid_fd p1 fd" using a(3) by (auto simp: same_but_flag_def valid_fd_def)
  note t = flag_tests[OF p1(2) v]
  obtain rs cs where c: "cache L p = (rs, cs)" by (cases "cache L p")
  show ?thesis
  proof (cases "and (w_flag (wrap_of p1 fd)) CACHE_CLOSE = 0")
    case False
    then show ?thesis using p1 v t(3) c by (simp add: do_add_to_closelist_def)
  next
    case True
    then have n: "Node fd \<notin> set (fst (cache L p1))" "Node fd \<notin> set (snd (cache L p1))" using t(3) p1(3) c by auto
    then have f: "w_flag (wrap_of p1 fd) = 0" using t(1) by auto
    let ?p = "p1\<lparr>p_links := nl_add_tail L (Node fd) Close_head (p_links p1),
        p_fds := (p_fds p1)[nat fd := (wrap_of p1 fd)\<lparr>w_flag := CACHE_CLOSE\<rparr>]\<rparr>"
    have "do_add_to_closelist L fd p = Inr ?p"
      using v f p1(1) by (simp add: do_add_to_closelist_def flag_bits)
    moreover have "cache L ?p = add_close fd (cache L p)"
      using n p1(3) c by (simp add: cache_def nlist_rules[OF a(1)])
    moreover have "same_but_flag fd p ?p"
      by (rule same_but_flag_trans[OF p1(4) same_but_flag_sel a(3)])
    ultimately show ?thesis using add_on_flag(2)[OF a(1) p1(2) v n] by blast
  qed
qed

interpretation add_close: list_op do_add_to_closelist add_close
  by unfold_locales (rule do_add_to_closelist_law)

section \<open>Any sequence of operations\<close>

datatype list_cmd = Add_read int | Del_read int | Add_close int | Del_close int

fun cmd_fd :: "list_cmd \<Rightarrow> int" where
  "cmd_fd (Add_read fd) = fd"
| "cmd_fd (Del_read fd) = fd"
| "cmd_fd (Add_close fd) = fd"
| "cmd_fd (Del_close fd) = fd"

fun run_cmd :: "'l nlist \<Rightarrow> list_cmd \<Rightarrow> ('l, 'h) proc \<Rightarrow> ('l, 'h) proc res" where
  "run_cmd L (Add_read fd) p = do_add_to_readlist L fd p"
| "run_cmd L (Del_read fd) p = do_del_from_readlist L fd p"
| "run_cmd L (Add_close fd) p = do_add_to_closelist L fd p"
| "run_cmd L (Del_close fd) p = do_del_from_closelist L fd p"

fun run_cmds :: "'l nlist \<Rightarrow> list_cmd list \<Rightarrow> ('l, 'h) proc \<Rightarrow> ('l, 'h) proc res" where
  "run_cmds L [] p = Inr p"
| "run_cmds L (c # cs) p = rbind (run_cmd L c p) (run_cmds L cs)"

fun abs_cmd :: "list_cmd \<Rightarrow> lnode list \<times> lnode list \<Rightarrow> lnode list \<times> lnode list" where
  "abs_cmd (Add_read fd) = add_read fd"
| "abs_cmd (Del_read fd) = del_read fd"
| "abs_cmd (Add_close fd) = add_close fd"
| "abs_cmd (Del_close fd) = del_close fd"

lemma run_cmd_law:
  assumes "nlist_laws L" and "cache_ok L p" and "valid_fd p (cmd_fd c)"
  shows "\<exists>p'. run_cmd L c p = Inr p' \<and> cache_ok L p' \<and> cache L p' = abs_cmd c (cache L p) \<and>
    same_but_flag (cmd_fd c) p p'"
  using assms
  by (cases c) (simp_all add: add_read.upd_law del_read.upd_law add_close.upd_law del_close.upd_law)

lemma same_but_flag_frame:
  assumes "same_but_flag fd p p'" and "valid_fd p fd"
  shows "valid_fd p' k = valid_fd p k" "valid_fd p k \<Longrightarrow> buff_of p' k = buff_of p k"
    "valid_fd p k \<Longrightarrow> w_type (wrap_of p' k) = w_type (wrap_of p k)"
  using assms by (auto simp: same_but_flag_def valid_fd_def nth_list_update)

text \<open>
  C19: the read list and the close list behave as two lists on which a connection is at most once and
  never on both: any sequence of the four operations runs without a fault, has the effect described
  by the list functions \<open>add_read\<close> to \<open>del_close\<close>, keeps flags and links consistent and leaves the
  buffers and types of all connections alone.
\<close>

theorem cache_lists_refine:
  assumes L: "nlist_laws L" and "cache_ok L p" and "list_all (\<lambda>c. valid_fd p (cmd_fd c)) cs"
  shows "\<exists>p'. run_cmds L cs p = Inr p' \<and> cache_ok L p' \<and> cache L p' = fold abs_cmd cs (cache L p) \<and>
    (\<forall>fd. valid_fd p fd \<longrightarrow> buff_of p' fd = buff_of p fd \<and> w_type (wrap_of p' fd) = w_type (wrap_of p fd))"
  using assms(2,3)
proof (induction cs arbitrary: p)
  case (Cons c cs)
  then have v: "valid_fd p (cmd_fd c)" by simp
  obtain p1 where p1: "run_cmd L c p = Inr p1" "cache_ok L p1" "cache L p1 = abs_cmd c (cache L p)"
    "same_but_flag (cmd_fd c) p p1" using run_cmd_law[OF L Cons.prems(1) v] by blast
  note fr = same_but_flag_frame[OF p1(4) v]
  show ?case using Cons.IH[OF p1(2)] Cons.prems(2) p1 fr by (auto simp: list_all_iff)
qed simp

lemma demo_cache: "cache demo_nlist (demo_proc ws) = ([], [])"
  by (simp add: cache_def demo_nlist_def)

lemma demo_cache_ok:
  assumes "\<And>w. w \<in> set ws \<Longrightarrow> w_flag w = 0" shows "cache_ok demo_nlist (demo_proc ws)"
  using assms by (auto simp: cache_ok_def demo_cache flag_of_def nth_mem)

definition demo_clients :: "(lnode \<Rightarrow> lnode list, int \<rightharpoonup> fdsess) proc" where
  "demo_clients = demo_proc (map (\<lambda>fd. demo_wrap fd_type_cli fd demo_buff) [0, 1, 2])"

theorem cache_lists_refine_witness:
  "\<exists>p'. run_cmds demo_nlist [Add_read 1, Add_close 1, Add_read 2] demo_clients = Inr p' \<and>
     cache demo_nlist p' = ([Node 2], [Node 1])"
proof -
  have "cache_ok demo_nlist demo_clients" "cache demo_nlist demo_clients = ([], [])"
    unfolding demo_clients_def by (rule demo_cache_ok) (auto simp: demo_cache)
  then show ?thesis
    using cache_lists_refine[OF demo_nlist_laws, of demo_clients "[Add_read 1, Add_close 1, Add_read 2]"]
    by (auto simp: demo_clients_def)
qed

end
