(* ===== verification/Net_Send.thy ===== *)
theory Net_Send
  imports Net_Lists
begin

text \<open>
  Sending on a connection (\<open>do_fd_write\<close> and \<open>do_fd_send\<close> of \<^verbatim>\<open>net_util.c\<close>): the stream of bytes a
  connection has been given, as the bytes handed to the kernel followed by the bytes waiting in its
  buffer, and what the two functions do to it.
\<close>

section \<open>What goes out on a connection\<close>

fun sent_on :: "int \<Rightarrow> effect list \<Rightarrow> byte list" where
  "sent_on fd [] = []"
| "sent_on fd (ESend f d # es) = (if f = fd then d @ sent_on fd es else sent_on fd es)"
| "sent_on fd (e # es) = sent_on fd es"

definition pending :: "('l, 'h) proc \<Rightarrow> int \<Rightarrow> byte list" where
  "pending p fd = (case sbf (buff_of p fd) of None \<Rightarrow> [] | Some bs \<Rightarrow> take (nat (slen (buff_of p fd))) bs)"

text \<open>The bytes handed to the kernel so far, followed by those still in the send buffer.\<close>

definition out_stream :: "('l, 'h) proc \<Rightarrow> int \<Rightarrow> byte list" where
  "out_stream p fd = sent_on fd (p_trace p) @ pending p fd"

definition sbuff_ok :: "fd_buff \<Rightarrow> bool" where
  "sbuff_ok b \<longleftrightarrow> 0 \<le> slen b \<and> (case sbf b of None \<Rightarrow> slen b = 0
     | Some bs \<Rightarrow> slen b \<le> int (length bs) \<and> sbf_size b \<le> int (length bs))"

text \<open>The entries of the other connections are as before.\<close>

definition others_kept :: "int \<Rightarrow> ('l, 'h) proc \<Rightarrow> ('l, 'h) proc \<Rightarrow> bool" where
  "others_kept fd p p' \<longleftrightarrow> length (p_fds p') = length (p_fds p) \<and>
     (\<forall>k. k \<noteq> nat fd \<longrightarrow> k < length (p_fds p) \<longrightarrow> p_fds p' ! k = p_fds p ! k)"

lemma sent_on_append [simp]: "sent_on fd (xs @ ys) = sent_on fd xs @ sent_on fd ys"
  by (induction fd xs rule: sent_on.induct) simp_all

lemma others_kept_refl [simp]: "others_kept fd p p"
  by (simp add: others_kept_def)

lemma others_kept_trans: "others_kept fd p q \<Longrightarrow> others_kept fd q r \<Longrightarrow> others_kept fd p r"
  by (simp add: others_kept_def)

lemma others_kept_upd [simp]:
  "others_kept fd p (q\<lparr>p_fds := (p_fds q)[nat fd := w]\<rparr>) = others_kept fd p q"
  "others_kept fd p (q\<lparr>p_fds := (p_fds p)[nat fd := w]\<rparr>)"
  "others_kept fd p (eff e q) = others_kept fd p q"
  "others_kept fd p (q\<lparr>p_sends := ss\<rparr>) = others_kept fd p q"
  "others_kept fd p (q\<lparr>p_recvs := rs\<rparr>) = others_kept fd p q"
  "others_kept fd p (q\<lparr>p_allocs := as\<rparr>) = others_kept fd p q"
  by (auto simp: others_kept_def)

lemma others_kept_valid: "others_kept fd p p' \<Longrightarrow> valid_fd p' k = valid_fd p k"
  by (simp add: others_kept_def valid_fd_def)

lemma length_pending: "sbuff_ok (buff_of p fd) \<Longrightarrow> int (length (pending p fd)) = slen (buff_of p fd)"
  by (auto simp: sbuff_ok_def pending_def split: option.splits)

lemma pending_frame [simp]:
  "pending (eff e p) fd = pending p fd" "pending (p\<lparr>p_sends := ss\<rparr>) fd = pending p fd"
  "pending (p\<lparr>p_allocs := as\<rparr>) fd = pending p fd"
  by (simp_all add: pending_def cong: option.case_cong)

section \<open>Sending\<close>

lemma safe_send_result:
  assumes "safe_tcp_send_n buf n ans = Inr (r, out, rest)"
  shows "0 < n \<and> (\<exists>k\<le>nat n. k \<le> length buf \<and> out = take k buf \<and> (r = int k \<or> r = - 1))"
proof -
  have "0 < n" "n \<le> int (length buf)" "send_loop (take (nat n) buf) [] ans = Inr (r, out, rest)"
    using assms by (auto simp: safe_tcp_send_n_def split: if_splits)
  then show ?thesis using send_loop_result[of "take (nat n) buf" "[]" ans r out rest] by auto
qed

lemma length_shift_down:
  "0 \<le> k \<Longrightarrow> 0 \<le> n \<Longrightarrow> k + n \<le> int (length bs) \<Longrightarrow> length (shift_down bs k n) = length bs"
  by (simp add: shift_down_def)

lemma take_shift_down:
  "0 \<le> k \<Longrightarrow> 0 \<le> n \<Longrightarrow> k + n \<le> int (length bs) \<Longrightarrow> take (nat n) (shift_down bs k n) = drop (nat k) (take (nat (k + n)) bs)"
  by (simp add: shift_down_def drop_take nat_diff_distrib nat_add_distrib)

lemma do_fd_write_empty: "valid_fd p fd \<Longrightarrow> sbuff_ok (buff_of p fd) \<Longrightarrow> slen (buff_of p fd) = 0 \<Longrightarrow>
    do_fd_write fd p = Inl AssertFailed"
  by (simp add: do_fd_write_def Let_def safe_tcp_send_null_def safe_tcp_send_n_def split: option.splits)

text \<open>An example: connection 1 has the bytes 1, 2, 3 waiting; \<open>ss\<close> and \<open>as\<close> are what \<open>send\<close> and \<open>malloc\<close> answer.\<close>

definition demo_waiting :: "send_ans list \<Rightarrow> bool list \<Rightarrow> (lnode \<Rightarrow> lnode list, int \<rightharpoonup> fdsess) proc" where
  "demo_waiting ss as = (demo_proc [demo_wrap fd_type_cli 0 demo_buff,
     demo_wrap fd_type_cli 1 (demo_buff\<lparr>slen := 3, sbf := Some [1, 2, 3], sbf_size := 3\<rparr>)])
       \<lparr>p_sends := ss, p_allocs := as\<rparr>"

lemma demo_waiting_simps [simp]:
  "p_fds (demo_waiting ss as) = [demo_wrap fd_type_cli 0 demo_buff,
     demo_wrap fd_type_cli 1 (demo_buff\<lparr>slen := 3, sbf := Some [1, 2, 3], sbf_size := 3\<rparr>)]"
  "p_sends (demo_waiting ss as) = ss" "p_allocs (demo_waiting ss as) = as" "p_trace (demo_waiting ss as) = []"
  "p_setting (demo_waiting ss as) = demo_setting" "valid_fd (demo_waiting ss as) 0" "valid_fd (demo_waiting ss as) 1"
  by (simp_all add: demo_waiting_def valid_fd_def)

lemma demo_waiting_ok: "sbuff_ok (buff_of (demo_waiting ss as) 1)" "sbuff_ok (buff_of (demo_waiting ss as) 0)"
    "pending (demo_waiting ss as) 1 = [1, 2, 3]" "pending (demo_waiting ss as) 0 = []"
  by (simp_all add: sbuff_ok_def demo_buff_def pending_def)

lemma demo_write_part: "\<exists>p'. do_fd_write 1 (demo_waiting [SDone 2, SErr EAGAIN] []) = Inr (2, p')"
  by (simp add: do_fd_write_def safe_tcp_send_n_def Let_def)

lemma demo_write_all: "\<exists>p'. do_fd_write 1 (demo_waiting [SDone 3] []) = Inr (3, p')"
  by (simp add: do_fd_write_def safe_tcp_send_n_def Let_def)

definition demo_serv :: "('l, 'h) proc serv_if" where
  "demo_serv = \<lparr>so_handle_timer = None, so_proc_cli_msg = (\<lambda>d n sess p. Inr (0, p)),
     so_proc_serv_msg = (\<lambda>fd d n p. Inr p), so_on_cli_closed = (\<lambda>fd p. Inr p), so_on_serv_closed = None,
     so_get_msg_len = (\<lambda>fd d n k. Inr 4)\<rparr>"

lemma write_effect:
  assumes v: "valid_fd p fd" and ok: "sbuff_ok (buff_of p fd)" and run: "do_fd_write fd p = Inr (r, p')"
  shows "\<exists>k\<le>length (pending p fd). p_trace p' = p_trace p @ [ESend fd (take k (pending p fd))] \<and>
    (r = int k \<or> r = - 1) \<and> sbuff_ok (buff_of p' fd) \<and> others_kept fd p p' \<and>
    w_type (wrap_of p' fd) = w_type (wrap_of p fd) \<and>
    pending p' fd = (if 0 < r \<and> k < length (pending p fd) then drop k (pending p fd) else pending p fd)"
proof (cases "sbf (buff_of p fd)")
  case None
  then show ?thesis using do_fd_write_empty[OF v ok] ok run by (simp add: sbuff_ok_def)
next
  case (Some bs)
  note n = valid_fd_nat[OF v]
  have s: "0 \<le> slen (buff_of p fd)" "slen (buff_of p fd) \<le> int (length bs)"
      "sbf_size (buff_of p fd) \<le> int (length bs)" using ok Some by (auto simp: sbuff_ok_def)
  obtain out rest where o: "safe_tcp_send_n bs (slen (buff_of p fd)) (p_sends p) = Inr (r, out, rest)"
    using run v Some by (auto simp: do_fd_write_def rbind_Inr_iff Let_def split: if_splits)
  obtain k where k: "k \<le> nat (slen (buff_of p fd))" "k \<le> length bs" "out = take k bs" "r = int k \<or> r = - 1"
    using safe_send_result[OF o] by auto
  have t: "take k bs = take k (pending p fd)" using k s Some by (simp add: pending_def)
  have lp: "length (pending p fd) = nat (slen (buff_of p fd))" using length_pending[OF ok] by simp
  show ?thesis
  proof (cases "0 < r \<and> r < slen (buff_of p fd)")
    case True
    then have rk: "r = int k" using k by auto
    have p': "p' = (eff (ESend fd out) (p\<lparr>p_sends := rest\<rparr>))\<lparr>p_fds := (p_fds p)[nat fd :=
        (wrap_of p fd)\<lparr>w_buff := (buff_of p fd)\<lparr>sbf := Some (shift_down bs r (slen (buff_of p fd) - r)),
          slen := slen (buff_of p fd) - r\<rparr>\<rparr>]\<rparr>"
      using run v Some o True by (simp add: do_fd_write_def Let_def)
    have "pending p' fd = drop k (pending p fd)" "sbuff_ok (buff_of p' fd)"
      using take_shift_down[of r "slen (buff_of p fd) - r" bs] length_shift_down[of r "slen (buff_of p fd) - r" bs]
        True rk s n Some by (simp_all add: p' pending_def sbuff_ok_def)
    then have "pending p' fd = drop k (pending p fd) \<and> sbuff_ok (buff_of p' fd) \<and> others_kept fd p p' \<and>
        w_type (wrap_of p' fd) = w_type (wrap_of p fd) \<and>
        p_trace p' = p_trace p @ [ESend fd (take k (pending p fd))]"
      using n k(3) t by (simp add: p')
    moreover have "k < length (pending p fd)" using True rk lp by arith
    ultimately show ?thesis using True rk by (intro exI[of _ k]) simp
  next
    case False
    then have "p' = eff (ESend fd out) (p\<lparr>p_sends := rest\<rparr>)"
      using run v Some o by (auto simp: do_fd_write_def Let_def)
    then have "pending p' fd = pending p fd \<and> sbuff_ok (buff_of p' fd) \<and> others_kept fd p p' \<and>
        w_type (wrap_of p' fd) = w_type (wrap_of p fd) \<and>
        p_trace p' = p_trace p @ [ESend fd (take k (pending p fd))]"
      using ok k(3) t by simp
    moreover have "k \<le> length (pending p fd)" "\<not> (0 < r \<and> k < length (pending p fd))"
      using False k(1,4) lp by auto
    ultimately show ?thesis using k(4) by (intro exI[of _ k]) auto
  qed
qed

text \<open>
  \<open>do_fd_write\<close> hands a prefix of the waiting bytes to the kernel. A partial write keeps
  exactly the rest waiting, in order; after an error, or when nothing went out, all is still waiting. No other
  connection is touched.
\<close>

theorem do_fd_write_effect:
  assumes v: "valid_fd p fd" and ok: "sbuff_ok (buff_of p fd)" and run: "do_fd_write fd p = Inr (r, p')"
  shows "\<exists>k\<le>length (pending p fd). p_trace p' = p_trace p @ [ESend fd (take k (pending p fd))] \<and>
    (r = int k \<or> r = - 1) \<and> sbuff_ok (buff_of p' fd) \<and> others_kept fd p p' \<and>
    w_type (wrap_of p' fd) = w_type (wrap_of p fd) \<and>
    pending p' fd = (if 0 < r \<and> k < length (pending p fd) then drop k (pending p fd) else pending p fd)"
  using assms by (rule write_effect)

theorem do_fd_write_effect_witness:
  "\<exists>p'. do_fd_write 1 (demo_waiting [SDone 2, SErr EAGAIN] []) = Inr (2, p') \<and> pending p' 1 = [3]"
proof -
  obtain p' where p': "do_fd_write 1 (demo_waiting [SDone 2, SErr EAGAIN] []) = Inr (2, p')"
    using demo_write_part by blast
  have "pending p' 1 = [3]"
    using do_fd_write_effect[OF _ demo_waiting_ok(1) p'] by (auto simp: demo_waiting_ok(3) split: if_splits)
  then show ?thesis using p' by blast
qed

text \<open>
  C38: when the kernel takes \<^emph>\<open>all\<close> waiting bytes, they are not removed from the buffer: the same
  bytes are still waiting, so the stream the peer sees will contain them twice.
\<close>

theorem do_fd_write_full_flush:
  assumes v: "valid_fd p fd" and ok: "sbuff_ok (buff_of p fd)" and run: "do_fd_write fd p = Inr (r, p')"
    and all: "r = slen (buff_of p fd)"
  shows "pending p' fd = pending p fd \<and> pending p fd \<noteq> [] \<and> slen (buff_of p' fd) = slen (buff_of p fd) \<and>
    sent_on fd (p_trace p') = sent_on fd (p_trace p) @ pending p fd \<and>
    out_stream p' fd = out_stream p fd @ pending p fd"
proof -
  have pos: "0 < r" using run do_fd_write_empty[OF v ok] ok all by (cases "r = 0") (auto simp: sbuff_ok_def)
  obtain k where k: "k \<le> length (pending p fd)" "p_trace p' = p_trace p @ [ESend fd (take k (pending p fd))]"
    "r = int k \<or> r = - 1" "sbuff_ok (buff_of p' fd)"
    "pending p' fd = (if 0 < r \<and> k < length (pending p fd) then drop k (pending p fd) else pending p fd)"
    using write_effect[OF v ok run] by auto
  have "k = length (pending p fd)" using k(3) pos all length_pending[OF ok] by simp
  then show ?thesis using k pos all length_pending[OF ok] length_pending[OF k(4)] by (auto simp: out_stream_def)
qed


theorem do_fd_write_full_flush_witness:
  "\<exists>p'. do_fd_write 1 (demo_waiting [SDone 3] []) = Inr (3, p') \<and> out_stream p' 1 = [1, 2, 3, 1, 2, 3]"
proof -
  obtain p' where p': "do_fd_write 1 (demo_waiting [SDone 3] []) = Inr (3, p')"
    using demo_write_all by blast
  have "out_stream p' 1 = [1, 2, 3, 1, 2, 3]"
    using do_fd_write_full_flush[OF _ demo_waiting_ok(1) p']
    by (simp add: demo_waiting_ok(3) out_stream_def)
  then show ?thesis using p' by blast
qed

lemma grow_sbf_null:
  assumes v: "valid_fd p fd" and none: "sbf (buff_of p fd) = None" and run: "grow_sbf fd n p = Inr (None, p')"
  shows "sbf (buff_of p' fd) = None \<and> valid_fd p' fd"
proof -
  obtain r p1 where a: "next_alloc p = Inr (r, p1)"
    using run v none by (auto simp: grow_sbf_def rbind_Inr_iff Let_def)
  then have p1: "p_fds p1 = p_fds p" by (auto simp: next_alloc_def split: list.splits)
  then have v1: "valid_fd p1 fd" using v by (simp add: valid_fd_def)
  have "\<not> r" using run v none a v1 by (auto simp: grow_sbf_def Let_def)
  then show ?thesis using run v none a v1 p1 valid_fd_nat[OF v] by (auto simp: grow_sbf_def Let_def valid_fd_def)
qed

lemma grow_sbf_ok:
  assumes v: "valid_fd p fd" and bs: "sbf (buff_of p fd) = Some bs" and run: "grow_sbf fd n p = Inr (None, p')"
    and sl: "0 \<le> slen (buff_of p fd)" "slen (buff_of p fd) \<le> int (length bs)"
      "sbf_size (buff_of p fd) \<le> int (length bs)" "0 \<le> n"
  shows "\<exists>bs1. sbf (buff_of p' fd) = Some bs1 \<and> slen (buff_of p' fd) = slen (buff_of p fd) \<and>
     sbf_size (buff_of p' fd) \<le> int (length bs1) \<and> slen (buff_of p fd) \<le> int (length bs1) \<and>
     take (nat (slen (buff_of p fd))) bs1 = take (nat (slen (buff_of p fd))) bs \<and> others_kept fd p p' \<and>
     p_trace p' = p_trace p \<and> p_setting p' = p_setting p \<and> w_type (wrap_of p' fd) = w_type (wrap_of p fd)"
proof -
  let ?need = "slen (buff_of p fd) + n"
  note nf = valid_fd_nat[OF v]
  have c: "cint ?need = Inr ?need" using run v bs by (auto simp: grow_sbf_def Let_def rbind_Inr_iff cint_Inr_iff)
  show ?thesis
  proof (cases "sbf_size (buff_of p fd) < ?need")
    case False
    then have "p' = p" using run v bs c by (simp add: grow_sbf_def Let_def)
    then show ?thesis using bs sl by simp
  next
    case True
    obtain r p1 where a: "next_alloc p = Inr (r, p1)"
      using run v bs c True by (auto simp: grow_sbf_def Let_def rbind_Inr_iff)
    then have p1: "p_fds p1 = p_fds p" "p_trace p1 = p_trace p" "p_setting p1 = p_setting p"
      by (auto simp: next_alloc_def split: list.splits)
    then have v1: "valid_fd p1 fd" using v by (simp add: valid_fd_def)
    define b1 where "b1 = take (nat ?need) bs @ replicate (nat ?need - length bs) 0"
    have r: "r" using run v bs c True a v1 by (cases r) (simp_all add: grow_sbf_def Let_def)
    have "grow_sbf fd n p = Inr (None, p1\<lparr>p_fds := (p_fds p)[nat fd := (wrap_of p fd)\<lparr>w_buff :=
        (buff_of p fd)\<lparr>sbf := Some b1, sbf_size := ?need\<rparr>\<rparr>]\<rparr>)"
      using v bs c True a v1 p1 r by (simp add: grow_sbf_def Let_def b1_def)
    then have p': "p' = p1\<lparr>p_fds := (p_fds p)[nat fd := (wrap_of p fd)\<lparr>w_buff :=
        (buff_of p fd)\<lparr>sbf := Some b1, sbf_size := ?need\<rparr>\<rparr>]\<rparr>" using run by simp
    have "take (nat (slen (buff_of p fd))) b1 = take (nat (slen (buff_of p fd))) bs" "int (length b1) = ?need"
      using sl by (auto simp: min_def b1_def)
    then show ?thesis using sl nf p1 by (intro exI[of _ b1]) (simp add: p')
  qed
qed

lemma take_store_end:
  assumes "store m a d = Inr m'" shows "take (nat (a + int (length d))) m' = take (nat a) m @ d"
proof -
  have "m' = take (nat a) m @ d @ drop (nat a + length d) m" "0 \<le> a" "nat a \<le> length m"
    using assms by (auto simp: store_def split: if_splits)
  then show ?thesis by (simp add: nat_add_distrib)
qed

lemma buff_rest_ok:
  assumes v: "valid_fd p fd" and ok: "sbuff_ok (buff_of p fd)"
    and run: "buff_rest fd left p = Inr (None, p')"
  shows "pending p' fd = pending p fd @ left \<and> sbuff_ok (buff_of p' fd) \<and> others_kept fd p p' \<and>
    p_trace p' = p_trace p \<and> w_type (wrap_of p' fd) = w_type (wrap_of p fd) \<and> p_setting p' = p_setting p"
proof -
  obtain e p1 where e: "grow_sbf fd (int (length left)) p = Inr (e, p1)"
    using run by (auto simp: buff_rest_def rbind_Inr_iff)
  have g: "grow_sbf fd (int (length left)) p = Inr (None, p1)"
    using run e by (cases e) (simp_all add: buff_rest_def)
  have "sbf (buff_of p fd) \<noteq> None"
  proof
    assume "sbf (buff_of p fd) = None"
    then have "sbf (buff_of p1 fd) = None" "valid_fd p1 fd" using grow_sbf_null[OF v _ g] by auto
    then show False using run g by (simp add: buff_rest_def Let_def)
  qed
  then obtain bs where bs: "sbf (buff_of p fd) = Some bs" by blast
  have sl: "0 \<le> slen (buff_of p fd)" "slen (buff_of p fd) \<le> int (length bs)"
    "sbf_size (buff_of p fd) \<le> int (length bs)" using ok bs by (auto simp: sbuff_ok_def)
  obtain b1 where b1: "sbf (buff_of p1 fd) = Some b1" "slen (buff_of p1 fd) = slen (buff_of p fd)"
     "sbf_size (buff_of p1 fd) \<le> int (length b1)" "slen (buff_of p fd) \<le> int (length b1)"
     "take (nat (slen (buff_of p fd))) b1 = take (nat (slen (buff_of p fd))) bs" and
     fr: "others_kept fd p p1" "p_trace p1 = p_trace p" "p_setting p1 = p_setting p"
      "w_type (wrap_of p1 fd) = w_type (wrap_of p fd)"
    using grow_sbf_ok[OF v bs g sl] by auto
  have v1: "valid_fd p1 fd" using others_kept_valid[OF fr(1)] v by simp
  note n1 = valid_fd_nat[OF v1]
  obtain b2 where st: "store b1 (slen (buff_of p fd)) left = Inr b2"
    using run g v1 b1 by (cases "store b1 (slen (buff_of p fd)) left") (simp_all add: buff_rest_def Let_def)
  let ?n = "slen (buff_of p fd) + int (length left)"
  have p': "p' = p1\<lparr>p_fds := (p_fds p1)[nat fd := (wrap_of p1 fd)\<lparr>w_buff :=
      (buff_of p1 fd)\<lparr>sbf := Some b2, slen := ?n\<rparr>\<rparr>]\<rparr>"
    using run g v1 b1 st by (simp add: buff_rest_def Let_def rbind_Inr_iff cint_Inr_iff)
  have "?n \<le> int (length b2)" using st length_store[OF st] by (auto simp: store_def split: if_splits)
  then show ?thesis
    using take_store_end[OF st] length_store[OF st] b1 fr n1 sl bs by (simp add: p' pending_def sbuff_ok_def)
qed

section \<open>do_fd_send\<close>

text \<open>What a step that does not close the connection keeps.\<close>

definition kept_open :: "int \<Rightarrow> ('l, 'h) proc \<Rightarrow> ('l, 'h) proc \<Rightarrow> bool" where
  "kept_open fd p p' \<longleftrightarrow> others_kept fd p p' \<and> w_type (wrap_of p' fd) = w_type (wrap_of p fd) \<and>
     sbuff_ok (buff_of p' fd)"

lemma kept_open_trans: "kept_open fd p q \<Longrightarrow> kept_open fd q r \<Longrightarrow> kept_open fd p r"
  using others_kept_trans by (auto simp: kept_open_def)

lemma kept_open_valid: "kept_open fd p p' \<Longrightarrow> valid_fd p' k = valid_fd p k"
  using others_kept_valid by (auto simp: kept_open_def)

text \<open>The kernel does not take everything that is waiting.\<close>

definition partial_flush :: "int \<Rightarrow> ('l, 'h) proc \<Rightarrow> bool" where
  "partial_flush fd p \<longleftrightarrow> (case do_fd_write fd p of Inl _ \<Rightarrow> True | Inr (r, _) \<Rightarrow> r \<noteq> slen (buff_of p fd))"

lemma flush_pending_ok:
  assumes v: "valid_fd p fd" and ok: "sbuff_ok (buff_of p fd)"
    and run: "flush_pending L S fd p = Inr (Some is_send, p1)"
  shows "kept_open fd p p1 \<and> (if slen (buff_of p fd) = 0 then p1 = p
    else is_send \<and> (partial_flush fd p \<longrightarrow> out_stream p1 fd = out_stream p fd \<and> slen (buff_of p1 fd) \<noteq> 0))"
proof (cases "slen (buff_of p fd) = 0")
  case True
  then show ?thesis using run v ok by (simp add: flush_pending_def kept_open_def)
next
  case False
  then have pos: "0 < slen (buff_of p fd)" using ok by (auto simp: sbuff_ok_def)
  obtain r q where w: "do_fd_write fd p = Inr (r, q)"
    using run v pos by (cases "do_fd_write fd p") (auto simp: flush_pending_def)
  then have "r \<noteq> - 1" "p1 = q" "is_send"
    using run v pos by (auto simp: flush_pending_def rbind_Inr_iff split: if_splits)
  moreover obtain k where k: "k \<le> length (pending p fd)" "p_trace q = p_trace p @ [ESend fd (take k (pending p fd))]"
    "r = int k \<or> r = - 1" "sbuff_ok (buff_of q fd)" "others_kept fd p q" "w_type (wrap_of q fd) = w_type (wrap_of p fd)"
    "pending q fd = (if 0 < r \<and> k < length (pending p fd) then drop k (pending p fd) else pending p fd)"
    using write_effect[OF v ok w] by auto
  moreover have "out_stream q fd = out_stream p fd \<and> slen (buff_of q fd) \<noteq> 0" if "partial_flush fd p"
  proof -
    have "k < length (pending p fd)" "pending q fd = drop k (pending p fd)"
      using that w k \<open>r \<noteq> - 1\<close> length_pending[OF ok] by (auto simp: partial_flush_def)
    then show ?thesis using k(2) length_pending[OF k(4)] by (auto simp: out_stream_def)
  qed
  ultimately show ?thesis using False by (simp add: kept_open_def)
qed

lemma send_direct_ok:
  assumes v: "valid_fd p fd" and ok: "sbuff_ok (buff_of p fd)"
    and run: "send_direct L S fd data len p = Inr (Some n, p2)"
  shows "kept_open fd p p2 \<and> slen (buff_of p2 fd) = slen (buff_of p fd) \<and> 0 \<le> n \<and> n \<le> max len 0 \<and>
    n \<le> int (length data) \<and> out_stream p2 fd = out_stream p fd @ take (nat n) data"
proof (cases "slen (buff_of p fd) = 0")
  case False
  then show ?thesis using run v ok by (simp add: send_direct_def kept_open_def)
next
  case True
  then have none: "pending p fd = []" using length_pending[OF ok] by simp
  obtain r out rest where o: "safe_tcp_send_n data len (p_sends p) = Inr (r, out, rest)"
    using run v True by (auto simp: send_direct_def rbind_Inr_iff)
  then have "r \<noteq> - 1 \<and> r = n \<and> p2 = eff (ESend fd out) (p\<lparr>p_sends := rest\<rparr>)"
    using run v True by (cases "r = - 1") (auto simp: send_direct_def Let_def rbind_Inr_iff)
  moreover obtain k where "0 < len" "k \<le> nat len" "k \<le> length data" "out = take k data" "r = int k \<or> r = - 1"
    using safe_send_result[OF o] by auto
  ultimately show ?thesis using ok none by (auto simp: kept_open_def out_stream_def)
qed

lemma queue_rest_ok:
  assumes v: "valid_fd p fd" and ok: "sbuff_ok (buff_of p fd)" and n: "0 \<le> n" "n \<le> max len 0"
    and run: "queue_rest L S fd data len n p = Inr (None, p')"
  shows "kept_open fd p p' \<and> out_stream p' fd = out_stream p fd @ take (nat (len - n)) (drop (nat n) data)"
proof (cases "n < len")
  case False
  then show ?thesis using run ok by (simp add: queue_rest_def kept_open_def)
next
  case True
  obtain left e q where l: "memcpy_src (drop (nat n) data) (len - n) = Inr left" "buff_rest fd left p = Inr (e, q)"
    using run True by (auto simp: queue_rest_def rbind_Inr_iff)
  have e: "e = None" using run True l by (cases e) (auto simp: queue_rest_def)
  have b: "pending q fd = pending p fd @ left" "sbuff_ok (buff_of q fd)" "others_kept fd p q" "p_trace q = p_trace p"
    "w_type (wrap_of q fd) = w_type (wrap_of p fd)"
    using buff_rest_ok[OF v ok] l(2) e by auto
  have "valid_fd q fd" using others_kept_valid[OF b(3)] v by simp
  then have "p' = q" using run True l e by (auto simp: queue_rest_def rbind_Inr_iff split: if_splits)
  moreover have "left = take (nat (len - n)) (drop (nat n) data)"
    using l(1) by (auto simp: memcpy_src_def split: if_splits)
  ultimately show ?thesis using b by (simp add: kept_open_def out_stream_def)
qed

lemma set_events_ok:
  assumes "valid_fd p fd" and "set_events fd is_send p = Inr (r, p')" and "sbuff_ok (buff_of p fd)"
  shows "kept_open fd p p' \<and> out_stream p' fd = out_stream p fd \<and> r = 0"
  using assms by (auto simp: set_events_def mod_fd_to_epinfo_def kept_open_def out_stream_def split: if_splits)

text \<open>
  C18: a \<open>do_fd_send\<close> that returns 0 adds exactly the message to the stream of the connection: the bytes
  handed to the kernel followed by the bytes still waiting are as before, then the \<open>len\<close> bytes of the message,
  provided the kernel does not take everything that was waiting (that case is \<open>do_fd_write_full_flush\<close>).
  The connection stays open, its buffer stays well formed and no other connection changes.
\<close>

theorem do_fd_send_stream:
  assumes v: "valid_fd p fd" and ok: "sbuff_ok (buff_of p fd)"
    and part: "slen (buff_of p fd) \<noteq> 0 \<longrightarrow> partial_flush fd p"
    and run: "do_fd_send L S fd data len p = Inr (0, p')"
  shows "out_stream p' fd = out_stream p fd @ take (nat len) data \<and> kept_open fd p p'"
proof -
  obtain f p1 where f: "flush_pending L S fd p = Inr (f, p1)" using run by (auto simp: do_fd_send_def rbind_Inr_iff)
  then obtain is_send where is_send: "f = Some is_send" using run by (cases f) (auto simp: do_fd_send_def)
  note k1 = flush_pending_ok[OF v ok f[unfolded is_send]]
  have v1: "valid_fd p1 fd" and ok1: "sbuff_ok (buff_of p1 fd)" using k1 kept_open_valid v by (auto simp: kept_open_def)
  obtain d p2 where d: "send_direct L S fd data len p1 = Inr (d, p2)"
    using run f is_send by (auto simp: do_fd_send_def rbind_Inr_iff)
  then obtain n where n: "d = Some n" using run f is_send by (cases d) (auto simp: do_fd_send_def)
  note k2 = send_direct_ok[OF v1 ok1 d[unfolded n]]
  have v2: "valid_fd p2 fd" and ok2: "sbuff_ok (buff_of p2 fd)" using k2 kept_open_valid v1 by (auto simp: kept_open_def)
  obtain e p3 where e: "queue_rest L S fd data len n p2 = Inr (e, p3)"
    using run f is_send d n by (auto simp: do_fd_send_def rbind_Inr_iff)
  have none: "e = None"
  proof (rule ccontr)
    assume "e \<noteq> None"
    then obtain r where "e = Some r" by blast
    then have "r = 0" "queue_rest L S fd data len n p2 = Inr (Some 0, p3)" using run f is_send d n e by (auto simp: do_fd_send_def)
    then show False
      by (auto simp: queue_rest_def buff_rest_def grow_sbf_def Let_def rbind_Inr_iff split: if_splits option.splits)
  qed
  have n2: "0 \<le> n" "n \<le> max len 0" using k2 by auto
  note k3 = queue_rest_ok[OF v2 ok2 n2 e[unfolded none]]
  have v3: "valid_fd p3 fd" and ok3: "sbuff_ok (buff_of p3 fd)" using k3 kept_open_valid v2 by (auto simp: kept_open_def)
  have "set_events fd is_send p3 = Inr (0, p')" using run f is_send d n e none by (simp add: do_fd_send_def)
  note k4 = set_events_ok[OF v3 this ok3]
  have "take (nat n) data @ take (nat (len - n)) (drop (nat n) data) = take (nat len) data"
  proof (cases "n \<le> len")
    case True
    then have "nat len = nat n + nat (len - n)" using n2 by simp
    then show ?thesis by (simp add: take_add)
  next
    case False
    then show ?thesis using n2 by (simp add: max_def split: if_splits)
  qed
  moreover have "out_stream p1 fd = out_stream p fd" using k1 part by (auto split: if_splits)
  ultimately show ?thesis using k1 k2 k3 k4 kept_open_trans by (metis append.assoc)
qed

theorem do_fd_send_stream_witness:
  "\<exists>p'. do_fd_send demo_nlist demo_serv 1 [4, 5] 2 (demo_waiting [SDone 2, SErr EAGAIN] [True]) = Inr (0, p') \<and>
     out_stream p' 1 = [1, 2, 3, 4, 5]"
proof -
  let ?p = "demo_waiting [SDone 2, SErr EAGAIN] [True]"
  have run: "\<exists>p'. do_fd_send demo_nlist demo_serv 1 [4, 5] 2 ?p = Inr (0, p')"
    by (simp add: do_fd_send_def flush_pending_def do_fd_write_def safe_tcp_send_n_def Let_def send_direct_def
        queue_rest_def memcpy_src_def buff_rest_def grow_sbf_def next_alloc_def store_def set_events_def
        demo_setting_def is_cint_def shift_down_def demo_buff_def fdw_def upd_buff_def upd_fdw_def)
  have "partial_flush 1 ?p"
    by (simp add: partial_flush_def do_fd_write_def safe_tcp_send_n_def Let_def demo_buff_def)
  then show ?thesis using run do_fd_send_stream[OF _ demo_waiting_ok(1), of "[SDone 2, SErr EAGAIN]" "[True]"
      demo_nlist demo_serv "[4, 5]" 2] by (auto simp: out_stream_def demo_waiting_ok(3))
qed

section \<open>What \<open>do_fd_send\<close> does without a send buffer\<close>

text \<open>
  C39: a message that the kernel takes only in part, on a connection that has no send buffer yet. If
  \<open>malloc\<close> succeeds the call returns -1, the rest of the message is dropped and the connection stays open
  with nothing waiting, so the peer sees a message cut short and then the next one. If \<open>malloc\<close> fails the
  rest is copied to the null pointer.
\<close>

theorem do_fd_send_no_buffer:
  assumes v: "valid_fd p fd" and b: "slen (buff_of p fd) = 0" "sbf (buff_of p fd) = None"
    and sent: "safe_tcp_send_n data len (p_sends p) = Inr (k, out, rest)" and k: "k \<noteq> - 1" "k < len"
    and a: "p_allocs p = alloc_ok # as"
  shows "if alloc_ok
    then \<exists>p'. do_fd_send L S fd data len p = Inr (- 1, p') \<and> w_type (wrap_of p' fd) = w_type (wrap_of p fd) \<and>
      slen (buff_of p' fd) = 0 \<and> p_trace p' = p_trace p @ [ESend fd (take (nat k) data)] \<and>
      out_stream p' fd = out_stream p fd @ take (nat k) data
    else do_fd_send L S fd data len p = Inl NullDeref"
proof -
  obtain j where j: "0 < len" "j \<le> nat len" "j \<le> length data" "out = take j data" "k = int j"
    using safe_send_result[OF sent] k by auto
  let ?p1 = "eff (ESend fd out) (p\<lparr>p_sends := rest\<rparr>)" and ?n = "len - k"
  have len: "int (length data) \<ge> len" using sent by (auto simp: safe_tcp_send_n_def split: if_splits)
  let ?left = "take (nat ?n) (drop (nat k) data)"
  have fl: "flush_pending L S fd p = Inr (Some False, p)" using v b by (simp add: flush_pending_def)
  have sd: "send_direct L S fd data len p = Inr (Some k, ?p1)" using v b sent k by (simp add: send_direct_def)
  have l: "memcpy_src (drop (nat k) data) ?n = Inr ?left" using k j len by (simp add: memcpy_src_def)
  have v1: "valid_fd ?p1 fd" "wrap_of ?p1 fd = wrap_of p fd" "p_allocs ?p1 = alloc_ok # as" using v a by simp_all
  note nf = valid_fd_nat[OF v]
  show ?thesis
  proof (cases alloc_ok)
    case False
    have "grow_sbf fd (int (length ?left)) ?p1 = Inr (None, ?p1\<lparr>p_allocs := as, p_fds := (p_fds p)[nat fd :=
        (wrap_of p fd)\<lparr>w_buff := (buff_of p fd)\<lparr>sbf_size := int (length ?left)\<rparr>\<rparr>]\<rparr>)"
      using v v1 False b by (simp add: grow_sbf_def next_alloc_def Let_def)
    then have "buff_rest fd ?left ?p1 = Inl NullDeref"
      using v b nf by (simp add: buff_rest_def Let_def fdw_def valid_fd_def)
    then show ?thesis using False fl sd l k by (simp add: do_fd_send_def queue_rest_def)
  next
    case True
    let ?p2 = "?p1\<lparr>p_allocs := as, p_fds := (p_fds p)[nat fd := (wrap_of p fd)\<lparr>w_buff := (buff_of p fd)\<lparr>sbf :=
        Some (replicate (nat (int (length ?left))) 0)\<rparr>\<rparr>]\<rparr>"
    have "grow_sbf fd (int (length ?left)) ?p1 = Inr (Some (- 1), ?p2)"
      using v v1 True b by (simp add: grow_sbf_def next_alloc_def Let_def)
    then have "buff_rest fd ?left ?p1 = Inr (Some (- 1), ?p2)" by (simp add: buff_rest_def)
    then have run: "do_fd_send L S fd data len p = Inr (- 1, ?p2)"
      using fl sd l k by (simp add: do_fd_send_def queue_rest_def)
    have none: "pending p fd = []" using b by (simp add: pending_def)
    have pend: "pending ?p2 fd = []" using b nf by (simp add: pending_def)
    show ?thesis
      unfolding run using True b nf j none pend by (auto simp: out_stream_def)
  qed
qed

theorem do_fd_send_no_buffer_witness:
  "\<exists>p'. do_fd_send demo_nlist demo_serv 0 [4, 5] 2 (demo_waiting [SDone 1, SErr EAGAIN] [True]) = Inr (- 1, p') \<and>
     slen (buff_of p' 0) = 0 \<and> out_stream p' 0 = [4]"
  using do_fd_send_no_buffer[of "demo_waiting [SDone 1, SErr EAGAIN] [True]" 0 "[4, 5]" 2 1 "[4]" "[]" True "[]"
      demo_nlist demo_serv]
  by (auto simp: demo_buff_def safe_tcp_send_n_def out_stream_def demo_waiting_ok(4))


end
