(* ===== verification/Work_Queues.thy ===== *)
theory Work_Queues
  imports Net_Send
begin

text \<open>
  A worker's two queues inside the state of a process: pushing a block keeps the queue's relation to
  a list of messages and changes nothing else.
\<close>

section \<open>Pushing\<close>

definition rq_holds :: "('l, 'h) proc \<Rightarrow> int \<Rightarrow> msg list \<Rightarrow> bool" where
  "rq_holds p i xs \<longleftrightarrow> 0 \<le> i \<and> i < int (length (p_works p)) \<and> mq_rel (wk_rq (p_works p ! nat i)) xs"

definition sq_holds :: "('l, 'h) proc \<Rightarrow> int \<Rightarrow> msg list \<Rightarrow> bool" where
  "sq_holds p i xs \<longleftrightarrow> 0 \<le> i \<and> i < int (length (p_works p)) \<and> mq_rel (wk_sq (p_works p ! nat i)) xs"

lemma get_work_ok [simp]:
  "0 \<le> i \<Longrightarrow> i < int (length (p_works p)) \<Longrightarrow> get_work p i = Inr (p_works p ! nat i)"
  by (simp add: get_work_def)

lemma upd_work_ok [simp]:
  "0 \<le> i \<Longrightarrow> i < int (length (p_works p)) \<Longrightarrow>
     upd_work i f p = Inr (p\<lparr>p_works := (p_works p)[nat i := f (p_works p ! nat i)]\<rparr>)"
  by (simp add: upd_work_def)

text \<open>The message list after a push that returned \<open>r\<close>.\<close>

definition after_push :: "int \<Rightarrow> msg \<Rightarrow> msg list \<Rightarrow> msg list" where
  "after_push r m xs = (if r = 0 then xs @ [m] else xs)"

lemma push_rq_ok:
  assumes "rq_holds p i xs" and "valid_msg (b, d)"
  shows "\<exists>r ws. push_rq i b d p = Inr (r, p\<lparr>p_works := ws\<rparr>) \<and> (r = 0 \<or> r = - 1) \<and>
    rq_holds (p\<lparr>p_works := ws\<rparr>) i (after_push r (b, d) xs) \<and> length ws = length (p_works p) \<and>
    (\<forall>j. wk_sq (ws ! j) = wk_sq (p_works p ! j)) \<and>
    (\<forall>j. j \<noteq> nat i \<longrightarrow> ws ! j = p_works p ! j)"
proof -
  have i: "0 \<le> i" "i < int (length (p_works p))" and q: "mq_rel (wk_rq (p_works p ! nat i)) xs"
    using assms(1) by (auto simp: rq_holds_def)
  obtain r q' where p: "mq_push (wk_rq (p_works p ! nat i)) b d = Inr (r, q')"
    "pushed (wk_rq (p_works p ! nat i)) xs (b, d) r q'"
    using mq_push_pushed[OF q assms(2)] by blast
  let ?k = "p_works p ! nat i"
  have n: "nat i < length (p_works p)" using i by simp
  have "push_rq i b d p = Inr (r, p\<lparr>p_works := (p_works p)[nat i := ?k\<lparr>wk_rq := q'\<rparr>]\<rparr>)"
    using i p(1) by (simp add: push_rq_def)
  moreover have "(r = 0 \<or> r = - 1) \<and> mq_rel q' (after_push r (b, d) xs)"
    using p(2) by (auto simp: pushed_def after_push_def)
  ultimately show ?thesis using i n
    by (intro exI[of _ r] exI[of _ "(p_works p)[nat i := ?k\<lparr>wk_rq := q'\<rparr>]"])
      (auto simp: rq_holds_def nth_list_update)
qed

lemma push_sq_ok:
  assumes "sq_holds p i xs" and "valid_msg (b, d)"
  shows "\<exists>r ws. push_sq i b d p = Inr (r, p\<lparr>p_works := ws\<rparr>) \<and> (r = 0 \<or> r = - 1) \<and>
    sq_holds (p\<lparr>p_works := ws\<rparr>) i (after_push r (b, d) xs) \<and> length ws = length (p_works p) \<and>
    (\<forall>j. wk_rq (ws ! j) = wk_rq (p_works p ! j)) \<and>
    (\<forall>j. j \<noteq> nat i \<longrightarrow> ws ! j = p_works p ! j)"
proof -
  have i: "0 \<le> i" "i < int (length (p_works p))" and q: "mq_rel (wk_sq (p_works p ! nat i)) xs"
    using assms(1) by (auto simp: sq_holds_def)
  obtain r q' where p: "mq_push (wk_sq (p_works p ! nat i)) b d = Inr (r, q')"
    "pushed (wk_sq (p_works p ! nat i)) xs (b, d) r q'"
    using mq_push_pushed[OF q assms(2)] by blast
  let ?k = "p_works p ! nat i"
  have n: "nat i < length (p_works p)" using i by simp
  have "push_sq i b d p = Inr (r, p\<lparr>p_works := (p_works p)[nat i := ?k\<lparr>wk_sq := q'\<rparr>]\<rparr>)"
    using i p(1) by (simp add: push_sq_def)
  moreover have "(r = 0 \<or> r = - 1) \<and> mq_rel q' (after_push r (b, d) xs)"
    using p(2) by (auto simp: pushed_def after_push_def)
  ultimately show ?thesis using i n
    by (intro exI[of _ r] exI[of _ "(p_works p)[nat i := ?k\<lparr>wk_sq := q'\<rparr>]"])
      (auto simp: sq_holds_def nth_list_update)
qed

text \<open>Messages without data.\<close>

definition close_msg :: "int \<Rightarrow> int \<Rightarrow> msg" where
  "close_msg i fd = (\<lparr>blk_id = i, blk_fd = fd, blk_type = blk_code BLK_CLOSE, blk_len = blk_head_len\<rparr>, [])"

lemma close_msg_valid: "is_cint i \<Longrightarrow> is_cint fd \<Longrightarrow> valid_msg (close_msg i fd)"
  by (simp add: close_msg_def valid_msg_def cint_head_def is_cint_def blk_head_len_def MQ_MAX_def)

text \<open>The longest data of a message.\<close>

definition MSG_MAX :: int where "MSG_MAX = MQ_MAX - 13"

lemma push_rq_take:
  assumes "blk_len b - blk_head_len \<le> int (length d)"
  shows "push_rq i b d p = push_rq i b (take (nat (blk_len b - blk_head_len)) d) p"
proof -
  define d' where "d' = take (nat (blk_len b - blk_head_len)) d"
  have "mq_push q b d = mq_push q b d'" for q using mq_push_take[OF assms] by (simp add: d'_def)
  then show ?thesis unfolding d'_def[symmetric] by (simp add: push_rq_def)
qed

lemma push_sq_take:
  assumes "blk_len b - blk_head_len \<le> int (length d)"
  shows "push_sq i b d p = push_sq i b (take (nat (blk_len b - blk_head_len)) d) p"
proof -
  define d' where "d' = take (nat (blk_len b - blk_head_len)) d"
  have "mq_push q b d = mq_push q b d'" for q using mq_push_take[OF assms] by (simp add: d'_def)
  then show ?thesis unfolding d'_def[symmetric] by (simp add: push_sq_def)
qed

text \<open>A data message.\<close>

definition data_msg :: "int \<Rightarrow> int \<Rightarrow> byte list \<Rightarrow> msg" where
  "data_msg i fd d = (\<lparr>blk_id = i, blk_fd = fd, blk_type = blk_code BLK_DATA, blk_len = int (length d) + blk_head_len\<rparr>, d)"

lemma data_msg_valid: "is_cint i \<Longrightarrow> is_cint fd \<Longrightarrow> int (length d) \<le> MSG_MAX \<Longrightarrow> valid_msg (data_msg i fd d)"
  by (simp add: data_msg_def valid_msg_def cint_head_def is_cint_def blk_head_len_def MQ_MAX_def MSG_MAX_def)

end
