(* ===== verification/Net_Close.thy ===== *)
theory Net_Close
  imports Work_Queues
begin

text \<open>
  Closing a connection (\<open>do_fd_close\<close> of \<^verbatim>\<open>net_util.c\<close>): the notification of the worker, the lists, the
  buffers, the descriptor and the bookkeeping.
\<close>

section \<open>Closing a connection\<close>

lemma free_buff_ok:
  assumes "valid_fd p fd"
  shows "free_buff fd p = Inr ((if rbf (buff_of p fd) \<noteq> None then eff (EMunmap (max_msg_len (p_setting p))) else id)
     (p\<lparr>p_fds := (p_fds p)[nat fd := (wrap_of p fd)\<lparr>w_buff := empty_buff\<rparr>]\<rparr>))"
  using assms by (simp add: free_buff_def)

text \<open>The part of \<open>do_fd_close\<close> after the notification, and its effect.\<close>

lemma close_tail:
  assumes L: "nlist_laws L" and ok: "cache_ok L p" and v: "valid_fd p fd"
  obtains p2 p3 where "do_del_from_readlist L fd p = Inr p2" "do_del_from_closelist L fd p2 = Inr p3"
    "cache_ok L p3" "cache L p3 = del_close fd (del_read fd (cache L p))" "same_but_flag fd p p3" "valid_fd p2 fd"
proof -
  obtain p2 where p2: "do_del_from_readlist L fd p = Inr p2" "cache_ok L p2" "cache L p2 = del_read fd (cache L p)"
     "same_but_flag fd p p2" using del_read.upd_law[OF L ok v] by blast
  have v2: "valid_fd p2 fd" using same_but_flag_frame(1)[OF p2(4) v] v by simp
  obtain p3 where p3: "do_del_from_closelist L fd p2 = Inr p3" "cache_ok L p3"
     "cache L p3 = del_close fd (cache L p2)" "same_but_flag fd p2 p3"
    using del_close.upd_law[OF L p2(2) v2] by blast
  have "same_but_flag fd p p3" by (rule same_but_flag_trans[OF p2(4) p3(4) v])
  then show thesis using that[OF p2(1) p3(1,2) _ _ v2] p3(3) p2(3) by simp
qed

lemma do_fd_close_null: "valid_fd p fd \<Longrightarrow> w_type (wrap_of p fd) = fd_type_null \<Longrightarrow> do_fd_close L S fd m p = Inr (0, p)"
  by (simp add: do_fd_close_def)

text \<open>Everything after the notification, in one step.\<close>

definition closed :: "int \<Rightarrow> ('l, 'h) proc \<Rightarrow> ('l, 'h) proc \<Rightarrow> bool" where
  "closed fd p p' \<longleftrightarrow> w_type (wrap_of p' fd) = fd_type_null \<and> buff_of p' fd = empty_buff \<and> others_kept fd p p' \<and>
     p_works p' = p_works p \<and> p_setting p' = p_setting p \<and> p_sess p' = p_sess p \<and>
     p_trace p' = p_trace p @ (if rbf (buff_of p fd) \<noteq> None then [EMunmap (max_msg_len (p_setting p))] else [])
        @ [EClose fd] \<and>
     p_count p' = p_count p - 1 \<and>
     p_maxfd p' = (if p_maxfd p = fd then prev_null (p_fds p) (nat fd) else p_maxfd p)"

lemma prev_null_cong: "(\<And>k. k < n \<Longrightarrow> w_type (fs ! k) = w_type (gs ! k)) \<Longrightarrow> prev_null fs n = prev_null gs n"
  by (induction n) simp_all

lemma same_but_flag_other:
  assumes "same_but_flag fd p q" and "valid_fd p fd"
  obtains fl l where "q = p\<lparr>p_links := l, p_fds := (p_fds p)[nat fd := (wrap_of p fd)\<lparr>w_flag := fl\<rparr>]\<rparr>"
  using assms by (auto simp: same_but_flag_def)

lemma do_fd_close_after:
  assumes L: "nlist_laws L" and ok: "cache_ok L p1" and v: "valid_fd p fd" "valid_fd p1 fd"
    and opn: "w_type (wrap_of p fd) \<noteq> fd_type_null"
    and notify: "rbind (if m \<noteq> 0 then
         rbind (push_rq (w_idx (wrap_of p fd)) \<lparr>blk_id = w_idx (wrap_of p fd), blk_fd = fd,
            blk_type = blk_code BLK_CLOSE, blk_len = blk_head_len\<rparr> [] p) (\<lambda>(_, p1). Inr p1)
       else (case so_on_serv_closed S of None \<Rightarrow> Inr p | Some f \<Rightarrow> f fd p)) Inr = Inr p1"
  shows "\<exists>p'. do_fd_close L S fd m p = Inr (0, p') \<and> closed fd p1 p' \<and> cache_ok L p' \<and>
    cache L p' = del_close fd (del_read fd (cache L p1))"
proof -
  obtain p2 p3 where p2: "do_del_from_readlist L fd p1 = Inr p2" and p3: "do_del_from_closelist L fd p2 = Inr p3"
    "cache_ok L p3" "cache L p3 = del_close fd (del_read fd (cache L p1))" "same_but_flag fd p1 p3" "valid_fd p2 fd"
    by (rule close_tail[OF L ok v(2)])
  obtain fl l where e: "p3 = p1\<lparr>p_links := l, p_fds := (p_fds p1)[nat fd := (wrap_of p1 fd)\<lparr>w_flag := fl\<rparr>]\<rparr>"
    using p3(4) v(2) by (rule same_but_flag_other)
  have v3: "valid_fd p3 fd" using v(2) by (simp add: e valid_fd_def)
  have n: "nat fd < length (p_fds p1)" using v(2) by (rule valid_fd_nat)
  define w where "w = (wrap_of p1 fd)\<lparr>w_flag := fl, w_buff := empty_buff, w_type := fd_type_null\<rparr>"
  define q where "q = (eff (EClose fd) (((if rbf (buff_of p1 fd) \<noteq> None
      then eff (EMunmap (max_msg_len (p_setting p1))) else id)
        (p3\<lparr>p_fds := (p_fds p1)[nat fd := (wrap_of p1 fd)\<lparr>w_flag := fl, w_buff := empty_buff\<rparr>]\<rparr>))
          \<lparr>p_fds := (p_fds p1)[nat fd := w]\<rparr>))\<lparr>p_count := p_count p1 - 1\<rparr>"
  have "do_fd_close L S fd m p = Inr (0, if p_maxfd p1 = fd then q\<lparr>p_maxfd := prev_null (p_fds q) (nat fd)\<rparr> else q)"
    using v opn notify p2 p3(1) v3 n
    by (simp add: do_fd_close_def free_buff_ok e q_def w_def Let_def rbind_Inr_iff)
  moreover have "prev_null (p_fds q) (nat fd) = prev_null (p_fds p1) (nat fd)"
    by (rule prev_null_cong) (simp add: q_def)
  moreover have "closed fd p1 (if p_maxfd p1 = fd then q\<lparr>p_maxfd := prev_null (p_fds p1) (nat fd)\<rparr> else q)"
    using n by (simp add: closed_def q_def w_def e others_kept_def)
  moreover have "cache_ok L (if p_maxfd p1 = fd then q\<lparr>p_maxfd := prev_null (p_fds p1) (nat fd)\<rparr> else q) = cache_ok L p3"
    "cache L (if p_maxfd p1 = fd then q\<lparr>p_maxfd := prev_null (p_fds p1) (nat fd)\<rparr> else q) = cache L p3"
    by (rule cache_ok_cong; simp add: q_def e w_def map_update)+
  ultimately show ?thesis using p3(2,3) by auto
qed

lemma rq_holds_works: "p_works p' = p_works p \<Longrightarrow> rq_holds p' = rq_holds p"
  by (simp add: rq_holds_def fun_eq_iff)

lemma close_effect:
  assumes L: "nlist_laws L" and ok: "cache_ok L p" and v: "valid_fd p fd" and m: "ismaster \<noteq> 0"
    and opn: "w_type (wrap_of p fd) \<noteq> fd_type_null"
    and q: "rq_holds p (w_idx (wrap_of p fd)) xs" and c: "is_cint (w_idx (wrap_of p fd))" "is_cint fd"
  shows "\<exists>p' r q1. mq_push (wk_rq (p_works p ! nat (w_idx (wrap_of p fd))))
      (fst (close_msg (w_idx (wrap_of p fd)) fd)) [] = Inr (r, q1) \<and>
    do_fd_close L S fd ismaster p = Inr (0, p') \<and>
    p_works p' = (p_works p)[nat (w_idx (wrap_of p fd)) := (p_works p ! nat (w_idx (wrap_of p fd)))\<lparr>wk_rq := q1\<rparr>] \<and>
    (r = 0 \<or> r = - 1) \<and> rq_holds p' (w_idx (wrap_of p fd)) (after_push r (close_msg (w_idx (wrap_of p fd)) fd) xs) \<and>
    w_type (wrap_of p' fd) = fd_type_null \<and> buff_of p' fd = empty_buff \<and> others_kept fd p p' \<and> cache_ok L p' \<and>
    cache L p' = del_close fd (del_read fd (cache L p)) \<and> p_setting p' = p_setting p \<and> p_sess p' = p_sess p \<and>
    p_maxfd p' = (if p_maxfd p = fd then prev_null (p_fds p) (nat fd) else p_maxfd p) \<and>
    p_trace p' = p_trace p @ (if rbf (buff_of p fd) \<noteq> None then [EMunmap (max_msg_len (p_setting p))] else []) @ [EClose fd] \<and>
    p_count p' = p_count p - 1 \<and> do_fd_close L S fd ismaster p' = Inr (0, p')"
proof -
  let ?i = "w_idx (wrap_of p fd)" and ?b = "fst (close_msg (w_idx (wrap_of p fd)) fd)"
  let ?k = "p_works p ! nat ?i"
  have i: "0 \<le> ?i" "?i < int (length (p_works p))" and r: "mq_rel (wk_rq ?k) xs" using q by (auto simp: rq_holds_def)
  obtain r q1 where q1: "mq_push (wk_rq ?k) ?b [] = Inr (r, q1)" "pushed (wk_rq ?k) xs (?b, []) r q1"
    using mq_push_pushed[OF r, of ?b "[]"] close_msg_valid[OF c] by (auto simp: close_msg_def)
  define ws where "ws = (p_works p)[nat ?i := ?k\<lparr>wk_rq := q1\<rparr>]"
  have w: "push_rq ?i ?b [] p = Inr (r, p\<lparr>p_works := ws\<rparr>)" "r = 0 \<or> r = - 1"
    "rq_holds (p\<lparr>p_works := ws\<rparr>) ?i (after_push r (?b, []) xs)"
    using i q1 by (auto simp: push_rq_def ws_def rq_holds_def pushed_def after_push_def)
  let ?p1 = "p\<lparr>p_works := ws\<rparr>"
  have ok1: "cache_ok L ?p1" "cache L ?p1 = cache L p"
    using ok cache_ok_cong[of ?p1 p L] by simp_all
  have v1: "valid_fd ?p1 fd" using v by simp
  obtain p' where p': "do_fd_close L S fd ismaster p = Inr (0, p')" "closed fd ?p1 p'" "cache_ok L p'"
    "cache L p' = del_close fd (del_read fd (cache L ?p1))"
    using do_fd_close_after[OF L ok1(1) v v1 opn, of ismaster S] w(1) m by (auto simp: close_msg_def)
  have o: "others_kept fd p p'" using p'(2) by (simp add: closed_def others_kept_def)
  moreover have "valid_fd p' fd" using others_kept_valid[OF o] v by simp
  moreover have "rq_holds p' ?i (after_push r (close_msg ?i fd) xs)"
    using w(3) rq_holds_works[of p' ?p1] p'(2) by (simp add: closed_def close_msg_def)
  ultimately show ?thesis using p' w(2) ok1(2)
    by (intro exI[of _ p'] exI[of _ r] exI[of _ q1]) (simp add: closed_def do_fd_close_null q1(1) ws_def)
qed

text \<open>
  C23: what closing a connection of the master does. One close block with the id of the worker and the descriptor is
  pushed into the queue of its worker, which holds it unless the push is refused (the result is looked at for the log
  only); the connection is off both lists, its buffers are gone, its descriptor is closed exactly once, the new
  \<open>maxfd\<close> is the next null entry below when it was this one, no other connection is touched, and a second call does
  nothing. The trace shows that the receive buffer, which is mapped with \<open>max_buf_len\<close> bytes, is unmapped with
  \<open>max_msg_len\<close>, and \<open>count\<close> goes down although nothing ever counts it up.
\<close>

theorem do_fd_close_effect:
  assumes L: "nlist_laws L" and ok: "cache_ok L p" and v: "valid_fd p fd" and m: "ismaster \<noteq> 0"
    and opn: "w_type (wrap_of p fd) \<noteq> fd_type_null"
    and q: "rq_holds p (w_idx (wrap_of p fd)) xs" and c: "is_cint (w_idx (wrap_of p fd))" "is_cint fd"
  shows "\<exists>p' r q1. mq_push (wk_rq (p_works p ! nat (w_idx (wrap_of p fd))))
      (fst (close_msg (w_idx (wrap_of p fd)) fd)) [] = Inr (r, q1) \<and>
    do_fd_close L S fd ismaster p = Inr (0, p') \<and>
    p_works p' = (p_works p)[nat (w_idx (wrap_of p fd)) := (p_works p ! nat (w_idx (wrap_of p fd)))\<lparr>wk_rq := q1\<rparr>] \<and>
    (r = 0 \<or> r = - 1) \<and> rq_holds p' (w_idx (wrap_of p fd)) (after_push r (close_msg (w_idx (wrap_of p fd)) fd) xs) \<and>
    w_type (wrap_of p' fd) = fd_type_null \<and> buff_of p' fd = empty_buff \<and> others_kept fd p p' \<and> cache_ok L p' \<and>
    cache L p' = del_close fd (del_read fd (cache L p)) \<and> p_setting p' = p_setting p \<and> p_sess p' = p_sess p \<and>
    p_maxfd p' = (if p_maxfd p = fd then prev_null (p_fds p) (nat fd) else p_maxfd p) \<and>
    p_trace p' = p_trace p @ (if rbf (buff_of p fd) \<noteq> None then [EMunmap (max_msg_len (p_setting p))] else []) @ [EClose fd] \<and>
    p_count p' = p_count p - 1 \<and> do_fd_close L S fd ismaster p' = Inr (0, p')"
  using assms by (rule close_effect)

theorem do_fd_close_effect_witness:
  "\<exists>p' r. do_fd_close demo_nlist demo_serv 1 1 demo_clients = Inr (0, p') \<and> w_type (wrap_of p' 1) = fd_type_null \<and>
     w_type (wrap_of p' 2) = fd_type_cli \<and> p_trace p' = [EClose 1] \<and> p_maxfd p' = p_maxfd demo_clients \<and>
     rq_holds p' 0 (after_push r (close_msg 0 1) [])"
proof -
  have c: "cache_ok demo_nlist demo_clients" unfolding demo_clients_def by (rule demo_cache_ok) auto
  have q: "rq_holds demo_clients 0 []"
    by (simp add: rq_holds_def demo_clients_def demo_work_def demo_queue_rel)
  show ?thesis
    using do_fd_close_effect[OF demo_nlist_laws c, of 1 1 "[]" demo_serv] q
    by (auto simp: demo_clients_def is_cint_def others_kept_def demo_buff_def)
qed

text \<open>
  after the connection with the highest descriptor is closed, \<open>maxfd\<close> is the next \<^emph>\<open>null\<close> entry below
  it: a connection that is open just below it is then above \<open>maxfd\<close>, where the loops over the table (\<open>start_work\<close>,
  \<open>work_init\<close>, \<open>master_fini\<close>) do not find it.
\<close>

theorem do_fd_close_maxfd:
  assumes L: "nlist_laws L" and ok: "cache_ok L p" and v: "valid_fd p fd" and m: "ismaster \<noteq> 0"
    and opn: "w_type (wrap_of p fd) \<noteq> fd_type_null"
    and q: "rq_holds p (w_idx (wrap_of p fd)) xs" and c: "is_cint (w_idx (wrap_of p fd))" "is_cint fd"
    and top: "p_maxfd p = fd" "0 < fd" "w_type (wrap_of p (fd - 1)) \<noteq> fd_type_null"
  shows "\<exists>p'. do_fd_close L S fd ismaster p = Inr (0, p') \<and> p_maxfd p' < fd - 1 \<and>
    w_type (wrap_of p' (fd - 1)) = w_type (wrap_of p (fd - 1))"
proof -
  let ?i = "w_idx (wrap_of p fd)" and ?b = "fst (close_msg (w_idx (wrap_of p fd)) fd)"
  obtain r ws where w: "push_rq ?i ?b [] p = Inr (r, p\<lparr>p_works := ws\<rparr>)"
    using push_rq_ok[OF q, of ?b "[]"] close_msg_valid[OF c] by (auto simp: close_msg_def)
  let ?p1 = "p\<lparr>p_works := ws\<rparr>"
  have ok1: "cache_ok L ?p1" using ok cache_ok_cong[of ?p1 p L] by simp
  have v1: "valid_fd ?p1 fd" using v by simp
  obtain p' where p': "do_fd_close L S fd ismaster p = Inr (0, p')" "closed fd ?p1 p'"
    using do_fd_close_after[OF L ok1 v v1 opn, of ismaster S] w(1) m by (auto simp: close_msg_def)
  have "prev_null fs n < int n" for fs n by (induction n) auto
  from this[of "p_fds p" "nat (fd - 1)"] have "prev_null (p_fds p) (Suc (nat (fd - 1))) < fd - 1"
    using top(2,3) by simp
  moreover have "Suc (nat (fd - 1)) = nat fd" using top(2) by simp
  ultimately have "prev_null (p_fds p) (nat fd) < fd - 1" by simp
  then show ?thesis using p' top v by (auto simp: closed_def others_kept_def valid_fd_def)
qed

theorem do_fd_close_maxfd_witness:
  "\<exists>p'. do_fd_close demo_nlist demo_serv 2 1 demo_clients = Inr (0, p') \<and> p_maxfd p' < 1 \<and>
     w_type (wrap_of p' 1) = fd_type_cli"
proof -
  have c: "cache_ok demo_nlist demo_clients" unfolding demo_clients_def by (rule demo_cache_ok) auto
  have q: "rq_holds demo_clients 0 []"
    by (simp add: rq_holds_def demo_clients_def demo_work_def demo_queue_rel)
  show ?thesis
    using do_fd_close_maxfd[OF demo_nlist_laws c, of 2 1 "[]" demo_serv] q
    by (auto simp: demo_clients_def is_cint_def)
qed

end
