(* ===== verification/Net_Recv.thy ===== *)
theory Net_Recv
  imports Net_Close
begin

text \<open>
  Receiving on a connection (\<open>handle_read\<close> of \<^verbatim>\<open>net_util.c\<close>): the bytes not yet worked on, in the
  receive buffer of \<open>max_buf_len\<close> bytes.
\<close>

section \<open>The receive buffer\<close>

definition unread :: "('l, 'h) proc \<Rightarrow> int \<Rightarrow> byte list" where
  "unread p fd = (case rbf (buff_of p fd) of None \<Rightarrow> [] | Some bs \<Rightarrow> take (nat (rlen (buff_of p fd))) bs)"

definition rbuff_ok :: "int \<Rightarrow> fd_buff \<Rightarrow> bool" where
  "rbuff_ok cap b \<longleftrightarrow> (case rbf b of None \<Rightarrow> True
     | Some bs \<Rightarrow> int (length bs) = cap \<and> 0 \<le> rlen b \<and> rlen b \<le> cap)"

lemma safe_recv_result:
  assumes "safe_tcp_recv_n n ans = Inr (r, bs, rest)"
  shows "0 < n \<and> (\<exists>used. ans = used @ rest \<and> bs = recv_bytes used \<and> int (length bs) \<le> n \<and>
    (r = int (length bs) \<or> r = 0 \<or> r = - 1))"
  using assms recv_loop_result[of n "[]" ans r bs rest]
  by (auto simp: safe_tcp_recv_n_def split: if_splits)

lemma unread_cong: "buff_of p' fd = buff_of p fd \<Longrightarrow> unread p' fd = unread p fd"
  by (simp only: unread_def)

lemma flag_update: "w_flag w = w_flag (fs ! i) \<Longrightarrow> map w_flag (fs[i := w]) = map w_flag fs"
  by (cases "i < length fs") (auto intro!: nth_equalityI simp: nth_list_update)

lemma map_rbf_some: "valid_fd p fd \<Longrightarrow> rbf (buff_of p fd) \<noteq> None \<Longrightarrow> map_rbf n fd p = Inr (True, p)"
  by (auto simp: map_rbf_def)

lemma map_rbf_ok:
  assumes v: "valid_fd p fd" and ok: "rbuff_ok n (buff_of p fd)" and n: "0 \<le> n"
    and run: "map_rbf n fd p = Inr (True, p')"
  shows "unread p' fd = unread p fd \<and> rbuff_ok n (buff_of p' fd) \<and> rbf (buff_of p' fd) \<noteq> None \<and>
    others_kept fd p p' \<and> p_recvs p' = p_recvs p \<and> p_links p' = p_links p \<and>
    map w_flag (p_fds p') = map w_flag (p_fds p) \<and> p_works p' = p_works p \<and> p_setting p' = p_setting p \<and>
    w_idx (wrap_of p' fd) = w_idx (wrap_of p fd) \<and> w_type (wrap_of p' fd) = w_type (wrap_of p fd) \<and>
    msglen (buff_of p' fd) = (if rbf (buff_of p fd) = None then 0 else msglen (buff_of p fd))"
proof (cases "rbf (buff_of p fd)")
  case (Some bs)
  then show ?thesis using map_rbf_some[OF v] run ok by simp
next
  case None
  obtain r p1 where a: "next_alloc p = Inr (r, p1)" using run v None by (auto simp: map_rbf_def rbind_Inr_iff)
  then have p1: "p_fds p1 = p_fds p" "p_recvs p1 = p_recvs p" "p_links p1 = p_links p" "valid_fd p1 fd"
      "p_works p1 = p_works p" "p_setting p1 = p_setting p"
    using v by (auto simp: next_alloc_def valid_fd_def split: list.splits)
  have r: "r" using run v None a p1 by (auto simp: map_rbf_def)
  have "map_rbf n fd p = Inr (True, eff (EMmap n) (p1\<lparr>p_fds := (p_fds p)[nat fd := (wrap_of p fd)\<lparr>w_buff :=
      (buff_of p fd)\<lparr>msglen := 0, rlen := 0, rbf := Some (replicate (nat n) 0)\<rparr>\<rparr>]\<rparr>))"
    using v None a p1 r by (simp add: map_rbf_def)
  then have "p' = eff (EMmap n) (p1\<lparr>p_fds := (p_fds p)[nat fd := (wrap_of p fd)\<lparr>w_buff :=
      (buff_of p fd)\<lparr>msglen := 0, rlen := 0, rbf := Some (replicate (nat n) 0)\<rparr>\<rparr>]\<rparr>)" using run by simp
  then show ?thesis using valid_fd_nat[OF v] p1 None n
    by (simp add: unread_def rbuff_ok_def flag_update)
qed

section \<open>Reading\<close>

lemma take_store_unread:
  assumes "store rb a bs = Inr rb'" and "a \<le> int (length rb)"
  shows "take (nat a) rb' = take (nat a) rb" "take (nat (a + int (length bs))) rb' = take (nat a) rb @ bs"
    "0 \<le> a" "a + int (length bs) \<le> int (length rb)"
proof -
  have e: "rb' = take (nat a) rb @ bs @ drop (nat a + length bs) rb" "0 \<le> a" "a + int (length bs) \<le> int (length rb)"
    using assms by (auto simp: store_def split: if_splits)
  then show "take (nat a) rb' = take (nat a) rb" "0 \<le> a" "a + int (length bs) \<le> int (length rb)" by simp_all
  show "take (nat (a + int (length bs))) rb' = take (nat a) rb @ bs" by (rule take_store_end[OF assms(1)])
qed

text \<open>One round of \<open>recv\<close> into the buffer: what is stored, before the result is looked at.\<close>

lemma recv_more_stored:
  assumes v: "valid_fd p fd" and ok: "rbuff_ok cap (buff_of p fd)" and rb: "rbf (buff_of p fd) = Some rb"
    and room: "rlen (buff_of p fd) < cap"
    and recv: "safe_tcp_recv_n (cap - rlen (buff_of p fd)) (p_recvs p) = Inr (r, bs, rest)"
  obtains rb' p2 where "store rb (rlen (buff_of p fd)) bs = Inr rb'" "length rb' = length rb"
    "p2 = p\<lparr>p_recvs := rest, p_fds := (p_fds p)[nat fd := (wrap_of p fd)\<lparr>w_buff := (buff_of p fd)\<lparr>rbf := Some rb'\<rparr>\<rparr>]\<rparr>"
    "recv_more L cap fd p = (if r \<le> 0 then Inr (- 1, p2)
       else rbind (cint (rlen (buff_of p fd) + r)) (\<lambda>rl.
         rbind (upd_buff fd (\<lambda>b. b\<lparr>rlen := rl\<rparr>) p2) (\<lambda>p3.
         rbind (if rl = cap then do_add_to_readlist L fd p3 else do_del_from_readlist L fd p3) (\<lambda>p4.
           Inr (r, p4)))))"
proof -
  have len: "int (length rb) = cap" "0 \<le> rlen (buff_of p fd)" using ok rb by (auto simp: rbuff_ok_def)
  have "int (length bs) \<le> cap - rlen (buff_of p fd)" using safe_recv_result[OF recv] by auto
  then obtain rb' where st: "store rb (rlen (buff_of p fd)) bs = Inr rb'" using store_Inr len by force
  show thesis
    by (rule that[OF st length_store[OF st] refl]) (use v rb room recv st in \<open>simp add: recv_more_def Let_def\<close>)
qed

text \<open>A round that does not fail: the bytes are behind the ones there, and the connection is on the read list exactly if it is full.\<close>

lemma recv_more_ok:
  assumes L: "nlist_laws L" and ok: "cache_ok L p" and v: "valid_fd p fd" and cap: "is_cint cap"
    and b: "rbuff_ok cap (buff_of p fd)" and rb: "rbf (buff_of p fd) = Some rb" and room: "rlen (buff_of p fd) < cap"
    and run: "recv_more L cap fd p = Inr (r, p')" and r: "r \<noteq> - 1"
  shows "\<exists>used. p_recvs p = used @ p_recvs p' \<and> unread p' fd = unread p fd @ recv_bytes used \<and>
    r = int (length (recv_bytes used)) \<and> r \<noteq> 0 \<and> rbuff_ok cap (buff_of p' fd) \<and> others_kept fd p p' \<and> cache_ok L p' \<and>
    cache L p' = (if int (length (unread p' fd)) = cap then add_read else del_read) fd (cache L p) \<and>
    rbf (buff_of p' fd) \<noteq> None \<and> p_works p' = p_works p \<and> p_setting p' = p_setting p \<and> w_idx (wrap_of p' fd) = w_idx (wrap_of p fd) \<and>
    w_type (wrap_of p' fd) = w_type (wrap_of p fd) \<and> msglen (buff_of p' fd) = msglen (buff_of p fd)"
proof -
  let ?l = "rlen (buff_of p fd)"
  have len: "int (length rb) = cap" "0 \<le> ?l" "?l \<le> int (length rb)" using b rb by (auto simp: rbuff_ok_def)
  obtain n bs rest where s: "safe_tcp_recv_n (cap - ?l) (p_recvs p) = Inr (n, bs, rest)"
    using run v room by (auto simp: recv_more_def Let_def rbind_Inr_iff)
  obtain used where used: "p_recvs p = used @ rest" "bs = recv_bytes used" "int (length bs) \<le> cap - ?l"
    "n = int (length bs) \<or> n = 0 \<or> n = - 1" using safe_recv_result[OF s] by auto
  obtain rb' p2 where st: "store rb ?l bs = Inr rb'" "length rb' = length rb" and
    p2: "p2 = p\<lparr>p_recvs := rest, p_fds := (p_fds p)[nat fd := (wrap_of p fd)\<lparr>w_buff := (buff_of p fd)\<lparr>rbf := Some rb'\<rparr>\<rparr>]\<rparr>"
    and rm: "recv_more L cap fd p = (if n \<le> 0 then Inr (- 1, p2)
     else rbind (cint (?l + n)) (\<lambda>rl. rbind (upd_buff fd (\<lambda>b. b\<lparr>rlen := rl\<rparr>) p2) (\<lambda>p3.
       rbind (if rl = cap then do_add_to_readlist L fd p3 else do_del_from_readlist L fd p3) (\<lambda>p4. Inr (n, p4)))))"
    by (rule recv_more_stored[OF v b rb room s, of L]) auto
  have n: "0 < n" using rm run r by (auto split: if_splits)
  then have nn: "n = int (length bs)" using used(4) by auto
  define p3 where "p3 = p\<lparr>p_recvs := rest, p_fds := (p_fds p)[nat fd := (wrap_of p fd)\<lparr>w_buff :=
      (buff_of p fd)\<lparr>rbf := Some rb', rlen := ?l + n\<rparr>\<rparr>]\<rparr>"
  note nf = valid_fd_nat[OF v]
  have v3: "valid_fd p2 fd" "valid_fd p3 fd" using v by (simp_all add: p2 p3_def)
  have "is_cint (?l + n)" using len used(3) nn cap n by (auto simp: is_cint_def)
  moreover have "upd_buff fd (\<lambda>b. b\<lparr>rlen := ?l + n\<rparr>) p2 = Inr p3" using v3 nf by (simp add: p2 p3_def)
  ultimately have "rbind (if ?l + n = cap then do_add_to_readlist L fd p3 else do_del_from_readlist L fd p3) (\<lambda>p4. Inr (n, p4)) = Inr (r, p')"
    using rm run n by simp
  then have up: "(if ?l + n = cap then do_add_to_readlist else do_del_from_readlist) L fd p3 = Inr p' \<and> r = n"
    by (auto simp: rbind_Inr_iff split: if_splits)
  have ok3: "cache_ok L p3" "cache L p3 = cache L p" using cache_ok_cong[of p3 p L] ok by (simp_all add: p3_def flag_update)
  have q: "cache_ok L p'" "cache L p' = (if ?l + n = cap then add_read else del_read) fd (cache L p)" "same_but_flag fd p3 p'"
    using add_read.upd_law[OF L ok3(1) v3(2)] del_read.upd_law[OF L ok3(1) v3(2)] up ok3(2) by (auto split: if_splits)
  have u3: "unread p3 fd = unread p fd @ bs" "rbuff_ok cap (buff_of p3 fd)" "others_kept fd p p3" "int (length (unread p3 fd)) = ?l + n"
    using take_store_unread[OF st(1) len(3)] nf len rb nn st(2) by (auto simp: p3_def unread_def rbuff_ok_def others_kept_def)
  have f: "p_recvs p' = rest" "buff_of p' fd = buff_of p3 fd" "others_kept fd p3 p'" "p_works p' = p_works p"
    "p_setting p' = p_setting p" "w_idx (wrap_of p' fd) = w_idx (wrap_of p fd)" "w_type (wrap_of p' fd) = w_type (wrap_of p fd)"
    "rbf (buff_of p' fd) = Some rb'" "msglen (buff_of p' fd) = msglen (buff_of p fd)"
    using q(3) valid_fd_nat[OF v3(2)] nf by (auto simp: same_but_flag_def p3_def others_kept_def)
  moreover have "unread p' fd = unread p3 fd" using unread_cong[of p' fd p3] f(2) by simp
  ultimately show ?thesis using used q(1,2) up n nn u3 others_kept_trans[OF u3(3) f(3)] by (intro exI[of _ used]) simp
qed

lemma handle_read_ok:
  assumes L: "nlist_laws L" and ok: "cache_ok L p" and v: "valid_fd p fd" and cap: "max_buf_len (p_setting p) = cap"
    "0 < cap" "is_cint cap" and b: "rbuff_ok cap (buff_of p fd)" and run: "handle_read L fd p = Inr (r, p')" and r: "r \<noteq> - 1"
  shows "\<exists>used. p_recvs p = used @ p_recvs p' \<and> unread p' fd = unread p fd @ recv_bytes used \<and>
    r = int (length (recv_bytes used)) \<and> rbuff_ok cap (buff_of p' fd) \<and> others_kept fd p p' \<and> cache_ok L p' \<and>
    (if r = 0 then int (length (unread p fd)) = cap
     else cache L p' = (if int (length (unread p' fd)) = cap then add_read else del_read) fd (cache L p)) \<and>
    rbf (buff_of p' fd) \<noteq> None \<and> p_works p' = p_works p \<and> p_setting p' = p_setting p \<and> w_idx (wrap_of p' fd) = w_idx (wrap_of p fd) \<and>
    w_type (wrap_of p' fd) = w_type (wrap_of p fd) \<and>
    msglen (buff_of p' fd) = (if rbf (buff_of p fd) = None then 0 else msglen (buff_of p fd))"
proof -
  obtain m p1 where m: "map_rbf cap fd p = Inr (m, p1)" using run cap by (auto simp: handle_read_def rbind_Inr_iff)
  then have mt: "m" and run1: "recv_more L cap fd p1 = Inr (r, p')" using run r cap(1)
    by (auto simp: handle_read_def split: if_splits)
  have p1: "unread p1 fd = unread p fd" "rbuff_ok cap (buff_of p1 fd)" "others_kept fd p p1" "p_recvs p1 = p_recvs p"
    "p_links p1 = p_links p" "map w_flag (p_fds p1) = map w_flag (p_fds p)" "rbf (buff_of p1 fd) \<noteq> None"
    and p1': "p_works p1 = p_works p" "p_setting p1 = p_setting p" "w_idx (wrap_of p1 fd) = w_idx (wrap_of p fd)"
      "w_type (wrap_of p1 fd) = w_type (wrap_of p fd)"
      "msglen (buff_of p1 fd) = (if rbf (buff_of p fd) = None then 0 else msglen (buff_of p fd))"
    using map_rbf_ok[OF v b _ m[unfolded eqTrueI[OF mt]]] cap(2) by auto
  have v1: "valid_fd p1 fd" using others_kept_valid[OF p1(3)] v by simp
  have ok1: "cache_ok L p1" "cache L p1 = cache L p" using cache_ok_cong[OF p1(5,6)] ok by auto
  obtain rb where rb: "rbf (buff_of p1 fd) = Some rb" using p1(7) by blast
  show ?thesis
  proof (cases "cap \<le> rlen (buff_of p1 fd)")
    case True
    then have "r = 0 \<and> p' = p1" using run1 v1 by (simp add: recv_more_def)
    moreover have "int (length (unread p1 fd)) = cap" using True p1(2) rb by (auto simp: unread_def rbuff_ok_def min_def)
    ultimately show ?thesis using p1 p1' ok1 by (intro exI[of _ "[]"]) auto
  next
    case False
    then obtain used where "p_recvs p1 = used @ p_recvs p'" "unread p' fd = unread p1 fd @ recv_bytes used"
      "r = int (length (recv_bytes used))" "r \<noteq> 0" "rbuff_ok cap (buff_of p' fd)" "others_kept fd p1 p'" "cache_ok L p'"
      "cache L p' = (if int (length (unread p' fd)) = cap then add_read else del_read) fd (cache L p1)"
      "rbf (buff_of p' fd) \<noteq> None \<and> p_works p' = p_works p1 \<and> p_setting p' = p_setting p1 \<and>
       w_idx (wrap_of p' fd) = w_idx (wrap_of p1 fd) \<and> w_type (wrap_of p' fd) = w_type (wrap_of p1 fd)"
      "msglen (buff_of p' fd) = msglen (buff_of p1 fd)"
      using recv_more_ok[OF L ok1(1) v1 cap(3) p1(2) rb _ run1 r] by auto
    then show ?thesis using p1(1,4) p1' ok1(2) others_kept_trans[OF p1(3)] by (intro exI[of _ used]) simp
  qed
qed

text \<open>A client whose buffer of 16 bytes holds 4 bytes that are not a whole message yet.\<close>

definition demo_reader :: "recv_ans list \<Rightarrow> (lnode \<Rightarrow> lnode list, int \<rightharpoonup> fdsess) proc" where
  "demo_reader rs = (demo_proc [demo_wrap fd_type_cli 0 demo_buff,
     demo_wrap fd_type_cli 1 (demo_buff\<lparr>rlen := 4, rbf := Some ([9, 9, 9, 9] @ replicate 12 0)\<rparr>)])\<lparr>p_recvs := rs\<rparr>"

lemma demo_reader_simps [simp]:
  "p_fds (demo_reader rs) = [demo_wrap fd_type_cli 0 demo_buff,
     demo_wrap fd_type_cli 1 (demo_buff\<lparr>rlen := 4, rbf := Some ([9, 9, 9, 9] @ replicate 12 0)\<rparr>)]"
  "p_recvs (demo_reader rs) = rs" "valid_fd (demo_reader rs) 1" "max_buf_len (p_setting (demo_reader rs)) = 16"
  by (simp_all add: demo_reader_def valid_fd_def demo_setting_def)

lemma demo_reader_ok: "rbuff_ok 16 (buff_of (demo_reader rs) 1)" "unread (demo_reader rs) 1 = [9, 9, 9, 9]"
    "cache_ok demo_nlist (demo_reader rs)" "cache demo_nlist (demo_reader rs) = ([], [])"
proof -
  let ?ws = "[demo_wrap fd_type_cli 0 demo_buff,
     demo_wrap fd_type_cli 1 (demo_buff\<lparr>rlen := 4, rbf := Some ([9, 9, 9, 9] @ replicate 12 0)\<rparr>)]"
  have "cache_ok demo_nlist (demo_proc ?ws)" by (rule demo_cache_ok) auto
  then show "cache_ok demo_nlist (demo_reader rs)" "cache demo_nlist (demo_reader rs) = ([], [])"
    using cache_ok_cong[of "demo_reader rs" "demo_proc ?ws" demo_nlist] by (simp_all add: demo_reader_def demo_cache)
qed (simp_all add: rbuff_ok_def unread_def)

text \<open>
  C22: a successful \<open>handle_read\<close> appends exactly the bytes the kernel delivered to the bytes not yet worked
  on, never beyond the buffer, and returns their number; the connection is on the read list afterwards
  exactly if the buffer is full (then more may be waiting in the kernel). It returns 0 only when the
  buffer was full before. No other connection is touched.
\<close>

theorem handle_read_appends:
  assumes L: "nlist_laws L" and ok: "cache_ok L p" and v: "valid_fd p fd" and cap: "max_buf_len (p_setting p) = cap"
    "0 < cap" "is_cint cap" and b: "rbuff_ok cap (buff_of p fd)" and run: "handle_read L fd p = Inr (r, p')" and r: "r \<noteq> - 1"
  shows "\<exists>used. p_recvs p = used @ p_recvs p' \<and> unread p' fd = unread p fd @ recv_bytes used \<and>
    r = int (length (recv_bytes used)) \<and> rbuff_ok cap (buff_of p' fd) \<and> others_kept fd p p' \<and> cache_ok L p' \<and>
    (if r = 0 then int (length (unread p fd)) = cap
     else cache L p' = (if int (length (unread p' fd)) = cap then add_read else del_read) fd (cache L p))"
  using handle_read_ok[OF assms] by blast

theorem handle_read_appends_witness:
  "\<exists>p'. handle_read demo_nlist 1 (demo_reader [RData [7, 7], RErr EAGAIN]) = Inr (2, p') \<and>
     unread p' 1 = [9, 9, 9, 9, 7, 7]"
proof -
  let ?p = "demo_reader [RData [7, 7], RErr EAGAIN]"
  have run: "\<exists>p'. handle_read demo_nlist 1 ?p = Inr (2, p') \<and> p_recvs p' = []"
    by (simp add: handle_read_def map_rbf_def recv_more_def Let_def safe_tcp_recv_n_def store_def is_cint_def
        do_del_from_readlist_def fdw_def upd_buff_def upd_fdw_def valid_fd_def CACHE_READ_def)
  then show ?thesis
    using handle_read_appends[OF demo_nlist_laws demo_reader_ok(3), where fd = 1 and cap = 16 and r = 2] demo_reader_ok
    by (fastforce simp: is_cint_def)
qed

text \<open>A call whose \<open>safe_tcp_recv_n\<close> does not return a positive number fails and keeps nothing.\<close>

lemma handle_read_fails:
  assumes v: "valid_fd p fd" and b: "rbuff_ok cap (buff_of p fd)" "rbf (buff_of p fd) = Some rb"
    and cap: "max_buf_len (p_setting p) = cap" and room: "rlen (buff_of p fd) < cap"
    and recv: "safe_tcp_recv_n (cap - rlen (buff_of p fd)) (p_recvs p) = Inr (r, bs, rest)" and r: "r \<le> 0"
  shows "\<exists>p'. handle_read L fd p = Inr (- 1, p') \<and> unread p' fd = unread p fd \<and> p_recvs p' = rest \<and> p_links p' = p_links p"
proof -
  obtain rb' p2 where st: "store rb (rlen (buff_of p fd)) bs = Inr rb'" and
    p2: "p2 = p\<lparr>p_recvs := rest, p_fds := (p_fds p)[nat fd := (wrap_of p fd)\<lparr>w_buff := (buff_of p fd)\<lparr>rbf := Some rb'\<rparr>\<rparr>]\<rparr>"
    and rm: "recv_more L cap fd p = (if r \<le> 0 then Inr (- 1, p2)
       else rbind (cint (rlen (buff_of p fd) + r)) (\<lambda>rl.
         rbind (upd_buff fd (\<lambda>b. b\<lparr>rlen := rl\<rparr>) p2) (\<lambda>p3.
         rbind (if rl = cap then do_add_to_readlist L fd p3 else do_del_from_readlist L fd p3) (\<lambda>p4.
           Inr (r, p4)))))"
    by (rule recv_more_stored[OF v b room recv, of L])
  have "handle_read L fd p = Inr (- 1, p2)" using map_rbf_some[OF v] b(2) cap rm r by (simp add: handle_read_def)
  moreover have "unread p2 fd = unread p fd"
    using take_store_unread(1)[OF st] b valid_fd_nat[OF v] by (simp add: p2 unread_def rbuff_ok_def)
  ultimately show ?thesis by (simp add: p2)
qed

text \<open>
  on a connection that is alive but has nothing to read at the moment, with room in the buffer,
  \<open>handle_read\<close> returns -1, the value on which the callers close the connection. This is what the retry from
  the read list meets after the client sent exactly as much as filled the buffer.
\<close>

theorem handle_read_nothing_fails:
  assumes "valid_fd p fd" and "rbuff_ok cap (buff_of p fd)" "rbf (buff_of p fd) = Some rb"
    and "max_buf_len (p_setting p) = cap" and "rlen (buff_of p fd) < cap"
    and "p_recvs p = RErr EAGAIN # rest"
  shows "\<exists>p'. handle_read L fd p = Inr (- 1, p') \<and> unread p' fd = unread p fd \<and> p_recvs p' = rest"
  using handle_read_fails[OF assms(1-5), of 0 "[]" rest L] assms(5,6) by (auto simp: safe_tcp_recv_n_def)

theorem handle_read_nothing_fails_witness:
  "\<exists>p'. handle_read demo_nlist 1 (demo_reader [RErr EAGAIN]) = Inr (- 1, p') \<and> unread p' 1 = [9, 9, 9, 9]"
  using handle_read_nothing_fails[of "demo_reader [RErr EAGAIN]" 1 16 "[9, 9, 9, 9] @ replicate 12 0" "[]" demo_nlist] demo_reader_ok
  by auto

text \<open>
  bytes that arrive together with the peer's end of stream are thrown away: a client that sends \<open>d\<close>
  and closes has \<open>d\<close> received into the buffer, but the call returns -1 and \<open>d\<close> is not among the bytes
  to work on.
\<close>

theorem handle_read_eof_drops:
  assumes "valid_fd p fd" and "rbuff_ok cap (buff_of p fd)" "rbf (buff_of p fd) = Some rb"
    and "max_buf_len (p_setting p) = cap" and "rlen (buff_of p fd) + int (length d) < cap"
    and "p_recvs p = RData d # RData [] # rest" and "d \<noteq> []"
  shows "\<exists>p'. handle_read L fd p = Inr (- 1, p') \<and> unread p' fd = unread p fd \<and> p_recvs p' = rest"
proof -
  have "safe_tcp_recv_n (cap - rlen (buff_of p fd)) (p_recvs p) = Inr (0, d, rest)"
    using assms(5-7) by (simp add: safe_tcp_recv_n_def)
  then show ?thesis using handle_read_fails[OF assms(1-4), of 0 d rest L] assms(5) by auto
qed

theorem handle_read_eof_drops_witness:
  "\<exists>p'. handle_read demo_nlist 1 (demo_reader [RData [7, 7], RData []]) = Inr (- 1, p') \<and> unread p' 1 = [9, 9, 9, 9]"
  using handle_read_eof_drops[of "demo_reader [RData [7, 7], RData []]" 1 16 "[9, 9, 9, 9] @ replicate 12 0" "[7, 7]" "[]" demo_nlist] demo_reader_ok
  by auto

end
