(* ===== verification/Framing.thy ===== *)
theory Framing
  imports Net_Recv
begin

text \<open>
  Cutting the bytes received on a connection into messages: the steps that the master's \<open>handle_cli\<close>
  (\<^verbatim>\<open>master.c\<close>) and the worker's \<open>do_proc_svr\<close> (\<^verbatim>\<open>work.c\<close>) have in common.
\<close>

section \<open>The steps\<close>

text \<open>Both kinds of server are numbered 0 in \<open>enum SERV_TYPE\<close>.\<close>

definition SERV_MASTER :: int where "SERV_MASTER = 0"
definition SERV_WORK :: int where "SERV_WORK = 0"

text \<open>The bytes readable at \<open>buff->rbf + off\<close>.\<close>

definition at_ptr :: "byte list option \<Rightarrow> int \<Rightarrow> byte list res" where
  "at_ptr bf off = (case bf of None \<Rightarrow> Inl NullDeref
     | Some bs \<Rightarrow> if 0 \<le> off \<and> off \<le> int (length bs) then Inr (drop (nat off) bs) else Inl OutOfBounds)"

text \<open>The length of the message at the front, asked for once, when at least one byte is there.\<close>

definition get_length ::
  "('l, 'h) proc serv_if \<Rightarrow> int \<Rightarrow> int \<Rightarrow> int \<Rightarrow> ('l, 'h) proc \<Rightarrow> ('l, 'h) proc res" where
  "get_length S kind fd off p = rbind (fdw p fd) (\<lambda>w. let b = w_buff w in
     if msglen b = 0 \<and> rlen b > 0 then
       rbind (at_ptr (rbf b) off) (\<lambda>src.
       rbind (so_get_msg_len S fd src (rlen b) kind) (\<lambda>m. upd_buff fd (\<lambda>b. b\<lparr>msglen := m\<rparr>) p))
     else Inr p)"

text \<open>Stepping over the message handed on; the result is the new offset.\<close>

definition consume :: "int \<Rightarrow> int \<Rightarrow> ('l, 'h) proc \<Rightarrow> (int \<times> ('l, 'h) proc) res" where
  "consume fd off p = rbind (fdw p fd) (\<lambda>w. let b = w_buff w in
     rbind (cint (rlen b - msglen b)) (\<lambda>rl.
     rbind (upd_buff fd (\<lambda>b. b\<lparr>rlen := rl, msglen := 0\<rparr>) p) (\<lambda>p1. Inr (off + msglen b, p1))))"

text \<open>Moving the unread rest to the front, shared by the two readers.\<close>

definition keep_rest :: "int \<Rightarrow> int \<Rightarrow> ('l, 'h) proc \<Rightarrow> ('l, 'h) proc res" where
  "keep_rest fd off p = rbind (fdw p fd) (\<lambda>w. let b = w_buff w in
     if off \<noteq> 0 \<and> rlen b > 0 then
       rbind (at_ptr (rbf b) off) (\<lambda>src.
       rbind (memcpy_src src (rlen b)) (\<lambda>rest.
       rbind (store (the (rbf b)) 0 rest) (\<lambda>rb. upd_buff fd (\<lambda>b. b\<lparr>rbf := Some rb\<rparr>) p)))
     else Inr p)"

section \<open>The messages of a byte stream\<close>

text \<open>
  \<open>g\<close> is the length the library gives for the bytes at hand, \<open>c\<close> the length found out earlier for the
  message at the front, 0 for none. The result are the whole messages, the bytes left and the length known
  for the message they begin.
\<close>

function cut :: "(byte list \<Rightarrow> int) \<Rightarrow> int \<Rightarrow> byte list \<Rightarrow> byte list list \<times> byte list \<times> int" where
  "cut g c bs = (let m = (if c = 0 \<and> bs \<noteq> [] then g bs else c) in
     if 0 < m \<and> m \<le> int (length bs) then
       (if drop (nat m) bs = [] then ([take (nat m) bs], [], 0)
        else (case cut g 0 (drop (nat m) bs) of (fs, r, k) \<Rightarrow> (take (nat m) bs # fs, r, k)))
     else ([], bs, m))"
  by pat_completeness auto

termination
  by (relation "measure (\<lambda>(g, c, bs). length bs)") auto

declare cut.simps [simp del]

text \<open>
  What the program relies on: \<open>get_msg_len\<close> looks at the available bytes only and gives a positive length.
  Some libraries do so only when enough has arrived: \<open>P\<close> says for which bytes, and \<open>asks P\<close> that cutting
  asks for the length of such bytes only.
\<close>

definition len_law :: "(byte list \<Rightarrow> bool) \<Rightarrow> ('l, 'h) proc serv_if \<Rightarrow> int \<Rightarrow> int \<Rightarrow> (byte list \<Rightarrow> int) \<Rightarrow> bool" where
  "len_law P S kind fd g \<longleftrightarrow> (\<forall>src n. 0 < n \<longrightarrow> n \<le> int (length src) \<longrightarrow> P (take (nat n) src) \<longrightarrow>
     so_get_msg_len S fd src n kind = Inr (g (take (nat n) src)) \<and> 0 < g (take (nat n) src))"

definition msg_len_law :: "('l, 'h) proc serv_if \<Rightarrow> int \<Rightarrow> int \<Rightarrow> (byte list \<Rightarrow> int) \<Rightarrow> bool" where
  "msg_len_law S kind fd g = len_law (\<lambda>_. True) S kind fd g"

function asks :: "(byte list \<Rightarrow> bool) \<Rightarrow> (byte list \<Rightarrow> int) \<Rightarrow> int \<Rightarrow> byte list \<Rightarrow> bool" where
  "asks P g c bs = (let m = if c = 0 \<and> bs \<noteq> [] then g bs else c in
     (c = 0 \<and> bs \<noteq> [] \<longrightarrow> P bs \<and> 0 < g bs) \<and>
     (0 < m \<and> m \<le> int (length bs) \<and> drop (nat m) bs \<noteq> [] \<longrightarrow> asks P g 0 (drop (nat m) bs)))"
  by pat_completeness auto

termination
  by (relation "measure (\<lambda>(P, g, c, bs). length bs)") auto

declare asks.simps [simp del]

lemma asks_any:
  assumes "\<And>bs. bs \<noteq> [] \<Longrightarrow> P bs \<and> 0 < g bs" shows "asks P g c bs"
proof (induction "length bs" arbitrary: c bs rule: less_induct)
  case less
  have "asks P g 0 (drop (nat m) bs)" if "0 < m" "drop (nat m) bs \<noteq> []" for m using that by (intro less) auto
  then show ?case using assms by (subst asks.simps) (simp add: Let_def)
qed

lemma asks_front: "asks P g c bs \<Longrightarrow> c = 0 \<Longrightarrow> bs \<noteq> [] \<Longrightarrow> P bs \<and> 0 < g bs"
  by (subst (asm) asks.simps) (simp add: Let_def)

lemma asks_tail:
  "asks P g c bs \<Longrightarrow> 0 < (if c = 0 \<and> bs \<noteq> [] then g bs else c) \<Longrightarrow>
    (if c = 0 \<and> bs \<noteq> [] then g bs else c) \<le> int (length bs) \<Longrightarrow>
    drop (nat (if c = 0 \<and> bs \<noteq> [] then g bs else c)) bs \<noteq> [] \<Longrightarrow>
    asks P g 0 (drop (nat (if c = 0 \<and> bs \<noteq> [] then g bs else c)) bs)"
  by (subst (asm) asks.simps) (simp add: Let_def)

lemma msg_len_pos: "msg_len_law S kind fd g \<Longrightarrow> bs \<noteq> [] \<Longrightarrow> 0 < g bs"
  unfolding msg_len_law_def len_law_def by (metis length_greater_0_conv nat_int of_nat_0_less_iff order_refl take_all)

text \<open>The part of the buffer still to be cut.\<close>

definition window :: "('l, 'h) proc \<Rightarrow> int \<Rightarrow> int \<Rightarrow> byte list" where
  "window p fd off = take (nat (rlen (buff_of p fd))) (drop (nat off) (the (rbf (buff_of p fd))))"

definition window_ok :: "('l, 'h) proc \<Rightarrow> int \<Rightarrow> int \<Rightarrow> bool" where
  "window_ok p fd off \<longleftrightarrow> valid_fd p fd \<and> rbf (buff_of p fd) \<noteq> None \<and> 0 \<le> off \<and> 0 \<le> rlen (buff_of p fd) \<and>
     off + rlen (buff_of p fd) \<le> int (length (the (rbf (buff_of p fd)))) \<and> 0 \<le> msglen (buff_of p fd)"

text \<open>What cutting leaves alone.\<close>

definition cut_frame :: "int \<Rightarrow> ('l, 'h) proc \<Rightarrow> ('l, 'h) proc \<Rightarrow> bool" where
  "cut_frame fd p p' \<longleftrightarrow> others_kept fd p p' \<and> p_links p' = p_links p \<and>
     map w_flag (p_fds p') = map w_flag (p_fds p) \<and> w_type (wrap_of p' fd) = w_type (wrap_of p fd) \<and>
     rbf (buff_of p' fd) = rbf (buff_of p fd) \<and> p_recvs p' = p_recvs p \<and> p_setting p' = p_setting p"

text \<open>What handing a message over leaves alone.\<close>

definition keeps_table :: "('l, 'h) proc \<Rightarrow> ('l, 'h) proc \<Rightarrow> bool" where
  "keeps_table p p' \<longleftrightarrow> p_fds p' = p_fds p \<and> p_links p' = p_links p \<and> p_recvs p' = p_recvs p \<and>
     p_setting p' = p_setting p"

definition only_buff :: "int \<Rightarrow> ('l, 'h) proc \<Rightarrow> ('l, 'h) proc \<Rightarrow> bool" where
  "only_buff fd p p' \<longleftrightarrow> (\<exists>b. p' = p\<lparr>p_fds := (p_fds p)[nat fd := (wrap_of p fd)\<lparr>w_buff := b\<rparr>]\<rparr>)"

lemma only_buff_refl: "only_buff fd p p"
  unfolding only_buff_def by (rule exI[of _ "buff_of p fd"]) simp

lemma only_buff_upd: "only_buff fd p (p\<lparr>p_fds := (p_fds p)[nat fd := (wrap_of p fd)\<lparr>w_buff := b\<rparr>]\<rparr>)"
  by (auto simp: only_buff_def)

lemma cut_frame_trans: "cut_frame fd p q \<Longrightarrow> cut_frame fd q r \<Longrightarrow> cut_frame fd p r"
  using others_kept_trans by (auto simp: cut_frame_def)

lemma cut_frame_buff:
  assumes "valid_fd p fd" and "rbf b = rbf (buff_of p fd)"
  shows "cut_frame fd p (p\<lparr>p_fds := (p_fds p)[nat fd := (wrap_of p fd)\<lparr>w_buff := b\<rparr>]\<rparr>)"
  using assms valid_fd_nat[OF assms(1)] by (simp add: cut_frame_def flag_update)

lemma length_window: "window_ok p fd off \<Longrightarrow> int (length (window p fd off)) = rlen (buff_of p fd)"
  by (auto simp: window_def window_ok_def)

lemma get_length_ok:
  assumes w: "window_ok p fd off" and pos: "0 < rlen (buff_of p fd)" and g: "len_law P S kind fd g"
    and P: "msglen (buff_of p fd) = 0 \<longrightarrow> P (window p fd off)"
  shows "\<exists>p1. get_length S kind fd off p = Inr p1 \<and> window_ok p1 fd off \<and> window p1 fd off = window p fd off \<and>
    cut_frame fd p p1 \<and> rlen (buff_of p1 fd) = rlen (buff_of p fd) \<and> 0 < msglen (buff_of p1 fd) \<and>
    msglen (buff_of p1 fd) = (if msglen (buff_of p fd) = 0 then g (window p fd off) else msglen (buff_of p fd)) \<and>
    only_buff fd p p1"
proof -
  have v: "valid_fd p fd" using w by (simp add: window_ok_def)
  note n = valid_fd_nat[OF v]
  obtain rb where rb: "rbf (buff_of p fd) = Some rb" using w by (auto simp: window_ok_def)
  have o: "0 \<le> off" "off + rlen (buff_of p fd) \<le> int (length rb)" "0 \<le> msglen (buff_of p fd)"
    using w rb by (auto simp: window_ok_def)
  show ?thesis
  proof (cases "msglen (buff_of p fd) = 0")
    case False
    have "get_length S kind fd off p = Inr p" using v False by (simp add: get_length_def)
    moreover have "cut_frame fd p p" by (simp add: cut_frame_def)
    ultimately show ?thesis using w False o(3) only_buff_refl[of fd p] by (intro exI[of _ p]) auto
  next
    case True
    let ?src = "drop (nat off) rb" and ?b = "\<lambda>m. (buff_of p fd)\<lparr>msglen := m\<rparr>"
    let ?p = "\<lambda>m. p\<lparr>p_fds := (p_fds p)[nat fd := (wrap_of p fd)\<lparr>w_buff := ?b m\<rparr>]\<rparr>"
    have wn: "window p fd off = take (nat (rlen (buff_of p fd))) ?src" "window p fd off \<noteq> []"
      using rb pos o by (auto simp: window_def)
    have gm: "so_get_msg_len S fd ?src (rlen (buff_of p fd)) kind = Inr (g (window p fd off))" "0 < g (window p fd off)"
      using g pos o wn P True by (auto simp: len_law_def)
    have "get_length S kind fd off p = Inr (?p (g (window p fd off)))"
      using v True pos rb o gm(1) by (simp add: get_length_def at_ptr_def)
    moreover have "window_ok (?p m) fd off" "window (?p m) fd off = window p fd off" if "0 \<le> m" for m
      using w n that by (simp_all add: window_ok_def window_def)
    ultimately show ?thesis
      using cut_frame_buff[OF v, of "?b (g (window p fd off))"] gm(2) n True
        only_buff_upd[of fd p "?b (g (window p fd off))"] by auto
  qed
qed

lemma consume_ok:
  assumes w: "window_ok p fd off" and m: "0 < msglen (buff_of p fd)" "msglen (buff_of p fd) \<le> rlen (buff_of p fd)"
    and c: "is_cint (rlen (buff_of p fd))"
  shows "\<exists>p1. consume fd off p = Inr (off + msglen (buff_of p fd), p1) \<and>
    window_ok p1 fd (off + msglen (buff_of p fd)) \<and>
    window p1 fd (off + msglen (buff_of p fd)) = drop (nat (msglen (buff_of p fd))) (window p fd off) \<and>
    cut_frame fd p p1 \<and> rlen (buff_of p1 fd) = rlen (buff_of p fd) - msglen (buff_of p fd) \<and>
    msglen (buff_of p1 fd) = 0 \<and> only_buff fd p p1"
proof -
  have v: "valid_fd p fd" using w by (simp add: window_ok_def)
  note n = valid_fd_nat[OF v]
  let ?b = "(buff_of p fd)\<lparr>rlen := rlen (buff_of p fd) - msglen (buff_of p fd), msglen := 0\<rparr>"
  let ?p = "p\<lparr>p_fds := (p_fds p)[nat fd := (wrap_of p fd)\<lparr>w_buff := ?b\<rparr>]\<rparr>"
  have "is_cint (rlen (buff_of p fd) - msglen (buff_of p fd))" using c m by (simp add: is_cint_def)
  then have "consume fd off p = Inr (off + msglen (buff_of p fd), ?p)" using v by (simp add: consume_def Let_def)
  moreover have "window ?p fd (off + msglen (buff_of p fd)) = drop (nat (msglen (buff_of p fd))) (window p fd off)"
  proof -
    have "nat (off + msglen (buff_of p fd)) = nat (msglen (buff_of p fd)) + nat off"
      using w m by (auto simp: window_ok_def nat_add_distrib)
    then show ?thesis using n m by (simp add: window_def drop_take nat_diff_distrib)
  qed
  moreover have "window_ok ?p fd (off + msglen (buff_of p fd))" using w m n by (auto simp: window_ok_def)
  ultimately show ?thesis using cut_frame_buff[OF v, of ?b] n only_buff_upd[of fd p ?b] by auto
qed

text \<open>
  Cutting does not depend on how the stream arrives, when the length of a message can be told from
  any of its first bytes on.
\<close>

lemma cut_append:
  assumes "\<And>bs ds. P bs \<Longrightarrow> g (bs @ ds) = g bs"
  shows "asks P g c bs \<Longrightarrow> 0 \<le> c \<Longrightarrow> cut g c bs = (fs, r, k) \<Longrightarrow>
    cut g c (bs @ ds) = (case cut g k (r @ ds) of (gs, r', k') \<Rightarrow> (fs @ gs, r', k'))"
proof (induction "length bs" arbitrary: c bs fs rule: less_induct)
  case less
  define m where "m = (if c = 0 \<and> bs \<noteq> [] then g bs else c)"
  note as = asks_front[OF less.prems(1)] asks_tail[OF less.prems(1), folded m_def]
  have m': "(if c = 0 \<and> bs @ ds \<noteq> [] then g (bs @ ds) else c) = m" if "0 < m"
    using that assms as(1) less.prems(2) by (auto simp: m_def)
  show ?case
  proof (cases "0 < m \<and> m \<le> int (length bs)")
    case False
    have "cut g c bs = ([], bs, m)" using False by (subst cut.simps) (auto simp: m_def[symmetric] Let_def)
    then have e: "fs = []" "r = bs" "k = m" using less.prems(3) by auto
    have "cut g c (bs @ ds) = cut g m (bs @ ds)"
    proof (cases "0 < m")
      case True
      show ?thesis by (subst (1 2) cut.simps) (use True m' in \<open>simp add: Let_def\<close>)
    next
      case z: False
      then have "m = c" using less.prems(2) as(1) by (auto simp: m_def split: if_splits)
      then show ?thesis by simp
    qed
    then show ?thesis using e by (simp split: prod.splits)
  next
    case True
    let ?f = "take (nat m) bs" and ?b = "drop (nat m) bs"
    have c1: "cut g c bs = (if ?b = [] then ([?f], [], 0) else (case cut g 0 ?b of (fs, r, k) \<Rightarrow> (?f # fs, r, k)))"
      using True by (subst cut.simps) (simp add: m_def[symmetric] Let_def)
    have c2: "cut g c (bs @ ds) = (if ?b @ ds = [] then ([?f], [], 0)
        else (case cut g 0 (?b @ ds) of (fs, r, k) \<Rightarrow> (?f # fs, r, k)))"
      using True m' by (subst cut.simps) (auto simp: Let_def le_nat_iff)
    show ?thesis
    proof (cases "?b = []")
      case nil: True
      then have e: "fs = [?f]" "r = []" "k = 0" using c1 less.prems(3) by auto
      have "cut g 0 [] = ([], [], 0)" by (subst cut.simps) simp
      then show ?thesis using c2 nil e by (cases "ds = []") (simp_all split: prod.splits)
    next
      case cons: False
      obtain fs0 where f: "cut g 0 ?b = (fs0, r, k)" "fs = ?f # fs0"
        using c1 cons less.prems(3) by (cases "cut g 0 ?b") auto
      have "length ?b < length bs" using True by auto
      from less.hyps[OF this as(2) _ f(1)] True cons show ?thesis using c2 cons f(2) by (simp split: prod.splits)
    qed
  qed
qed

lemma cut_rest:
  "asks P g c bs \<Longrightarrow> 0 \<le> c \<Longrightarrow> cut g c bs = (fs, r, k) \<Longrightarrow> cut g k r = ([], r, k) \<and> 0 \<le> k"
proof (induction "length bs" arbitrary: c bs fs rule: less_induct)
  case less
  define m where "m = (if c = 0 \<and> bs \<noteq> [] then g bs else c)"
  note as = asks_front[OF less.prems(1)] asks_tail[OF less.prems(1), folded m_def]
  have m0: "0 \<le> m" "m = 0 \<longrightarrow> bs = []" using as(1) less.prems(2) by (auto simp: m_def)
  show ?case
  proof (cases "0 < m \<and> m \<le> int (length bs)")
    case False
    have "cut g c bs = ([], bs, m)" using False by (subst cut.simps) (auto simp: m_def[symmetric] Let_def)
    then have e: "r = bs" "k = m" using less.prems(3) by auto
    have "cut g m bs = ([], bs, m)" by (subst cut.simps) (use False m0 in \<open>auto simp: Let_def\<close>)
    then show ?thesis using e m0 by simp
  next
    case True
    let ?b = "drop (nat m) bs"
    have c1: "cut g c bs = (if ?b = [] then ([take (nat m) bs], [], 0)
        else (case cut g 0 ?b of (fs, r, k) \<Rightarrow> (take (nat m) bs # fs, r, k)))"
      using True by (subst cut.simps) (simp add: m_def[symmetric] Let_def)
    show ?thesis
    proof (cases "?b = []")
      case nil: True
      then show ?thesis using c1 less.prems(3) by (subst cut.simps) auto
    next
      case cons: False
      obtain fs0 where f: "cut g 0 ?b = (fs0, r, k)" using c1 cons less.prems(3) by (cases "cut g 0 ?b") auto
      have "length ?b < length bs" using True by auto
      from less.hyps[OF this as(2) _ f] show ?thesis using True cons by simp
    qed
  qed
qed

section \<open>Keeping the rest\<close>

lemma keep_rest_ok:
  assumes w: "window_ok p fd off" and b: "int (length (the (rbf (buff_of p fd)))) = cap"
  shows "\<exists>p'. keep_rest fd off p = Inr p' \<and> unread p' fd = window p fd off \<and> rbuff_ok cap (buff_of p' fd) \<and>
    msglen (buff_of p' fd) = msglen (buff_of p fd) \<and> rbf (buff_of p' fd) \<noteq> None \<and> only_buff fd p p'"
proof -
  have v: "valid_fd p fd" using w by (simp add: window_ok_def)
  obtain rb where rb: "rbf (buff_of p fd) = Some rb" using w by (auto simp: window_ok_def)
  let ?l = "rlen (buff_of p fd)"
  have o: "0 \<le> off" "0 \<le> ?l" "off + ?l \<le> int (length rb)" using w rb by (auto simp: window_ok_def)
  show ?thesis
  proof (cases "off \<noteq> 0 \<and> ?l > 0")
    case False
    then have "keep_rest fd off p = Inr p" using v by (auto simp: keep_rest_def)
    moreover have "unread p fd = window p fd off" using False rb o by (auto simp: unread_def window_def)
    ultimately show ?thesis using o rb b only_buff_refl[of fd p] by (auto simp: rbuff_ok_def)
  next
    case True
    let ?r = "take (nat ?l) (drop (nat off) rb)"
    have lr: "int (length ?r) = ?l" "?l \<le> int (length rb - nat off)" using o by auto
    obtain rb' where st: "store rb 0 ?r = Inr rb'" using store_Inr[of 0 ?r rb] o by auto
    let ?b = "(buff_of p fd)\<lparr>rbf := Some rb'\<rparr>"
    have "keep_rest fd off p = Inr (p\<lparr>p_fds := (p_fds p)[nat fd := (wrap_of p fd)\<lparr>w_buff := ?b\<rparr>]\<rparr>)"
      using True v rb o st lr by (simp add: keep_rest_def at_ptr_def memcpy_src_def Let_def)
    moreover have "take (nat ?l) rb' = ?r" using take_store_end[OF st, unfolded lr(1)] by simp
    ultimately show ?thesis using only_buff_upd[of fd p ?b] valid_fd_nat[OF v] rb b o length_store[OF st]
      by (auto simp: unread_def window_def rbuff_ok_def)
  qed
qed

lemma window_zero: "window p fd 0 = unread p fd" if "rbf (buff_of p fd) \<noteq> None"
  using that by (auto simp: window_def unread_def)

lemma only_buff_frame:
  assumes "only_buff fd p p'" and "valid_fd p fd"
  shows "others_kept fd p p'" "p_links p' = p_links p" "map w_flag (p_fds p') = map w_flag (p_fds p)"
    "p_recvs p' = p_recvs p" "w_type (wrap_of p' fd) = w_type (wrap_of p fd)"
  using assms valid_fd_nat[OF assms(2)] by (auto simp: only_buff_def flag_update)

section \<open>The loop both readers share\<close>

text \<open>
  One round: the length, the test, handing the message over with \<open>deliver\<close>, which may refuse, and going on behind it. It ends
  with the offset of the next message, with the offset of the rest if there is no whole message left, or with a refusal.
\<close>

datatype frame_end = Cut_more int | Cut_rest int | Cut_refused

definition frame_step :: "('l, 'h) proc serv_if \<Rightarrow> int \<Rightarrow> (int \<Rightarrow> byte list \<Rightarrow> ('l, 'h) proc \<Rightarrow> (bool \<times> ('l, 'h) proc) res) \<Rightarrow>
    int \<Rightarrow> int \<Rightarrow> ('l, 'h) proc \<Rightarrow> (frame_end \<times> ('l, 'h) proc) res" where
  "frame_step S kind deliver fd off p = rbind (get_length S kind fd off p) (\<lambda>p1.
     rbind (fdw p1 fd) (\<lambda>w. if rlen (w_buff w) \<ge> msglen (w_buff w) then
       rbind (at_ptr (rbf (w_buff w)) off) (\<lambda>src.
       rbind (deliver fd src p1) (\<lambda>(taken, p2).
       if \<not> taken then Inr (Cut_refused, p2)
       else rbind (consume fd off p2) (\<lambda>(off2, p3). rbind (fdw p3 fd) (\<lambda>w3.
         Inr (if rlen (w_buff w3) > 0 then Cut_more off2 else Cut_rest off2, p3)))))
     else Inr (Cut_rest off, p1)))"

text \<open>
  The loop. \<open>c\<close> is whatever the reader works with; \<open>rel c fd p fs\<close> says that the messages \<open>fs\<close> have been delivered so far.
\<close>

locale frame_loop =
  fixes serv :: "'c \<Rightarrow> ('l, 'h) proc serv_if" and kind :: int
    and deliver :: "'c \<Rightarrow> int \<Rightarrow> byte list \<Rightarrow> ('l, 'h) proc \<Rightarrow> (bool \<times> ('l, 'h) proc) res"
    and run :: "'c \<Rightarrow> nat \<Rightarrow> int \<Rightarrow> int \<Rightarrow> ('l, 'h) proc \<Rightarrow> (int option \<times> ('l, 'h) proc) res"
    and rel :: "'c \<Rightarrow> int \<Rightarrow> ('l, 'h) proc \<Rightarrow> byte list list \<Rightarrow> bool"
  assumes run_Suc: "run c (Suc n) fd off p = rbind (frame_step (serv c) kind (deliver c) fd off p) (\<lambda>(e, p1). case e of
      Cut_more o1 \<Rightarrow> run c n fd o1 p1 | Cut_rest o1 \<Rightarrow> Inr (Some o1, p1) | Cut_refused \<Rightarrow> Inr (None, p1))"
    and deliver_law: "rel c fd p fs \<Longrightarrow> valid_fd p fd \<Longrightarrow> 0 < msglen (buff_of p fd) \<Longrightarrow> msglen (buff_of p fd) \<le> MSG_MAX \<Longrightarrow>
      msglen (buff_of p fd) \<le> int (length src) \<Longrightarrow>
      \<exists>taken p'. deliver c fd src p = Inr (taken, p') \<and> keeps_table p p' \<and>
        rel c fd p' (if taken then fs @ [take (nat (msglen (buff_of p fd))) src] else fs)"
    and rel_buff: "rel c fd p fs \<Longrightarrow> valid_fd p fd \<Longrightarrow> only_buff fd p p' \<Longrightarrow> rel c fd p' fs"
begin

text \<open>Where the loop ends: everything delivered and the rest known, or a message refused.\<close>

definition ends :: "'c \<Rightarrow> int \<Rightarrow> byte list list \<Rightarrow> byte list list \<times> byte list \<times> int \<Rightarrow> int option \<Rightarrow> ('l, 'h) proc \<Rightarrow> bool" where
  "ends c fd fs ct r p' \<longleftrightarrow> (case ct of (gs, rest, k) \<Rightarrow> (case r of
       Some off \<Rightarrow> window_ok p' fd off \<and> window p' fd off = rest \<and> msglen (buff_of p' fd) = k \<and> rel c fd p' (fs @ gs)
     | None \<Rightarrow> \<exists>gs1 gs2. gs = gs1 @ gs2 \<and> gs2 \<noteq> [] \<and> rel c fd p' (fs @ gs1)))"

lemma ends_Cons:
  assumes "ends c fd (fs @ [f]) (gs, rest, k) r p'" shows "ends c fd fs (f # gs, rest, k) r p'"
proof (cases r)
  case None
  then obtain gs1 gs2 where "gs = gs1 @ gs2" "gs2 \<noteq> []" "rel c fd p' ((fs @ [f]) @ gs1)"
    using assms by (auto simp: ends_def)
  then have "f # gs = (f # gs1) @ gs2 \<and> gs2 \<noteq> [] \<and> rel c fd p' (fs @ (f # gs1))" by simp
  then show ?thesis unfolding ends_def None prod.case option.case by blast
qed (use assms in \<open>simp add: ends_def\<close>)

lemma ends_refused:
  assumes "rel c fd p fs" and "gs \<noteq> []" shows "ends c fd fs (gs, rest, k) None p"
proof -
  have "gs = [] @ gs \<and> gs \<noteq> [] \<and> rel c fd p (fs @ [])" using assms by simp
  then show ?thesis unfolding ends_def prod.case option.case by blast
qed

lemma at_ptr_window:
  assumes "window_ok p fd off"
  shows "\<exists>src. at_ptr (rbf (buff_of p fd)) off = Inr src \<and> rlen (buff_of p fd) \<le> int (length src) \<and>
    (\<forall>m. m \<le> rlen (buff_of p fd) \<longrightarrow> take (nat m) src = take (nat m) (window p fd off))"
  using assms by (auto simp: window_ok_def at_ptr_def window_def min_def)

text \<open>One round at a message of \<open>m\<close> bytes: it has not arrived in full, or it is refused, or it is taken.\<close>

lemma frame_round:
  assumes g: "len_law P (serv c) kind fd g" and w: "window_ok p fd off" and pos: "0 < rlen (buff_of p fd)"
    and le: "rlen (buff_of p fd) \<le> MSG_MAX" and q: "rel c fd p fs"
    and P: "msglen (buff_of p fd) = 0 \<longrightarrow> P (window p fd off)"
    and m: "m = (if msglen (buff_of p fd) = 0 then g (window p fd off) else msglen (buff_of p fd))"
  obtains (waits) p1 where "0 < m" "rlen (buff_of p fd) < m" "frame_step (serv c) kind (deliver c) fd off p = Inr (Cut_rest off, p1)" "cut_frame fd p p1"
      "window_ok p1 fd off" "window p1 fd off = window p fd off" "msglen (buff_of p1 fd) = m" "rel c fd p1 fs"
  | (refused) p1 where "0 < m" "m \<le> rlen (buff_of p fd)" "frame_step (serv c) kind (deliver c) fd off p = Inr (Cut_refused, p1)" "cut_frame fd p p1" "rel c fd p1 fs"
  | (taken) p1 where "0 < m" "m \<le> rlen (buff_of p fd)"
      "frame_step (serv c) kind (deliver c) fd off p = Inr (if m < rlen (buff_of p fd) then Cut_more (off + m) else Cut_rest (off + m), p1)"
      "cut_frame fd p p1" "window_ok p1 fd (off + m)" "window p1 fd (off + m) = drop (nat m) (window p fd off)"
      "rlen (buff_of p1 fd) = rlen (buff_of p fd) - m" "msglen (buff_of p1 fd) = 0"
      "rel c fd p1 (fs @ [take (nat m) (window p fd off)])"
proof -
  let ?w = "window p fd off"
  obtain p1 where p1: "get_length (serv c) kind fd off p = Inr p1" "window_ok p1 fd off" "window p1 fd off = ?w"
    "cut_frame fd p p1" "rlen (buff_of p1 fd) = rlen (buff_of p fd)" "0 < m" "only_buff fd p p1" "msglen (buff_of p1 fd) = m"
    using get_length_ok[OF w pos g P] m by auto
  have v: "valid_fd p fd" "valid_fd p1 fd" using w p1(2) by (simp_all add: window_ok_def)
  have r1: "rel c fd p1 fs" using rel_buff[OF q v(1) p1(7)] .
  show thesis
  proof (cases "m \<le> rlen (buff_of p fd)")
    case False
    then show thesis using waits[of p1] p1 r1 v(2) by (simp add: frame_step_def)
  next
    case True
    obtain src where src: "at_ptr (rbf (buff_of p1 fd)) off = Inr src" "m \<le> int (length src)" "take (nat m) src = take (nat m) ?w"
      using at_ptr_window[OF p1(2)] True p1(3,5) by auto
    obtain tk p2 where p2: "deliver c fd src p1 = Inr (tk, p2)" "keeps_table p1 p2"
      "rel c fd p2 (if tk then fs @ [take (nat m) ?w] else fs)"
      using deliver_law[OF r1 v(2), of src, unfolded p1(8) src(3)] True p1(6) le src(2) by auto
    have t2: "p_fds p2 = p_fds p1" "p_links p2 = p_links p1" "p_recvs p2 = p_recvs p1" "p_setting p2 = p_setting p1"
      using p2(2) by (simp_all add: keeps_table_def)
    have w2: "window_ok p2 fd off" "window p2 fd off = ?w" "valid_fd p2 fd"
      using p1(2,3) v(2) t2(1) by (simp_all add: window_ok_def window_def valid_fd_def)
    have c2: "cut_frame fd p p2" using p1(4) t2 by (simp add: cut_frame_def others_kept_def)
    have "is_cint (rlen (buff_of p2 fd))" using pos le p1(5) t2(1) by (simp add: is_cint_def MSG_MAX_def MQ_MAX_def)
    then obtain p3 where p3: "consume fd off p2 = Inr (off + m, p3)" "window_ok p3 fd (off + m)"
      "window p3 fd (off + m) = drop (nat m) ?w" "cut_frame fd p2 p3"
      "rlen (buff_of p3 fd) = rlen (buff_of p fd) - m" "msglen (buff_of p3 fd) = 0" "only_buff fd p2 p3"
      using consume_ok[OF w2(1)] True p1(5,6,8) t2(1) w2(2) by auto
    have "tk \<Longrightarrow> rel c fd p3 (fs @ [take (nat m) ?w])" using rel_buff[OF _ w2(3) p3(7)] p2(3) by simp
    moreover have "valid_fd p3 fd" using p3(2) by (simp add: window_ok_def)
    ultimately show thesis
      using refused[of p2] taken[of p3] p1(1,5,6,8) v(2) True src(1) p2(1,3) c2 p3 cut_frame_trans[OF c2 p3(4)]
      by (cases tk) (simp_all add: frame_step_def)
  qed
qed

lemma cut_round:
  assumes "m = (if c = 0 then g w else c)" and "w \<noteq> []" and "0 < m"
  shows "cut g c w = (if m \<le> int (length w) then
      (if int (length w) = m then ([take (nat m) w], [], 0)
       else (case cut g 0 (drop (nat m) w) of (fs, r, k) \<Rightarrow> (take (nat m) w # fs, r, k)))
     else ([], w, m))"
  using assms by (subst cut.simps) (auto simp: Let_def)

lemma run_frames:
  assumes g: "len_law P (serv c) kind fd g"
  shows "window_ok p fd off \<Longrightarrow> 0 < rlen (buff_of p fd) \<Longrightarrow> rlen (buff_of p fd) \<le> MSG_MAX \<Longrightarrow> rel c fd p fs \<Longrightarrow>
    rlen (buff_of p fd) < int n \<Longrightarrow> asks P g (msglen (buff_of p fd)) (window p fd off) \<Longrightarrow>
    \<exists>r p'. run c n fd off p = Inr (r, p') \<and> cut_frame fd p p' \<and>
      ends c fd fs (cut g (msglen (buff_of p fd)) (window p fd off)) r p'"
proof (induction n arbitrary: off p fs)
  case (Suc n)
  let ?w = "window p fd off" and ?c = "msglen (buff_of p fd)"
  define m where "m = (if ?c = 0 then g ?w else ?c)"
  have w: "?w \<noteq> []" "int (length ?w) = rlen (buff_of p fd)" using length_window[OF Suc.prems(1)] Suc.prems(2) by auto
  have P: "?c = 0 \<longrightarrow> P ?w" using asks_front[OF Suc.prems(6) _ w(1)] by blast
  note ct = cut_round[of m ?c g ?w, OF m_def w(1), unfolded w(2)]
  show ?case
  proof (rule frame_round[OF g Suc.prems(1-4) P m_def])
    fix p1 assume "0 < m" "rlen (buff_of p fd) < m" "frame_step (serv c) kind (deliver c) fd off p = Inr (Cut_rest off, p1)" "cut_frame fd p p1"
      "window_ok p1 fd off" "window p1 fd off = ?w" "msglen (buff_of p1 fd) = m" "rel c fd p1 fs"
    then show ?case using ct by (simp add: ends_def run_Suc)
  next
    fix p1 assume a: "0 < m" "m \<le> rlen (buff_of p fd)" "frame_step (serv c) kind (deliver c) fd off p = Inr (Cut_refused, p1)" "cut_frame fd p p1" "rel c fd p1 fs"
    have "ends c fd fs (cut g ?c ?w) None p1" using ct a(1,2,5) by (auto intro: ends_refused split: prod.splits)
    then show ?case using a(3,4) by (auto simp: run_Suc)
  next
    fix p1 assume m: "0 < m" "m \<le> rlen (buff_of p fd)"
      and run: "frame_step (serv c) kind (deliver c) fd off p = Inr (if m < rlen (buff_of p fd) then Cut_more (off + m) else Cut_rest (off + m), p1)"
      and p1: "cut_frame fd p p1" "window_ok p1 fd (off + m)" "window p1 fd (off + m) = drop (nat m) ?w"
        "rlen (buff_of p1 fd) = rlen (buff_of p fd) - m" "msglen (buff_of p1 fd) = 0" "rel c fd p1 (fs @ [take (nat m) ?w])"
    show ?case
    proof (cases "rlen (buff_of p fd) = m")
      case True
      then show ?thesis using ct m run p1 w(2) by (simp add: ends_def run_Suc)
    next
      case False
      then have pos: "0 < rlen (buff_of p1 fd)" using p1(4) m(2) by simp
      have le: "rlen (buff_of p1 fd) \<le> MSG_MAX" "rlen (buff_of p1 fd) < int n" using p1(4) m Suc.prems(3,5) by auto
      have ml: "(if ?c = 0 \<and> ?w \<noteq> [] then g ?w else ?c) = m" using w(1) by (simp add: m_def)
      have "drop (nat m) ?w \<noteq> []" using w(2) m False by (auto simp: le_nat_iff)
      then have "asks P g 0 (drop (nat m) ?w)" using asks_tail[OF Suc.prems(6), unfolded ml] m w(2) by simp
      then obtain r p' where ih: "run c n fd (off + m) p1 = Inr (r, p')" "cut_frame fd p1 p'"
        "ends c fd (fs @ [take (nat m) ?w]) (cut g 0 (drop (nat m) ?w)) r p'"
        using Suc.IH[OF p1(2) pos le(1) p1(6) le(2)] p1(3,5) by auto
      obtain gs rest k where cg: "cut g 0 (drop (nat m) ?w) = (gs, rest, k)" by (cases "cut g 0 (drop (nat m) ?w)")
      have "ends c fd fs (cut g ?c ?w) r p'"
        using ends_Cons[of c fd fs "take (nat m) ?w" gs rest k r p'] ih(3) cg ct m False by simp
      then show ?thesis using run False m ih(1) cut_frame_trans[OF p1(1) ih(2)] by (auto simp: run_Suc)
    qed
  qed
qed simp

end

end
