(* ===== verification/Worker.thy ===== *)
theory Worker
  imports Framing
begin

text \<open>
  The worker process: the table of client sessions (\<^verbatim>\<open>fds.c\<close>), the messages from the master
  (\<open>handle_mq_recv\<close> and the handlers of the three kinds of block in \<^verbatim>\<open>work.c\<close>), what a worker sends
  back (\<open>send_to_cli\<close>, \<open>close_cli\<close>) and the data of connections to other servers (\<open>do_proc_svr\<close>).
\<close>

section \<open>Sessions\<close>

definition init_fds :: "('h, int, fdsess) ghash \<Rightarrow> ('l, 'h) proc \<Rightarrow> int \<times> ('l, 'h) proc" where
  "init_fds G p = (0, p\<lparr>p_sess := gh_new G\<rparr>)"

definition get_fd :: "('h, int, fdsess) ghash \<Rightarrow> ('l, 'h) proc \<Rightarrow> int \<Rightarrow> fdsess option" where
  "get_fd G p fd = gh_lookup G (p_sess p) fd"

text \<open>
  The key is a pointer into the value. Inserting over an existing key frees the old value and with
  it the memory of the key, which GLib keeps: from then on the table is not usable.
\<close>

definition save_fd :: "('h, int, fdsess) ghash \<Rightarrow> fdsess \<Rightarrow> ('l, 'h) proc \<Rightarrow> ('l, 'h) proc res" where
  "save_fd G sess p =
     (if get_fd G p (fs_fd sess) = None
      then Inr (p\<lparr>p_sess := gh_insert G (p_sess p) (fs_fd sess) sess\<rparr>) else Inl UseAfterFree)"

definition remove_fd :: "('h, int, fdsess) ghash \<Rightarrow> int \<Rightarrow> ('l, 'h) proc \<Rightarrow> ('l, 'h) proc" where
  "remove_fd G fd p = p\<lparr>p_sess := gh_remove G (p_sess p) fd\<rparr>"

section \<open>To the master\<close>

definition send_to_cli ::
  "fdsess \<Rightarrow> byte list \<Rightarrow> int \<Rightarrow> ('l, 'h) proc \<Rightarrow> (int \<times> ('l, 'h) proc) res" where
  "send_to_cli sess msg len p = rbind (cint (len + blk_head_len)) (\<lambda>n.
     rbind (push_sq (fs_id sess) \<lparr>blk_id = fs_id sess, blk_fd = fs_fd sess,
              blk_type = blk_code BLK_DATA, blk_len = n\<rparr> msg p) (\<lambda>(r, p1).
       Inr (if r = - 1 then - 1 else 0, p1)))"

section \<open>Blocks from the master\<close>

text \<open>
  The bytes of a \<open>fd_addr_t\<close>, and reading one. The handlers get the bytes at \<open>blk->data\<close> as a
  result, since they look at them only after their checks.
\<close>

definition fd_addr_len :: int where "fd_addr_len = 6"

definition enc_addr :: "fd_addr \<Rightarrow> byte list" where
  "enc_addr a = le_bytes 4 (uint (addr_ip a)) @ le_bytes 2 (uint (addr_port a))"

definition dec_addr :: "byte list \<Rightarrow> fd_addr" where
  "dec_addr bs = \<lparr>addr_ip = word_of_int (le_val (take 4 bs)),
                  addr_port = word_of_int (le_val (take 2 (drop 4 bs)))\<rparr>"

definition do_blk_open ::
  "('h, int, fdsess) ghash \<Rightarrow> mem_block \<Rightarrow> byte list res \<Rightarrow> ('l, 'h) proc \<Rightarrow>
     (int \<times> ('l, 'h) proc) res" where
  "do_blk_open G b data p =
     (if get_fd G p (blk_fd b) \<noteq> None \<or> blk_len b \<noteq> blk_head_len + fd_addr_len then Inr (- 1, p)
      else rbind data (\<lambda>bs. let a = dec_addr bs in
        rbind (save_fd G \<lparr>fs_fd = blk_fd b, fs_id = blk_id b, fs_ip = s32 (uint (addr_ip a)),
                          fs_port = uint (addr_port a)\<rparr> p) (\<lambda>p1. Inr (0, p1))))"

definition do_blk_close ::
  "('h, int, fdsess) ghash \<Rightarrow> ('l, 'h) proc serv_if \<Rightarrow> mem_block \<Rightarrow> ('l, 'h) proc \<Rightarrow>
     (int \<times> ('l, 'h) proc) res" where
  "do_blk_close G S b p = (case get_fd G p (blk_fd b) of
       None \<Rightarrow> Inr (- 1, p)
     | Some _ \<Rightarrow> rbind (so_on_cli_closed S (blk_fd b) p) (\<lambda>p1. Inr (0, remove_fd G (blk_fd b) p1)))"

definition close_cli ::
  "('h, int, fdsess) ghash \<Rightarrow> ('l, 'h) proc serv_if \<Rightarrow> int \<Rightarrow> ('l, 'h) proc \<Rightarrow> ('l, 'h) proc res" where
  "close_cli G S fd p = (case get_fd G p fd of
       None \<Rightarrow> Inr p
     | Some sess \<Rightarrow>
         let blk = \<lparr>blk_id = fs_id sess, blk_fd = fd, blk_type = blk_code BLK_CLOSE, blk_len = blk_head_len\<rparr>
         in rbind (push_sq (blk_id blk) blk [] p) (\<lambda>(_, p1).
            rbind (do_blk_close G S blk p1) (\<lambda>(_, p2). Inr p2)))"

definition do_blk_msg ::
  "('h, int, fdsess) ghash \<Rightarrow> ('l, 'h) proc serv_if \<Rightarrow> mem_block \<Rightarrow> byte list res \<Rightarrow> ('l, 'h) proc \<Rightarrow>
     (int \<times> ('l, 'h) proc) res" where
  "do_blk_msg G S b data p =
     (if blk_len b < blk_head_len then Inr (0, p)
      else case get_fd G p (blk_fd b) of
          None \<Rightarrow> Inr (0, p)
        | Some sess \<Rightarrow>
            rbind data (\<lambda>d.
            rbind (so_proc_cli_msg S d (blk_len b - blk_head_len) sess p) (\<lambda>(r, p1).
              if r \<noteq> 0 then rbind (close_cli G S (blk_fd b) p1) (\<lambda>p2. Inr (0, p2))
              else Inr (0, p1))))"

text \<open>
  One block: the \<open>switch\<close> of \<open>handle_mq_recv\<close>, for the block at offset \<open>a\<close> of the receive queue.
  When an open fails the code turns the block \<^emph>\<open>in the queue\<close> into a close block before it sends it
  back.
\<close>

definition set_rq :: "int \<Rightarrow> mem_queue \<Rightarrow> ('l, 'h) proc \<Rightarrow> ('l, 'h) proc res" where
  "set_rq i q p = upd_work i (\<lambda>k. k\<lparr>wk_rq := q\<rparr>) p"

definition do_blk ::
  "('h, int, fdsess) ghash \<Rightarrow> ('l, 'h) proc serv_if \<Rightarrow> int \<Rightarrow> int \<Rightarrow> ('l, 'h) proc \<Rightarrow> ('l, 'h) proc res" where
  "do_blk G S i a p = rbind (get_work p i) (\<lambda>k. let q = wk_rq k in
     rbind (read_head q a) (\<lambda>b.
     let data = read_data q a (blk_len b - blk_head_len) in
     if blk_type b = blk_code BLK_DATA then
       rbind (do_blk_msg G S b data p) (\<lambda>(_, p1). Inr p1)
     else if blk_type b = blk_code BLK_OPEN then
       rbind (do_blk_open G b data p) (\<lambda>(r, p1).
       if r = - 1 then
         rbind (store (mq_shm q) (a + 8) (blk_code BLK_CLOSE # le32 blk_head_len)) (\<lambda>m.
         rbind (set_rq i (q\<lparr>mq_shm := m\<rparr>) p1) (\<lambda>p2.
         rbind (push_sq i (b\<lparr>blk_type := blk_code BLK_CLOSE, blk_len := blk_head_len\<rparr>) [] p2)
           (\<lambda>(_, p3). Inr p3)))
       else Inr p1)
     else if blk_type b = blk_code BLK_CLOSE then
       rbind (do_blk_close G S b p) (\<lambda>(_, p1). Inr p1)
     else Inr p))"

text \<open>The loop of \<open>handle_mq_recv\<close>; \<open>n\<close> bounds the number of rounds.\<close>

fun handle_mq_recv ::
  "('h, int, fdsess) ghash \<Rightarrow> ('l, 'h) proc serv_if \<Rightarrow> nat \<Rightarrow> int \<Rightarrow> ('l, 'h) proc \<Rightarrow>
     (int \<times> ('l, 'h) proc) res" where
  "handle_mq_recv G S 0 i p = Inl Exhausted"
| "handle_mq_recv G S (Suc n) i p = rbind (get_work p i) (\<lambda>k.
     rbind (mq_get (wk_rq k)) (\<lambda>(blk, q1).
     rbind (set_rq i q1 p) (\<lambda>p1. case blk of
       None \<Rightarrow> Inr (0, p1)
     | Some a \<Rightarrow>
         rbind (do_blk G S i a p1) (\<lambda>p2.
         rbind (get_work p2 i) (\<lambda>k2.
         rbind (mq_pop (wk_rq k2)) (\<lambda>q2.
         rbind (set_rq i q2 p2) (\<lambda>p3. handle_mq_recv G S n i p3)))))))"

section \<open>Data from other servers\<close>

text \<open>The label \<open>proc_again\<close>: \<open>off\<close> is \<open>tmp_ptr - buff->rbf\<close>; the result is the final offset.\<close>

fun proc_again ::
  "('l, 'h) proc serv_if \<Rightarrow> nat \<Rightarrow> int \<Rightarrow> int \<Rightarrow> ('l, 'h) proc \<Rightarrow> (int \<times> ('l, 'h) proc) res" where
  "proc_again S 0 fd off p = Inl Exhausted"
| "proc_again S (Suc n) fd off p = rbind (get_length S SERV_WORK fd off p) (\<lambda>p1.
     rbind (fdw p1 fd) (\<lambda>w. let b = w_buff w in
     if rlen b \<ge> msglen b then
       rbind (at_ptr (rbf b) off) (\<lambda>src.
       rbind (so_proc_serv_msg S fd src (msglen b) p1) (\<lambda>p2.
       rbind (consume fd off p2) (\<lambda>(off2, p3).
       rbind (fdw p3 fd) (\<lambda>w3.
       if rlen (w_buff w3) > 0 then proc_again S n fd off2 p3 else Inr (off2, p3)))))
     else Inr (off, p1)))"

definition do_proc_svr ::
  "'l nlist \<Rightarrow> ('l, 'h) proc serv_if \<Rightarrow> nat \<Rightarrow> int \<Rightarrow> ('l, 'h) proc \<Rightarrow> (int \<times> ('l, 'h) proc) res" where
  "do_proc_svr L S n fd p = rbind (handle_read L fd p) (\<lambda>(r, p1).
     if r = - 1 then Inr (- 1, p1)
     else rbind (proc_again S n fd 0 p1) (\<lambda>(off, p2).
          rbind (keep_rest fd off p2) (\<lambda>p3. Inr (0, p3))))"

text \<open>Emptying the notification pipe: read until a read is short.\<close>

fun drain_pipe :: "recv_ans list \<Rightarrow> recv_ans list res" where
  "drain_pipe [] = Inl Exhausted"
| "drain_pipe (RData d # ans) = (if length d = 1024 then drain_pipe ans else Inr ans)"
| "drain_pipe (RErr e # ans) = Inr ans"

definition do_proc_pipe :: "int \<Rightarrow> ('l, 'h) proc \<Rightarrow> (int \<times> ('l, 'h) proc) res" where
  "do_proc_pipe fd p = rbind (drain_pipe (p_recvs p)) (\<lambda>rest. Inr (0, p\<lparr>p_recvs := rest\<rparr>))"

end
