(* ===== verification/Master.thy ===== *)
theory Master
  imports Worker
begin

text \<open>
  The master process (\<^verbatim>\<open>master.c\<close>): cutting a client's stream into messages and handing them to the
  worker (\<open>handle_cli\<close>), delivering what the workers send (\<open>handle_mq_send\<close>), accepting clients
  (\<open>do_fd_open\<close>) and the signal handlers.
\<close>

section \<open>From clients to workers\<close>

definition raw2blk :: "int \<Rightarrow> ('l, 'h) proc \<Rightarrow> mem_block res" where
  "raw2blk fd p = rbind (fdw p fd) (\<lambda>w. rbind (cint (msglen (w_buff w) + blk_head_len)) (\<lambda>n.
     Inr \<lparr>blk_id = w_idx w, blk_fd = fd, blk_type = blk_code BLK_DATA, blk_len = n\<rparr>))"

text \<open>
  The label \<open>push_again\<close>. \<open>None\<close> is the early return of -1; otherwise the result is the final
  offset \<open>tmp_ptr - buff->rbf\<close>.
\<close>

fun push_again ::
  "('l, 'h) proc serv_if \<Rightarrow> nat \<Rightarrow> int \<Rightarrow> int \<Rightarrow> ('l, 'h) proc \<Rightarrow> (int option \<times> ('l, 'h) proc) res" where
  "push_again S 0 fd off p = Inl Exhausted"
| "push_again S (Suc n) fd off p = rbind (get_length S SERV_MASTER fd off p) (\<lambda>p1.
     rbind (fdw p1 fd) (\<lambda>w. let b = w_buff w in
     if rlen b \<ge> msglen b then
       rbind (at_ptr (rbf b) off) (\<lambda>src.
       rbind (raw2blk fd p1) (\<lambda>blk.
       rbind (push_rq (w_idx w) blk src p1) (\<lambda>(r, p2).
       if r \<noteq> 0 then Inr (None, p2)
       else
         rbind (consume fd off p2) (\<lambda>(off2, p3).
         rbind (fdw p3 fd) (\<lambda>w3.
         if rlen (w_buff w3) > 0 then push_again S n fd off2 p3 else Inr (Some off2, p3))))))
     else Inr (Some off, p1)))"

definition handle_cli ::
  "'l nlist \<Rightarrow> ('l, 'h) proc serv_if \<Rightarrow> nat \<Rightarrow> int \<Rightarrow> ('l, 'h) proc \<Rightarrow> (int \<times> ('l, 'h) proc) res" where
  "handle_cli L S n fd p = rbind (handle_read L fd p) (\<lambda>(r, p1).
     if r = - 1 then Inr (- 1, p1)
     else rbind (push_again S n fd 0 p1) (\<lambda>(off, p2). case off of
         None \<Rightarrow> Inr (- 1, p2)
       | Some k \<Rightarrow> rbind (keep_rest fd k p2) (\<lambda>p3. Inr (0, p3))))"

text \<open>The notification pipe of the master; what is read is dropped.\<close>

definition handle_pipe :: "int \<Rightarrow> ('l, 'h) proc \<Rightarrow> (int \<times> ('l, 'h) proc) res" where
  "handle_pipe fd p = (let m = max_msg_len (p_setting p) in
     rbind (map_rbf m fd p) (\<lambda>(mapped_ok, p1).
       if \<not> mapped_ok then Inr (- 1, p1) else Inr (0, eff (ERead fd m) p1)))"

section \<open>From workers to clients\<close>

definition do_blk_send ::
  "'l nlist \<Rightarrow> ('l, 'h) proc serv_if \<Rightarrow> mem_block \<Rightarrow> byte list \<Rightarrow> ('l, 'h) proc \<Rightarrow>
     (int \<times> ('l, 'h) proc) res" where
  "do_blk_send L S b data p =
     (if blk_type b = blk_code BLK_CLOSE
      then rbind (do_fd_close L S (blk_fd b) 2 p) (\<lambda>(_, p1). Inr (0, p1))
      else do_fd_send L S (blk_fd b) data (blk_len b - blk_head_len) p)"

definition set_sq :: "int \<Rightarrow> mem_queue \<Rightarrow> ('l, 'h) proc \<Rightarrow> ('l, 'h) proc res" where
  "set_sq i q p = upd_work i (\<lambda>k. k\<lparr>wk_sq := q\<rparr>) p"

text \<open>The inner loop of \<open>handle_mq_send\<close>, for the send queue of worker \<open>i\<close>.\<close>

fun send_queue ::
  "'l nlist \<Rightarrow> ('l, 'h) proc serv_if \<Rightarrow> nat \<Rightarrow> int \<Rightarrow> ('l, 'h) proc \<Rightarrow> ('l, 'h) proc res" where
  "send_queue L S 0 i p = Inl Exhausted"
| "send_queue L S (Suc n) i p = rbind (get_work p i) (\<lambda>k.
     rbind (mq_get (wk_sq k)) (\<lambda>(blk, q1).
     rbind (set_sq i q1 p) (\<lambda>p1. case blk of
       None \<Rightarrow> Inr p1
     | Some a \<Rightarrow>
         rbind (read_head q1 a) (\<lambda>b.
         rbind (at_ptr (Some (mq_shm q1)) (a + blk_head_len)) (\<lambda>d.
         rbind (do_blk_send L S b d p1) (\<lambda>(_, p2).
         rbind (get_work p2 i) (\<lambda>k2.
         rbind (mq_pop (wk_sq k2)) (\<lambda>q2.
         rbind (set_sq i q2 p2) (\<lambda>p3. send_queue L S n i p3)))))))))"

fun send_queues ::
  "'l nlist \<Rightarrow> ('l, 'h) proc serv_if \<Rightarrow> nat \<Rightarrow> int list \<Rightarrow> ('l, 'h) proc \<Rightarrow> ('l, 'h) proc res" where
  "send_queues L S n [] p = Inr p"
| "send_queues L S n (i # is) p = rbind (send_queue L S n i p) (\<lambda>p1. send_queues L S n is p1)"

definition handle_mq_send ::
  "'l nlist \<Rightarrow> ('l, 'h) proc serv_if \<Rightarrow> nat \<Rightarrow> ('l, 'h) proc \<Rightarrow> ('l, 'h) proc res" where
  "handle_mq_send L S n p = send_queues L S n [0..p_nr_used p - 1] p"

section \<open>New clients\<close>

text \<open>
  \<open>accept\<close> does not give out a descriptor the process has open, so such an answer ends the model's run like an
  answer list that is used up. One answer of \<open>p_ctls\<close> is for \<open>set_io_nonblock\<close> in \<open>safe_tcp_accept\<close>. When the worker's queue is
  full the code closes \<open>fd\<close>, the listening descriptor it was called with.
\<close>

definition open_fd :: "('l, 'h) proc \<Rightarrow> int \<Rightarrow> bool" where
  "open_fd p fd \<longleftrightarrow> valid_fd p fd \<and> w_fd (wrap_of p fd) = fd \<and> w_type (wrap_of p fd) \<noteq> fd_type_null"

definition do_fd_open ::
  "'l nlist \<Rightarrow> ('l, 'h) proc serv_if \<Rightarrow> int \<Rightarrow> ('l, 'h) proc \<Rightarrow> (int \<times> ('l, 'h) proc) res" where
  "do_fd_open L S fd p =
     rbind (next_ctl p) (\<lambda>(nonblock_ok, p0).
     rbind (safe_tcp_accept (p_accepts p0) True nonblock_ok) (\<lambda>(newfd, (ip, port), closed, rest).
     let p1 = fold (\<lambda>c. eff (EClose c)) closed (p0\<lparr>p_accepts := rest\<rparr>) in
     if newfd > 0 then
       if open_fd p1 newfd then Inl Exhausted else
       rbind (fdw p1 fd) (\<lambda>w.
       rbind (add_fdinfo_to_epinfo newfd (w_idx w) fd_type_cli ip port p1) (\<lambda>(r, p2).
       if r = - 1 then Inr (0, p2)
       else
         rbind (fdw p2 newfd) (\<lambda>nw.
         rbind (push_rq (w_idx nw) \<lparr>blk_id = w_idx nw, blk_fd = newfd, blk_type = blk_code BLK_OPEN,
                                   blk_len = blk_head_len + fd_addr_len\<rparr> (enc_addr (w_addr nw)) p2)
           (\<lambda>(pr, p3).
         if pr = - 1 then rbind (do_fd_close L S fd 2 p3) (\<lambda>(_, p4). Inr (newfd, p4))
         else Inr (newfd, p3)))))
     else Inr (newfd, p1)))"

section \<open>Signals\<close>

text \<open>
  \<open>handle_term\<close> for the process \<open>pid\<close>. The child's slot is set to 0 before it is passed to \<open>kill\<close>.
\<close>

fun kill_children :: "int \<Rightarrow> nat \<Rightarrow> nat \<Rightarrow> ('l, 'h) proc \<Rightarrow> ('l, 'h) proc res" where
  "kill_children signo i 0 p = Inr p"
| "kill_children signo i (Suc k) p =
     (if i < length (p_chl_pids p) then
        (if p_chl_pids p ! i \<noteq> 0 then
           let p1 = p\<lparr>p_chl_pids := (p_chl_pids p)[i := 0]\<rparr> in
           kill_children signo (Suc i) k (eff (EKill (p_chl_pids p1 ! i) signo) p1)
         else kill_children signo (Suc i) k p)
      else Inl OutOfBounds)"

definition handle_term :: "int \<Rightarrow> int \<Rightarrow> ('l, 'h) proc \<Rightarrow> ('l, 'h) proc res" where
  "handle_term pid signo p =
     (if int (length (p_chl_pids p)) < p_nr_used p then Inl OutOfBounds
      else if pid \<in> set (take (nat (p_nr_used p)) (p_chl_pids p)) then Inr p
      else kill_children signo 0 (nat (p_nr_used p)) (p\<lparr>p_stop := 1\<rparr>))"

text \<open>\<open>handle_sigchld\<close>, the slot of a child that has stopped: its index, if it has one, is restarted.\<close>

definition reap_child :: "int \<Rightarrow> ('l, 'h) proc \<Rightarrow> int option \<times> ('l, 'h) proc" where
  "reap_child pid p =
     (case find (\<lambda>i. p_chl_pids p ! i = pid) [0..<nat (p_nr_used p)] of
        None \<Rightarrow> (None, p)
      | Some i \<Rightarrow> (Some (int i), p\<lparr>p_chl_pids := (p_chl_pids p)[i := 0]\<rparr>))"

end
