(* ===== verification/Stream_Reader.thy ===== *)
theory Stream_Reader
  imports Framing
begin

text \<open>
  Reading the stream of a connection: \<open>handle_read\<close>, the loop over the messages (\<open>frame_loop\<close>) and what is left over. The
  interface \<open>stream_reader\<close> covers \<open>handle_cli\<close> of the master and \<open>do_proc_svr\<close> of a worker, and follows both through
  any number of calls.
\<close>

section \<open>Reading a connection\<close>

text \<open>A connection that can be read from; its buffer has \<open>cap\<close> bytes.\<close>

definition conn_ok :: "'l nlist \<Rightarrow> int \<Rightarrow> int \<Rightarrow> ('l, 'h) proc \<Rightarrow> bool" where
  "conn_ok L cap fd p \<longleftrightarrow> nlist_laws L \<and> cache_ok L p \<and> valid_fd p fd \<and> max_buf_len (p_setting p) = cap \<and>
     0 < cap \<and> cap \<le> MSG_MAX \<and> rbuff_ok cap (buff_of p fd) \<and> 0 \<le> msglen (buff_of p fd)"

text \<open>What reading changes at most.\<close>

definition only_conn :: "('l, 'h) proc \<Rightarrow> ('l, 'h) proc \<Rightarrow> bool" where
  "only_conn p p1 \<longleftrightarrow> p_epfd p1 = p_epfd p \<and> p_maxfd p1 = p_maxfd p \<and> p_seq p1 = p_seq p \<and> p_count p1 = p_count p \<and>
     p_works p1 = p_works p \<and> p_nr_used p1 = p_nr_used p \<and> p_setting p1 = p_setting p \<and> p_sess p1 = p_sess p \<and>
     p_work_idx p1 = p_work_idx p \<and> p_stop p1 = p_stop p \<and> p_chl_pids p1 = p_chl_pids p \<and> p_sends p1 = p_sends p \<and>
     p_accepts p1 = p_accepts p \<and> p_ctls p1 = p_ctls p"

lemma only_connI: "only_conn p (p\<lparr>p_fds := fs\<rparr>)" "only_conn p (p\<lparr>p_recvs := rs\<rparr>)"
  by (simp_all add: only_conn_def eff_def)

lemma only_conn_trans: "only_conn p q \<Longrightarrow> only_conn q r \<Longrightarrow> only_conn p r"
  by (simp add: only_conn_def)

lemma only_buff_conn: "only_buff fd p p1 \<Longrightarrow> only_conn p p1"
  by (auto simp: only_buff_def only_conn_def)

lemma upd_buff_conn: "only_conn z p \<Longrightarrow> sat (only_conn z) (upd_buff fd f p)"
  by (auto simp: upd_buff_def upd_fdw_def only_conn_def intro!: sat_bind_any)

lemma next_alloc_conn: "only_conn z p \<Longrightarrow> sat (\<lambda>(r, p1). only_conn z p1) (next_alloc p)"
  by (auto simp: next_alloc_def only_conn_def split: list.split)

lemma map_rbf_conn: "only_conn z p \<Longrightarrow> sat (\<lambda>(r, p1). only_conn z p1) (map_rbf n fd p)"
  unfolding map_rbf_def
  by (rule sat_bind_any, rule sat_if, rule sat_bind[OF next_alloc_conn[where z = z]], assumption, rule sat_prod,
      rule sat_bind[OF upd_buff_conn[where z = z]]) (simp_all add: only_conn_def eff_def)

lemma read_list_conn: "only_conn z p \<Longrightarrow> sat (only_conn z) (do_add_to_readlist L fd p)"
  "only_conn z p \<Longrightarrow> sat (only_conn z) (do_del_from_readlist L fd p)"
  by (auto simp: do_add_to_readlist_def do_del_from_readlist_def only_conn_def upd_fdw_def Let_def intro!: sat_bind_any)

lemma recv_more_conn: "only_conn z p \<Longrightarrow> sat (\<lambda>(r, p1). only_conn z p1) (recv_more L cap fd p)"
  unfolding recv_more_def
  by (rule sat_bind_any, rule sat_let, rule sat_if, simp, rule sat_bind_any, rule sat_prod, rule sat_prod, rule sat_bind_any,
      rule sat_bind[OF upd_buff_conn[where z = z]], simp add: only_conn_def, rule sat_if, simp, rule sat_bind_any,
      rule sat_bind[OF upd_buff_conn[where z = z]], assumption, rule sat_bind[where Q = "only_conn z"])
    (auto intro: read_list_conn)

lemma handle_read_conn: "handle_read L fd p = Inr (r, p1) \<Longrightarrow> only_conn p p1"
proof -
  have "sat (\<lambda>(r, p1). only_conn p p1) (handle_read L fd p)"
    unfolding handle_read_def
    by (rule sat_bind[OF map_rbf_conn[where z = p]], simp add: only_conn_def, rule sat_prod, rule sat_if) (auto intro: recv_more_conn)
  then show "handle_read L fd p = Inr (r, p1) \<Longrightarrow> only_conn p p1" by (auto dest: satD)
qed

text \<open>
  A number of calls of a reader that return 0, between which the kernel has something new to say; the lists are the pieces
  of the stream that \<open>recv\<close> delivered in them.
\<close>

inductive reads :: "(('l, 'h) proc \<Rightarrow> (int \<times> ('l, 'h) proc) res) \<Rightarrow> ('l, 'h) proc \<Rightarrow> byte list list \<Rightarrow> ('l, 'h) proc \<Rightarrow> bool" for f where
  no_call: "reads f p [] p"
| one_call: "f (p\<lparr>p_recvs := used @ rest\<rparr>) = Inr (0, p1) \<Longrightarrow> p_recvs p1 = rest \<Longrightarrow>
    reads f p1 us p2 \<Longrightarrow> reads f p (recv_bytes used # us) p2"

text \<open>In none of the calls the library is asked about bytes without \<open>P\<close>; \<open>c\<close> and \<open>u\<close> are what was there before.\<close>

fun asks_pieces :: "(byte list \<Rightarrow> bool) \<Rightarrow> (byte list \<Rightarrow> int) \<Rightarrow> int \<Rightarrow> byte list \<Rightarrow> byte list list \<Rightarrow> bool" where
  "asks_pieces P g c u [] = True"
| "asks_pieces P g c u (d # us) = (asks P g c (u @ d) \<and> (case cut g c (u @ d) of (fs, r, k) \<Rightarrow> asks_pieces P g k r us))"

lemma asks_pieces_any: "(\<And>bs. bs \<noteq> [] \<Longrightarrow> P bs \<and> 0 < g bs) \<Longrightarrow> asks_pieces P g c u us"
  by (induction us arbitrary: c u) (auto intro: asks_any split: prod.splits)

lemma conn_ok_recvs: "conn_ok L cap fd (p\<lparr>p_recvs := rs\<rparr>) = conn_ok L cap fd p"
  using cache_ok_cong(1)[of "p\<lparr>p_recvs := rs\<rparr>" p L] by (simp add: conn_ok_def)

text \<open>After a read that does not fail there are bytes to work on, from the start of the buffer.\<close>

lemma read_bytes_ready:
  assumes ok: "conn_ok L cap fd p" and rd: "handle_read L fd p = Inr (r, p1)" "r \<noteq> - 1"
  shows "window_ok p1 fd 0 \<and> window p1 fd 0 = unread p1 fd \<and> 0 < rlen (buff_of p1 fd) \<and> rlen (buff_of p1 fd) \<le> cap \<and>
    others_kept fd p p1 \<and> cache_ok L p1 \<and> (\<exists>rb. rbf (buff_of p1 fd) = Some rb \<and> int (length rb) = cap) \<and>
    p_setting p1 = p_setting p \<and> w_idx (wrap_of p1 fd) = w_idx (wrap_of p fd)"
proof -
  have a: "nlist_laws L" "cache_ok L p" "valid_fd p fd" "max_buf_len (p_setting p) = cap" "0 < cap" "is_cint cap"
    "rbuff_ok cap (buff_of p fd)" and a2: "0 \<le> msglen (buff_of p fd)"
    using ok by (auto simp: conn_ok_def is_cint_def MSG_MAX_def MQ_MAX_def)
  obtain used where h: "unread p1 fd = unread p fd @ recv_bytes used" "r = int (length (recv_bytes used))"
    "rbuff_ok cap (buff_of p1 fd)" "others_kept fd p p1" "cache_ok L p1" "r = 0 \<longrightarrow> int (length (unread p fd)) = cap"
    "rbf (buff_of p1 fd) \<noteq> None" "p_setting p1 = p_setting p"
    "w_idx (wrap_of p1 fd) = w_idx (wrap_of p fd)" "0 \<le> msglen (buff_of p1 fd)"
    using handle_read_ok[OF a rd] a2 by (auto split: if_splits)
  have v1: "valid_fd p1 fd" using others_kept_valid[OF h(4)] a(3) by simp
  obtain rb where rb: "rbf (buff_of p1 fd) = Some rb" using h(7) by blast
  have len: "int (length rb) = cap" "0 \<le> rlen (buff_of p1 fd)" "rlen (buff_of p1 fd) \<le> cap"
    using h(3) rb by (auto simp: rbuff_ok_def)
  have w0: "window_ok p1 fd 0" "window p1 fd 0 = unread p1 fd"
    using v1 rb len h(10) window_zero[of p1 fd] by (simp_all add: window_ok_def)
  have "unread p1 fd \<noteq> []" using h(1,2,6) a(5) by (cases "r = 0") auto
  then have "0 < rlen (buff_of p1 fd)" using length_window[OF w0(1)] w0(2) by (cases "unread p1 fd") auto
  then show ?thesis using w0 len rb h by blast
qed

text \<open>
  A reader: \<open>handle_read\<close>, the loop over the messages, and moving the rest to the front. What the loop delivers to is not
  affected by reading.
\<close>

locale stream_reader = frame_loop serv kind deliver run rel
  for serv :: "'c \<Rightarrow> ('l, 'h) proc serv_if" and kind :: int
    and deliver :: "'c \<Rightarrow> int \<Rightarrow> byte list \<Rightarrow> ('l, 'h) proc \<Rightarrow> (bool \<times> ('l, 'h) proc) res"
    and run :: "'c \<Rightarrow> nat \<Rightarrow> int \<Rightarrow> int \<Rightarrow> ('l, 'h) proc \<Rightarrow> (int option \<times> ('l, 'h) proc) res"
    and rel :: "'c \<Rightarrow> int \<Rightarrow> ('l, 'h) proc \<Rightarrow> byte list list \<Rightarrow> bool" +
  fixes reader :: "'c \<Rightarrow> 'l nlist \<Rightarrow> nat \<Rightarrow> int \<Rightarrow> ('l, 'h) proc \<Rightarrow> (int \<times> ('l, 'h) proc) res"
  assumes reader_eq: "reader c L n fd p = rbind (handle_read L fd p) (\<lambda>(r, p1).
      if r = - 1 then Inr (- 1, p1)
      else rbind (run c n fd 0 p1) (\<lambda>(off, p2). case off of
          None \<Rightarrow> Inr (- 1, p2)
        | Some k \<Rightarrow> rbind (keep_rest fd k p2) (\<lambda>p3. Inr (0, p3))))"
    and rel_conn: "rel c fd p fs \<Longrightarrow> only_conn p p1 \<Longrightarrow> w_idx (wrap_of p1 fd) = w_idx (wrap_of p fd) \<Longrightarrow> rel c fd p1 fs"
    and run_recvs: "rel c fd p fs \<Longrightarrow> run c n fd off p = Inr (res, p1) \<Longrightarrow> p_recvs p1 = p_recvs p"
begin

text \<open>The two results once bytes were read: all whole messages delivered, or one refused.\<close>

definition result :: "'c \<Rightarrow> 'l nlist \<Rightarrow> int \<Rightarrow> int \<Rightarrow> byte list list \<Rightarrow> byte list list \<times> byte list \<times> int \<Rightarrow> int \<Rightarrow> ('l, 'h) proc \<Rightarrow> bool" where
  "result c L cap fd ds ct res p' \<longleftrightarrow> (case ct of (fs, rest, k) \<Rightarrow>
     res = 0 \<and> conn_ok L cap fd p' \<and> rel c fd p' (ds @ fs) \<and> unread p' fd = rest \<and>
       msglen (buff_of p' fd) = k \<and> rbf (buff_of p' fd) \<noteq> None \<or>
     res = - 1 \<and> (\<exists>gs hs. fs = gs @ hs \<and> hs \<noteq> [] \<and> rel c fd p' (ds @ gs)))"

lemma reader_ok:
  assumes ok: "conn_ok L cap fd p" and q: "rel c fd p ds" and g: "len_law P (serv c) kind fd g" and n: "cap < int n"
    and rd: "handle_read L fd p = Inr (r, p1)" "r \<noteq> - 1"
    and as: "asks P g (msglen (buff_of p1 fd)) (unread p1 fd)"
  shows "\<exists>res p'. reader c L n fd p = Inr (res, p') \<and> others_kept fd p p' \<and> cache_ok L p' \<and>
    p_recvs p' = p_recvs p1 \<and> result c L cap fd ds (cut g (msglen (buff_of p1 fd)) (unread p1 fd)) res p'"
proof -
  obtain rb where h: "window_ok p1 fd 0" "window p1 fd 0 = unread p1 fd" "0 < rlen (buff_of p1 fd)" "rlen (buff_of p1 fd) \<le> cap"
    "others_kept fd p p1" "cache_ok L p1" "p_setting p1 = p_setting p" "w_idx (wrap_of p1 fd) = w_idx (wrap_of p fd)"
    and rb: "rbf (buff_of p1 fd) = Some rb" "int (length rb) = cap"
    using read_bytes_ready[OF ok rd] by blast
  have a: "valid_fd p fd" "nlist_laws L" "max_buf_len (p_setting p) = cap" "0 < cap" "cap \<le> MSG_MAX" using ok by (auto simp: conn_ok_def)
  have rn: "rlen (buff_of p1 fd) < int n" "rlen (buff_of p1 fd) \<le> MSG_MAX" using h(4) n a(5) by simp_all
  have q1: "rel c fd p1 ds" using rel_conn[OF q handle_read_conn[OF rd(1)] h(8)] .
  obtain off p2 where run: "run c n fd 0 p1 = Inr (off, p2)" "cut_frame fd p1 p2"
    "ends c fd ds (cut g (msglen (buff_of p1 fd)) (unread p1 fd)) off p2"
    using run_frames[OF g h(1,3) rn(2) q1 rn(1)] as h(2) by auto
  have f2: "others_kept fd p1 p2" "p_links p2 = p_links p1" "map w_flag (p_fds p2) = map w_flag (p_fds p1)"
    "rbf (buff_of p2 fd) = Some rb" "p_recvs p2 = p_recvs p1" "p_setting p2 = p_setting p1"
    using run(2) rb by (simp_all add: cut_frame_def)
  have o2: "others_kept fd p p2" using others_kept_trans[OF h(5) f2(1)] .
  have c2: "cache_ok L p2" using cache_ok_cong(1)[OF f2(2,3)] h(6) by simp
  obtain fs rest k where ct: "cut g (msglen (buff_of p1 fd)) (unread p1 fd) = (fs, rest, k)"
    by (cases "cut g (msglen (buff_of p1 fd)) (unread p1 fd)")
  show ?thesis
  proof (cases off)
    case None
    then obtain gs hs where "fs = gs @ hs" "hs \<noteq> []" "rel c fd p2 (ds @ gs)"
      using run(3) ct by (auto simp: ends_def)
    moreover have "reader c L n fd p = Inr (- 1, p2)" using rd run(1) None by (simp add: reader_eq)
    ultimately show ?thesis using ct o2 c2 f2(5) by (auto simp: result_def)
  next
    case (Some e)
    then have e: "window_ok p2 fd e" "window p2 fd e = rest" "msglen (buff_of p2 fd) = k" "rel c fd p2 (ds @ fs)"
      using run(3) ct by (auto simp: ends_def)
    have v2: "valid_fd p2 fd" using e(1) by (simp add: window_ok_def)
    obtain p3 where p3: "keep_rest fd e p2 = Inr p3" "unread p3 fd = window p2 fd e" "rbuff_ok cap (buff_of p3 fd)"
      "msglen (buff_of p3 fd) = msglen (buff_of p2 fd)" "rbf (buff_of p3 fd) \<noteq> None" "only_buff fd p2 p3"
      using keep_rest_ok[OF e(1), of cap] f2(4) rb(2) by auto
    note f3 = only_buff_frame[OF p3(6) v2]
    have "reader c L n fd p = Inr (0, p3)" using rd run(1) Some p3(1) by (simp add: reader_eq)
    moreover have o3: "others_kept fd p p3" using others_kept_trans[OF o2 f3(1)] .
    moreover have c3: "cache_ok L p3" using cache_ok_cong(1)[OF f3(2,3)] c2 by simp
    moreover have "rel c fd p3 (ds @ fs)" using rel_buff[OF e(4) v2 p3(6)] .
    moreover have "p_setting p3 = p_setting p" using p3(6) f2(6) h(7) by (auto simp: only_buff_def)
    moreover have "valid_fd p3 fd" using others_kept_valid[OF o3] a(1) by simp
    moreover have "0 \<le> k" using e(1,3) by (simp add: window_ok_def)
    ultimately show ?thesis using ct e p3 f2(5) f3(4) a by (auto simp: result_def conn_ok_def)
  qed
qed

lemma reader_call:
  assumes ok: "conn_ok L cap fd p" and q: "rel c fd p ds" and g: "len_law P (serv c) kind fd g" and n: "cap < int n"
    and as: "asks P g (msglen (buff_of p fd)) (unread p fd @ recv_bytes used)"
    and null: "rbf (buff_of p fd) = None \<longrightarrow> msglen (buff_of p fd) = 0"
    and run: "reader c L n fd (p\<lparr>p_recvs := used @ rest\<rparr>) = Inr (0, p')" "p_recvs p' = rest"
    and ct: "cut g (msglen (buff_of p fd)) (unread p fd @ recv_bytes used) = (fs, left, k)"
  shows "conn_ok L cap fd p' \<and> rel c fd p' (ds @ fs) \<and> unread p' fd = left \<and> msglen (buff_of p' fd) = k \<and> rbf (buff_of p' fd) \<noteq> None"
proof -
  let ?p = "p\<lparr>p_recvs := used @ rest\<rparr>"
  have ok': "conn_ok L cap fd ?p" using ok conn_ok_recvs by blast
  have q': "rel c fd ?p ds" by (rule rel_conn[OF q only_connI(2)]) simp
  from ok' have a: "nlist_laws L" "cache_ok L ?p" "valid_fd ?p fd" "max_buf_len (p_setting ?p) = cap" "0 < cap" "is_cint cap"
    "rbuff_ok cap (buff_of ?p fd)" by (auto simp: conn_ok_def is_cint_def MSG_MAX_def MQ_MAX_def)
  obtain r p1 where rd: "handle_read L fd ?p = Inr (r, p1)" "r \<noteq> - 1"
    using run(1) by (auto simp: reader_eq rbind_Inr_iff split: if_splits)
  obtain u where u: "p_recvs ?p = u @ p_recvs p1" "unread p1 fd = unread ?p fd @ recv_bytes u"
    "msglen (buff_of p1 fd) = (if rbf (buff_of ?p fd) = None then 0 else msglen (buff_of ?p fd))"
    using handle_read_ok[OF a rd] by auto
  have same: "unread ?p fd = unread p fd" by (rule unread_cong) simp
  have len: "msglen (buff_of p1 fd) = msglen (buff_of p fd)" using u(3) null by auto
  have "w_idx (wrap_of p1 fd) = w_idx (wrap_of ?p fd)" using handle_read_ok[OF a rd] by auto
  then have q1: "rel c fd p1 ds" using rel_conn[OF q' handle_read_conn[OF rd(1)]] by simp
  have "p_recvs p' = p_recvs p1" using rd run(1) run_recvs[OF q1]
    by (auto simp: reader_eq rbind_Inr_iff keep_rest_def upd_buff_def upd_fdw_def Let_def split: option.splits if_splits)
  then have used: "u = used" using u(1) run(2) by simp
  have "result c L cap fd ds (cut g (msglen (buff_of p1 fd)) (unread p1 fd)) 0 p'"
    using reader_ok[OF ok' q' g n rd] run(1) as u(2) used same len by auto
  then show ?thesis using u(2) ct used same len by (simp add: result_def)
qed

text \<open>Any number of calls.\<close>

lemma reads_cut:
  assumes run: "reads (reader c L n fd) p us p'" and ok: "conn_ok L cap fd p" and q: "rel c fd p ds"
    and null: "rbf (buff_of p fd) = None \<longrightarrow> msglen (buff_of p fd) = 0"
    and cur: "cut g (msglen (buff_of p fd)) (unread p fd) = ([], unread p fd, msglen (buff_of p fd))"
    and g: "len_law P (serv c) kind fd g" "\<And>bs ds. P bs \<Longrightarrow> g (bs @ ds) = g bs" and n: "cap < int n"
    and as: "asks_pieces P g (msglen (buff_of p fd)) (unread p fd) us"
    and ct: "cut g (msglen (buff_of p fd)) (unread p fd @ concat us) = (fs, rest, k)"
  shows "conn_ok L cap fd p' \<and> rel c fd p' (ds @ fs) \<and> unread p' fd = rest \<and> msglen (buff_of p' fd) = k"
  using run ok q null cur as ct
proof (induction arbitrary: ds fs rule: reads.induct)
  case (no_call p)
  then show ?case by simp
next
  case (one_call used rest' p p1 us p2)
  let ?c = "msglen (buff_of p fd)" and ?u = "unread p fd @ recv_bytes used"
  have c0: "0 \<le> ?c" using one_call.prems(1) by (simp add: conn_ok_def)
  obtain gs left j where ct: "cut g ?c ?u = (gs, left, j)" by (cases "cut g ?c ?u")
  have as: "asks P g ?c ?u" "asks_pieces P g j left us" using one_call.prems(5) ct by auto
  have p1: "conn_ok L cap fd p1" "rel c fd p1 (ds @ gs)" "unread p1 fd = left"
    "msglen (buff_of p1 fd) = j" "rbf (buff_of p1 fd) \<noteq> None"
    using reader_call[OF one_call.prems(1,2) g(1) n as(1) one_call.prems(3) one_call.hyps(1,2) ct] by auto
  obtain hs where hs: "cut g j (left @ concat us) = (hs, rest, k)" "fs = gs @ hs"
    using cut_append[where P = P, OF g(2) as(1) c0 ct, of "concat us"] one_call.prems(6) by (auto split: prod.splits)
  have "cut g j left = ([], left, j)" using cut_rest[OF as(1) c0 ct] by simp
  then have "conn_ok L cap fd p2 \<and> rel c fd p2 ((ds @ gs) @ hs) \<and> unread p2 fd = rest \<and> msglen (buff_of p2 fd) = k"
    using one_call.IH[OF p1(1,2), of hs] p1(3-5) hs(1) as(2) by simp
  then show ?case using hs(2) by simp
qed

text \<open>The case of a library that can always tell the length.\<close>

lemma reads_stream:
  assumes run: "reads (reader c L n fd) p us p'" and ok: "conn_ok L cap fd p" and q: "rel c fd p ds"
    and fresh: "unread p fd = []" "msglen (buff_of p fd) = 0"
    and g: "msg_len_law (serv c) kind fd g" "\<And>bs ds. bs \<noteq> [] \<Longrightarrow> g (bs @ ds) = g bs" and n: "cap < int n"
    and ct: "cut g 0 (concat us) = (fs, rest, k)"
  shows "conn_ok L cap fd p' \<and> rel c fd p' (ds @ fs) \<and> unread p' fd = rest \<and> msglen (buff_of p' fd) = k"
proof -
  have "len_law (\<lambda>bs. bs \<noteq> []) (serv c) kind fd g" using g(1) by (auto simp: msg_len_law_def len_law_def)
  moreover have "asks_pieces (\<lambda>bs. bs \<noteq> []) g 0 [] us" by (rule asks_pieces_any) (use msg_len_pos[OF g(1)] in simp)
  ultimately show ?thesis
    using reads_cut[where P = "\<lambda>bs. bs \<noteq> []", OF run ok q _ _ _ g(2) n] fresh ct by (simp add: cut.simps)
qed

end

end
