(* ===== verification/Master_Stream.thy ===== *)
theory Master_Stream
  imports Master Stream_Reader
begin

text \<open>
  From a client's byte stream to the worker's queue: \<open>handle_cli\<close> of \<^verbatim>\<open>master.c\<close> as an instance of the
  shared reading loop, the messages of a whole stream, and the lengths it does not check.
\<close>

section \<open>The round of the master\<close>

definition push_data :: "('l, 'h) proc serv_if \<times> int \<times> msg list \<Rightarrow> int \<Rightarrow> byte list \<Rightarrow> ('l, 'h) proc \<Rightarrow>
    (bool \<times> ('l, 'h) proc) res" where
  "push_data c fd src p = rbind (fdw p fd) (\<lambda>w. rbind (raw2blk fd p) (\<lambda>blk.
     rbind (push_rq (w_idx w) blk src p) (\<lambda>(r, p1). Inr (r = 0, p1))))"

definition queued :: "('l, 'h) proc serv_if \<times> int \<times> msg list \<Rightarrow> int \<Rightarrow> ('l, 'h) proc \<Rightarrow> byte list list \<Rightarrow> bool" where
  "queued c fd p fs \<longleftrightarrow> (case c of (S, i, xs) \<Rightarrow> w_idx (wrap_of p fd) = i \<and> is_cint i \<and> is_cint fd \<and>
     rq_holds p i (xs @ map (data_msg i fd) fs))"

lemma push_again_round:
  "push_again (fst c) (Suc n) fd off p = rbind (frame_step (fst c) SERV_MASTER (push_data c) fd off p) (\<lambda>(e, p1). case e of
      Cut_more o1 \<Rightarrow> push_again (fst c) n fd o1 p1 | Cut_rest o1 \<Rightarrow> Inr (Some o1, p1) | Cut_refused \<Rightarrow> Inr (None, p1))"
proof (cases "get_length (fst c) SERV_MASTER fd off p")
  case (Inr p1)
  show ?thesis
  proof (cases "fdw p1 fd")
    case (Inr w)
    show ?thesis
    proof (cases "raw2blk fd p1")
      case (Inr blk)
      have "push_data c fd src p1 = rbind (push_rq (w_idx w) blk src p1) (\<lambda>(r, p1). Inr (r = 0, p1))" for src
        using \<open>fdw p1 fd = Inr w\<close> Inr by (simp add: push_data_def)
      then show ?thesis using \<open>get_length (fst c) SERV_MASTER fd off p = Inr p1\<close> \<open>fdw p1 fd = Inr w\<close> Inr
        by (simp add: frame_step_def rbind_assoc Let_def split_def if_distrib[of "\<lambda>m. rbind m f" for f] frame_end.case_distrib
            if_distrib[of "case_frame_end f g h" for f g h] cong: if_cong)
    qed (use \<open>get_length (fst c) SERV_MASTER fd off p = Inr p1\<close> \<open>fdw p1 fd = Inr w\<close> in
        \<open>simp add: frame_step_def push_data_def Let_def rbind_assoc if_distrib[of "\<lambda>m. rbind m f" for f] cong: if_cong\<close>)
  qed (use Inr in \<open>simp add: frame_step_def\<close>)
qed (simp add: frame_step_def)

lemma push_data_ok:
  assumes q: "queued c fd p fs" and v: "valid_fd p fd" and m: "0 < msglen (buff_of p fd)" "msglen (buff_of p fd) \<le> MSG_MAX"
    "msglen (buff_of p fd) \<le> int (length src)"
  shows "\<exists>taken p'. push_data c fd src p = Inr (taken, p') \<and> keeps_table p p' \<and>
    queued c fd p' (if taken then fs @ [take (nat (msglen (buff_of p fd))) src] else fs)"
proof -
  obtain S i xs where c: "c = (S, i, xs)" by (cases c)
  let ?m = "msglen (buff_of p fd)" and ?d = "take (nat (msglen (buff_of p fd))) src"
  have i: "w_idx (wrap_of p fd) = i" "is_cint i" "is_cint fd" "rq_holds p i (xs @ map (data_msg i fd) fs)"
    using q c by (auto simp: queued_def)
  let ?b = "fst (data_msg i fd ?d)"
  have ld: "int (length ?d) = ?m" using m by simp
  have "is_cint (?m + blk_head_len)" using m by (simp add: is_cint_def MSG_MAX_def MQ_MAX_def blk_head_len_def)
  then have raw: "raw2blk fd p = Inr ?b" using v ld i(1) by (simp add: raw2blk_def data_msg_def)
  have take: "push_rq i ?b src p = push_rq i ?b ?d p"
    using push_rq_take[of ?b src i p] ld m(3) by (simp add: data_msg_def)
  have vm: "valid_msg (?b, ?d)" using data_msg_valid[OF i(2,3), of ?d] ld m by (simp add: data_msg_def)
  obtain r ws where p: "push_rq i ?b ?d p = Inr (r, p\<lparr>p_works := ws\<rparr>)"
     "rq_holds (p\<lparr>p_works := ws\<rparr>) i (after_push r (?b, ?d) (xs @ map (data_msg i fd) fs))" "r = 0 \<or> r = - 1"
    using push_rq_ok[OF i(4) vm] by blast
  have "(?b, ?d) = data_msg i fd ?d" by (simp add: data_msg_def)
  then have "rq_holds (p\<lparr>p_works := ws\<rparr>) i (after_push r (data_msg i fd ?d) (xs @ map (data_msg i fd) fs))"
    using p(2) by (simp only:)
  then have "queued c fd (p\<lparr>p_works := ws\<rparr>) (if r = 0 then fs @ [?d] else fs)"
    using i c by (cases "r = 0") (simp_all add: queued_def after_push_def)
  then show ?thesis using p(1) take raw v i(1) by (simp add: push_data_def keeps_table_def)
qed

lemma queued_buff:
  assumes "queued c fd p fs" and "valid_fd p fd" and "only_buff fd p p'" shows "queued c fd p' fs"
  using assms valid_fd_nat[OF assms(2)] by (auto simp: queued_def only_buff_def rq_holds_def)

text \<open>Only reading takes answers of the kernel.\<close>

lemma push_again_recvs: "push_again S n fd off p = Inr (r, p') \<Longrightarrow> p_recvs p' = p_recvs p"
proof (induction n arbitrary: off p)
  case (Suc n)
  have gl: "get_length S kind fd off p = Inr p1 \<Longrightarrow> p_recvs p1 = p_recvs p" for kind off p p1
    by (auto simp: get_length_def upd_buff_def upd_fdw_def rbind_Inr_iff Let_def split: if_splits)
  have pr: "push_rq i b d p = Inr (x, p1) \<Longrightarrow> p_recvs p1 = p_recvs p" for i b d x p p1
    by (auto simp: push_rq_def upd_work_def rbind_Inr_iff)
  have co: "consume fd off p = Inr (x, p1) \<Longrightarrow> p_recvs p1 = p_recvs p" for off x p p1
    by (auto simp: consume_def upd_buff_def upd_fdw_def rbind_Inr_iff Let_def)
  show ?case using Suc.prems
    by (auto simp: rbind_Inr_iff Let_def split: if_splits dest!: gl pr co Suc.IH)
qed simp

lemma queued_conn: "queued c fd p fs \<Longrightarrow> only_conn p p1 \<Longrightarrow> w_idx (wrap_of p1 fd) = w_idx (wrap_of p fd) \<Longrightarrow> queued c fd p1 fs"
  by (auto simp: queued_def rq_holds_def only_conn_def)

interpretation cli: stream_reader fst SERV_MASTER push_data "\<lambda>c. push_again (fst c)" queued "\<lambda>c L. handle_cli L (fst c)"
  by unfold_locales (rule push_again_round, erule (4) push_data_ok, erule (2) queued_buff, simp add: handle_cli_def,
      erule (2) queued_conn, erule push_again_recvs)

text \<open>A connection the master can read from, of worker \<open>i\<close>, whose queue holds \<open>xs\<close>.\<close>

definition readable :: "'l nlist \<Rightarrow> int \<Rightarrow> int \<Rightarrow> ('l, 'h) proc \<Rightarrow> int \<Rightarrow> msg list \<Rightarrow> bool" where
  "readable L cap fd p i xs \<longleftrightarrow> nlist_laws L \<and> cache_ok L p \<and> valid_fd p fd \<and> max_buf_len (p_setting p) = cap \<and>
     0 < cap \<and> cap \<le> MSG_MAX \<and> rbuff_ok cap (buff_of p fd) \<and> 0 \<le> msglen (buff_of p fd) \<and>
     w_idx (wrap_of p fd) = i \<and> is_cint i \<and> is_cint fd \<and> rq_holds p i xs"

text \<open>The two results of \<open>handle_cli\<close> once bytes were read: all whole messages queued, or one refused.\<close>

definition cli_result :: "'l nlist \<Rightarrow> int \<Rightarrow> int \<Rightarrow> int \<Rightarrow> msg list \<Rightarrow> byte list list \<times> byte list \<times> int \<Rightarrow> int \<Rightarrow>
    ('l, 'h) proc \<Rightarrow> bool" where
  "cli_result L cap fd i xs ct res p' \<longleftrightarrow> (case ct of (fs, rest, k) \<Rightarrow>
     res = 0 \<and> readable L cap fd p' i (xs @ map (data_msg i fd) fs) \<and> unread p' fd = rest \<and>
       msglen (buff_of p' fd) = k \<and> rbf (buff_of p' fd) \<noteq> None \<or>
     res = - 1 \<and> (\<exists>gs hs. fs = gs @ hs \<and> hs \<noteq> [] \<and> rq_holds p' i (xs @ map (data_msg i fd) gs)))"

lemma readable_conn: "readable L cap fd p i xs \<longleftrightarrow> conn_ok L cap fd p \<and> queued (S, i, xs) fd p []"
  by (auto simp: readable_def conn_ok_def queued_def)

lemma readable_more: "readable L cap fd p i (xs @ map (data_msg i fd) fs) \<longleftrightarrow> conn_ok L cap fd p \<and> queued (S, i, xs) fd p fs"
  by (auto simp: readable_def conn_ok_def queued_def)

lemma handle_cli_ok:
  assumes ok: "readable L cap fd p i xs" and g: "len_law P S SERV_MASTER fd g" and n: "cap < int n"
    and rd: "handle_read L fd p = Inr (r, p1)" "r \<noteq> - 1"
    and as: "asks P g (msglen (buff_of p1 fd)) (unread p1 fd)"
  shows "\<exists>res p'. handle_cli L S n fd p = Inr (res, p') \<and> others_kept fd p p' \<and> cache_ok L p' \<and>
    p_recvs p' = p_recvs p1 \<and> cli_result L cap fd i xs (cut g (msglen (buff_of p1 fd)) (unread p1 fd)) res p'"
proof -
  have c: "conn_ok L cap fd p" "queued (S, i, xs) fd p []" using ok readable_conn by blast+
  have "cli.result (S, i, xs) L cap fd [] ct res p' \<Longrightarrow> cli_result L cap fd i xs ct res p'" for ct res p'
    unfolding cli.result_def cli_result_def readable_more[of L cap fd p' i xs _ S] by (auto simp: queued_def)
  then have imp: "cli.result (S, i, xs) L cap fd [] ct res p' \<Longrightarrow> cli_result L cap fd i xs ct res p'" for ct res p' by blast
  have "len_law P (fst (S, i, xs)) SERV_MASTER fd g" using g by simp
  from cli.reader_ok[OF c this n rd as] show ?thesis unfolding fst_conv using imp by blast
qed

lemma read_window:
  assumes ok: "readable L cap fd p i xs" and rd: "handle_read L fd p = Inr (r, p1)" "r \<noteq> - 1"
  shows "window_ok p1 fd 0" "valid_fd p1 fd" "rlen (buff_of p1 fd) = int (length (unread p1 fd))"
    "p_works p1 = p_works p" "w_idx (wrap_of p1 fd) = i" "int (length (the (rbf (buff_of p1 fd)))) = cap"
    "readable L cap fd p1 i xs"
proof -
  have a: "nlist_laws L" "cache_ok L p" "valid_fd p fd" "max_buf_len (p_setting p) = cap" "0 < cap" "is_cint cap"
    "rbuff_ok cap (buff_of p fd)" and a2: "0 \<le> msglen (buff_of p fd)" "w_idx (wrap_of p fd) = i" "cap \<le> MSG_MAX"
      "is_cint i" "is_cint fd" "rq_holds p i xs"
    using ok by (auto simp: readable_def is_cint_def MSG_MAX_def MQ_MAX_def)
  have h: "rbuff_ok cap (buff_of p1 fd)" "others_kept fd p p1" "cache_ok L p1" "rbf (buff_of p1 fd) \<noteq> None"
    and h2: "p_works p1 = p_works p" "p_setting p1 = p_setting p" "w_idx (wrap_of p1 fd) = w_idx (wrap_of p fd)" "0 \<le> msglen (buff_of p1 fd)"
    using handle_read_ok[OF a rd] a2(1) by (auto split: if_splits)
  show v: "valid_fd p1 fd" using others_kept_valid[OF h(2)] a(3) by simp
  show w: "window_ok p1 fd 0" using v h(1,4) h2(4) by (auto simp: window_ok_def rbuff_ok_def)
  show "rlen (buff_of p1 fd) = int (length (unread p1 fd))" using length_window[OF w] window_zero[of p1 fd] h(4) by simp
  show "int (length (the (rbf (buff_of p1 fd)))) = cap" using h(1,4) by (auto simp: rbuff_ok_def)
  show "p_works p1 = p_works p" "w_idx (wrap_of p1 fd) = i" using h2 a2 by simp_all
  show "readable L cap fd p1 i xs"
    using a a2 h h2 v rq_holds_works[of p1 p] by (simp add: readable_def)
qed

section \<open>The stream of a client\<close>

abbreviation cli_run :: "'l nlist \<Rightarrow> ('l, 'h) proc serv_if \<Rightarrow> nat \<Rightarrow> int \<Rightarrow> ('l, 'h) proc \<Rightarrow> byte list list \<Rightarrow> ('l, 'h) proc \<Rightarrow> bool" where
  "cli_run L S n fd \<equiv> reads (handle_cli L S n fd)"

lemma handle_cli_call:
  assumes ok: "readable L cap fd p i xs" and g: "len_law P S SERV_MASTER fd g" and n: "cap < int n"
    and as: "asks P g (msglen (buff_of p fd)) (unread p fd @ recv_bytes used)"
    and null: "rbf (buff_of p fd) = None \<longrightarrow> msglen (buff_of p fd) = 0"
    and run: "handle_cli L S n fd (p\<lparr>p_recvs := used @ rest\<rparr>) = Inr (0, p')" "p_recvs p' = rest"
    and ct: "cut g (msglen (buff_of p fd)) (unread p fd @ recv_bytes used) = (fs, left, k)"
  shows "readable L cap fd p' i (xs @ map (data_msg i fd) fs) \<and> unread p' fd = left \<and> msglen (buff_of p' fd) = k \<and>
    rbf (buff_of p' fd) \<noteq> None"
proof -
  have "conn_ok L cap fd p" "queued (S, i, xs) fd p []" using ok readable_conn by blast+
  from cli.reader_call[OF this _ n as null _ run(2) ct] g run(1) show ?thesis
    by (simp add: readable_more[where S = S])
qed

lemma cli_run_cut:
  assumes run: "cli_run L S n fd p us p'" and ok: "readable L cap fd p i xs"
    and null: "rbf (buff_of p fd) = None \<longrightarrow> msglen (buff_of p fd) = 0"
    and cur: "cut g (msglen (buff_of p fd)) (unread p fd) = ([], unread p fd, msglen (buff_of p fd))"
    and g: "len_law P S SERV_MASTER fd g" "\<And>bs ds. P bs \<Longrightarrow> g (bs @ ds) = g bs" and n: "cap < int n"
    and as: "asks_pieces P g (msglen (buff_of p fd)) (unread p fd) us"
    and ct: "cut g (msglen (buff_of p fd)) (unread p fd @ concat us) = (fs, rest, k)"
  shows "readable L cap fd p' i (xs @ map (data_msg i fd) fs) \<and> unread p' fd = rest \<and> msglen (buff_of p' fd) = k"
proof -
  have "conn_ok L cap fd p" "queued (S, i, xs) fd p []" using ok readable_conn by blast+
  from cli.reads_cut[OF _ this null cur _ g(2) n as ct] run g(1) show ?thesis
    by (simp add: readable_more[where S = S])
qed

text \<open>The case of a library that can always tell the length.\<close>

lemma cli_run_stream:
  assumes run: "cli_run L S n fd p us p'" and ok: "readable L cap fd p i xs"
    and fresh: "unread p fd = []" "msglen (buff_of p fd) = 0"
    and g: "msg_len_law S SERV_MASTER fd g" "\<And>bs ds. bs \<noteq> [] \<Longrightarrow> g (bs @ ds) = g bs" and n: "cap < int n"
    and ct: "cut g 0 (concat us) = (fs, rest, k)"
  shows "readable L cap fd p' i (xs @ map (data_msg i fd) fs) \<and> unread p' fd = rest \<and> msglen (buff_of p' fd) = k"
proof -
  have "conn_ok L cap fd p" "queued (S, i, xs) fd p []" using ok readable_conn by blast+
  from cli.reads_stream[OF _ this fresh _ g(2) n ct] run g(1) show ?thesis
    by (simp add: readable_more[where S = S])
qed

text \<open>An example: messages of 4 bytes; connection 1 has an empty buffer of 16 bytes.\<close>

definition demo_cli :: "recv_ans list \<Rightarrow> (lnode \<Rightarrow> lnode list, int \<rightharpoonup> fdsess) proc" where
  "demo_cli rs = (demo_proc [demo_wrap fd_type_cli 0 demo_buff,
     demo_wrap fd_type_cli 1 (demo_buff\<lparr>rbf := Some (replicate 16 0)\<rparr>)])\<lparr>p_recvs := rs\<rparr>"

lemmas demo_eval = handle_cli_def handle_read_def map_rbf_def recv_more_def Let_def safe_tcp_recv_n_def store_def
  is_cint_def do_del_from_readlist_def fdw_def upd_buff_def upd_fdw_def CACHE_READ_def numeral_eq_Suc
  get_length_def at_ptr_def raw2blk_def push_rq_def get_work_def upd_work_def mq_push_def mq_push_round write_blk_def
  memcpy_src_def load_def mapped_def blk_head_len_def mem_head_len_def consume_def keep_rest_def

lemma demo_cli_run:
  "\<exists>p'. handle_cli demo_nlist demo_serv 17 1 (demo_cli [RData [1, 2, 3, 4, 5], RErr EAGAIN]) = Inr (0, p') \<and> p_recvs p' = []"
  by (simp add: demo_eval demo_cli_def demo_proc_def demo_wrap_def demo_buff_def demo_setting_def demo_serv_def
      demo_work_def demo_queue_def SERV_MASTER_def enc_head_def le32_def)

lemma demo_cli_readable: "readable demo_nlist 16 1 (demo_cli rs) 0 []"
proof -
  let ?ws = "[demo_wrap fd_type_cli 0 demo_buff, demo_wrap fd_type_cli 1 (demo_buff\<lparr>rbf := Some (replicate 16 0)\<rparr>)]"
  have "cache_ok demo_nlist (demo_proc ?ws)" by (rule demo_cache_ok) auto
  then have "cache_ok demo_nlist (demo_cli rs)"
    using cache_ok_cong(1)[of "demo_cli rs" "demo_proc ?ws" demo_nlist] by (simp add: demo_cli_def)
  then show ?thesis
    by (simp add: readable_def demo_nlist_laws demo_cli_def rq_holds_def rbuff_ok_def demo_buff_def demo_setting_def
        demo_work_def demo_queue_rel is_cint_def MSG_MAX_def MQ_MAX_def)
qed

lemma demo_serv_len: "msg_len_law demo_serv kind fd (\<lambda>_. 4)"
  by (simp add: msg_len_law_def len_law_def demo_serv_def)

lemma demo_cut: "cut (\<lambda>_. 4) 0 [1, 2, 3, 4, 5] = ([[1, 2, 3, 4]], [5], 4)"
  by (simp add: cut.simps)

text \<open>
  C8: the messages the master hands to the worker are the messages of the client's byte stream, whatever
  pieces the stream arrives in: after any number of successful calls the worker's queue has received, in
  order, exactly the messages into which the library's lengths divide all bytes received so far, and what
  is left in the buffer is the unfinished rest. The library has to tell the length of a message, a positive one, from any of
  its first bytes.
\<close>

theorem handle_cli_stream:
  assumes run: "cli_run L S n fd p us p'" and ok: "readable L cap fd p i xs"
    and fresh: "unread p fd = []" "msglen (buff_of p fd) = 0"
    and g: "msg_len_law S SERV_MASTER fd g" "\<And>bs ds. bs \<noteq> [] \<Longrightarrow> g (bs @ ds) = g bs" and n: "cap < int n"
    and ct: "cut g 0 (concat us) = (fs, rest, k)"
  shows "rq_holds p' i (xs @ map (data_msg i fd) fs) \<and> unread p' fd = rest \<and> msglen (buff_of p' fd) = k"
  using cli_run_stream[OF assms] by (simp add: readable_def)

theorem handle_cli_stream_witness:
  "\<exists>p'. cli_run demo_nlist demo_serv 17 1 (demo_cli []) [[1, 2, 3, 4, 5]] p' \<and>
     rq_holds p' 0 [data_msg 0 1 [1, 2, 3, 4]] \<and> unread p' 1 = [5]"
proof -
  let ?rs = "[RData [1, 2, 3, 4, 5], RErr EAGAIN]"
  obtain p' where p': "handle_cli demo_nlist demo_serv 17 1 (demo_cli ?rs) = Inr (0, p')" "p_recvs p' = []"
    using demo_cli_run by blast
  have e: "demo_cli ?rs = (demo_cli [])\<lparr>p_recvs := ?rs @ []\<rparr>" by (simp add: demo_cli_def)
  have run: "cli_run demo_nlist demo_serv 17 1 (demo_cli []) [recv_bytes ?rs] p'"
    by (rule one_call[where used = ?rs and rest = "[]"]) (use p' e in \<open>auto intro: no_call\<close>)
  have "unread (demo_cli []) 1 = []" "msglen (buff_of (demo_cli []) 1) = 0"
    by (simp_all add: unread_def demo_cli_def demo_buff_def)
  then show ?thesis
    using handle_cli_stream[OF run demo_cli_readable _ _ demo_serv_len _ _, of "[[1, 2, 3, 4]]" "[5]" 4] run demo_cut
    by auto
qed

text \<open>
  C21: one call of \<open>handle_cli\<close> that gets through its read, with a library whose lengths are positive (what a negative one does is
  \<open>sample_negative_length\<close>), never faults and never runs out of rounds (one more round than the buffer
  has bytes is enough). It returns -1 if nothing could be read; otherwise 0 with all whole messages
  queued and the rest at the start of the buffer, or -1 with the messages in front of the first one the
  queue refused. No other connection is touched.
\<close>

theorem handle_cli_total:
  assumes "readable L cap fd p i xs" and "msg_len_law S SERV_MASTER fd g" and "cap < int n"
    and "handle_read L fd p = Inr (r, p1)"
  shows "\<exists>res p'. handle_cli L S n fd p = Inr (res, p') \<and>
    (if r = - 1 then res = - 1 \<and> p' = p1
     else others_kept fd p p' \<and> cache_ok L p' \<and>
       cli_result L cap fd i xs (cut g (msglen (buff_of p1 fd)) (unread p1 fd)) res p')"
proof (cases "r = - 1")
  case True
  then show ?thesis using assms(4) by (simp add: handle_cli_def)
next
  case False
  have "asks (\<lambda>_. True) g (msglen (buff_of p1 fd)) (unread p1 fd)"
    by (rule asks_any) (use msg_len_pos[OF assms(2)] in simp)
  from handle_cli_ok[OF assms(1) assms(2)[unfolded msg_len_law_def] assms(3,4) False this] False show ?thesis by auto
qed

theorem handle_cli_total_witness:
  "\<exists>res p'. handle_cli demo_nlist demo_serv 17 1 (demo_cli [RErr EOTHER]) = Inr (res, p') \<and> res = - 1"
proof -
  have "\<exists>p1. handle_read demo_nlist 1 (demo_cli [RErr EOTHER]) = Inr (- 1, p1)"
    by (simp add: demo_eval demo_cli_def demo_proc_def demo_wrap_def demo_buff_def demo_setting_def)
  then show ?thesis
    using handle_cli_total[OF demo_cli_readable demo_serv_len, of 17 "[RErr EOTHER]" "- 1"] by auto
qed

text \<open>
  The library's length is used unchecked: when it is negative and the queue has room at its head, the
  block's length is below that of its header and the copy of the data is given a negative size.
\<close>

lemma push_again_negative_length:
  assumes w: "window_ok p fd off" "0 < rlen (buff_of p fd)" "msglen (buff_of p fd) = 0"
    and q: "rq_holds p (w_idx (wrap_of p fd)) xs"
    and room: "mq_tail (wk_rq (p_works p ! nat (w_idx (wrap_of p fd)))) \<le> mq_head (wk_rq (p_works p ! nat (w_idx (wrap_of p fd))))"
      "mq_head (wk_rq (p_works p ! nat (w_idx (wrap_of p fd)))) + blk_head_len \<le> mq_len (wk_rq (p_works p ! nat (w_idx (wrap_of p fd))))"
    and m: "so_get_msg_len S fd (drop (nat off) (the (rbf (buff_of p fd)))) (rlen (buff_of p fd)) SERV_MASTER = Inr m" "m < 0" "is_cint m"
  shows "push_again S (Suc n) fd off p = Inl BadSize"
proof -
  let ?i = "w_idx (wrap_of p fd)"
  let ?q = "wk_rq (p_works p ! nat ?i)"
  have v: "valid_fd p fd" using w(1) by (simp add: window_ok_def)
  note nf = valid_fd_nat[OF v]
  have i: "0 \<le> ?i" "?i < int (length (p_works p))" "mq_rel ?q xs" using q by (auto simp: rq_holds_def)
  note wf = mq_relD(1,2)[OF i(3)]
  obtain rb where rb: "rbf (buff_of p fd) = Some rb" using w(1) by (auto simp: window_ok_def)
  have o: "0 \<le> off" "off \<le> int (length rb)" using w(1) rb by (auto simp: window_ok_def)
  let ?b = "(buff_of p fd)\<lparr>msglen := m\<rparr>"
  let ?p = "p\<lparr>p_fds := (p_fds p)[nat fd := (wrap_of p fd)\<lparr>w_buff := ?b\<rparr>]\<rparr>"
  let ?blk = "\<lparr>blk_id = ?i, blk_fd = fd, blk_type = blk_code BLK_DATA, blk_len = m + blk_head_len\<rparr>"
  have gl: "get_length S SERV_MASTER fd off p = Inr ?p"
    using v w(2,3) rb o m(1) by (simp add: get_length_def at_ptr_def)
  have c: "is_cint (m + blk_head_len)" using m by (simp add: is_cint_def blk_head_len_def)
  have raw: "raw2blk fd ?p = Inr ?blk" using v nf c by (simp add: raw2blk_def)
  have h: "0 \<le> mq_head ?q" "mq_head ?q < mq_len ?q" "int (length (mq_shm ?q)) = mq_len ?q" "mq_len ?q \<le> MQ_MAX"
    using wf(1) by (auto simp: mq_wf_def mem_head_len_def)
  have lt: "is_cint (mq_head ?q + blk_len ?blk)" "mq_head ?q + blk_len ?blk < mq_len ?q"
    using h c m room(2) by (auto simp: is_cint_def blk_head_len_def MQ_MAX_def)
  obtain m1 where st: "store (mq_shm ?q) (mq_head ?q) (enc_head ?blk) = Inr m1"
    using store_Inr[of "mq_head ?q" "enc_head ?blk" "mq_shm ?q"] h room(2) by (auto simp: blk_head_len_def)
  have "mq_push ?q ?blk (drop (nat off) rb) = Inl BadSize"
    using wf(2) lt room(1) st m(2)
    by (simp add: mq_push_def numeral_2_eq_2 mq_push_round write_blk_def memcpy_src_def blk_head_len_def)
  then have "push_rq ?i ?blk (drop (nat off) rb) ?p = Inl BadSize" using i by (simp add: push_rq_def)
  then show ?thesis using gl v nf raw rb o w(2) m(2) by (simp add: at_ptr_def Let_def)
qed

lemma push_again_negative_length_example:
  "push_again (demo_serv\<lparr>so_get_msg_len := \<lambda>fd d n k. Inr (- 5)\<rparr>) 17 1 0
     (demo_proc [demo_wrap fd_type_cli 0 demo_buff,
        demo_wrap fd_type_cli 1 (demo_buff\<lparr>rlen := 4, rbf := Some (replicate 16 0)\<rparr>)]) = Inl BadSize"
  using push_again_negative_length[of "demo_proc [demo_wrap fd_type_cli 0 demo_buff,
        demo_wrap fd_type_cli 1 (demo_buff\<lparr>rlen := 4, rbf := Some (replicate 16 0)\<rparr>)]" 1 0 "[]"
        "demo_serv\<lparr>so_get_msg_len := \<lambda>fd d n k. Inr (- 5)\<rparr>" "- 5" 16]
  by (simp add: window_ok_def demo_buff_def rq_holds_def demo_work_def demo_queue_rel is_cint_def del: push_again.simps)
    (simp add: demo_queue_def blk_head_len_def)

text \<open>
  a message longer than the receive buffer blocks its connection for good: once the buffer is full,
  \<open>handle_cli\<close> returns 0 and changes nothing, without reading, so the connection is neither served nor closed.
\<close>

theorem handle_cli_stuck:
  assumes v: "valid_fd p fd" and cap: "max_buf_len (p_setting p) = cap" and rb: "rbf (buff_of p fd) \<noteq> None"
    and full: "rlen (buff_of p fd) = cap" and len: "cap < msglen (buff_of p fd)" "0 \<le> cap"
  shows "handle_cli L S (Suc n) fd p = Inr (0, p)"
proof -
  have "handle_read L fd p = Inr (0, p)"
    using v cap rb full map_rbf_some[OF v] by (simp add: handle_read_def recv_more_def)
  moreover have "push_again S (Suc n) fd 0 p = Inr (Some 0, p)"
    using v full len by (simp add: get_length_def)
  ultimately show ?thesis using v by (simp add: handle_cli_def keep_rest_def del: push_again.simps)
qed

theorem handle_cli_stuck_witness:
  "handle_cli demo_nlist demo_serv 17 0 (demo_proc [demo_wrap fd_type_cli 0
     (demo_buff\<lparr>rlen := 16, rbf := Some (replicate 16 0), msglen := 20\<rparr>)]) =
   Inr (0, demo_proc [demo_wrap fd_type_cli 0 (demo_buff\<lparr>rlen := 16, rbf := Some (replicate 16 0), msglen := 20\<rparr>)])"
  using handle_cli_stuck[of "demo_proc [demo_wrap fd_type_cli 0
     (demo_buff\<lparr>rlen := 16, rbf := Some (replicate 16 0), msglen := 20\<rparr>)]" 0 16 demo_nlist demo_serv 16]
  by (simp add: demo_setting_def)

end
