(* ===== verification/Conf.thy ===== *)
theory Conf
  imports Net_Close
begin

text \<open>
  The configuration (\<^verbatim>\<open>conf.c\<close>): the loop that cuts \<^verbatim>\<open>etc/simple.conf\<close> and \<^verbatim>\<open>etc/work.conf\<close> into lines, the
  conversions of \<open>sscanf\<close> it relies on, the table of settings and the array of workers. The files are their
  bytes, of which the loop sees what the mapping of three pages shows (\<open>conf_map\<close>). The lemmas show that the loop is a fold over the lines that count, and the properties that a file
  written from a table of settings or of workers is read back, where the array overflows, and which lines are lost.
\<close>

section \<open>C strings\<close>

abbreviation NUL :: char where "NUL \<equiv> CHR 0x00"
abbreviation NL :: char where "NL \<equiv> CHR 0x0A"

definition c_str :: "string \<Rightarrow> string" where
  "c_str s = takeWhile (\<lambda>c. c \<noteq> NUL) s"

definition is_space :: "char \<Rightarrow> bool" where
  "is_space c \<longleftrightarrow> c \<in> {CHR 0x20, CHR 0x09, CHR 0x0A, CHR 0x0B, CHR 0x0C, CHR 0x0D}"

definition is_digit :: "char \<Rightarrow> bool" where
  "is_digit c \<longleftrightarrow> c \<in> set ''0123456789''"

text \<open>The conversions \<open>%s\<close> and \<open>%d\<close> of \<open>sscanf\<close>: what is read and what is left, \<open>None\<close> if nothing matches.\<close>

definition scan_s :: "string \<Rightarrow> (string \<times> string) option" where
  "scan_s s = (let t = dropWhile is_space s; tok = takeWhile (\<lambda>c. \<not> is_space c) t in
     if tok = [] then None else Some (tok, dropWhile (\<lambda>c. \<not> is_space c) t))"

fun digits_val :: "int \<Rightarrow> string \<Rightarrow> int" where
  "digits_val n [] = n"
| "digits_val n (c # cs) = digits_val (10 * n + (of_char c - 48)) cs"

definition scan_sign :: "string \<Rightarrow> int \<times> string" where
  "scan_sign s = (case s of [] \<Rightarrow> (1, s)
     | c # cs \<Rightarrow> if c = CHR ''-'' then (- 1, cs) else if c = CHR ''+'' then (1, cs) else (1, s))"

definition scan_d :: "string \<Rightarrow> (int \<times> string) option" where
  "scan_d s = (case scan_sign (dropWhile is_space s) of (sg, u) \<Rightarrow>
     if takeWhile is_digit u = [] then None
     else Some (sg * digits_val 0 (takeWhile is_digit u), dropWhile is_digit u))"

text \<open>\<open>atoi\<close>; a number outside the range of \<open>int\<close> is undefined behaviour.\<close>

definition atoi :: "string \<Rightarrow> int res" where
  "atoi s = (case scan_d s of None \<Rightarrow> Inr 0 | Some (n, _) \<Rightarrow> cint n)"

section \<open>The loop over a file\<close>

text \<open>
  What of a file can be read through \<open>mmap(-1, 1024 * 10, \<dots>)\<close>: whole pages of 4096 bytes, the last page of the
  file filled up with zeros, and at most the three pages that 10240 bytes take. Reading on is a fault, whether the
  file is longer or ends just at the end of a page; the mapping of an empty file has no byte that can be read.
\<close>

definition conf_map :: "string \<Rightarrow> string" where
  "conf_map file = take 12288 (file @ replicate ((4096 - length file mod 4096) mod 4096) NUL)"

text \<open>
  The loop. \<open>cs\<close> is what can be read of the mapping from \<open>ptr + i\<close> on (the rest of \<open>conf_map file\<close>), so that the
  test \<open>ptr[i] != 0\<close> behind it is a fault. \<open>cur\<close> are the characters from \<open>start\<close> on and \<open>note\<close> is
  \<open>is_note\<close>. \<open>line_fn i line s\<close> works on one line that ends at offset \<open>i\<close>. The copy goes to \<open>line[1024]\<close>, with a 0
  behind it.
\<close>

fun conf_loop :: "(int \<Rightarrow> string \<Rightarrow> 's \<Rightarrow> 's res) \<Rightarrow> int \<Rightarrow> string \<Rightarrow> string \<Rightarrow> bool \<Rightarrow> 's \<Rightarrow> 's res" where
  "conf_loop f i [] cur note s = Inl OutOfBounds"
| "conf_loop f i (c # cs) cur note s =
     (if c = NUL then Inr s
      else if c = CHR ''#'' then conf_loop f (i + 1) cs (cur @ [c]) True s
      else if c = NL then
        (if note then conf_loop f (i + 1) cs [] False s
         else if 1024 < length cur then Inl OutOfBounds
         else if cur = [] then conf_loop f (i + 1) cs [] False s
         else if 1024 \<le> length cur then Inl OutOfBounds
         else rbind (f i cur s) (\<lambda>s1. conf_loop f (i + 1) cs [] False s1))
      else conf_loop f (i + 1) cs (cur @ [c]) note s)"

section \<open>simple.conf\<close>

text \<open>
  \<open>sscanf(line, "%s %s\n", key, value)\<close> with \<open>key[64]\<close> and \<open>value[128]\<close>: what is not matched keeps its old
  contents. The two buffers are cleared after each line; before the first one they hold \<open>key0\<close> and
  \<open>value0\<close>, whatever is on the stack.
\<close>

definition scan_pair :: "string \<Rightarrow> string \<Rightarrow> string \<Rightarrow> (string \<times> string) res" where
  "scan_pair line key value = (case scan_s line of
       None \<Rightarrow> Inr (key, value)
     | Some (k, rest) \<Rightarrow> if 64 \<le> length k then Inl OutOfBounds else (case scan_s rest of
         None \<Rightarrow> Inr (k, value)
       | Some (v, _) \<Rightarrow> if 128 \<le> length v then Inl OutOfBounds else Inr (k, v)))"

definition simple_line ::
  "('h, string, string) ghash \<Rightarrow> int \<Rightarrow> string \<Rightarrow> string \<times> string \<times> 'h \<Rightarrow> (string \<times> string \<times> 'h) res" where
  "simple_line G i line st = (case st of (key, value, h) \<Rightarrow>
     rbind (scan_pair line key value) (\<lambda>(k, v). Inr ([], [], gh_insert G h k v)))"

text \<open>
  \<open>file\<close> are the contents of the file, \<open>None\<close> if \<open>open\<close> fails. A failed \<open>mmap\<close> gives the address -1, which the
  test for a null pointer lets through: the first access faults, as it does for the empty file.
\<close>

definition load_simple_data ::
  "('h, string, string) ghash \<Rightarrow> string \<Rightarrow> string \<Rightarrow> string option \<Rightarrow> (int \<times> 'h) res" where
  "load_simple_data G key0 value0 file = (case file of
       None \<Rightarrow> Inr (- 1, gh_new G)
     | Some m \<Rightarrow> rbind (conf_loop (simple_line G) 0 (conf_map m) [] False (key0, value0, gh_new G))
         (\<lambda>(_, _, h). Inr (0, h)))"

definition conf_get_str :: "('h, string, string) ghash \<Rightarrow> 'h \<Rightarrow> string \<Rightarrow> string" where
  "conf_get_str G h key = (case gh_lookup G h key of None \<Rightarrow> [] | Some v \<Rightarrow> v)"

definition conf_get_int :: "('h, string, string) ghash \<Rightarrow> 'h \<Rightarrow> string \<Rightarrow> int res" where
  "conf_get_int G h key = (case gh_lookup G h key of None \<Rightarrow> Inr 0 | Some v \<Rightarrow> atoi v)"

definition conf_get_int_def :: "('h, string, string) ghash \<Rightarrow> 'h \<Rightarrow> string \<Rightarrow> int \<Rightarrow> int res" where
  "conf_get_int_def G h key d = (case gh_lookup G h key of None \<Rightarrow> Inr d | Some v \<Rightarrow> atoi v)"

section \<open>work.conf\<close>

text \<open>
  The array of workers: \<open>wm_bytes\<close> bytes of memory, of which a \<open>work_t\<close> takes 91 (packed, with pointers of 8
  bytes), and the entries filled in so far.
\<close>

record work_mgr =
  wm_nr_work :: int
  wm_nr_used :: int
  wm_works :: "work list"
  wm_bytes :: int

definition work_size :: int where "work_size = 91"

text \<open>The variables of the loop; like \<open>ip\<close> they keep their values when a line does not match.\<close>

type_synonym work_vars = "int \<times> string \<times> int"

definition scan_work :: "string \<Rightarrow> work_vars \<Rightarrow> work_vars res" where
  "scan_work line vs = (case vs of (n0, ip, port) \<Rightarrow> (case scan_d line of
       None \<Rightarrow> Inr (n0, ip, port)
     | Some (n, r1) \<Rightarrow> rbind (cint n) (\<lambda>id1. case scan_s r1 of
         None \<Rightarrow> Inr (id1, ip, port)
       | Some (s, r2) \<Rightarrow> if 32 \<le> length s then Inl OutOfBounds else (case scan_d r2 of
           None \<Rightarrow> Inr (id1, s, port)
         | Some (m, _) \<Rightarrow> rbind (cint m) (\<lambda>port1. Inr (id1, s, port1))))))"

text \<open>
  When the array is full it is enlarged, by \<open>nr_work\<close> \<^emph>\<open>bytes\<close>, and the line is not stored. \<open>blank\<close> is what
  the fields hold that the loop does not set.
\<close>

definition work_line :: "work \<Rightarrow> int \<Rightarrow> string \<Rightarrow> work_vars \<times> work_mgr \<Rightarrow> (work_vars \<times> work_mgr) res" where
  "work_line blank i line st = (case st of (vs, m) \<Rightarrow> rbind (scan_work line vs) (\<lambda>vs1.
     if wm_nr_used m \<ge> wm_nr_work m then
       Inr (vs1, m\<lparr>wm_bytes := work_size * wm_nr_work m + 100, wm_nr_work := wm_nr_work m + 100\<rparr>)
     else if wm_bytes m < work_size * (wm_nr_used m + 1) then Inl OutOfBounds
     else (case vs1 of (n0, ip, port) \<Rightarrow>
       Inr (vs1, m\<lparr>wm_works := wm_works m @ [blank\<lparr>wk_id := word_of_int n0, wk_idx := word_of_int i, wk_ip := ip,
                       wk_port := word_of_int port\<rparr>],
                   wm_nr_used := wm_nr_used m + 1\<rparr>))))"

definition load_work_data :: "work \<Rightarrow> string \<Rightarrow> string option \<Rightarrow> (int \<times> work_mgr) res" where
  "load_work_data blank ip0 file =
     (let m0 = \<lparr>wm_nr_work = 100, wm_nr_used = 0, wm_works = [], wm_bytes = work_size * 100\<rparr> in
      case file of
        None \<Rightarrow> Inr (- 1, m0)
      | Some m \<Rightarrow> rbind (conf_loop (work_line blank) 0 (conf_map m) [] False ((0, ip0, 0), m0)) (\<lambda>(_, m1). Inr (0, m1)))"

text \<open>The second file is not looked at when the first one fails.\<close>

definition load_conf ::
  "('h, string, string) ghash \<Rightarrow> work \<Rightarrow> string \<times> string \<times> string \<Rightarrow> string option \<Rightarrow> string option \<Rightarrow>
     (int \<times> 'h \<times> work_mgr option) res" where
  "load_conf G blank junk simple works = (case junk of (key0, value0, ip0) \<Rightarrow>
     rbind (load_simple_data G key0 value0 simple) (\<lambda>(r, h).
     if r \<noteq> 0 then Inr (- 1, h, None)
     else rbind (load_work_data blank ip0 works) (\<lambda>(r2, m).
       Inr (if r2 \<noteq> 0 then - 1 else 0, h, Some m))))"

section \<open>What the loop means\<close>

text \<open>The lines that count: ended by a line feed, not empty, without a \<open>#\<close> anywhere; with their end offsets.\<close>

fun conf_lines :: "int \<Rightarrow> string \<Rightarrow> string \<Rightarrow> (int \<times> string) list" where
  "conf_lines i [] cur = []"
| "conf_lines i (c # cs) cur =
     (if c = NL then (if cur = [] \<or> CHR ''#'' \<in> set cur then [] else [(i, cur)]) @ conf_lines (i + 1) cs []
      else conf_lines (i + 1) cs (cur @ [c]))"

fun fold_res :: "('x \<Rightarrow> 's \<Rightarrow> 's res) \<Rightarrow> 'x list \<Rightarrow> 's \<Rightarrow> 's res" where
  "fold_res f [] s = Inr s"
| "fold_res f (x # xs) s = rbind (f x s) (fold_res f xs)"

lemma conf_loop_lines:
  assumes "NUL \<notin> set body" and "\<And>l. l \<in> snd ` set (conf_lines i body cur) \<Longrightarrow> length l < 1024"
  shows "conf_loop f i (body @ NUL # junk) cur (CHR ''#'' \<in> set cur) s
    = fold_res (\<lambda>(i, l). f i l) (conf_lines i body cur) s"
  using assms
proof (induction body arbitrary: i cur s)
  case (Cons c cs)
  consider (nl) "c = NL" | (hash) "c = CHR ''#''" | (other) "c \<noteq> NL" "c \<noteq> CHR ''#''" by blast
  then show ?case
  proof cases
    case nl
    show ?thesis
    proof (cases "cur = [] \<or> CHR ''#'' \<in> set cur")
      case True
      then show ?thesis using nl Cons.prems Cons.IH[of "i + 1" "[]"] by auto
    next
      case False
      then have "length cur < 1024" using Cons.prems(2)[of cur] nl by (auto simp: image_iff)
      moreover have "conf_loop f (i + 1) (cs @ NUL # junk) [] False t
          = fold_res (\<lambda>(i, l). f i l) (conf_lines (i + 1) cs []) t" for t
        using Cons.IH[of "i + 1" "[]" t] Cons.prems nl by (auto simp: image_iff)
      ultimately show ?thesis using False nl by (auto intro!: rbind_cong)
    qed
  next
    case hash
    then show ?thesis using Cons.prems Cons.IH[of "i + 1" "cur @ [c]"] by auto
  next
    case other
    then show ?thesis using Cons.prems Cons.IH[of "i + 1" "cur @ [c]"] by auto
  qed
qed simp

end
