(* ===== verification/Outer.thy ===== *)
theory Outer
  imports Net_Close
begin

text \<open>
  The business library (\<^verbatim>\<open>outer.c\<close>): opening it, taking the addresses of its functions, and closing it. The loader
  (\<open>dlopen\<close>, \<open>dlsym\<close>) is an argument. The properties show that registering a complete library gives a usable table, and
  what is left of the table when a reload fails.
\<close>

section \<open>The loader\<close>

text \<open>
  \<open>serv_if_t\<close> as memory: a function pointer is the name of its symbol with the library it was taken from, \<open>None\<close> for
  null. \<open>so_open\<close> are the libraries in memory, with repetition (\<open>dlopen\<close> counts references).
\<close>

record so_tab =
  so_data :: "int option"
  so_handle :: "int option"
  so_ptr :: "string \<Rightarrow> int option"
  so_open :: "int list"

definition dl_close :: "int \<Rightarrow> so_tab \<Rightarrow> so_tab" where
  "dl_close h t = t\<lparr>so_open := remove1 h (so_open t)\<rparr>"

text \<open>Calling through a pointer: a null pointer and one into a library that is not in memory any more are faults.\<close>

definition so_call :: "string \<Rightarrow> so_tab \<Rightarrow> int res" where
  "so_call s t = (case so_ptr t s of None \<Rightarrow> Inl NullDeref
     | Some h \<Rightarrow> if h \<in> set (so_open t) then Inr h else Inl UseAfterFree)"

section \<open>reg_so and unreg_so\<close>

text \<open>\<open>dlopen\<close>'s answer is an argument (\<open>None\<close>: an error), \<open>ds h s\<close> says whether library \<open>h\<close> defines \<open>s\<close>.\<close>

definition reg_data_so :: "int option \<Rightarrow> so_tab \<Rightarrow> int \<times> so_tab" where
  "reg_data_so ans t = (0, case ans of
       None \<Rightarrow> t\<lparr>so_data := None\<rparr>
     | Some h \<Rightarrow> t\<lparr>so_data := Some h, so_open := h # so_open t\<rparr>)"

definition required_syms :: "string list" where
  "required_syms = [''serv_init'', ''serv_fini'', ''handle_timer'', ''get_msg_len'', ''proc_cli_msg'',
     ''proc_serv_msg'', ''on_cli_closed'', ''on_serv_closed'', ''reload_logic'']"

text \<open>The macro \<open>DLFUNC\<close>: the pointer is overwritten before the error is looked at.\<close>

definition dlfunc :: "(int \<Rightarrow> string \<Rightarrow> bool) \<Rightarrow> int \<Rightarrow> string \<Rightarrow> so_tab \<Rightarrow> bool \<times> so_tab" where
  "dlfunc ds h s t = (let t1 = t\<lparr>so_ptr := (so_ptr t)(s := if ds h s then Some h else None)\<rparr> in
     if ds h s then (True, t1) else (False, (dl_close h t1)\<lparr>so_handle := None\<rparr>))"

fun dlfuncs :: "(int \<Rightarrow> string \<Rightarrow> bool) \<Rightarrow> int \<Rightarrow> string list \<Rightarrow> so_tab \<Rightarrow> bool \<times> so_tab" where
  "dlfuncs ds h [] t = (True, t)"
| "dlfuncs ds h (s # ss) t = (case dlfunc ds h s t of
      (True, t1) \<Rightarrow> dlfuncs ds h ss t1
    | (False, t1) \<Rightarrow> (False, t1))"

definition dlfunc_no_error :: "(int \<Rightarrow> string \<Rightarrow> bool) \<Rightarrow> int \<Rightarrow> string \<Rightarrow> so_tab \<Rightarrow> so_tab" where
  "dlfunc_no_error ds h s t = t\<lparr>so_ptr := (so_ptr t)(s := if ds h s then Some h else None)\<rparr>"

definition reg_so :: "(int \<Rightarrow> string \<Rightarrow> bool) \<Rightarrow> int option \<Rightarrow> so_tab \<Rightarrow> int \<times> so_tab" where
  "reg_so ds ans t = (case ans of
       None \<Rightarrow> (- 1, t\<lparr>so_handle := None\<rparr>)
     | Some h \<Rightarrow>
         (case dlfuncs ds h required_syms (t\<lparr>so_handle := Some h, so_open := h # so_open t\<rparr>) of
            (False, t1) \<Rightarrow> (- 1, t1)
          | (True, t1) \<Rightarrow> (0, dlfunc_no_error ds h ''proc_mcast_msg'' t1)))"

definition unreg_data_so :: "so_tab \<Rightarrow> so_tab" where
  "unreg_data_so t = (case so_data t of None \<Rightarrow> t | Some h \<Rightarrow> (dl_close h t)\<lparr>so_data := None\<rparr>)"

definition unreg_so :: "so_tab \<Rightarrow> so_tab" where
  "unreg_so t = (case so_handle t of None \<Rightarrow> t | Some h \<Rightarrow> (dl_close h t)\<lparr>so_handle := None\<rparr>)"

section \<open>A table that can be used\<close>

text \<open>A library is registered, it is in memory, and all the pointers it must have lead into it.\<close>

definition so_ready :: "so_tab \<Rightarrow> bool" where
  "so_ready t \<longleftrightarrow> (\<exists>h. so_handle t = Some h \<and> h \<in> set (so_open t) \<and> (\<forall>s\<in>set required_syms. so_ptr t s = Some h)
     \<and> (so_ptr t ''proc_mcast_msg'' = Some h \<or> so_ptr t ''proc_mcast_msg'' = None))"

lemma dlfuncs_ok:
  assumes "\<forall>s\<in>set ss. ds h s"
  shows "dlfuncs ds h ss t = (True, t\<lparr>so_ptr := (\<lambda>s. if s \<in> set ss then Some h else so_ptr t s)\<rparr>)"
  using assms by (induction ss arbitrary: t) (auto simp: dlfunc_def Let_def intro!: so_tab.equality ext)

lemma dlfuncs_fail:
  assumes "\<not> (\<forall>s\<in>set ss. ds h s)" and "distinct ss"
  obtains t1 where "dlfuncs ds h ss t = (False, t1)" and "so_handle t1 = None" and "so_open t1 = remove1 h (so_open t)"
    and "\<And>s. so_ptr t1 s = (if s \<notin> set (takeWhile (ds h) ss) then (if s = hd (dropWhile (ds h) ss) then None else so_ptr t s) else Some h)"
proof -
  have "\<exists>t1. dlfuncs ds h ss t = (False, t1) \<and> so_handle t1 = None \<and> so_open t1 = remove1 h (so_open t)
    \<and> (\<forall>s. so_ptr t1 s = (if s \<notin> set (takeWhile (ds h) ss) then (if s = hd (dropWhile (ds h) ss) then None else so_ptr t s) else Some h))"
    using assms
  proof (induction ss arbitrary: t)
    case (Cons s ss)
    show ?case
    proof (cases "ds h s")
      case True
      define t0 where "t0 = t\<lparr>so_ptr := (so_ptr t)(s := Some h)\<rparr>"
      have s: "dlfunc ds h s t = (True, t0)" "so_open t0 = so_open t" "so_ptr t0 = (so_ptr t)(s := Some h)"
        using True by (simp_all add: dlfunc_def t0_def)
      have "hd (dropWhile (ds h) ss) \<in> set ss" using Cons.prems True
        by (metis dropWhile_eq_Nil_conv hd_in_set set_ConsD set_dropWhileD)
      then have "hd (dropWhile (ds h) ss) \<noteq> s" using Cons.prems by auto
      then show ?thesis using Cons.IH[of t0] Cons.prems True s by auto
    next
      case False
      then show ?thesis by (simp add: dlfunc_def dl_close_def)
    qed
  qed simp
  then show ?thesis using that by blast
qed

lemma required_distinct: "distinct required_syms" "''proc_mcast_msg'' \<notin> set required_syms"
  by (simp_all add: required_syms_def)

lemma reg_ready:
  assumes "\<forall>s\<in>set required_syms. ds h s"
  shows "\<exists>t1. reg_so ds (Some h) (unreg_so t) = (0, t1) \<and> so_ready t1
    \<and> so_open t1 = h # (case so_handle t of None \<Rightarrow> so_open t | Some g \<Rightarrow> remove1 g (so_open t))"
  using required_distinct
  by (auto simp: reg_so_def dlfuncs_ok[of _ ds h, OF assms] dlfunc_no_error_def so_ready_def unreg_so_def dl_close_def
      split: option.splits)

text \<open>
  Registering a library that defines all the required symbols returns 0 and gives a table that can be used;
  unregistering and registering such a library again does so too, and leaves no reference to the old library.
\<close>

theorem reg_so_ready:
  assumes "\<forall>s\<in>set required_syms. ds h s"
  shows "\<exists>t1. reg_so ds (Some h) (unreg_so t) = (0, t1) \<and> so_ready t1
    \<and> so_open t1 = h # (case so_handle t of None \<Rightarrow> so_open t | Some g \<Rightarrow> remove1 g (so_open t))"
  using assms by (rule reg_ready)

definition demo_so :: so_tab where
  "demo_so = \<lparr>so_data = None, so_handle = Some 1, so_ptr = (\<lambda>s. if s \<in> set required_syms then Some 1 else None),
     so_open = [1]\<rparr>"

lemma demo_so_ready: "so_ready demo_so"
  by (simp add: so_ready_def demo_so_def required_syms_def)

lemma reg_so_ready_witness:
  "\<exists>t1. reg_so (\<lambda>_ _. True) (Some 2) (unreg_so demo_so) = (0, t1) \<and> so_ready t1 \<and> so_open t1 = [2]"
  using reg_so_ready[of "\<lambda>_ _. True" 2 demo_so] by (simp add: demo_so_def)

lemma so_call_dangling:
  "so_ptr t s = Some h \<Longrightarrow> h \<notin> set (so_open t) \<Longrightarrow> so_call s t = Inl UseAfterFree"
  by (simp add: so_call_def)

text \<open>
  When a reload fails, the library that was in use is already gone and the pointers into it are kept: if the new
  file cannot be opened every function the program calls is behind a dangling pointer; if a symbol is missing, this one
  is null and all the others dangle, those found in the new library (which is closed again) as well as the old ones.
\<close>

theorem reg_so_failed_dangles:
  assumes "so_ready t" and "so_handle t = Some g" and "distinct (so_open t)"
    and "case ans of None \<Rightarrow> True | Some h \<Rightarrow> h \<notin> set (so_open t) \<and> \<not> (\<forall>s\<in>set required_syms. ds h s)"
  shows "\<exists>t1. reg_so ds ans (unreg_so t) = (- 1, t1) \<and> so_handle t1 = None
    \<and> (\<forall>s\<in>set required_syms. so_call s t1 \<in> {Inl UseAfterFree, Inl NullDeref})
    \<and> (ans = None \<longrightarrow> (\<forall>s\<in>set required_syms. so_call s t1 = Inl UseAfterFree))"
proof -
  define t0 where "t0 = unreg_so t"
  have t0: "so_open t0 = remove1 g (so_open t)" "so_ptr t0 = so_ptr t" "g \<notin> set (so_open t0)"
    and old: "\<forall>s\<in>set required_syms. so_ptr t0 s = Some g"
    using assms by (auto simp: t0_def unreg_so_def dl_close_def so_ready_def)
  show ?thesis
  proof (cases ans)
    case None
    then show ?thesis using t0 old by (simp add: reg_so_def t0_def[symmetric] so_call_def)
  next
    case (Some h)
    then have h: "h \<notin> set (so_open t)" "\<not> (\<forall>s\<in>set required_syms. ds h s)" using assms(4) by auto
    obtain t1 where t1: "dlfuncs ds h required_syms (t0\<lparr>so_handle := Some h, so_open := h # so_open t0\<rparr>) = (False, t1)"
      "so_handle t1 = None" "so_open t1 = so_open t0"
      and ptr: "\<And>s. so_ptr t1 s = (if s \<notin> set (takeWhile (ds h) required_syms)
         then (if s = hd (dropWhile (ds h) required_syms) then None else so_ptr t0 s) else Some h)"
      by (rule dlfuncs_fail[where ds = ds and h = h and ss = required_syms, OF h(2) required_distinct(1), of "t0\<lparr>so_handle := Some h, so_open := h # so_open t0\<rparr>"]) auto
    have "h \<notin> set (so_open t1)" "g \<notin> set (so_open t1)" using h t0 t1 by (auto dest: notin_set_remove1)
    then have "\<forall>s\<in>set required_syms. so_call s t1 \<in> {Inl UseAfterFree, Inl NullDeref}"
      using old by (auto simp: so_call_def ptr)
    then show ?thesis using t1 Some by (simp add: reg_so_def t0_def[symmetric])
  qed
qed

lemma reg_so_failed_dangles_witness:
  "\<exists>t1. reg_so (\<lambda>_ _. True) None (unreg_so demo_so) = (- 1, t1) \<and> so_handle t1 = None
    \<and> so_call ''get_msg_len'' t1 = Inl UseAfterFree"
  using reg_so_failed_dangles[OF demo_so_ready, where g = 1 and ans = None and ds = "\<lambda>_ _. True"]
  by (auto simp: demo_so_def required_syms_def)

end
