(* ===== verification/Mcast.thy ===== *)
theory Mcast
  imports Conf Outer
begin

text \<open>
  Multicast (\<^verbatim>\<open>mcast.c\<close>, \<^verbatim>\<open>mcast.h\<close> and the functions of \<^verbatim>\<open>work.c\<close> that use them): every worker announces its address,
  keeps the addresses it hears in a two-level table, and reloads its business library on request. Packets are the bytes
  on the wire.
\<close>

section \<open>Strings in memory\<close>

definition char_byte :: "char \<Rightarrow> byte" where
  "char_byte c = of_nat (of_char c)"

definition byte_char :: "byte \<Rightarrow> char" where
  "byte_char b = char_of (unat b)"

lemma byte_char_byte [simp]: "byte_char (char_byte c) = c"
proof -
  have "unat (of_nat (of_char c) :: byte) = of_char c" by (simp add: unat_of_nat)
  then show ?thesis by (simp add: byte_char_def char_byte_def)
qed

lemma char_byte_char [simp]: "char_byte (byte_char b) = b"
proof -
  have "int (unat b) < int 256" using uint_byte_lt[of b] by (simp only: uint_nat[symmetric] of_nat_numeral)
  then have "unat b < 256" by (simp only: of_nat_less_iff)
  then show ?thesis by (simp add: byte_char_def char_byte_def)
qed

text \<open>The C string at offset \<open>a\<close> of a buffer: the bytes up to the first 0, which must be inside the buffer.\<close>

definition str_at :: "byte list \<Rightarrow> int \<Rightarrow> string res" where
  "str_at m a = (if 0 \<le> a \<and> a \<le> int (length m) \<and> 0 \<in> set (drop (nat a) m)
     then Inr (map byte_char (takeWhile (\<lambda>b. b \<noteq> 0) (drop (nat a) m))) else Inl OutOfBounds)"

lemma char_byte_0 [simp]: "char_byte c = 0 \<longleftrightarrow> c = NUL"
proof -
  have "char_byte NUL = 0" "byte_char 0 = NUL" by (simp_all add: char_byte_def byte_char_def char_of_def)
  then show ?thesis by (metis byte_char_byte)
qed

section \<open>Packets\<close>

definition MCAST_SERV_NOTI :: byte where "MCAST_SERV_NOTI = 1"
definition MCAST_RELOAD_SO :: byte where "MCAST_RELOAD_SO = 2"
definition MCAST_RELOAD_CONF :: byte where "MCAST_RELOAD_CONF = 3"
definition MCAST_MSG_LEN :: int where "MCAST_MSG_LEN = 4096"

text \<open>The packed head of a packet (\<open>len\<close> and \<open>mcast_type\<close>), 5 bytes, with its data behind it.\<close>

record mcast_pkg =
  pk_len :: int
  mcast_type :: byte

definition pkg_head_len :: int where "pkg_head_len = 5"

definition enc_pkg :: "mcast_pkg \<Rightarrow> byte list" where
  "enc_pkg k = le32 (pk_len k) @ [mcast_type k]"

definition dec_pkg :: "byte list \<Rightarrow> mcast_pkg" where
  "dec_pkg bs = \<lparr>pk_len = get32 (take 4 bs), mcast_type = bs ! 4\<rparr>"

text \<open>
  \<open>serv_noti_t\<close>, 40 bytes, and \<open>reload_so_t\<close>, 162 bytes. A name is the contents of its array of 32 bytes; when
  reading, it is the offset of the array in the buffer, where the code reads a string that may go on behind it.
\<close>

record serv_noti =
  sn_ip :: "32 word"
  sn_port :: "16 word"
  sn_id :: "16 word"
  sn_servname :: "byte list"

definition serv_noti_len :: int where "serv_noti_len = 40"

definition enc_noti :: "serv_noti \<Rightarrow> byte list" where
  "enc_noti s = le_bytes 4 (uint (sn_ip s)) @ le_bytes 2 (uint (sn_port s)) @ le_bytes 2 (uint (sn_id s)) @ sn_servname s"

definition dec_noti :: "byte list \<Rightarrow> serv_noti" where
  "dec_noti bs = \<lparr>sn_ip = word_of_int (le_val (take 4 bs)), sn_port = word_of_int (le_val (take 2 (drop 4 bs))),
     sn_id = word_of_int (le_val (take 2 (drop 6 bs))), sn_servname = take 32 (drop 8 bs)\<rparr>"

record reload_so =
  rs_id :: "16 word"
  rs_servname :: "byte list"
  rs_soname :: "byte list"

definition dec_reload :: "byte list \<Rightarrow> reload_so" where
  "dec_reload bs = \<lparr>rs_id = word_of_int (le_val (take 2 bs)), rs_servname = take 32 (drop 2 bs),
     rs_soname = take 128 (drop 34 bs)\<rparr>"

section \<open>Sockets\<close>

text \<open>The calls of \<open>mcast_cli_init\<close> and \<open>send_pkg_to_mcast\<close>, and what they answer (\<open>True\<close>: success).\<close>

datatype mc_call =
    McReuse int
  | McBind int "32 word" "16 word"
  | McTtl int int
  | McLoop int int
  | McIf int "32 word"
  | McJoin int "32 word" "32 word"
  | McLeave int "32 word" "32 word"
  | McSend int "byte list" "32 word" "16 word"
  | McClose int

record mc_ans =
  ma_socket :: int
  ma_reuse :: bool
  ma_bind :: bool
  ma_ttl :: bool
  ma_loop :: bool
  ma_if :: bool
  ma_join :: bool
  ma_sent :: int

definition set_mcast_ttl :: "int \<Rightarrow> int \<Rightarrow> mc_call" where "set_mcast_ttl fd ttl = McTtl fd ttl"
definition set_mcast_loop :: "int \<Rightarrow> int \<Rightarrow> mc_call" where "set_mcast_loop fd l = McLoop fd l"
definition set_mcast_if :: "int \<Rightarrow> 32 word \<Rightarrow> mc_call" where "set_mcast_if fd i = McIf fd i"
definition join_mcast :: "int \<Rightarrow> 32 word \<Rightarrow> 32 word \<Rightarrow> mc_call" where "join_mcast fd grp ifc = McJoin fd grp ifc"
definition leave_mcast :: "int \<Rightarrow> 32 word \<Rightarrow> 32 word \<Rightarrow> mc_call" where "leave_mcast fd grp ifc = McLeave fd grp ifc"

text \<open>
  \<open>inet_addr\<close> is the C library's parser of addresses. The result is the return value and the calls made after
  \<open>socket\<close>; on an error the function returns at once, without closing the socket.
\<close>

definition mcast_cli_init ::
  "(string \<Rightarrow> 32 word) \<Rightarrow> mc_ans \<Rightarrow> string \<Rightarrow> 16 word \<Rightarrow> string \<Rightarrow> int \<times> mc_call list" where
  "mcast_cli_init inet_addr a mip mport local_ip =
     (let fd = ma_socket a; c1 = [McReuse fd]; c2 = c1 @ [McBind fd 0 mport]; c3 = c2 @ [set_mcast_ttl fd 1];
          c4 = c3 @ [set_mcast_loop fd 1]; c5 = c4 @ [join_mcast fd (inet_addr mip) (inet_addr local_ip)] in
      if fd = - 1 then (- 1, [])
      else if \<not> ma_reuse a then (- 1, c1)
      else if \<not> ma_bind a then (- 1, c2)
      else if \<not> ma_ttl a then (- 1, c3)
      else if \<not> ma_loop a then (- 1, c4)
      else if \<not> ma_join a then (- 1, c5)
      else (fd, c5))"

text \<open>The static buffer of \<open>send_pkg_to_mcast\<close> has 1024 bytes; \<open>len\<close> is not checked against it.\<close>

definition fill_pkg :: "byte \<Rightarrow> int \<Rightarrow> byte list \<Rightarrow> byte list res" where
  "fill_pkg ty len data = rbind (cint (len + pkg_head_len)) (\<lambda>n.
     rbind (memcpy_src data len) (\<lambda>d.
     if 1024 < n then Inl OutOfBounds else Inr (enc_pkg \<lparr>pk_len = n, mcast_type = ty\<rparr> @ d)))"

definition send_pkg_to_mcast ::
  "(string \<Rightarrow> 32 word) \<Rightarrow> mc_ans \<Rightarrow> string \<Rightarrow> 16 word \<Rightarrow> string \<Rightarrow> byte \<Rightarrow> int \<Rightarrow> byte list \<Rightarrow>
     (int \<times> mc_call list) res" where
  "send_pkg_to_mcast inet_addr a mip mport local_ip ty len data =
     (let fd = ma_socket a; c1 = [set_mcast_ttl fd 1]; c2 = c1 @ [set_mcast_loop fd 1];
          c3 = c2 @ [set_mcast_if fd (inet_addr local_ip)] in
      if fd = - 1 then Inr (- 1, [])
      else if \<not> ma_ttl a then Inr (- 1, c1)
      else if \<not> ma_loop a then Inr (- 1, c2)
      else if \<not> ma_if a then Inr (- 1, c3)
      else rbind (fill_pkg ty len data) (\<lambda>pkg.
        let c4 = c3 @ [McSend fd pkg (inet_addr mip) mport] in
        if ma_sent a \<noteq> int (length pkg) then Inr (- 1, c4) else Inr (0, c4 @ [McClose fd])))"

section \<open>Announcing oneself\<close>

text \<open>\<open>get_serv_ip\<close> and its neighbours read the entry of the worker itself; the time and \<open>random_range\<close> are libnanc's.\<close>

definition get_serv_ip :: "(string \<Rightarrow> 32 word) \<Rightarrow> ('l, 'h) proc \<Rightarrow> 32 word res" where
  "get_serv_ip inet_addr p = rbind (get_work p (p_work_idx p)) (\<lambda>k. Inr (inet_addr (wk_ip k)))"

definition get_serv_port :: "('l, 'h) proc \<Rightarrow> 16 word res" where
  "get_serv_port p = rbind (get_work p (p_work_idx p)) (\<lambda>k. Inr (wk_port k))"

definition get_serv_id :: "('l, 'h) proc \<Rightarrow> 32 word res" where
  "get_serv_id p = rbind (get_work p (p_work_idx p)) (\<lambda>k. Inr (wk_id k))"

definition get_serv_ipstr :: "('l, 'h) proc \<Rightarrow> string res" where
  "get_serv_ipstr p = rbind (get_work p (p_work_idx p)) (\<lambda>k. Inr (wk_ip k))"

text \<open>
  \<open>srv_name\<close> stands for all the 32 characters of the array in the settings. The id is cut to 16 bits by the
  assignment to the field of the packet.
\<close>

definition syn_pkg :: "(string \<Rightarrow> 32 word) \<Rightarrow> ('l, 'h) proc \<Rightarrow> serv_noti res" where
  "syn_pkg inet_addr p = rbind (get_serv_ip inet_addr p) (\<lambda>ip. rbind (get_serv_port p) (\<lambda>port.
     rbind (get_serv_id p) (\<lambda>sid. rbind (memcpy_src (map char_byte (srv_name (p_setting p))) 32) (\<lambda>name.
       Inr \<lparr>sn_ip = ip, sn_port = port, sn_id = ucast sid, sn_servname = name\<rparr>))))"

definition do_syn_serv_addr ::
  "(string \<Rightarrow> 32 word) \<Rightarrow> mc_ans \<Rightarrow> 32 word \<Rightarrow> 32 word \<Rightarrow> ('l, 'h) proc \<Rightarrow> (mc_call list \<times> ('l, 'h) proc) res" where
  "do_syn_serv_addr inet_addr a now rnd p = (let s = p_setting p in
     rbind (syn_pkg inet_addr p) (\<lambda>serv.
     rbind (send_pkg_to_mcast inet_addr a (mcast_ip s) (mcast_port s) (mcast_out_ip s) MCAST_SERV_NOTI serv_noti_len
       (enc_noti serv)) (\<lambda>(_, calls).
     rbind (upd_work (p_work_idx p) (\<lambda>k. k\<lparr>next_syn_addr := now + rnd\<rparr>) p) (\<lambda>p1. Inr (calls, p1)))))"

section \<open>The cache of servers\<close>

record addrcach =
  ac_serv_id :: int
  ac_ip :: "32 word"
  ac_port :: "16 word"
  ac_last_syn :: "32 word"

record 'a servcach =
  serv_name :: string
  addrs :: 'a

text \<open>
  Two levels of hash tables, \<open>S\<close> by name and \<open>A\<close> by id. \<open>g_slice_alloc\<close> does not return when memory runs out. The
  name is copied by \<open>strcpy\<close> into 16 bytes. Changing an entry through its pointer is an insertion over it.
\<close>

definition init_mcast_servs :: "('s, string, 'a servcach) ghash \<Rightarrow> 's" where
  "init_mcast_servs S = gh_new S"

definition add_serv_to_cach ::
  "('s, string, 'a servcach) ghash \<Rightarrow> ('a, 32 word, addrcach) ghash \<Rightarrow> 32 word \<Rightarrow> string \<Rightarrow> 32 word \<Rightarrow> 32 word \<Rightarrow> 16 word \<Rightarrow>
     's \<Rightarrow> 's res" where
  "add_serv_to_cach S A now servname serv_id ip port servs =
     (let addr = \<lparr>ac_serv_id = s32 (uint serv_id), ac_ip = ip, ac_port = port, ac_last_syn = now\<rparr> in
      case gh_lookup S servs servname of
        None \<Rightarrow>
          if 16 \<le> length servname then Inl OutOfBounds
          else Inr (gh_insert S servs servname \<lparr>serv_name = servname, addrs = gh_insert A (gh_new A) serv_id addr\<rparr>)
      | Some serv \<Rightarrow>
          (case gh_lookup A (addrs serv) serv_id of
             Some tmp \<Rightarrow> Inr (gh_insert S servs servname (serv\<lparr>addrs := gh_insert A (addrs serv) serv_id
               (tmp\<lparr>ac_serv_id := s32 (uint serv_id), ac_ip := ip, ac_port := port, ac_last_syn := now\<rparr>)\<rparr>))
           | None \<Rightarrow> Inr (gh_insert S servs servname (serv\<lparr>addrs := gh_insert A (addrs serv) serv_id addr\<rparr>))))"

section \<open>Receiving\<close>

text \<open>
  What is outside: the C library and the loader, libnanc's clock, and the functions of the business library behind the
  pointers \<open>reload_logic\<close> and \<open>proc_mcast_msg\<close>, which may change the process.
\<close>

record 'w mc_env =
  me_now :: "32 word"
  me_access :: "string \<Rightarrow> bool"
  me_dlopen :: "string \<Rightarrow> int option"
  me_dlsym :: "int \<Rightarrow> string \<Rightarrow> bool"
  me_reload_logic :: "'w \<Rightarrow> 'w res"
  me_proc_mcast_msg :: "byte list \<Rightarrow> 'w \<Rightarrow> 'w res"

text \<open>\<open>mc_buf\<close> is the static buffer of \<open>do_proc_mcast\<close>; it keeps its contents between the calls.\<close>

record 's mc_state =
  mc_buf :: "byte list"
  mc_servs :: 's
  mc_so :: so_tab

definition do_mcast_serv_noti ::
  "('s, string, 'a servcach) ghash \<Rightarrow> ('a, 32 word, addrcach) ghash \<Rightarrow> 32 word \<Rightarrow> 's mc_state \<Rightarrow> (int \<times> 's mc_state) res" where
  "do_mcast_serv_noti S A now m = (let serv = dec_noti (drop 5 (mc_buf m)) in
     rbind (str_at (mc_buf m) (pkg_head_len + 8)) (\<lambda>name.
     rbind (add_serv_to_cach S A now name (ucast (sn_id serv)) (sn_ip serv) (sn_port serv) (mc_servs m)) (\<lambda>s.
       Inr (0, m\<lparr>mc_servs := s\<rparr>))))"

text \<open>\<open>strcmp\<close> of what two memories hold: whether the strings are equal.\<close>

fun str_eq :: "string \<Rightarrow> string \<Rightarrow> bool res" where
  "str_eq (a # as) (b # bs) = (if a \<noteq> b then Inr False else if a = NUL then Inr True else str_eq as bs)"
| "str_eq _ _ = Inl OutOfBounds"

definition do_mcast_realod_so ::
  "('l, 'h) proc mc_env \<Rightarrow> ('l, 'h) proc \<Rightarrow> 's mc_state \<Rightarrow> (int \<times> ('l, 'h) proc \<times> 's mc_state) res" where
  "do_mcast_realod_so E p m = (let rs = dec_reload (drop 5 (mc_buf m)) in
     rbind (str_eq (srv_name (p_setting p)) (map byte_char (drop 7 (mc_buf m)))) (\<lambda>same.
     if \<not> same then Inr (0, p, m) else
     rbind (get_work p (p_work_idx p)) (\<lambda>k.
     if rs_id rs \<noteq> 0 \<and> uint (rs_id rs) \<noteq> uint (wk_id k) then Inr (0, p, m) else
     rbind (str_at (mc_buf m) (pkg_head_len + 34)) (\<lambda>soname.
     if \<not> me_access E soname then Inr (0, p, m) else
     case reg_so (me_dlsym E) (me_dlopen E soname) (unreg_so (mc_so m)) of (r, t) \<Rightarrow>
     if r \<noteq> 0 then Inr (- 1, p, m\<lparr>mc_so := t\<rparr>)
     else if so_ptr t ''reload_logic'' \<noteq> None then
       rbind (so_call ''reload_logic'' t) (\<lambda>_. rbind (me_reload_logic E p) (\<lambda>p1. Inr (0, p1, m\<lparr>mc_so := t\<rparr>)))
     else Inr (0, p, m\<lparr>mc_so := t\<rparr>)))))"

definition do_mcast_other_req ::
  "('l, 'h) proc mc_env \<Rightarrow> ('l, 'h) proc \<Rightarrow> 's mc_state \<Rightarrow> (int \<times> ('l, 'h) proc \<times> 's mc_state) res" where
  "do_mcast_other_req E p m =
     (if so_ptr (mc_so m) ''proc_mcast_msg'' \<noteq> None then
        rbind (so_call ''proc_mcast_msg'' (mc_so m)) (\<lambda>_.
        rbind (me_proc_mcast_msg E (mc_buf m) p) (\<lambda>p1. Inr (0, p1, m)))
      else Inr (0, p, m))"

text \<open>
  One datagram: it overwrites the start of the buffer, and the type is read from the buffer whatever its length; a
  datagram of less than 5 bytes is only reported.
\<close>

definition recv_pkg ::
  "('s, string, 'a servcach) ghash \<Rightarrow> ('a, 32 word, addrcach) ghash \<Rightarrow> ('l, 'h) proc mc_env \<Rightarrow> byte list \<Rightarrow>
     ('l, 'h) proc \<Rightarrow> 's mc_state \<Rightarrow> (('l, 'h) proc \<times> 's mc_state) res" where
  "recv_pkg S A E d p m = (let m1 = m\<lparr>mc_buf := d @ drop (length d) (mc_buf m)\<rparr>; ty = mcast_type (dec_pkg (mc_buf m1)) in
     if ty = MCAST_SERV_NOTI then rbind (do_mcast_serv_noti S A (me_now E) m1) (\<lambda>(_, m2). Inr (p, m2))
     else if ty = MCAST_RELOAD_SO then rbind (do_mcast_realod_so E p m1) (\<lambda>(_, p2, m2). Inr (p2, m2))
     else if ty = MCAST_RELOAD_CONF then rbind (do_mcast_other_req E p m1) (\<lambda>(_, p2, m2). Inr (p2, m2))
     else rbind (do_mcast_other_req E p m1) (\<lambda>(_, p2, m2). Inr (p2, m2)))"

text \<open>The loop of \<open>do_proc_mcast\<close>, at most \<open>n\<close> rounds.\<close>

fun do_proc_mcast ::
  "('s, string, 'a servcach) ghash \<Rightarrow> ('a, 32 word, addrcach) ghash \<Rightarrow> ('l, 'h) proc mc_env \<Rightarrow> nat \<Rightarrow>
     ('l, 'h) proc \<Rightarrow> 's mc_state \<Rightarrow> (int \<times> ('l, 'h) proc \<times> 's mc_state) res" where
  "do_proc_mcast S A E 0 p m = Inl Exhausted"
| "do_proc_mcast S A E (Suc n) p m = (case p_recvs p of
      [] \<Rightarrow> Inl Exhausted
    | RErr e # rest \<Rightarrow> Inr (0, p\<lparr>p_recvs := rest\<rparr>, m)
    | RData d # rest \<Rightarrow>
        if d = [] then Inr (0, p\<lparr>p_recvs := rest\<rparr>, m)
        else if MCAST_MSG_LEN < int (length d) then Inl OutOfBounds
        else rbind (recv_pkg S A E d (p\<lparr>p_recvs := rest\<rparr>) m) (\<lambda>(p1, m1). do_proc_mcast S A E n p1 m1))"

end
