(* ===== verification/Mcast_Discovery.thy ===== *)
theory Mcast_Discovery
  imports Mcast
begin

text \<open>
  The announcements of the workers: round trips of the packed structures, what a receiver stores for the packet a worker
  sends, the overflow by a long service name, and the sockets and bounds of sending.
\<close>

lemma byte_char_0: "byte_char 0 = NUL"
  by (metis char_byte_0 byte_char_byte)

section \<open>The codecs\<close>

lemma length_enc_noti [simp]: "length (sn_servname s) = 32 \<Longrightarrow> length (enc_noti s) = 40"
  by (simp add: enc_noti_def)

lemma length_enc_pkg [simp]: "length (enc_pkg k) = 5"
  by (simp add: enc_pkg_def)

lemma word_of_int_le_val: "LENGTH('a::len) = 8 * n \<Longrightarrow> word_of_int (le_val (le_bytes n (uint (w :: 'a word)))) = w"
proof -
  assume "LENGTH('a) = 8 * n"
  then have "(256 :: int) ^ n = 2 ^ LENGTH('a)" by (simp add: power_mult)
  then show ?thesis by (simp add: le_val_bytes)
qed

lemma dec_enc_noti: "length (sn_servname s) = 32 \<Longrightarrow> dec_noti (enc_noti s @ x) = s"
  by (cases s) (simp add: dec_noti_def enc_noti_def word_of_int_le_val)

lemma dec_enc_pkg: "is_cint (pk_len k) \<Longrightarrow> dec_pkg (enc_pkg k @ x) = k"
  by (cases k) (simp add: dec_pkg_def enc_pkg_def nth_append)

lemma str_at_name:
  assumes "length pre = nat a" and "0 \<le> a" and "NUL \<notin> set s"
  shows "str_at (pre @ map char_byte (s @ NUL # x) @ rest) a = Inr s"
proof -
  have "takeWhile (\<lambda>b. b \<noteq> 0) (map char_byte (s @ NUL # x) @ rest) = map char_byte s"
    using assms(3) by (induction s) auto
  moreover have "map byte_char (map char_byte s) = s" by (simp add: comp_def)
  ultimately show ?thesis using assms by (simp add: str_at_def)
qed

section \<open>An announcement from the sender to the cache of a receiver\<close>

text \<open>
  A worker that announces itself: its entry in the table, and the name in the array of the settings, followed by
  whatever is behind its terminator.
\<close>

definition announcer :: "('l, 'h) proc \<Rightarrow> work \<Rightarrow> string \<Rightarrow> bool" where
  "announcer q k name \<longleftrightarrow> get_work q (p_work_idx q) = Inr k \<and> NUL \<notin> set name
     \<and> length (srv_name (p_setting q)) = 32 \<and> (\<exists>x. srv_name (p_setting q) = name @ NUL # x)"

definition announcement :: "(string \<Rightarrow> 32 word) \<Rightarrow> ('l, 'h) proc \<Rightarrow> work \<Rightarrow> byte list" where
  "announcement inet_addr q k = enc_pkg \<lparr>pk_len = 45, mcast_type = MCAST_SERV_NOTI\<rparr>
     @ enc_noti \<lparr>sn_ip = inet_addr (wk_ip k), sn_port = wk_port k, sn_id = ucast (wk_id k),
         sn_servname = map char_byte (srv_name (p_setting q))\<rparr>"

definition all_sent :: "mc_ans \<Rightarrow> bool" where
  "all_sent a \<longleftrightarrow> ma_socket a \<noteq> - 1 \<and> ma_ttl a \<and> ma_loop a \<and> ma_if a \<and> ma_sent a = 45"

text \<open>The address the cache holds for a service and an id.\<close>

definition known :: "('s, string, 'a servcach) ghash \<Rightarrow> ('a, 32 word, addrcach) ghash \<Rightarrow> 's \<Rightarrow> string \<Rightarrow> 32 word \<Rightarrow>
    addrcach option" where
  "known S A servs name i = (case gh_lookup S servs name of None \<Rightarrow> None | Some serv \<Rightarrow> gh_lookup A (addrs serv) i)"

lemma length_announcement: "announcer q k name \<Longrightarrow> length (announcement inet_addr q k) = 45"
  by (simp add: announcer_def announcement_def)

lemma do_syn_serv_addr_sends:
  assumes "announcer q k name" and "all_sent a"
  shows "\<exists>calls q1. do_syn_serv_addr inet_addr a now rnd q
    = Inr (calls @ [McSend (ma_socket a) (announcement inet_addr q k) (inet_addr (mcast_ip (p_setting q)))
        (mcast_port (p_setting q)), McClose (ma_socket a)], q1)"
proof -
  have w: "get_work q (p_work_idx q) = Inr k" and n: "length (srv_name (p_setting q)) = 32"
    using assms(1) by (auto simp: announcer_def)
  show ?thesis using assms(2) length_announcement[OF assms(1), of inet_addr]
    by (simp add: do_syn_serv_addr_def syn_pkg_def get_serv_ip_def get_serv_port_def get_serv_id_def w n memcpy_src_def
        send_pkg_to_mcast_def fill_pkg_def is_cint_def pkg_head_len_def serv_noti_len_def announcement_def all_sent_def
        upd_work_def Let_def)
qed

lemma recv_announcement:
  assumes "announcer q k name" and "length (mc_buf m) = 4096"
  shows "recv_pkg S A E (announcement inet_addr q k) p m
    = rbind (add_serv_to_cach S A (me_now E) name (ucast (ucast (wk_id k) :: 16 word)) (inet_addr (wk_ip k)) (wk_port k) (mc_servs m))
        (\<lambda>s. Inr (p, m\<lparr>mc_buf := announcement inet_addr q k @ drop 45 (mc_buf m), mc_servs := s\<rparr>))"
proof -
  define sn where "sn = \<lparr>sn_ip = inet_addr (wk_ip k), sn_port = wk_port k, sn_id = ucast (wk_id k) :: 16 word,
         sn_servname = map char_byte (srv_name (p_setting q))\<rparr>"
  define pk where "pk = \<lparr>pk_len = 45, mcast_type = MCAST_SERV_NOTI\<rparr>"
  define r where "r = drop 45 (mc_buf m)"
  obtain x where x: "srv_name (p_setting q) = name @ NUL # x" and len: "length (sn_servname sn) = 32"
    and nul: "NUL \<notin> set name" using assms(1) by (auto simp: announcer_def sn_def)
  have an: "announcement inet_addr q k = enc_pkg pk @ enc_noti sn" by (simp add: announcement_def pk_def sn_def)
  have "dec_noti (enc_noti sn @ r) = sn" using len by (rule dec_enc_noti)
  moreover have "dec_pkg (enc_pkg pk @ enc_noti sn @ r) = pk" by (rule dec_enc_pkg) (simp add: pk_def is_cint_def)
  moreover have "str_at (enc_pkg pk @ enc_noti sn @ r) (pkg_head_len + 8) = Inr name"
    using str_at_name[of "enc_pkg pk @ le_bytes 4 (uint (sn_ip sn)) @ le_bytes 2 (uint (sn_port sn)) @ le_bytes 2 (uint (sn_id sn))"
        13 name x r] nul
    by (simp add: enc_noti_def pkg_head_len_def sn_def x)
  ultimately show ?thesis using len length_announcement[OF assms(1), of inet_addr]
    by (simp add: recv_pkg_def an do_mcast_serv_noti_def Let_def r_def[symmetric] rbind_assoc)
      (simp add: pk_def sn_def)
qed

lemma add_serv_known:
  assumes "ghash_laws S" and "ghash_laws A" and "gh_lookup S servs name = None \<longrightarrow> length name < 16"
  shows "\<exists>s. add_serv_to_cach S A now name i ip port servs = Inr s \<and>
    (\<forall>n j. known S A s n j = (if n = name \<and> j = i
       then Some \<lparr>ac_serv_id = s32 (uint i), ac_ip = ip, ac_port = port, ac_last_syn = now\<rparr> else known S A servs n j))"
  using assms(3)
  by (auto simp: add_serv_to_cach_def known_def ghash_simps[OF assms(1)] ghash_simps[OF assms(2)] Let_def split: option.splits)

text \<open>
  C15: A worker's announcement arrives: from the packet that \<open>do_syn_serv_addr\<close> sends for a service whose name has fewer than 16 characters,
  \<open>do_proc_mcast\<close> of any receiver stores the sender's address and port under its service name and its id (modulo 65536), leaves every
  other entry as it was, and waits for the next packet.
\<close>

theorem announcement_roundtrip:
  assumes "announcer q k name" and "all_sent a" and "length name < 16" and "ghash_laws S" and "ghash_laws A"
    and "length (mc_buf m) = 4096" and "i = ucast (ucast (wk_id k) :: 16 word)"
  shows "\<exists>pkt calls q1. do_syn_serv_addr inet_addr a now rnd q
      = Inr (calls @ [McSend (ma_socket a) pkt (inet_addr (mcast_ip (p_setting q))) (mcast_port (p_setting q)),
          McClose (ma_socket a)], q1)
    \<and> (\<exists>m1. do_proc_mcast S A E (Suc (Suc n)) (p\<lparr>p_recvs := [RData pkt, RErr EAGAIN]\<rparr>) m = Inr (0, p\<lparr>p_recvs := []\<rparr>, m1)
        \<and> (\<forall>n j. known S A (mc_servs m1) n j = (if n = name \<and> j = i
             then Some \<lparr>ac_serv_id = s32 (uint i), ac_ip = inet_addr (wk_ip k), ac_port = wk_port k, ac_last_syn = me_now E\<rparr>
             else known S A (mc_servs m) n j)))"
proof -
  define pkt where "pkt = announcement inet_addr q k"
  have pkt: "pkt \<noteq> []" "length pkt = 45" using length_announcement[OF assms(1), of inet_addr] by (auto simp: pkt_def)
  obtain s where s: "add_serv_to_cach S A (me_now E) name i (inet_addr (wk_ip k)) (wk_port k) (mc_servs m) = Inr s"
    and kn: "\<forall>n j. known S A s n j = (if n = name \<and> j = i
             then Some \<lparr>ac_serv_id = s32 (uint i), ac_ip = inet_addr (wk_ip k), ac_port = wk_port k, ac_last_syn = me_now E\<rparr>
             else known S A (mc_servs m) n j)"
    using add_serv_known[OF assms(4,5), of "mc_servs m" name "me_now E" i "inet_addr (wk_ip k)" "wk_port k"] assms(3) by auto
  have "do_proc_mcast S A E (Suc (Suc n)) (p\<lparr>p_recvs := [RData pkt, RErr EAGAIN]\<rparr>) m
    = Inr (0, p\<lparr>p_recvs := []\<rparr>, m\<lparr>mc_buf := pkt @ drop 45 (mc_buf m), mc_servs := s\<rparr>)"
    using recv_announcement[OF assms(1,6), of S A E inet_addr "p\<lparr>p_recvs := [RErr EAGAIN]\<rparr>"] pkt s
    by (simp add: pkt_def[symmetric] MCAST_MSG_LEN_def assms(7))
  then show ?thesis using do_syn_serv_addr_sends[OF assms(1,2), of inet_addr now rnd] kn
    by (intro exI[of _ pkt]) (auto simp: pkt_def)
qed

definition demo_announcer :: "string \<Rightarrow> (lnode \<Rightarrow> lnode list, int \<rightharpoonup> fdsess) proc" where
  "demo_announcer name = (demo_proc [])\<lparr>p_setting := demo_setting\<lparr>srv_name := name @ replicate (32 - length name) NUL\<rparr>\<rparr>"

definition demo_sent :: mc_ans where
  "demo_sent = \<lparr>ma_socket = 7, ma_reuse = True, ma_bind = True, ma_ttl = True, ma_loop = True, ma_if = True,
     ma_join = True, ma_sent = 45\<rparr>"

definition demo_env :: "('l, 'h) proc mc_env" where
  "demo_env = \<lparr>me_now = 99, me_access = (\<lambda>_. True), me_dlopen = (\<lambda>_. Some 2), me_dlsym = (\<lambda>_ _. True),
     me_reload_logic = Inr, me_proc_mcast_msg = (\<lambda>_. Inr)\<rparr>"

definition demo_mc :: "(string \<rightharpoonup> (32 word \<rightharpoonup> addrcach) servcach) mc_state" where
  "demo_mc = \<lparr>mc_buf = replicate 4096 0, mc_servs = Map.empty, mc_so = demo_so\<rparr>"

lemma demo_announcer_ok:
  assumes "length name < 32" and "NUL \<notin> set name"
  shows "announcer (demo_announcer name) demo_work name"
proof -
  obtain r where "32 - length name = Suc r" using assms(1) by (cases "32 - length name") auto
  then show ?thesis using assms
    by (auto simp: announcer_def demo_announcer_def get_work_def demo_proc_def)
qed

lemma demo_sent_ok: "all_sent demo_sent"
  by (simp add: all_sent_def demo_sent_def)

lemma demo_mc_buf: "length (mc_buf demo_mc) = 4096"
  by (simp add: demo_mc_def)

lemma announcement_roundtrip_witness:
  "\<exists>pkt calls q1 m1. do_syn_serv_addr (\<lambda>_. 16777343) demo_sent 0 1 (demo_announcer ''online'')
      = Inr (calls @ [McSend 7 pkt 16777343 8888, McClose 7], q1)
    \<and> do_proc_mcast demo_ghash demo_ghash demo_env 2 ((demo_proc [])\<lparr>p_recvs := [RData pkt, RErr EAGAIN]\<rparr>) demo_mc
      = Inr (0, (demo_proc [])\<lparr>p_recvs := []\<rparr>, m1)
    \<and> known demo_ghash demo_ghash (mc_servs m1) ''online'' 1
      = Some \<lparr>ac_serv_id = 1, ac_ip = 16777343, ac_port = 7001, ac_last_syn = 99\<rparr>"
proof -
  have "announcer (demo_announcer ''online'') demo_work ''online''" by (rule demo_announcer_ok) simp_all
  from announcement_roundtrip[OF this demo_sent_ok _ demo_ghash_laws demo_ghash_laws demo_mc_buf refl,
      of "\<lambda>_. 16777343" 0 1 demo_env 0 "demo_proc []"]
  show ?thesis
    by (fastforce simp: demo_sent_def demo_announcer_def demo_setting_def demo_work_def demo_env_def s32_def numeral_2_eq_2)
qed

text \<open>
  A service whose name has 16 characters or more, which the settings and the packet have room for, makes every
  process that hears it for the first time write behind the 16 bytes of the name in its cache.
\<close>

theorem announcement_overflow:
  assumes "announcer q k name" and "16 \<le> length name" and "gh_lookup S (mc_servs m) name = None"
    and "length (mc_buf m) = 4096" and "p_recvs p = RData (announcement inet_addr q k) # rest"
  shows "do_proc_mcast S A E (Suc n) p m = Inl OutOfBounds"
  using recv_announcement[OF assms(1,4), of S A E inet_addr "p\<lparr>p_recvs := rest\<rparr>"] assms(2,3,5)
    length_announcement[OF assms(1), of inet_addr]
  by (auto simp: MCAST_MSG_LEN_def add_serv_to_cach_def Let_def)

lemma announcement_overflow_witness:
  "do_proc_mcast demo_ghash demo_ghash demo_env 1
    ((demo_proc [])\<lparr>p_recvs := [RData (announcement (\<lambda>_. 0) (demo_announcer ''load_balance_svr'') demo_work)]\<rparr>) demo_mc
    = Inl OutOfBounds"
proof -
  have a: "announcer (demo_announcer ''load_balance_svr'') demo_work ''load_balance_svr''" by (rule demo_announcer_ok) simp_all
  have "gh_lookup demo_ghash (mc_servs demo_mc) ''load_balance_svr'' = None" by (simp add: demo_mc_def demo_ghash_def)
  from announcement_overflow[OF a _ this demo_mc_buf, where n = 0 and rest = "[]"
      and p = "(demo_proc [])\<lparr>p_recvs := [RData (announcement (\<lambda>_. 0) (demo_announcer ''load_balance_svr'') demo_work)]\<rparr>"
      and inet_addr = "\<lambda>_. 0" and A = demo_ghash and E = demo_env]
  show ?thesis by simp
qed

section \<open>Sockets\<close>

text \<open>
  \<open>send_pkg_to_mcast\<close> closes its socket exactly when it returns 0: every error after \<open>socket\<close> loses a descriptor.
\<close>

theorem send_pkg_closes_on_success:
  assumes "send_pkg_to_mcast inet_addr a mip mport local_ip ty len data = Inr (r, calls)" and "ma_socket a \<noteq> - 1"
  shows "McClose (ma_socket a) \<in> set calls \<longleftrightarrow> r = 0"
  using assms
  by (auto simp: send_pkg_to_mcast_def Let_def rbind_Inr_iff set_mcast_ttl_def set_mcast_loop_def set_mcast_if_def split: if_splits)

lemma send_pkg_closes_on_success_witness:
  "McClose 7 \<notin> set [McTtl 7 1, McLoop 7 1]"
proof -
  have "send_pkg_to_mcast (\<lambda>_. 0) (demo_sent\<lparr>ma_loop := False\<rparr>) [] 0 [] 1 0 [] = Inr (- 1, [McTtl 7 1, McLoop 7 1])"
    by (simp add: send_pkg_to_mcast_def demo_sent_def Let_def set_mcast_ttl_def set_mcast_loop_def)
  from send_pkg_closes_on_success[OF this] show ?thesis by (simp add: demo_sent_def)
qed

text \<open>
  C30: \<open>send_pkg_to_mcast\<close> sends a packet of at most 1024 bytes, the head with the right length and type followed by the
  data, or none; more than 1019 bytes of data do not fit its buffer and are written behind it.
\<close>

theorem send_pkg_bounds:
  assumes "ma_socket a \<noteq> - 1" and "ma_ttl a" and "ma_loop a" and "ma_if a" and "0 \<le> len" and "len \<le> int (length data)"
    and "len \<le> 2147483642"
  shows "if len \<le> 1019
    then \<exists>r calls pkt. send_pkg_to_mcast inet_addr a mip mport local_ip ty len data = Inr (r, calls)
      \<and> McSend (ma_socket a) pkt (inet_addr mip) mport \<in> set calls \<and> int (length pkt) = len + 5
      \<and> dec_pkg pkt = \<lparr>pk_len = len + 5, mcast_type = ty\<rparr> \<and> drop 5 pkt = take (nat len) data
    else send_pkg_to_mcast inet_addr a mip mport local_ip ty len data = Inl OutOfBounds"
proof -
  have c: "is_cint (len + 5)" using assms(5,7) by (simp add: is_cint_def)
  define pkt where "pkt = enc_pkg \<lparr>pk_len = len + 5, mcast_type = ty\<rparr> @ take (nat len) data"
  have p: "int (length pkt) = len + 5" "dec_pkg pkt = \<lparr>pk_len = len + 5, mcast_type = ty\<rparr>" "drop 5 pkt = take (nat len) data"
    using assms(5,6) c by (auto simp: pkt_def dec_enc_pkg)
  have fill: "fill_pkg ty len data = (if len \<le> 1019 then Inr pkt else Inl OutOfBounds)"
    using assms(5,6) c by (simp add: fill_pkg_def pkg_head_len_def memcpy_src_def pkt_def)
  show ?thesis
  proof (cases "len \<le> 1019")
    case True
    define c4 where "c4 = [set_mcast_ttl (ma_socket a) 1, set_mcast_loop (ma_socket a) 1,
      set_mcast_if (ma_socket a) (inet_addr local_ip), McSend (ma_socket a) pkt (inet_addr mip) mport]"
    have "send_pkg_to_mcast inet_addr a mip mport local_ip ty len data
      = (if ma_sent a \<noteq> int (length pkt) then Inr (- 1, c4) else Inr (0, c4 @ [McClose (ma_socket a)]))"
      using assms(1-4) True by (simp add: send_pkg_to_mcast_def fill Let_def c4_def)
    moreover have "McSend (ma_socket a) pkt (inet_addr mip) mport \<in> set c4" by (simp add: c4_def)
    ultimately show ?thesis using True p by auto
  next
    case False
    then show ?thesis using assms(1-4) by (simp add: send_pkg_to_mcast_def fill Let_def)
  qed
qed

lemma send_pkg_bounds_witness:
  "send_pkg_to_mcast (\<lambda>_. 0) demo_sent [] 0 [] 2 1020 (replicate 1020 0) = Inl OutOfBounds"
  using send_pkg_bounds[of demo_sent 1020 "replicate 1020 0" "\<lambda>_. 0" "[]" 0 "[]" 2] by (simp add: demo_sent_def)

end
