(* ===== verification/Mcast_Reload.thy ===== *)
theory Mcast_Reload
  imports Mcast_Discovery
begin

text \<open>
  Reloading the business library on request: the table of its functions stays usable for all sequences of datagrams if
  every library is complete, and what follows a reload that fails.
\<close>

section \<open>Reloading the business library\<close>

lemma str_eq_strings:
  assumes "NUL \<notin> set s" and "NUL \<notin> set t"
  shows "str_eq (s @ NUL # x) (t @ NUL # y) = Inr (s = t)"
  using assms
proof (induction s arbitrary: t)
  case Nil
  then show ?case by (cases t) auto
next
  case (Cons c s)
  then show ?case by (cases t) auto
qed

text \<open>Every library that can be asked for can be opened and is complete, and its functions return.\<close>

definition sound_libs :: "'w mc_env \<Rightarrow> bool" where
  "sound_libs E \<longleftrightarrow> (\<forall>name. me_access E name \<longrightarrow> (\<exists>h. me_dlopen E name = Some h \<and> (\<forall>s\<in>set required_syms. me_dlsym E h s)))
     \<and> (\<forall>w. ok (me_reload_logic E w)) \<and> (\<forall>b w. ok (me_proc_mcast_msg E b w))"

lemma ok_cases: "ok r \<Longrightarrow> (\<And>x. r = Inr x \<Longrightarrow> P) \<Longrightarrow> P"
  by (cases r) auto

definition no_dangling :: "'a res \<Rightarrow> bool" where
  "no_dangling r \<longleftrightarrow> r \<noteq> Inl UseAfterFree \<and> r \<noteq> Inl NullDeref"

text \<open>The reads of the handlers fault only by leaving a buffer or an array.\<close>

lemma read_faults:
  "str_at b a \<noteq> Inl UseAfterFree" "str_at b a \<noteq> Inl NullDeref" "get_work p i \<noteq> Inl UseAfterFree"
  "get_work p i \<noteq> Inl NullDeref"
  by (simp_all add: str_at_def get_work_def)

lemma str_eq_faults: "str_eq s t = Inl e \<Longrightarrow> e = OutOfBounds"
  by (induction s t rule: str_eq.induct) (auto split: if_splits)

lemma so_ready_call: "so_ready t \<Longrightarrow> s \<in> set required_syms \<or> (s = ''proc_mcast_msg'' \<and> so_ptr t s \<noteq> None) \<Longrightarrow> ok (so_call s t)"
  by (auto simp: so_ready_def so_call_def)

definition res_sat :: "('a \<Rightarrow> bool) \<Rightarrow> 'a res \<Rightarrow> bool" where
  "res_sat P r \<longleftrightarrow> no_dangling r \<and> (\<forall>x. r = Inr x \<longrightarrow> P x)"

lemma res_sat_simps [simp]: "res_sat P (Inr x) = P x" "res_sat P (Inl OutOfBounds)" "res_sat P (Inl Exhausted)"
  by (simp_all add: res_sat_def no_dangling_def)

lemma res_sat_rbind: "res_sat Q m \<Longrightarrow> (\<And>x. Q x \<Longrightarrow> res_sat P (f x)) \<Longrightarrow> res_sat P (rbind m f)"
  by (cases m) (auto simp: res_sat_def no_dangling_def)

lemma reads_sat:
  "res_sat (\<lambda>_. True) (str_eq x y)" "res_sat (\<lambda>_. True) (get_work p i)" "res_sat (\<lambda>_. True) (str_at b a)"
  using str_eq_faults[of x y] read_faults by (cases "str_eq x y"; auto simp: res_sat_def no_dangling_def)+

lemma read_bind:
  "(\<And>v. res_sat P (f1 v)) \<Longrightarrow> res_sat P (rbind (str_eq x y) f1)"
  "(\<And>v. res_sat P (f2 v)) \<Longrightarrow> res_sat P (rbind (get_work p i) f2)"
  "(\<And>v. res_sat P (f3 v)) \<Longrightarrow> res_sat P (rbind (str_at b a) f3)"
  by (rule res_sat_rbind[where Q = "\<lambda>_. True"], rule reads_sat, blast)+

lemma reload_ready:
  assumes "so_ready (mc_so m)" and "sound_libs E"
  shows "res_sat (\<lambda>(_, _, m1). so_ready (mc_so m1)) (do_mcast_realod_so E p m)"
proof -
  have inner: "res_sat (\<lambda>(_, _, m1). so_ready (mc_so m1))
     (case reg_so (me_dlsym E) (me_dlopen E soname) (unreg_so (mc_so m)) of (r, t) \<Rightarrow>
       if r \<noteq> 0 then Inr (- 1, p, m\<lparr>mc_so := t\<rparr>)
       else if so_ptr t ''reload_logic'' \<noteq> None then
         rbind (so_call ''reload_logic'' t) (\<lambda>_. rbind (me_reload_logic E p) (\<lambda>p1. Inr (0, p1, m\<lparr>mc_so := t\<rparr>)))
       else Inr (0, p, m\<lparr>mc_so := t\<rparr>))" if acc: "me_access E soname" for soname
  proof -
    obtain h where h: "me_dlopen E soname = Some h" "\<forall>s\<in>set required_syms. me_dlsym E h s"
      using assms(2) acc by (auto simp: sound_libs_def)
    obtain t where t: "reg_so (me_dlsym E) (Some h) (unreg_so (mc_so m)) = (0, t)" "so_ready t"
      using reg_ready[where ds = "me_dlsym E" and h = h and t = "mc_so m", OF h(2)] by auto
    have "ok (so_call ''reload_logic'' t)" using t(2) by (rule so_ready_call) (simp add: required_syms_def)
    moreover have "ok (me_reload_logic E p)" using assms(2) by (simp add: sound_libs_def)
    ultimately show ?thesis using t h(1) by (auto elim!: ok_cases)
  qed
  show ?thesis
    unfolding do_mcast_realod_so_def Let_def
    by (rule read_bind)
      (auto simp: assms(1) simp del: split_paired_All not_None_eq intro!: read_bind(2) read_bind(3) inner)
qed

lemma other_ready:
  assumes "so_ready (mc_so m)" and "sound_libs E"
  shows "res_sat (\<lambda>(_, _, m1). so_ready (mc_so m1)) (do_mcast_other_req E p m)"
proof (cases "so_ptr (mc_so m) ''proc_mcast_msg'' = None")
  case False
  have "ok (so_call ''proc_mcast_msg'' (mc_so m))" using assms(1) by (rule so_ready_call) (use False in simp)
  moreover have "ok (me_proc_mcast_msg E (mc_buf m) p)" using assms(2) by (simp add: sound_libs_def)
  ultimately show ?thesis using False assms(1) by (auto simp: do_mcast_other_req_def elim!: ok_cases)
qed (simp add: do_mcast_other_req_def assms(1))

lemma noti_ready: "res_sat (\<lambda>(_, m1). mc_so m1 = mc_so m) (do_mcast_serv_noti S A now m)"
  unfolding do_mcast_serv_noti_def Let_def
  by (rule read_bind(3), rule res_sat_rbind[of "\<lambda>_. True"])
    (auto simp: add_serv_to_cach_def Let_def split: option.splits)

lemma recv_pkg_ready:
  assumes "so_ready (mc_so m)" and "sound_libs E"
  shows "res_sat (\<lambda>(_, m1). so_ready (mc_so m1)) (recv_pkg S A E d p m)"
proof -
  define m1 where "m1 = m\<lparr>mc_buf := d @ drop (length d) (mc_buf m)\<rparr>"
  have m1: "so_ready (mc_so m1)" using assms(1) by (simp add: m1_def)
  have "res_sat (\<lambda>(_, m2). so_ready (mc_so m2)) (rbind (do_mcast_serv_noti S A (me_now E) m1) (\<lambda>(_, m2). Inr (p, m2)))"
    by (rule res_sat_rbind[OF noti_ready]) (use m1 in auto)
  moreover have "res_sat (\<lambda>(_, m2). so_ready (mc_so m2)) (rbind (do_mcast_realod_so E p m1) (\<lambda>(_, p2, m2). Inr (p2, m2)))"
    by (rule res_sat_rbind[OF reload_ready[OF m1 assms(2)]]) auto
  moreover have "res_sat (\<lambda>(_, m2). so_ready (mc_so m2)) (rbind (do_mcast_other_req E p m1) (\<lambda>(_, p2, m2). Inr (p2, m2)))"
    by (rule res_sat_rbind[OF other_ready[OF m1 assms(2)]]) auto
  ultimately show ?thesis by (simp add: recv_pkg_def Let_def m1_def[symmetric])
qed



text \<open>
  A request to load \<open>soname\<close> for process \<open>sid\<close> (0: all) of the service \<open>name\<close>: the two arrays are \<open>na\<close> and \<open>sa\<close>, each a
  string with anything behind it.
\<close>

definition reload_msg :: "int \<Rightarrow> byte list \<Rightarrow> byte list \<Rightarrow> byte list" where
  "reload_msg sid na sa = enc_pkg \<lparr>pk_len = 167, mcast_type = MCAST_RELOAD_SO\<rparr> @ le_bytes 2 sid @ na @ sa"

definition holds_str :: "nat \<Rightarrow> string \<Rightarrow> byte list \<Rightarrow> bool" where
  "holds_str n s bs \<longleftrightarrow> length bs = n \<and> NUL \<notin> set s \<and> (\<exists>x. bs = map char_byte (s @ NUL # x))"

abbreviation reload_pkg :: "byte list \<Rightarrow> byte list \<Rightarrow> byte list" where
  "reload_pkg na sa \<equiv> reload_msg 0 na sa"

definition name_arr :: "nat \<Rightarrow> string \<Rightarrow> byte list" where
  "name_arr n s = map char_byte (s @ NUL # replicate (n - length s - 1) NUL)"

lemma length_name_arr [simp]: "length s < n \<Longrightarrow> length (name_arr n s) = n"
  by (simp add: name_arr_def)

lemma name_arr_holds: "length s < n \<Longrightarrow> NUL \<notin> set s \<Longrightarrow> holds_str n s (name_arr n s)"
  unfolding holds_str_def name_arr_def by (intro conjI exI[of _ "replicate (n - length s - 1) NUL"]) simp_all

lemma recv_reload_msg:
  assumes "announcer p k name" and na: "holds_str 32 name na" and sa: "holds_str 128 soname sa" and "me_access E soname"
    and sid: "0 \<le> sid" "sid < 65536" "sid = 0 \<or> sid = uint (wk_id k)"
  shows "\<exists>b. recv_pkg S A E (reload_msg sid na sa) p m
    = (case reg_so (me_dlsym E) (me_dlopen E soname) (unreg_so (mc_so m)) of (r, t) \<Rightarrow>
       rbind (if r \<noteq> 0 then Inr p
        else if so_ptr t ''reload_logic'' \<noteq> None then rbind (so_call ''reload_logic'' t) (\<lambda>_. me_reload_logic E p)
        else Inr p) (\<lambda>p1. Inr (p1, m\<lparr>mc_buf := b, mc_so := t\<rparr>)))"
proof -
  define rest where "rest = drop 167 (mc_buf m)"
  define pk where "pk = \<lparr>pk_len = 167, mcast_type = MCAST_RELOAD_SO\<rparr>"
  define b where "b = enc_pkg pk @ le_bytes 2 sid @ na @ sa @ rest"
  define m1 where "m1 = m\<lparr>mc_buf := b\<rparr>"
  obtain x where x: "srv_name (p_setting p) = name @ NUL # x" and nul: "NUL \<notin> set name"
    and w: "get_work p (p_work_idx p) = Inr k" using assms(1) by (auto simp: announcer_def)
  obtain y where y: "na = map char_byte (name @ NUL # y)" "length na = 32" using na by (auto simp: holds_str_def)
  obtain z where z: "sa = map char_byte (soname @ NUL # z)" "length sa = 128" "NUL \<notin> set soname" using sa by (auto simp: holds_str_def)
  have buf: "reload_msg sid na sa @ drop (length (reload_msg sid na sa)) (mc_buf m) = b"
    using y(2) z(2) by (simp add: reload_msg_def b_def pk_def rest_def)
  have ty: "mcast_type (dec_pkg b) = MCAST_RELOAD_SO"
    by (simp add: b_def dec_enc_pkg pk_def is_cint_def)
  have "map byte_char (drop 7 b) = name @ NUL # (y @ map byte_char (sa @ rest))"
    by (simp add: b_def y(1) comp_def byte_char_0)
  then have cmp: "str_eq (srv_name (p_setting p)) (map byte_char (drop 7 b)) = Inr True"
    using str_eq_strings[OF nul nul] by (simp add: x)
  have "(word_of_int (sid mod 65536) :: 16 word) = word_of_int sid" using sid(1,2) by simp
  moreover have "uint (word_of_int sid :: 16 word) = sid" using sid(1,2) by (simp add: unsigned_of_int take_bit_int_eq_self)
  ultimately have rid: "rs_id (dec_reload (drop 5 b)) = word_of_int sid" "uint (rs_id (dec_reload (drop 5 b))) = sid"
    by (simp_all add: b_def dec_reload_def le_val_bytes)
  have so: "str_at b (pkg_head_len + 34) = Inr soname"
    using str_at_name[of "enc_pkg pk @ le_bytes 2 sid @ na" 39 soname z rest] y(2) z
    by (simp add: b_def pkg_head_len_def)
  have "rs_id (dec_reload (drop 5 b)) = 0 \<or> uint (rs_id (dec_reload (drop 5 b))) = uint (wk_id k)" using sid(3) rid by auto
  then show ?thesis
    by (elim disjE; intro exI[of _ b]) (simp_all add: recv_pkg_def buf ty do_mcast_realod_so_def cmp w so assms(4) Let_def
      MCAST_RELOAD_SO_def MCAST_SERV_NOTI_def rbind_assoc split: prod.splits)
qed

lemma recv_reload_pkg:
  assumes "announcer p k name" and "length name < 32" and "NUL \<notin> set soname" and "length soname < 128" and "me_access E soname"
  shows "\<exists>b. recv_pkg S A E (reload_pkg (name_arr 32 name) (name_arr 128 soname)) p m
    = (case reg_so (me_dlsym E) (me_dlopen E soname) (unreg_so (mc_so m)) of (r, t) \<Rightarrow>
       rbind (if r \<noteq> 0 then Inr p
        else if so_ptr t ''reload_logic'' \<noteq> None then rbind (so_call ''reload_logic'' t) (\<lambda>_. me_reload_logic E p)
        else Inr p) (\<lambda>p1. Inr (p1, m\<lparr>mc_buf := b, mc_so := t\<rparr>)))"
  by (rule recv_reload_msg[OF assms(1) name_arr_holds name_arr_holds]) (use assms in \<open>simp_all add: announcer_def\<close>)

lemma announcer_recvs [simp]: "announcer (p\<lparr>p_recvs := r\<rparr>) k name = announcer p k name"
  by (simp add: announcer_def get_work_def)

text \<open>
  C36: When the file named in a reload request can be read but not loaded, the request leaves the worker without its
  library: the next datagram for the library itself is a call to a function that is not in memory any more.
\<close>

theorem failed_reload_use_after_free:
  assumes "announcer p k name" and "length name < 32" and "NUL \<notin> set soname" and "length soname < 128"
    and "me_access E soname" and "me_dlopen E soname = None"
    and "so_handle (mc_so m) = Some g" and "so_open (mc_so m) = [g]" and "so_ptr (mc_so m) ''proc_mcast_msg'' = Some g"
    and "p_recvs p = [RData (reload_pkg (name_arr 32 name) (name_arr 128 soname)), RData (enc_pkg \<lparr>pk_len = 5, mcast_type = MCAST_RELOAD_CONF\<rparr>)]"
  shows "do_proc_mcast S A E (Suc (Suc n)) p m = Inl UseAfterFree"
proof -
  define t where "t = (unreg_so (mc_so m))\<lparr>so_handle := None\<rparr>"
  define d where "d = enc_pkg \<lparr>pk_len = 5, mcast_type = MCAST_RELOAD_CONF\<rparr>"
  define p1 where "p1 = p\<lparr>p_recvs := [RData d]\<rparr>"
  have t: "so_open t = []" "so_ptr t ''proc_mcast_msg'' = Some g"
    using assms(7,8,9) by (simp_all add: t_def unreg_so_def dl_close_def)
  have a1: "announcer p1 k name" using assms(1) by (simp add: p1_def)
  have reg: "reg_so (me_dlsym E) None (unreg_so (mc_so m)) = (- 1, t)" by (simp add: reg_so_def t_def)
  obtain b where first: "recv_pkg S A E (reload_pkg (name_arr 32 name) (name_arr 128 soname)) p1 m
      = Inr (p1, m\<lparr>mc_buf := b, mc_so := t\<rparr>)"
    using recv_reload_pkg[OF a1 assms(2-5), of S A m] by (auto simp: assms(6) reg)
  have ty: "mcast_type (dec_pkg (d @ x)) = MCAST_RELOAD_CONF" for x by (simp add: d_def dec_enc_pkg is_cint_def)
  have second: "recv_pkg S A E d q (m\<lparr>mc_buf := b, mc_so := t\<rparr>) = Inl UseAfterFree" for q
    by (simp add: recv_pkg_def ty MCAST_RELOAD_CONF_def MCAST_RELOAD_SO_def MCAST_SERV_NOTI_def do_mcast_other_req_def
        so_call_def t Let_def)
  have len: "length (reload_pkg (name_arr 32 name) (name_arr 128 soname)) = 167" "length d = 5"
    using assms(2,4) by (simp_all add: reload_msg_def d_def)
  show ?thesis using first second len assms(10) by (auto simp: d_def[symmetric] p1_def MCAST_MSG_LEN_def)
qed

lemma failed_reload_use_after_free_witness:
  "do_proc_mcast demo_ghash demo_ghash (demo_env\<lparr>me_dlopen := \<lambda>_. None\<rparr>) 2
    ((demo_announcer ''online'')\<lparr>p_recvs := [RData (reload_pkg (name_arr 32 ''online'') (name_arr 128 ''a.so'')),
       RData (enc_pkg \<lparr>pk_len = 5, mcast_type = MCAST_RELOAD_CONF\<rparr>)]\<rparr>)
    (demo_mc\<lparr>mc_so := demo_so\<lparr>so_ptr := \<lambda>_. Some 1\<rparr>\<rparr>) = Inl UseAfterFree"
proof -
  let ?p = "(demo_announcer ''online'')\<lparr>p_recvs := [RData (reload_pkg (name_arr 32 ''online'') (name_arr 128 ''a.so'')),
       RData (enc_pkg \<lparr>pk_len = 5, mcast_type = MCAST_RELOAD_CONF\<rparr>)]\<rparr>"
  have "announcer (demo_announcer ''online'') demo_work ''online''" by (rule demo_announcer_ok) simp_all
  then have a: "announcer ?p demo_work ''online''" by simp
  show ?thesis unfolding numeral_2_eq_2
    by (rule failed_reload_use_after_free[OF a, of "''a.so''"]) (simp_all add: demo_env_def demo_mc_def demo_so_def)
qed

end
