(* ===== verification/Conf_Load.thy ===== *)
theory Conf_Load
  imports Conf
begin

text \<open>
  What loading the configuration gives: files written from tables of settings and of workers are read back, the lines
  that count, and the overflow of the array of workers.
\<close>

section \<open>Files written from data\<close>

text \<open>A word \<open>%s\<close> reads back from a buffer of \<open>n\<close> bytes; the text of a line.\<close>

definition plain :: "char \<Rightarrow> bool" where
  "plain c \<longleftrightarrow> \<not> is_space c \<and> c \<noteq> NUL \<and> c \<noteq> CHR ''#''"

definition token :: "nat \<Rightarrow> string \<Rightarrow> bool" where
  "token n t \<longleftrightarrow> t \<noteq> [] \<and> length t < n \<and> (\<forall>c\<in>set t. plain c)"

fun dec :: "nat \<Rightarrow> string" where
  "dec n = (if n < 10 then [''0123456789'' ! n] else dec (n div 10) @ [''0123456789'' ! (n mod 10)])"

declare dec.simps [simp del]

definition pair_line :: "string \<times> string \<Rightarrow> string" where
  "pair_line kv = fst kv @ '' '' @ snd kv"

definition work_text :: "nat \<times> string \<times> nat \<Rightarrow> string" where
  "work_text w = (case w of (n, ip, port) \<Rightarrow> dec n @ '' '' @ ip @ '' '' @ dec port)"

definition conf_file :: "string list \<Rightarrow> string" where
  "conf_file ls = concat (map (\<lambda>l. l @ [NL]) ls)"

lemma scan_s_token:
  assumes "token n t" "rest = [] \<or> is_space (hd rest)"
  shows "scan_s (t @ rest) = Some (t, rest)"
proof -
  have ns: "\<forall>c\<in>set t. \<not> is_space c" and "t \<noteq> []" using assms(1) by (auto simp: token_def plain_def)
  then have d: "dropWhile is_space (t @ rest) = t @ rest" by (cases t) auto
  have "takeWhile (\<lambda>c. \<not> is_space c) (t @ rest) = t @ takeWhile (\<lambda>c. \<not> is_space c) rest"
    "dropWhile (\<lambda>c. \<not> is_space c) (t @ rest) = dropWhile (\<lambda>c. \<not> is_space c) rest"
    using ns by (auto simp: takeWhile_append dropWhile_append)
  moreover have "takeWhile (\<lambda>c. \<not> is_space c) rest = []" "dropWhile (\<lambda>c. \<not> is_space c) rest = rest"
    using assms(2) by (cases rest; auto)+
  ultimately show ?thesis using d \<open>t \<noteq> []\<close> by (simp add: scan_s_def Let_def)
qed

lemma scan_s_space [simp]: "is_space c \<Longrightarrow> scan_s (c # s) = scan_s s"
  by (simp add: scan_s_def)

lemma scan_d_space [simp]: "is_space c \<Longrightarrow> scan_d (c # s) = scan_d s"
  by (simp add: scan_d_def)

lemma space_char [simp]: "is_space CHR '' ''" "\<not> is_digit CHR '' ''"
  by (simp_all add: is_space_def is_digit_def)

lemma digit_char:
  assumes "d < 10"
  shows "is_digit (''0123456789'' ! d) \<and> plain (''0123456789'' ! d)
    \<and> ''0123456789'' ! d \<notin> {CHR ''-'', CHR ''+''} \<and> (of_char (''0123456789'' ! d) :: int) = 48 + int d"
proof -
  have "d \<in> {0, 1, 2, 3, 4, 5, 6, 7, 8, 9}" using assms by auto
  then show ?thesis by (auto simp: is_digit_def plain_def is_space_def)
qed

lemma dec_chars: "c \<in> set (dec n) \<Longrightarrow> is_digit c \<and> plain c \<and> c \<notin> {CHR ''-'', CHR ''+''}"
proof (induction n rule: dec.induct)
  case (1 n)
  show ?case
  proof (cases "n < 10")
    case True
    then have "c = ''0123456789'' ! n" using 1(2) by (subst (asm) dec.simps) (simp only: if_True list.set insert_iff, simp)
    then show ?thesis using digit_char[OF True] by simp
  next
    case False
    have "c \<in> set (dec (n div 10)) \<or> c = ''0123456789'' ! (n mod 10)"
      using 1(2) False by (subst (asm) dec.simps) (simp only: if_False set_append list.set Un_iff, simp)
    then show ?thesis using digit_char[of "n mod 10"] 1(1)[OF False] by auto
  qed
qed

lemma dec_not_Nil [simp]: "dec n \<noteq> []"
  by (subst dec.simps) auto

lemma digits_val_append: "digits_val m (xs @ ys) = digits_val (digits_val m xs) ys"
  by (induction xs arbitrary: m) auto

lemma digits_val_dec: "digits_val 0 (dec n) = int n"
proof (induction n rule: dec.induct)
  case (1 n)
  have "10 * int (n div 10) + int (n mod 10) = int n" by (metis mult_div_mod_eq of_nat_add of_nat_mult of_nat_numeral)
  then show ?case using 1 digit_char[of n] digit_char[of "n mod 10"]
    by (subst dec.simps) (cases "n < 10"; simp add: digits_val_append del: nth_Cons_numeral)
qed

lemma scan_d_dec:
  assumes "rest = [] \<or> is_space (hd rest)"
  shows "scan_d (dec n @ rest) = Some (int n, rest)"
proof -
  have dg: "\<forall>c\<in>set (dec n). is_digit c \<and> \<not> is_space c \<and> c \<notin> {CHR ''-'', CHR ''+''}"
    using dec_chars by (auto simp: plain_def)
  obtain c cs where c: "dec n = c # cs" by (cases "dec n") auto
  have d: "dropWhile is_space (dec n @ rest) = dec n @ rest" using c dg by simp
  have s: "scan_sign (dec n @ rest) = (1, dec n @ rest)" using c dg by (simp add: scan_sign_def)
  have nd: "rest = [] \<or> \<not> is_digit (hd rest)" using assms by (cases rest) (auto simp: is_space_def is_digit_def)
  have "takeWhile is_digit (dec n @ rest) = dec n @ takeWhile is_digit rest"
    "dropWhile is_digit (dec n @ rest) = dropWhile is_digit rest"
    using dg by (auto simp: takeWhile_append dropWhile_append)
  moreover have "takeWhile is_digit rest = []" "dropWhile is_digit rest = rest" using nd by (cases rest; auto)+
  ultimately show ?thesis using d s by (simp add: scan_d_def digits_val_dec)
qed

lemma conf_lines_line:
  assumes "NL \<notin> set l" 
  shows "conf_lines i (l @ NL # cs) cur = (if cur @ l = [] \<or> CHR ''#'' \<in> set (cur @ l) then [] else [(i + int (length l), cur @ l)])
     @ conf_lines (i + int (length l) + 1) cs []"
  using assms by (induction l arbitrary: i cur) (auto simp: algebra_simps)

lemma conf_lines_file:
  assumes "\<forall>l\<in>set ls. l \<noteq> [] \<and> NL \<notin> set l \<and> CHR ''#'' \<notin> set l"
  shows "map snd (conf_lines i (conf_file ls) []) = ls"
  using assms by (induction ls arbitrary: i) (auto simp: conf_file_def conf_lines_line)

section \<open>Loading simple.conf\<close>

definition pair_ok :: "string \<times> string \<Rightarrow> bool" where
  "pair_ok kv \<longleftrightarrow> token 64 (fst kv) \<and> token 128 (snd kv)"

lemma token_line: "token n t \<Longrightarrow> t \<noteq> [] \<and> length t < n \<and> NL \<notin> set t \<and> NUL \<notin> set t \<and> CHR ''#'' \<notin> set t"
  by (auto simp: token_def plain_def is_space_def)

lemma dec_line: "NL \<notin> set (dec n) \<and> NUL \<notin> set (dec n) \<and> CHR ''#'' \<notin> set (dec n)"
  using dec_chars[of _ n] by (auto simp: plain_def is_space_def)

text \<open>A line that counts; one that also fits the buffer.\<close>

definition counts :: "string \<Rightarrow> bool" where
  "counts l \<longleftrightarrow> l \<noteq> [] \<and> CHR ''#'' \<notin> set l"

definition good_line :: "string \<Rightarrow> bool" where
  "good_line l \<longleftrightarrow> counts l \<and> length l < 1024 \<and> NL \<notin> set l \<and> NUL \<notin> set l"

lemma conf_lines_filter:
  assumes "\<forall>l\<in>set ls. NL \<notin> set l" and "NL \<notin> set tail"
  shows "map snd (conf_lines i (conf_file ls @ tail) []) = filter counts ls"
proof -
  have t: "conf_lines i tail cur = []" for i cur using assms(2) by (induction tail arbitrary: i cur) auto
  show ?thesis using assms(1) by (induction ls arbitrary: i) (auto simp: conf_file_def conf_lines_line counts_def t)
qed

lemma conf_loop_file:
  assumes "\<forall>l\<in>set ls. NL \<notin> set l \<and> NUL \<notin> set l \<and> length l < 1024" and "NL \<notin> set tail" and "NUL \<notin> set tail"
  obtains ils where "map snd ils = filter counts ls"
    and "\<And>s. conf_loop f 0 (conf_file ls @ tail @ NUL # junk) [] False s = fold_res (\<lambda>(i, l). f i l) ils s"
proof
  let ?ils = "conf_lines 0 (conf_file ls @ tail) []"
  show fl: "map snd ?ils = filter counts ls" using assms by (intro conf_lines_filter) auto
  have nul: "NUL \<notin> set (conf_file ls @ tail)" using assms by (auto simp: conf_file_def)
  have len: "length l < 1024" if "l \<in> snd ` set ?ils" for l
  proof -
    have "l \<in> set (map snd ?ils)" using that by simp
    then show ?thesis using assms(1) unfolding fl by auto
  qed
  show "conf_loop f 0 (conf_file ls @ tail @ NUL # junk) [] False s = fold_res (\<lambda>(i, l). f i l) ?ils s" for s
    using conf_loop_lines[where i = 0 and cur = "[]" and body = "conf_file ls @ tail" and f = f and junk = junk and s = s, OF nul] len by simp
qed

text \<open>
  Where the text of a file ends for the loop: at a 0 within the file, or behind its last byte when that is not the last
  one of a page; in both cases within the three pages of the mapping.
\<close>

definition text_ends :: "string \<Rightarrow> string \<Rightarrow> bool" where
  "text_ends txt rest \<longleftrightarrow> (if rest = [] then length txt mod 4096 \<noteq> 0 else hd rest = NUL)"

definition ends_mapped :: "string \<Rightarrow> string \<Rightarrow> bool" where
  "ends_mapped txt rest \<longleftrightarrow> length txt < 12288 \<and> text_ends txt rest"

lemma conf_map_ends:
  assumes "ends_mapped txt rest"
  obtains junk where "conf_map (txt @ rest) = txt @ NUL # junk"
proof -
  let ?n = "(4096 - length (txt @ rest) mod 4096) mod 4096"
  have "\<exists>xs. rest @ replicate ?n NUL = NUL # xs"
  proof (cases rest)
    case Nil
    then have "0 < length txt mod 4096" "length txt mod 4096 < 4096" using assms by (auto simp: ends_mapped_def text_ends_def)
    then obtain k where "?n = Suc k" using Nil by (cases ?n) auto
    then show ?thesis using Nil by simp
  qed (use assms in \<open>simp add: ends_mapped_def text_ends_def\<close>)
  then obtain xs where "rest @ replicate ?n NUL = NUL # xs" by blast
  moreover obtain k where "12288 - length txt = Suc k" using assms by (cases "12288 - length txt") (auto simp: ends_mapped_def)
  ultimately have "conf_map (txt @ rest) = txt @ NUL # take k xs" using assms
    by (simp add: conf_map_def ends_mapped_def)
  then show ?thesis by (rule that)
qed

lemma conf_loop_good:
  assumes "\<forall>l\<in>set ls. good_line l"
  obtains ils where "map snd ils = ls"
    and "\<And>s. conf_loop f 0 (conf_file ls @ NUL # junk) [] False s = fold_res (\<lambda>(i, l). f i l) ils s"
proof -
  have "filter counts ls = ls" using assms by (simp add: good_line_def)
  moreover obtain ils where "map snd ils = filter counts ls"
    and "\<And>s. conf_loop f 0 (conf_file ls @ [] @ NUL # junk) [] False s = fold_res (\<lambda>(i, l). f i l) ils s"
    by (rule conf_loop_file[of ls "[]" f junk]) (use assms in \<open>auto simp: good_line_def\<close>)
  ultimately show ?thesis using that by simp
qed

lemma scan_pair_line: "pair_ok kv \<Longrightarrow> scan_pair (pair_line kv) key value = Inr kv"
  using scan_s_token[of 64 "fst kv" "CHR '' '' # snd kv"] scan_s_token[of 128 "snd kv" "[]"]
  by (auto simp: pair_ok_def pair_line_def scan_pair_def token_def)

lemma pair_line_good: "pair_ok kv \<Longrightarrow> good_line (pair_line kv)"
  using token_line[of 64 "fst kv"] token_line[of 128 "snd kv"]
  by (auto simp: pair_ok_def pair_line_def good_line_def counts_def)

lemma simple_lines_fold:
  assumes "map snd ils = map pair_line kvs" and "\<forall>kv\<in>set kvs. pair_ok kv"
  shows "\<exists>k v. fold_res (\<lambda>(i, l). simple_line G i l) ils (k0, v0, h)
    = Inr (k, v, fold (\<lambda>(k, v) h. gh_insert G h k v) kvs h)"
  using assms
proof (induction kvs arbitrary: ils k0 v0 h)
  case (Cons kv kvs)
  then obtain i l ils' where [simp]: "ils = (i, l) # ils'" "l = pair_line kv" by (cases ils) auto
  show ?case using Cons by (cases kv) (auto simp: simple_line_def scan_pair_line)
qed simp

lemma fold_insert_lookup:
  assumes "ghash_laws G"
  shows "gh_lookup G (fold (\<lambda>(k, v) h. gh_insert G h k v) kvs h) k
    = (case map_of (rev kvs) k of None \<Rightarrow> gh_lookup G h k | Some v \<Rightarrow> Some v)"
  by (induction kvs rule: rev_induct) (auto simp: ghash_simps[OF assms] split: option.splits)

text \<open>
  C16: A \<^verbatim>\<open>simple.conf\<close> written from a list of keys and values (words without spaces or \<open>#\<close>, shorter than the
  buffers they are read into) that ends within the mapping of 10240 bytes (three pages, and not with the last byte of
  a page) loads without a fault, and \<open>conf_get_str\<close> then returns for every key the value of the last line with that
  key, and the empty string if there is none.
\<close>

theorem load_simple_roundtrip:
  assumes "ghash_laws G" and "\<forall>kv\<in>set kvs. pair_ok kv" and "ends_mapped (conf_file (map pair_line kvs)) rest"
  shows "\<exists>h. load_simple_data G key0 value0 (Some (conf_file (map pair_line kvs) @ rest)) = Inr (0, h)
    \<and> (\<forall>k. conf_get_str G h k = (case map_of (rev kvs) k of None \<Rightarrow> [] | Some v \<Rightarrow> v))"
proof -
  obtain junk where map: "conf_map (conf_file (map pair_line kvs) @ rest) = conf_file (map pair_line kvs) @ NUL # junk"
    by (rule conf_map_ends[OF assms(3)])
  have good: "\<forall>l\<in>set (map pair_line kvs). good_line l" using assms(2) pair_line_good by auto
  obtain ils where ils: "map snd ils = map pair_line kvs"
    and loop: "\<And>s. conf_loop (simple_line G) 0 (conf_file (map pair_line kvs) @ NUL # junk) [] False s
      = fold_res (\<lambda>(i, l). simple_line G i l) ils s"
    by (rule conf_loop_good[OF good, of "simple_line G" junk]) auto
  from simple_lines_fold[OF ils assms(2), of G key0 value0 "gh_new G"]
  show ?thesis using loop fold_insert_lookup[OF assms(1), of kvs "gh_new G"]
    by (auto simp: load_simple_data_def map conf_get_str_def ghash_simps[OF assms(1)] split: option.splits)
qed

definition demo_pairs :: "(string \<times> string) list" where
  "demo_pairs = [(''max_fd'', ''10''), (''srv_name'', ''demo''), (''max_fd'', ''20'')]"

lemma demo_pairs_ok: "\<forall>kv\<in>set demo_pairs. pair_ok kv"
  by (simp add: demo_pairs_def pair_ok_def token_def plain_def is_space_def)

lemma demo_pairs_mapped: "ends_mapped (conf_file (map pair_line demo_pairs)) []"
  by (simp add: ends_mapped_def text_ends_def conf_file_def demo_pairs_def pair_line_def)

lemma load_simple_roundtrip_witness:
  "\<exists>h. load_simple_data demo_ghash [] [] (Some (conf_file (map pair_line demo_pairs))) = Inr (0, h)
    \<and> conf_get_str demo_ghash h ''max_fd'' = ''20''"
  using load_simple_roundtrip[OF demo_ghash_laws demo_pairs_ok demo_pairs_mapped, of "[]" "[]"]
  by (auto simp: demo_pairs_def)

text \<open>
  C25: Loading a \<^verbatim>\<open>simple.conf\<close> whose lines are shorter than 1024 characters and whose text ends within the mapping
  is the same as loading only its lines that are not empty and have no \<open>#\<close> anywhere: a \<open>#\<close> in the middle of a
  line drops the whole line, and so does a missing line feed at the end of the file.
\<close>

theorem load_simple_only_lines:
  assumes "\<forall>l\<in>set ls. NL \<notin> set l \<and> NUL \<notin> set l \<and> length l < 1024" and "NL \<notin> set tail" and "NUL \<notin> set tail"
    and "ends_mapped (conf_file ls @ tail) rest"
  shows "load_simple_data G key0 value0 (Some (conf_file ls @ tail @ rest))
    = load_simple_data G key0 value0 (Some (conf_file (filter counts ls) @ [NUL]))"
proof -
  have same: "fold_res (\<lambda>(i, l). simple_line G i l) xs s = fold_res (\<lambda>(i, l). simple_line G i l) ys s"
    if "map snd xs = map snd ys" for xs ys :: "(int \<times> string) list" and s
    using that
  proof (induction xs arbitrary: ys s)
    case (Cons x xs)
    then obtain i y ys' where "ys = (i, y) # ys'" "snd x = y" by (cases ys) auto
    then show ?case using Cons by (cases x) (auto simp: simple_line_def intro!: rbind_cong)
  qed simp
  obtain junk where map1: "conf_map (conf_file ls @ tail @ rest) = conf_file ls @ tail @ NUL # junk"
    using conf_map_ends[OF assms(4)] by auto
  have "length (conf_file (filter counts ls)) \<le> length (conf_file ls)"
    by (induction ls) (auto simp: conf_file_def)
  then have "ends_mapped (conf_file (filter counts ls)) [NUL]" using assms(4) by (simp add: ends_mapped_def text_ends_def)
  then obtain junk2 where map2: "conf_map (conf_file (filter counts ls) @ [NUL]) = conf_file (filter counts ls) @ NUL # junk2"
    by (rule conf_map_ends)
  obtain xs where xs: "map snd xs = filter counts ls"
    and loop1: "\<And>s. conf_loop (simple_line G) 0 (conf_file ls @ tail @ NUL # junk) [] False s
      = fold_res (\<lambda>(i, l). simple_line G i l) xs s"
    by (rule conf_loop_file[OF assms(1-3), of "simple_line G" junk]) auto
  have good: "\<forall>l\<in>set (filter counts ls). good_line l" using assms(1) by (auto simp: good_line_def)
  obtain ys where ys: "map snd ys = filter counts ls"
    and loop2: "\<And>s. conf_loop (simple_line G) 0 (conf_file (filter counts ls) @ NUL # junk2) [] False s
      = fold_res (\<lambda>(i, l). simple_line G i l) ys s"
    by (rule conf_loop_good[OF good, of "simple_line G" junk2]) auto
  have "map snd xs = map snd ys" using xs ys by simp
  from same[OF this] loop2 show ?thesis by (simp add: load_simple_data_def loop1 map1 map2)
qed

lemma load_simple_only_lines_witness:
  "load_simple_data demo_ghash [] [] (Some (conf_file [''a 1'', [], ''b 2 # two''] @ ''c 3''))
    = load_simple_data demo_ghash [] [] (Some (conf_file [''a 1''] @ [NUL]))"
  using load_simple_only_lines[of "[''a 1'', [], ''b 2 # two'']" "''c 3''" "[]" demo_ghash "[]" "[]"]
  by (simp add: counts_def ends_mapped_def text_ends_def conf_file_def)

section \<open>Loading work.conf\<close>

definition work_ok :: "nat \<times> string \<times> nat \<Rightarrow> bool" where
  "work_ok w \<longleftrightarrow> (case w of (n, ip, port) \<Rightarrow> n < 2 ^ 31 \<and> token 32 ip \<and> port < 2 ^ 16)"

text \<open>What the program keeps of a worker's line.\<close>

definition stored :: "work_mgr \<Rightarrow> (nat \<times> string \<times> nat) list" where
  "stored m = map (\<lambda>w. (unat (wk_id w), wk_ip w, unat (wk_port w))) (wm_works m)"

lemma length_dec: "n < 10 ^ k \<Longrightarrow> 0 < k \<Longrightarrow> length (dec n) \<le> k"
proof (induction n arbitrary: k rule: dec.induct)
  case (1 n)
  show ?case
  proof (cases "n < 10")
    case True
    then show ?thesis using 1(3) by (subst dec.simps) simp
  next
    case False
    then have "k \<noteq> 1" using 1(2) by auto
    then obtain j where k: "k = Suc j" "0 < j" using 1(3) by (cases k) auto
    have "n div 10 < 10 ^ j" using 1(2) by (simp add: k(1) div_less_iff_less_mult)
    then show ?thesis using 1(1)[OF False _ k(2)] False by (subst dec.simps) (simp add: k(1))
  qed
qed

lemma work_text_good: "work_ok w \<Longrightarrow> good_line (work_text w)"
proof -
  assume w: "work_ok w"
  obtain n ip port where [simp]: "w = (n, ip, port)" by (cases w)
  have "length (dec n) \<le> 10" "length (dec port) \<le> 5" using w by (auto simp: work_ok_def intro!: length_dec)
  then show ?thesis using w token_line[of 32 ip] dec_line[of n] dec_line[of port]
    by (auto simp: work_ok_def work_text_def good_line_def counts_def)
qed

lemma scan_work_text:
  assumes "work_ok (n, ip, port)"
  shows "scan_work (work_text (n, ip, port)) vs = Inr (int n, ip, int port)"
proof -
  have n: "is_cint (int n)" "is_cint (int port)" "token 32 ip" using assms by (auto simp: work_ok_def is_cint_def)
  have "length ip < 32" using n(3) by (simp add: token_def)
  then show ?thesis
    using n scan_d_dec[of "'' '' @ ip @ '' '' @ dec port" n] scan_s_token[OF n(3), of "'' '' @ dec port"]
      scan_d_dec[of "[]" port]
    by (cases vs) (simp add: scan_work_def work_text_def)
qed

definition work_room :: "work_mgr \<Rightarrow> bool" where
  "work_room m \<longleftrightarrow> wm_nr_used m < wm_nr_work m \<and> work_size * (wm_nr_used m + 1) \<le> wm_bytes m"

lemma work_line_stores:
  assumes "work_ok w" and "work_room m"
  shows "\<exists>vs1 m1. work_line blank i (work_text w) (vs, m) = Inr (vs1, m1) \<and> stored m1 = stored m @ [w]
    \<and> wm_nr_used m1 = wm_nr_used m + 1 \<and> wm_nr_work m1 = wm_nr_work m \<and> wm_bytes m1 = wm_bytes m"
proof -
  obtain n ip port where w: "w = (n, ip, port)" by (cases w)
  have "unat (word_of_int (int n) :: 32 word) = n" "unat (word_of_int (int port) :: 16 word) = port"
    using assms(1) by (auto simp: w work_ok_def unat_of_nat)
  then show ?thesis using assms scan_work_text[of n ip port vs]
    by (simp add: w work_line_def work_room_def stored_def)
qed

lemma work_lines_store:
  assumes "map snd ils = map work_text ws" and "\<forall>w\<in>set ws. work_ok w"
    and "wm_nr_used m + int (length ws) \<le> wm_nr_work m" and "work_size * (wm_nr_used m + int (length ws)) \<le> wm_bytes m"
  shows "\<exists>vs1 m1. fold_res (\<lambda>(i, l). work_line blank i l) ils (vs, m) = Inr (vs1, m1) \<and> stored m1 = stored m @ ws
    \<and> wm_nr_used m1 = wm_nr_used m + int (length ws) \<and> wm_nr_work m1 = wm_nr_work m \<and> wm_bytes m1 = wm_bytes m"
  using assms
proof (induction ws arbitrary: ils vs m)
  case (Cons w ws)
  then obtain i l ils' where [simp]: "ils = (i, l) # ils'" "l = work_text w" by (cases ils) auto
  have "work_room m" using Cons.prems by (simp add: work_room_def work_size_def)
  from work_line_stores[OF _ this, of w blank i vs] Cons.prems obtain vs1 m1 where
    s: "work_line blank i (work_text w) (vs, m) = Inr (vs1, m1)" "stored m1 = stored m @ [w]"
    "wm_nr_used m1 = wm_nr_used m + 1" "wm_nr_work m1 = wm_nr_work m" "wm_bytes m1 = wm_bytes m" by auto
  have "\<exists>vs2 m2. fold_res (\<lambda>(i, l). work_line blank i l) ils' (vs1, m1) = Inr (vs2, m2) \<and> stored m2 = stored m1 @ ws
    \<and> wm_nr_used m2 = wm_nr_used m1 + int (length ws) \<and> wm_nr_work m2 = wm_nr_work m1 \<and> wm_bytes m2 = wm_bytes m1"
    by (rule Cons.IH) (use Cons.prems s in \<open>auto simp: work_size_def\<close>)
  then show ?case using s by auto
qed (simp del: split_paired_Ex)

lemma fold_res_append: "fold_res f (xs @ ys) s = rbind (fold_res f xs s) (fold_res f ys)"
proof (induction xs arbitrary: s)
  case (Cons x xs)
  then have "fold_res f (xs @ ys) = (\<lambda>s. rbind (fold_res f xs s) (fold_res f ys))" by (rule ext)
  then show ?case by (simp add: rbind_assoc)
qed simp

lemma work_file_short:
  assumes "\<forall>w\<in>set ws. work_ok w" shows "length (conf_file (map work_text ws)) \<le> 49 * length ws"
  using assms
proof (induction ws)
  case (Cons w ws)
  obtain n ip port where [simp]: "w = (n, ip, port)" by (cases w)
  have "length (dec n) \<le> 10" "length (dec port) \<le> 5" "length ip < 32" using Cons.prems
    by (auto simp: work_ok_def token_def intro!: length_dec)
  then have "length (work_text w) \<le> 48" by (simp add: work_text_def)
  then show ?case using Cons by (simp add: conf_file_def)
qed (simp add: conf_file_def)

text \<open>Up to any point of a file the lines before it have been worked on, whatever follows.\<close>

lemma conf_loop_line:
  assumes "good_line (cur @ l)"
  shows "conf_loop f i (l @ NL # behind) cur False s
    = rbind (f (i + int (length l)) (cur @ l) s) (conf_loop f (i + int (length l) + 1) behind [] False)"
  using assms
proof (induction l arbitrary: i cur)
  case Nil
  then show ?case by (simp add: good_line_def counts_def)
next
  case (Cons c l)
  then have "c \<notin> {NUL, CHR ''#'', NL}" by (auto simp: good_line_def counts_def)
  then show ?case using Cons.IH[of "cur @ [c]" "i + 1"] Cons.prems by (simp add: algebra_simps)
qed

lemma conf_loop_prefix:
  assumes "\<forall>l\<in>set ls. good_line l"
  shows "\<exists>ils. map snd ils = ls \<and> (\<forall>s. conf_loop f i (conf_file ls @ behind) [] False s
    = rbind (fold_res (\<lambda>(i, l). f i l) ils s) (conf_loop f (i + int (length (conf_file ls))) behind [] False))"
  using assms
proof (induction ls arbitrary: i)
  case (Cons l ls)
  then obtain ils where ils: "map snd ils = ls" "\<forall>s. conf_loop f (i + int (length l) + 1) (conf_file ls @ behind) [] False s
    = rbind (fold_res (\<lambda>(i, l). f i l) ils s)
        (conf_loop f (i + int (length l) + 1 + int (length (conf_file ls))) behind [] False)"
    by force
  then have "conf_loop f i (conf_file (l # ls) @ behind) [] False s
    = rbind (fold_res (\<lambda>(i, l). f i l) ((i + int (length l), l) # ils) s)
        (conf_loop f (i + int (length (conf_file (l # ls)))) behind [] False)" for s
    using conf_loop_line[of "[]" l f i "conf_file ls @ behind" s] Cons.prems
    by (cases "f (i + int (length l)) l s") (auto simp: conf_file_def rbind_assoc algebra_simps)
  then show ?case using ils(1) by (intro exI[of _ "(i + int (length l), l) # ils"]) simp
qed (simp add: conf_file_def)

lemma conf_map_prefix:
  assumes "length txt \<le> 12288" obtains behind where "conf_map (txt @ rest) = txt @ behind"
  using assms by (auto simp: conf_map_def)

lemma load_work_fold:
  assumes "\<forall>w\<in>set ws. work_ok w" and "text_ends (conf_file (map work_text ws)) rest" and "length ws \<le> 200"
  obtains ils where "map snd ils = map work_text ws"
    and "load_work_data blank ip0 (Some (conf_file (map work_text ws) @ rest))
      = rbind (fold_res (\<lambda>(i, l). work_line blank i l) ils
          ((0, ip0, 0), \<lparr>wm_nr_work = 100, wm_nr_used = 0, wm_works = [], wm_bytes = 9100\<rparr>)) (\<lambda>(_, m). Inr (0, m))"
proof -
  have "ends_mapped (conf_file (map work_text ws)) rest"
    using assms work_file_short[OF assms(1)] by (simp add: ends_mapped_def)
  then obtain junk where map: "conf_map (conf_file (map work_text ws) @ rest) = conf_file (map work_text ws) @ NUL # junk"
    by (rule conf_map_ends)
  have good: "\<forall>l\<in>set (map work_text ws). good_line l" using assms work_text_good by auto
  show ?thesis
    by (rule conf_loop_good[OF good, of "work_line blank" junk])
      (auto simp: load_work_data_def Let_def map work_size_def intro: that)
qed

text \<open>
  C17: A \<^verbatim>\<open>work.conf\<close> written from a list of at most 100 workers (an id, an address of at most 31 characters, a port),
  which does not end with the last byte of a page, loads without a fault into exactly these workers, in their order.
\<close>

theorem load_work_roundtrip:
  assumes "\<forall>w\<in>set ws. work_ok w" and "length ws \<le> 100" and "text_ends (conf_file (map work_text ws)) rest"
  shows "\<exists>m. load_work_data blank ip0 (Some (conf_file (map work_text ws) @ rest)) = Inr (0, m)
    \<and> wm_nr_used m = int (length ws) \<and> stored m = ws"
proof -
  obtain ils where ils: "map snd ils = map work_text ws"
    and eq: "load_work_data blank ip0 (Some (conf_file (map work_text ws) @ rest))
      = rbind (fold_res (\<lambda>(i, l). work_line blank i l) ils
          ((0, ip0, 0), \<lparr>wm_nr_work = 100, wm_nr_used = 0, wm_works = [], wm_bytes = 9100\<rparr>)) (\<lambda>(_, m). Inr (0, m))"
    by (rule load_work_fold[OF assms(1,3), of blank ip0]) (use assms(2) in auto)
  show ?thesis
    using work_lines_store[OF ils assms(1), of "\<lparr>wm_nr_work = 100, wm_nr_used = 0, wm_works = [], wm_bytes = 9100\<rparr>" blank
        "(0, ip0, 0)"] assms(2)
    by (auto simp: eq work_size_def stored_def)
qed

definition demo_works :: "(nat \<times> string \<times> nat) list" where
  "demo_works = [(1, ''10.0.0.1'', 7001), (2, ''10.0.0.2'', 7002)]"

lemma demo_works_ok: "\<forall>w\<in>set demo_works. work_ok w"
  by (simp add: demo_works_def work_ok_def token_def plain_def is_space_def)

lemma load_work_roundtrip_witness:
  "\<exists>m. load_work_data demo_work [] (Some (conf_file (map work_text demo_works))) = Inr (0, m)
    \<and> wm_nr_used m = 2 \<and> stored m = demo_works"
proof -
  have "0 < length (conf_file (map work_text demo_works))" by (simp add: demo_works_def conf_file_def)
  then have "text_ends (conf_file (map work_text demo_works)) []"
    using work_file_short[OF demo_works_ok] by (simp add: text_ends_def demo_works_def)
  then show ?thesis using load_work_roundtrip[OF demo_works_ok, of "[]" demo_work "[]"] by (simp add: demo_works_def)
qed

lemma work_line_full:
  assumes "work_ok w" and "wm_nr_work m \<le> wm_nr_used m"
  shows "\<exists>vs1. work_line blank i (work_text w) (vs, m)
    = Inr (vs1, m\<lparr>wm_bytes := work_size * wm_nr_work m + 100, wm_nr_work := wm_nr_work m + 100\<rparr>)"
  using assms scan_work_text[of "fst w" "fst (snd w)" "snd (snd w)" vs] by (cases w) (simp add: work_line_def)

lemma work_line_overflow:
  assumes "work_ok w" and "wm_nr_used m < wm_nr_work m" and "wm_bytes m < work_size * (wm_nr_used m + 1)"
  shows "work_line blank i (work_text w) (vs, m) = Inl OutOfBounds"
  using assms scan_work_text[of "fst w" "fst (snd w)" "snd (snd w)" vs] by (cases w) (simp add: work_line_def)

text \<open>The lines from the 101st on: the first of them is dropped, the second stored, the third has no room.\<close>

lemma work_lines_beyond:
  assumes "map snd ils = map work_text ws" and "\<forall>w\<in>set ws. work_ok w" and "100 < length ws"
  defines "m0 \<equiv> \<lparr>wm_nr_work = 100, wm_nr_used = 0, wm_works = [], wm_bytes = 9100\<rparr>"
  shows "length ws \<le> 102 \<Longrightarrow> \<exists>v m. fold_res (\<lambda>(i, l). work_line blank i l) ils ((0, ip0, 0), m0) = Inr (v, m) \<and>
      stored m = take 100 ws @ drop 101 ws"
    and "102 < length ws \<Longrightarrow> fold_res (\<lambda>(i, l). work_line blank i l) ils ((0, ip0, 0), m0) = Inl OutOfBounds"
proof -
  let ?f = "\<lambda>(i, l). work_line blank i l"
  have split: "fold_res ?f ils s = rbind (fold_res ?f (take 100 ils) s) (fold_res ?f (drop 100 ils))" for s
    by (simp only: fold_res_append[symmetric] append_take_drop_id)
  have hd: "map snd (take 100 ils) = map work_text (take 100 ws)" using assms(1) by (simp only: take_map[symmetric])
  have take_ok: "\<forall>w\<in>set (take 100 ws). work_ok w" using assms(2) by (auto dest: in_set_takeD)
  obtain v1 m1 where s1: "fold_res ?f (take 100 ils) ((0, ip0, 0), m0) = Inr (v1, m1)"
    and m1: "wm_nr_used m1 = 100" "wm_nr_work m1 = 100" "wm_bytes m1 = 9100" "stored m1 = take 100 ws"
    using work_lines_store[OF hd take_ok, of m0 blank "(0, ip0, 0)"] assms(3)
    by (auto simp: m0_def work_size_def stored_def simp del: split_paired_Ex)
  obtain w wr where ws: "drop 100 ws = w # wr" using assms(3) by (cases "drop 100 ws") auto
  have "map snd (drop 100 ils) = map work_text (w # wr)" using assms(1) by (simp only: drop_map[symmetric] ws[symmetric])
  then obtain i0 ir where il: "drop 100 ils = (i0, work_text w) # ir" and ir: "map snd ir = map work_text wr"
    by (auto simp: map_eq_Cons_conv)
  have in_ws: "work_ok w" "\<forall>w\<in>set wr. work_ok w" using ws assms(2) by (metis in_set_dropD list.set_intros)+
  define m2 where "m2 = m1\<lparr>wm_bytes := work_size * wm_nr_work m1 + 100, wm_nr_work := wm_nr_work m1 + 100\<rparr>"
  have m2: "wm_nr_used m2 = 100" "wm_nr_work m2 = 200" "wm_bytes m2 = 9200" "stored m2 = take 100 ws"
    using m1 by (simp_all add: m2_def work_size_def stored_def)
  obtain v2 where s2: "work_line blank i0 (work_text w) (v1, m1) = Inr (v2, m2)"
    using work_line_full[of w m1 blank i0 v1] in_ws m1 by (auto simp: m2_def)
  have run: "fold_res ?f ils ((0, ip0, 0), m0) = fold_res ?f ir (v2, m2)" by (simp add: split s1 il s2)
  have wr: "wr = drop 101 ws" "length wr = length ws - 101"
  proof -
    have "drop 101 ws = drop 1 (drop 100 ws)" by (simp only: drop_drop) simp
    then show "wr = drop 101 ws" by (simp add: ws)
    then show "length wr = length ws - 101" by simp
  qed
  show "\<exists>v m. fold_res ?f ils ((0, ip0, 0), m0) = Inr (v, m) \<and> stored m = take 100 ws @ drop 101 ws" if "length ws \<le> 102"
  proof -
    have "int (length ws - 101) \<le> 1" using that by simp
    then show ?thesis using work_lines_store[OF ir in_ws(2), of m2 blank v2] wr m2
      by (fastforce simp: run work_size_def simp del: split_paired_Ex)
  qed
  show "fold_res ?f ils ((0, ip0, 0), m0) = Inl OutOfBounds" if "102 < length ws"
  proof -
    have "Suc (Suc 0) \<le> length wr" using that wr by simp
    then obtain w1 w2 wq where q: "wr = w1 # w2 # wq" by (auto simp only: Suc_le_length_iff)
    then obtain i1 i2 iq where iq: "ir = (i1, work_text w1) # (i2, work_text w2) # iq"
      using ir by (auto simp: map_eq_Cons_conv)
    obtain v3 m3 where s3: "work_line blank i1 (work_text w1) (v2, m2) = Inr (v3, m3)"
      and m3: "wm_nr_used m3 = 101" "wm_nr_work m3 = 200" "wm_bytes m3 = 9200"
      using work_line_stores[of w1 m2 blank i1 v2] in_ws q m2 by (auto simp: work_room_def work_size_def)
    have "work_line blank i2 (work_text w2) (v3, m3) = Inl OutOfBounds"
      using in_ws q m3 by (intro work_line_overflow) (auto simp: work_size_def)
    then show ?thesis by (simp add: run iq s3)
  qed
qed

text \<open>
  C37: When a \<^verbatim>\<open>work.conf\<close> has more than 100 workers, the 101st is lost: a file of 101 or 102 loads without it. With
  more than 102, loading writes behind the end of the array, whatever follows: for the 101st line the array is enlarged
  by 100 bytes instead of 100 entries, so that the 103rd line has no room.
\<close>

theorem load_work_overflow:
  assumes "\<forall>w\<in>set ws. work_ok w" and "100 < length ws"
  shows "(length ws \<le> 102 \<longrightarrow> text_ends (conf_file (map work_text ws)) rest \<longrightarrow>
      (\<exists>m. load_work_data blank ip0 (Some (conf_file (map work_text ws) @ rest)) = Inr (0, m) \<and>
        stored m = take 100 ws @ drop 101 ws)) \<and>
    (102 < length ws \<longrightarrow>
      load_work_data blank ip0 (Some (conf_file (map work_text ws) @ rest)) = Inl OutOfBounds)"
proof (intro conjI impI)
  assume few: "length ws \<le> 102" and ends: "text_ends (conf_file (map work_text ws)) rest"
  show "\<exists>m. load_work_data blank ip0 (Some (conf_file (map work_text ws) @ rest)) = Inr (0, m) \<and>
      stored m = take 100 ws @ drop 101 ws"
  proof (rule load_work_fold[OF assms(1) ends, of blank ip0])
    show "length ws \<le> 200" using few by simp
    fix ils assume "map snd ils = map work_text ws"
      and eq: "load_work_data blank ip0 (Some (conf_file (map work_text ws) @ rest))
        = rbind (fold_res (\<lambda>(i, l). work_line blank i l) ils
          ((0, ip0, 0), \<lparr>wm_nr_work = 100, wm_nr_used = 0, wm_works = [], wm_bytes = 9100\<rparr>)) (\<lambda>(_, m). Inr (0, m))"
    then show ?thesis using work_lines_beyond(1)[OF _ assms few, of ils blank ip0] by force
  qed
next
  assume many: "102 < length ws"
  let ?w3 = "take 103 ws"
  have ok: "\<forall>w\<in>set ?w3. work_ok w" using assms(1) by (auto dest: in_set_takeD)
  have "conf_file (map work_text ws) = conf_file (map work_text ?w3) @ conf_file (map work_text (drop 103 ws))"
    by (simp add: conf_file_def flip: concat_append map_append)
  moreover have "length (conf_file (map work_text ?w3)) \<le> 12288" using work_file_short[OF ok] many by simp
  ultimately obtain behind where map: "conf_map (conf_file (map work_text ws) @ rest) = conf_file (map work_text ?w3) @ behind"
    by (metis append.assoc conf_map_prefix)
  have good: "\<forall>l\<in>set (map work_text ?w3). good_line l" using ok work_text_good by auto
  obtain ils where ils: "map snd ils = map work_text ?w3"
    and loop: "\<And>s. conf_loop (work_line blank) 0 (conf_file (map work_text ?w3) @ behind) [] False s
      = rbind (fold_res (\<lambda>(i, l). work_line blank i l) ils s)
          (conf_loop (work_line blank) (0 + int (length (conf_file (map work_text ?w3)))) behind [] False)"
    using conf_loop_prefix[OF good, of "work_line blank" 0 behind] by blast
  have "fold_res (\<lambda>(i, l). work_line blank i l) ils
      ((0, ip0, 0), \<lparr>wm_nr_work = 100, wm_nr_used = 0, wm_works = [], wm_bytes = 9100\<rparr>) = Inl OutOfBounds"
    by (rule work_lines_beyond(2)[OF ils ok]) (use many in auto)
  then show "load_work_data blank ip0 (Some (conf_file (map work_text ws) @ rest)) = Inl OutOfBounds"
    by (simp add: load_work_data_def Let_def map loop work_size_def)
qed

definition demo_many :: "nat \<Rightarrow> (nat \<times> string \<times> nat) list" where
  "demo_many n = map (\<lambda>i. (i, ''10.0.0.1'', 7001)) [0..<n]"

lemma load_work_overflow_witness:
  "load_work_data demo_work [] (Some (conf_file (map work_text (demo_many 103)))) = Inl OutOfBounds \<and>
   (\<exists>m. load_work_data demo_work [] (Some (conf_file (map work_text (demo_many 102)) @ [NUL])) = Inr (0, m) \<and>
     stored m = demo_many 100 @ [(101, ''10.0.0.1'', 7001)])"
proof -
  have ok: "\<forall>w\<in>set (demo_many n). work_ok w" if "n \<le> 103" for n
    using that by (auto simp: demo_many_def work_ok_def token_def plain_def is_space_def)
  have "drop 101 [0..<102] = [101::nat]" by (simp add: drop_upt)
  then have "take 100 (demo_many 102) @ drop 101 (demo_many 102) = demo_many 100 @ [(101, ''10.0.0.1'', 7001)]"
    by (simp add: demo_many_def take_map drop_map take_upt)
  then show ?thesis
    using load_work_overflow[OF ok, of 103 "[]" demo_work "[]"] load_work_overflow[OF ok, of 102 "[NUL]" demo_work "[]"]
    by (auto simp: demo_many_def text_ends_def)
qed

end
