(* ===== verification/Settings.thy ===== *)
theory Settings
  imports Conf_Load
begin

text \<open>
  \<open>init_setting\<close> (\<^verbatim>\<open>master.c\<close>): the settings of the server out of the table of the configuration, with the sizes of the
  arrays they are copied to and the memory they are copied from.
\<close>

section \<open>init_setting\<close>

text \<open>
  \<open>conf_get_str\<close> returns a pointer to the value in the table, or to an empty literal, never null. \<open>behind key\<close> are the
  characters in memory behind the terminator of that string that can be read: \<open>memcpy\<close> copies 32 characters
  whatever the length of the value is. An array in the settings is the list of its characters, for \<open>memcpy\<close>, or the
  string in it, for \<open>strcpy\<close>.
\<close>

definition mem_copy :: "nat \<Rightarrow> string \<Rightarrow> string \<Rightarrow> string res" where
  "mem_copy n s behind = (if n \<le> length s + 1 + length behind then Inr (take n (s @ NUL # behind)) else Inl OutOfBounds)"

definition str_copy :: "nat \<Rightarrow> string \<Rightarrow> string res" where
  "str_copy n s = (if length s < n then Inr s else Inl OutOfBounds)"

definition init_setting ::
  "('h, string, string) ghash \<Rightarrow> (string \<Rightarrow> string) \<Rightarrow> 'h \<Rightarrow> svr_setting \<Rightarrow> (int \<times> svr_setting) res" where
  "init_setting G behind h s0 = (let str = conf_get_str G h; int_of = conf_get_int G h in
     rbind (int_of ''nr_max_event'') (\<lambda>a1. let s1 = s0\<lparr>nr_max_event := a1\<rparr> in
     rbind (int_of ''nr_max_fd'') (\<lambda>a2. let s2 = s1\<lparr>nr_max_fd := a2\<rparr> in
     rbind (int_of ''mem_queue_len'') (\<lambda>a3. let s3 = s2\<lparr>mem_queue_len := a3\<rparr> in
     rbind (int_of ''max_msg_len'') (\<lambda>a4. let s4 = s3\<lparr>max_msg_len := a4\<rparr> in
     rbind (int_of ''max_buf_len'') (\<lambda>a5. let s5 = s4\<lparr>max_buf_len := a5\<rparr> in
     rbind (mem_copy 32 (str ''srv_name'') (behind ''srv_name'')) (\<lambda>a6. let s6 = s5\<lparr>srv_name := a6\<rparr> in
     rbind (int_of ''raw_buf_len'') (\<lambda>a7. let s7 = s6\<lparr>raw_buf_len := a7\<rparr> in
     rbind (mem_copy 32 (str ''data_so'') (behind ''data_so'')) (\<lambda>a8. let s8 = s7\<lparr>data_so := a8\<rparr> in
     rbind (mem_copy 32 (str ''text_so'') (behind ''text_so'')) (\<lambda>a9. let s9 = s8\<lparr>text_so := a9\<rparr> in
     rbind (int_of ''log_level'') (\<lambda>b1. let s10 = s9\<lparr>log_level := word_of_int b1\<rparr> in
     rbind (int_of ''log_maxfiles'') (\<lambda>b2. let s11 = s10\<lparr>log_maxfiles := word_of_int b2\<rparr> in
     rbind (str_copy 32 (str ''log_dir'')) (\<lambda>b3. let s12 = s11\<lparr>log_dir := b3\<rparr> in
     rbind (int_of ''log_size'') (\<lambda>b4. let s13 = s12\<lparr>log_size := word_of_int b4\<rparr> in
     rbind (str_copy 16 (str ''mcast_ip'')) (\<lambda>b5. let s14 = s13\<lparr>mcast_ip := b5\<rparr> in
     rbind (int_of ''mcast_port'') (\<lambda>b6. let s15 = s14\<lparr>mcast_port := word_of_int b6\<rparr> in
     rbind (str_copy 16 (str ''mcast_out_ip'')) (\<lambda>b7.
       Inr (0, s15\<lparr>mcast_out_ip := b7\<rparr>))))))))))))))))))"

lemma mem_copy_Inr: "mem_copy n s b = Inr r \<Longrightarrow> length r = n \<and> r = take n (s @ NUL # b)"
  by (auto simp: mem_copy_def split: if_splits)

lemma mem_copy_whole:
  assumes "mem_copy 32 s b = Inr r"
  shows "length r = 32" "r = take 32 (s @ NUL # b)" "length s < 32 \<longrightarrow> NUL \<notin> set s \<longrightarrow> c_str r = s"
proof -
  have w: "c_str (take 32 (s @ NUL # b)) = s" if l: "length s < 32" "NUL \<notin> set s"
  proof -
    obtain k where "32 - length s = Suc k" using l(1) by (cases "32 - length s") auto
    then show ?thesis using l by (simp add: c_str_def takeWhile_append)
  qed
  show "length r = 32" and r: "r = take 32 (s @ NUL # b)" using mem_copy_Inr[OF assms] by blast+
  show "length s < 32 \<longrightarrow> NUL \<notin> set s \<longrightarrow> c_str r = s" unfolding r using w by blast
qed

lemma str_copy_Inr: "str_copy n s = Inr r \<Longrightarrow> r = s \<and> length s < n"
  by (auto simp: str_copy_def split: if_splits)

lemma atoi_range: "atoi s = Inr n \<Longrightarrow> is_cint n"
  by (auto simp: atoi_def cint_Inr_iff is_cint_def split: option.splits)

lemma conf_get_int_range: "conf_get_int G h k = Inr n \<Longrightarrow> is_cint n"
  by (auto simp: conf_get_int_def is_cint_def dest: atoi_range split: option.splits)

lemma init_numbers:
  assumes "init_setting G behind h s0 = Inr (r, s)"
  shows "conf_get_int G h ''nr_max_event'' = Inr (nr_max_event s)" "conf_get_int G h ''nr_max_fd'' = Inr (nr_max_fd s)"
    "conf_get_int G h ''mem_queue_len'' = Inr (mem_queue_len s)" "conf_get_int G h ''max_msg_len'' = Inr (max_msg_len s)"
    "conf_get_int G h ''max_buf_len'' = Inr (max_buf_len s)" "conf_get_int G h ''raw_buf_len'' = Inr (raw_buf_len s)"
    "\<exists>n. conf_get_int G h ''log_level'' = Inr n \<and> log_level s = word_of_int n"
    "\<exists>n. conf_get_int G h ''log_maxfiles'' = Inr n \<and> log_maxfiles s = word_of_int n"
    "\<exists>n. conf_get_int G h ''log_size'' = Inr n \<and> log_size s = word_of_int n"
    "\<exists>n. conf_get_int G h ''mcast_port'' = Inr n \<and> mcast_port s = word_of_int n"
  using assms unfolding init_setting_def Let_def by (auto simp: rbind_Inr_iff)

lemma init_strings:
  assumes "init_setting G behind h s0 = Inr (r, s)"
  shows "r = 0" "mem_copy 32 (conf_get_str G h ''srv_name'') (behind ''srv_name'') = Inr (srv_name s)"
    "mem_copy 32 (conf_get_str G h ''data_so'') (behind ''data_so'') = Inr (data_so s)"
    "mem_copy 32 (conf_get_str G h ''text_so'') (behind ''text_so'') = Inr (text_so s)"
    "str_copy 32 (conf_get_str G h ''log_dir'') = Inr (log_dir s)"
    "str_copy 16 (conf_get_str G h ''mcast_ip'') = Inr (mcast_ip s)"
    "str_copy 16 (conf_get_str G h ''mcast_out_ip'') = Inr (mcast_out_ip s)"
  using assms unfolding init_setting_def Let_def by (auto simp: rbind_Inr_iff)

text \<open>
  C24: When \<open>init_setting\<close> completes, every field of the settings is the value of its own key: each number is the
  configured one, reduced to the width of its field; \<open>log_dir\<close>, \<open>mcast_ip\<close> and \<open>mcast_out_ip\<close> are the configured
  strings, which fit their arrays; \<open>srv_name\<close>, \<open>data_so\<close> and \<open>text_so\<close> are 32 characters that start with the value
  (and are followed by what lies behind it in memory), so that a value of fewer than 32 characters is read back whole.
\<close>

theorem init_setting_bounds:
  assumes "init_setting G behind h s0 = Inr (r, s)"
  shows "r = 0
    \<and> (\<forall>(k, v) \<in> {(''nr_max_event'', nr_max_event s), (''nr_max_fd'', nr_max_fd s), (''mem_queue_len'', mem_queue_len s),
         (''max_msg_len'', max_msg_len s), (''max_buf_len'', max_buf_len s), (''raw_buf_len'', raw_buf_len s)}.
         conf_get_int G h k = Inr v \<and> is_cint v)
    \<and> (\<exists>n. conf_get_int G h ''log_level'' = Inr n \<and> uint (log_level s) = n mod 256)
    \<and> (\<exists>n. conf_get_int G h ''log_maxfiles'' = Inr n \<and> uint (log_maxfiles s) = n mod 4294967296)
    \<and> (\<exists>n. conf_get_int G h ''log_size'' = Inr n \<and> uint (log_size s) = n mod 4294967296)
    \<and> (\<exists>n. conf_get_int G h ''mcast_port'' = Inr n \<and> uint (mcast_port s) = n mod 65536)
    \<and> (\<forall>(k, v) \<in> {(''srv_name'', srv_name s), (''data_so'', data_so s), (''text_so'', text_so s)}.
         length v = 32 \<and> v = take 32 (conf_get_str G h k @ NUL # behind k) \<and>
         (length (conf_get_str G h k) < 32 \<longrightarrow> NUL \<notin> set (conf_get_str G h k) \<longrightarrow> c_str v = conf_get_str G h k))
    \<and> log_dir s = conf_get_str G h ''log_dir'' \<and> length (log_dir s) < 32
    \<and> mcast_ip s = conf_get_str G h ''mcast_ip'' \<and> length (mcast_ip s) < 16
    \<and> mcast_out_ip s = conf_get_str G h ''mcast_out_ip'' \<and> length (mcast_out_ip s) < 16"
proof -
  note num = init_numbers[OF assms] and str = init_strings[OF assms]
  note m = mem_copy_whole[OF str(2)] mem_copy_whole[OF str(3)] mem_copy_whole[OF str(4)] and c = str(5,6,7)[THEN str_copy_Inr] and i = num(1-6)[THEN conf_get_int_range]
  have w: "\<exists>n. conf_get_int G h ''log_level'' = Inr n \<and> uint (log_level s) = n mod 256"
    "\<exists>n. conf_get_int G h ''log_maxfiles'' = Inr n \<and> uint (log_maxfiles s) = n mod 4294967296"
    "\<exists>n. conf_get_int G h ''log_size'' = Inr n \<and> uint (log_size s) = n mod 4294967296"
    "\<exists>n. conf_get_int G h ''mcast_port'' = Inr n \<and> uint (mcast_port s) = n mod 65536"
    using num(7-10) by (auto simp: uint_word_of_int)
  have n: "\<forall>(k, v) \<in> {(''nr_max_event'', nr_max_event s), (''nr_max_fd'', nr_max_fd s), (''mem_queue_len'', mem_queue_len s),
         (''max_msg_len'', max_msg_len s), (''max_buf_len'', max_buf_len s), (''raw_buf_len'', raw_buf_len s)}.
         conf_get_int G h k = Inr v \<and> is_cint v"
    using num(1-6) i by simp
  have t: "\<forall>(k, v) \<in> {(''srv_name'', srv_name s), (''data_so'', data_so s), (''text_so'', text_so s)}.
         length v = 32 \<and> v = take 32 (conf_get_str G h k @ NUL # behind k) \<and>
         (length (conf_get_str G h k) < 32 \<longrightarrow> NUL \<notin> set (conf_get_str G h k) \<longrightarrow> c_str v = conf_get_str G h k)"
    unfolding ball_simps prod.case by (intro conjI TrueI m)
  show ?thesis
    by (intro conjI n t str(1) w) (use c in auto)
qed

definition demo_conf :: "string \<rightharpoonup> string" where
  "demo_conf = [''srv_name'' \<mapsto> ''online'', ''mcast_ip'' \<mapsto> ''239.0.0.2'', ''mcast_port'' \<mapsto> ''70000'']"

lemma demo_conf_get:
  "conf_get_str demo_ghash demo_conf ''srv_name'' = ''online''" "conf_get_str demo_ghash demo_conf ''data_so'' = []"
  "conf_get_str demo_ghash demo_conf ''text_so'' = []" "conf_get_str demo_ghash demo_conf ''log_dir'' = []"
  "conf_get_str demo_ghash demo_conf ''mcast_ip'' = ''239.0.0.2''" "conf_get_str demo_ghash demo_conf ''mcast_out_ip'' = []"
  "conf_get_int demo_ghash demo_conf ''mcast_port'' = Inr 70000"
  "k \<notin> {''srv_name'', ''mcast_ip'', ''mcast_port''} \<Longrightarrow> conf_get_int demo_ghash demo_conf k = Inr 0"
  by (simp_all add: demo_conf_def demo_ghash_def conf_get_str_def conf_get_int_def atoi_def scan_d_def scan_sign_def is_space_def
      is_digit_def is_cint_def)

lemma demo_init:
  "\<exists>s. init_setting demo_ghash (\<lambda>_. replicate 31 NUL) demo_conf demo_setting = Inr (0, s)"
  by (simp add: init_setting_def demo_conf_get Let_def mem_copy_def str_copy_def)

lemma init_setting_bounds_witness:
  "\<exists>s. init_setting demo_ghash (\<lambda>_. replicate 31 NUL) demo_conf demo_setting = Inr (0, s)
    \<and> mcast_ip s = ''239.0.0.2'' \<and> uint (mcast_port s) = 4464"
proof -
  obtain s where s: "init_setting demo_ghash (\<lambda>_. replicate 31 NUL) demo_conf demo_setting = Inr (0, s)"
    using demo_init by blast
  from init_setting_bounds[OF s] show ?thesis using s by (auto simp: demo_conf_get)
qed

text \<open>
  A setting that is missing is never noticed, the business library included: the tests for a null pointer cannot
  succeed, and the program goes on with the empty name of a library.
\<close>

theorem init_setting_missing_library:
  assumes "gh_lookup G h ''text_so'' = None" and "init_setting G behind h s0 = Inr (r, s)"
  shows "r = 0 \<and> c_str (text_so s) = []"
proof -
  have e: "conf_get_str G h ''text_so'' = []" using assms(1) by (simp add: conf_get_str_def)
  have "r = 0 \<and> text_so s = take 32 (conf_get_str G h ''text_so'' @ NUL # behind ''text_so'')"
    using assms(2) unfolding init_setting_def Let_def
  proof (elim rbind_InrE, goal_cases)
    case 1
    then show ?case using 1(9)[THEN mem_copy_Inr] by clarsimp
  qed
  then show ?thesis by (simp add: e c_str_def)
qed

lemma init_setting_missing_library_witness:
  "\<exists>s. init_setting demo_ghash (\<lambda>_. replicate 31 NUL) demo_conf demo_setting = Inr (0, s) \<and> c_str (text_so s) = []"
proof -
  obtain s where s: "init_setting demo_ghash (\<lambda>_. replicate 31 NUL) demo_conf demo_setting = Inr (0, s)"
    using demo_init by blast
  have "gh_lookup demo_ghash demo_conf ''text_so'' = None" by (simp add: demo_ghash_def demo_conf_def)
  from init_setting_missing_library[OF this s] show ?thesis using s by auto
qed

text \<open>
  A service name of fewer than 31 characters is copied with whatever follows it in memory: 32 characters are read
  from a value that is shorter, and when they cannot be read the start of the server faults.
\<close>

theorem init_setting_overread:
  assumes "\<forall>k\<in>{''nr_max_event'', ''nr_max_fd'', ''mem_queue_len'', ''max_msg_len'', ''max_buf_len''}. ok (conf_get_int G h k)"
    and "length (conf_get_str G h ''srv_name'') + length (behind ''srv_name'') < 31"
  shows "init_setting G behind h s0 = Inl OutOfBounds"
  using assms by (auto simp: init_setting_def Let_def mem_copy_def ok_def split: sum.splits)

lemma init_setting_overread_witness:
  "init_setting demo_ghash (\<lambda>_. []) demo_conf demo_setting = Inl OutOfBounds"
  by (rule init_setting_overread) (simp_all add: demo_conf_get)

end
