(* ===== verification/Startup.thy ===== *)
theory Startup
  imports Settings Mcast Master
begin

text \<open>
  Starting and stopping: the helpers of \<^verbatim>\<open>util.c\<close>, the start and the end of the master, and the restart of a worker that has
  stopped (\<^verbatim>\<open>master.c\<close>).
\<close>

section \<open>util.c\<close>

definition O_NONBLOCK :: "32 word" where "O_NONBLOCK = 2048"

text \<open>The flags \<open>set_io_nonblock\<close> sets, from those \<open>fcntl\<close> reports.\<close>

definition set_io_nonblock :: "32 word \<Rightarrow> bool \<Rightarrow> 32 word" where
  "set_io_nonblock flags nonblock = (if nonblock then or O_NONBLOCK flags else and (not O_NONBLOCK) flags)"

text \<open>
  The arguments and the environment of the process are consecutive strings in memory. \<open>save_args\<close> copies both and lets
  \<open>argv_end\<close> point behind the environment, or behind the arguments when there is no memory; \<open>ar_room\<close> is
  \<open>argv_end - argv_start\<close>.
\<close>

record args =
  g_argv :: "string list"
  ar_environ :: "string list"
  ar_room :: nat

definition save_args :: "string list \<Rightarrow> string list \<Rightarrow> bool \<Rightarrow> args" where
  "save_args argv env alloc_ok =
     (let arg_size = sum_list (map (\<lambda>s. length s + 1) argv); env_size = sum_list (map (\<lambda>s. length s + 1) env) in
      \<lparr>g_argv = argv, ar_environ = env, ar_room = (if alloc_ok then arg_size + env_size else arg_size)\<rparr>)"

text \<open>
  \<open>chg_proc_title\<close> with the text the format gives: \<open>title[128]\<close>, then the memory from \<open>argv_start\<close> on (\<open>mem\<close>) up to
  \<open>argv_end\<close>; a negative rest is a huge size for \<open>memset\<close>.
\<close>

definition chg_proc_title :: "string \<Rightarrow> nat \<Rightarrow> string \<Rightarrow> (int \<times> string) res" where
  "chg_proc_title title room mem =
     (if 128 \<le> length title then Inl OutOfBounds
      else if length mem \<le> length title then Inl OutOfBounds
      else if room < length title then Inl BadSize
      else if length mem < room then Inl OutOfBounds
      else Inr (0, title @ (if room = length title then NUL # drop (room + 1) mem
                            else replicate (room - length title) NUL @ drop room mem)))"

section \<open>The start of the master\<close>

text \<open>\<open>calloc\<close> clears the table: all entries have type 0, which is the type of a listening descriptor.\<close>

definition zero_wrap :: fd_wrap where
  "zero_wrap = \<lparr>w_type = fd_type_listen, w_fd = 0, w_idx = 0, w_flag = 0, w_buff = empty_buff,
     w_addr = \<lparr>addr_ip = 0, addr_port = 0\<rparr>\<rparr>"

text \<open>The answers of \<open>epoll_create\<close>, of the two \<open>calloc\<close>s and of the loader.\<close>

record init_ans =
  ia_epfd :: int
  ia_evs :: bool
  ia_fds :: bool
  ia_data :: "int option"
  ia_text :: "int option"

definition master_init ::
  "'l nlist \<Rightarrow> (int \<Rightarrow> string \<Rightarrow> bool) \<Rightarrow> init_ans \<Rightarrow> ('l, 'h) proc \<Rightarrow> so_tab \<Rightarrow> int \<times> ('l, 'h) proc \<times> so_tab" where
  "master_init L ds a p t =
     (let p1 = p\<lparr>p_epfd := ia_epfd a\<rparr> in
      if ia_epfd a = - 1 then (- 1, p1, t)
      else if \<not> ia_evs a then (- 1, p1, t)
      else if \<not> ia_fds a then (- 1, p1\<lparr>p_fds := []\<rparr>, t)
      else let p2 = p1\<lparr>p_fds := replicate (nat (nr_max_fd (p_setting p))) zero_wrap, p_stop := 0,
                       p_links := nl_init L Close_head (nl_init L Read_head (p_links p))\<rparr>;
               t1 = snd (reg_data_so (ia_data a) t) in
           case reg_so ds (ia_text a) t1 of (r, t2) \<Rightarrow> (if r = - 1 then - 1 else 0, p2, t2))"

text \<open>The two queues of worker \<open>i\<close>; for each the descriptors \<open>pipe\<close> gives and whether \<open>mmap\<close> succeeds.\<close>

type_synonym mq_ans = "(int \<times> int) \<times> bool"

definition master_mq_create :: "mq_ans \<Rightarrow> mq_ans \<Rightarrow> int \<Rightarrow> ('l, 'h) proc \<Rightarrow> (int \<times> ('l, 'h) proc) res" where
  "master_mq_create a1 a2 i p = (let len = mem_queue_len (p_setting p) in
     rbind (get_work p i) (\<lambda>k.
     rbind (mq_init (wk_rq k) len MEM_TYPE_RECV (fst a1) (snd a1)) (\<lambda>(r1, q1).
     rbind (upd_work i (\<lambda>k. k\<lparr>wk_rq := q1\<rparr>) p) (\<lambda>p1.
     if r1 = - 1 then Inr (- 1, p1) else
     rbind (mq_init (wk_sq k) len MEM_TYPE_SEND (fst a2) (snd a2)) (\<lambda>(r2, q2).
     rbind (upd_work i (\<lambda>k. k\<lparr>wk_sq := q2\<rparr>) p1) (\<lambda>p2.
       Inr (if r2 = - 1 then - 1 else 0, p2)))))))"

definition master_listen ::
  "(string \<Rightarrow> 32 word option) \<Rightarrow> (string \<Rightarrow> 32 word) \<Rightarrow> listen_ans \<Rightarrow> int \<Rightarrow> ('l, 'h) proc \<Rightarrow> (int \<times> ('l, 'h) proc) res" where
  "master_listen inet_pton inet_addr a i p = rbind (get_work p i) (\<lambda>k.
     rbind (safe_socket_listen inet_pton a (Some (wk_ip k)) (wk_port k) SOCK_STREAM 1024 (raw_buf_len (p_setting p)))
       (\<lambda>(listenfd, _).
     if listenfd = - 1 then Inr (- 1, p) else
     rbind (add_fdinfo_to_epinfo listenfd i fd_type_listen (inet_addr (wk_ip k)) (wk_port k) p) (\<lambda>(r1, p1).
     if r1 = - 1 then Inr (- 1, p1) else
     rbind (add_fdinfo_to_epinfo (fst (mq_pipefd (wk_sq k))) i fd_type_pipe 0 0 p1) (\<lambda>(r2, p2).
     if r2 = - 1 then Inr (- 1, p2) else
       Inr (0, eff (EClose (snd (mq_pipefd (wk_sq k)))) (eff (EClose (fst (mq_pipefd (wk_rq k)))) p2))))))"

section \<open>The end of the master\<close>

text \<open>
  The loop frees the buffers of the entries below \<open>maxfd\<close>. A receive buffer comes from \<open>mmap\<close>, and giving it to
  \<open>free\<close> is an error of the program (\<open>BadFree\<close>).
\<close>

fun free_buffs :: "nat \<Rightarrow> nat \<Rightarrow> ('l, 'h) proc \<Rightarrow> unit res" where
  "free_buffs i 0 p = Inr ()"
| "free_buffs i (Suc k) p = rbind (fdw p (int i)) (\<lambda>w.
     if w_fd w = 0 then free_buffs (Suc i) k p
     else if rbf (w_buff w) \<noteq> None then Inl BadFree
     else free_buffs (Suc i) k p)"

fun fini_queues :: "int list \<Rightarrow> ('l, 'h) proc \<Rightarrow> ('l, 'h) proc res" where
  "fini_queues [] p = Inr p"
| "fini_queues (i # is) p = rbind (get_work p i) (\<lambda>k. let len = mem_queue_len (p_setting p) in
     rbind (upd_work i (\<lambda>k. k\<lparr>wk_rq := snd (mq_fini (wk_rq k) len), wk_sq := snd (mq_fini (wk_sq k) len)\<rparr>) p)
       (fini_queues is))"

definition master_fini ::
  "(int \<Rightarrow> ('l, 'h) proc \<Rightarrow> (int \<times> ('l, 'h) proc) res) option \<Rightarrow> ('l, 'h) proc \<Rightarrow> (int \<times> ('l, 'h) proc) res" where
  "master_fini serv_fini p =
     rbind (case serv_fini of None \<Rightarrow> Inr p | Some f \<Rightarrow> rbind (f 1 p) (\<lambda>(_, p1). Inr p1)) (\<lambda>p1.
     rbind (fini_queues [0..p_nr_used p1 - 1] p1) (\<lambda>p2.
     rbind (free_buffs 0 (nat (p_maxfd p2)) p2) (\<lambda>_.
       Inr (0, eff (EClose (p_epfd p2)) (p2\<lparr>p_fds := []\<rparr>)))))"

section \<open>Restarting a worker\<close>

text \<open>
  The answers for one start of a worker: the queues, \<open>fork\<close> and listening. In the child (\<open>fork\<close> gives 0) the state at
  the fork is the result, and the child goes on with \<open>work_init\<close>.
\<close>

record fork_ans =
  fa_rq :: mq_ans
  fa_sq :: mq_ans
  fa_fork :: int
  fa_listen :: listen_ans

text \<open>The loop over the entries of the dead worker: type, buffers and links of the entry are left as they are.\<close>

fun close_fds :: "int \<Rightarrow> nat \<Rightarrow> nat \<Rightarrow> ('l, 'h) proc \<Rightarrow> ('l, 'h) proc res" where
  "close_fds idx i 0 p = Inr p"
| "close_fds idx i (Suc k) p = rbind (fdw p (int i)) (\<lambda>w.
     if w_idx w = idx \<and> w_fd w > 0 then
       rbind (upd_fdw (int i) (\<lambda>w. w\<lparr>w_fd := - 1\<rparr>) (eff (EClose (w_fd w)) (rm_fd_from_epinfo (w_fd w) p)))
         (close_fds idx (Suc i) k)
     else close_fds idx (Suc i) k p)"

definition start_work ::
  "(string \<Rightarrow> 32 word option) \<Rightarrow> (string \<Rightarrow> 32 word) \<Rightarrow> fork_ans \<Rightarrow> int \<Rightarrow> ('l, 'h) proc \<Rightarrow> (bool \<times> ('l, 'h) proc) res" where
  "start_work inet_pton inet_addr a idx p =
     rbind (close_fds idx 0 (nat (p_maxfd p + 1)) p) (\<lambda>p1.
     rbind (fini_queues [idx] p1) (\<lambda>p2.
     rbind (get_work p2 idx) (\<lambda>k.
     let p3 = eff (EClose (snd (mq_pipefd (wk_rq k)))) p2 in
     rbind (master_mq_create (fa_rq a) (fa_sq a) idx p3) (\<lambda>(r, p4).
     if r = - 1 then Inr (False, p4)
     else if fa_fork a < 0 then Inr (False, p4)
     else if fa_fork a = 0 then Inr (True, p4)
     else rbind (master_listen inet_pton inet_addr (fa_listen a) idx p4) (\<lambda>(r2, p5).
       if r2 = - 1 then Inr (False, p5)
       else if 0 \<le> idx \<and> idx < int (length (p_chl_pids p5))
       then Inr (False, p5\<lparr>p_chl_pids := (p_chl_pids p5)[nat idx := fa_fork a]\<rparr>) else Inl OutOfBounds)))))"

text \<open>
  \<open>handle_sigchld\<close>: the children \<open>waitpid\<close> reports, with the answers for the restart of each. \<open>Some i\<close>: this is the new
  process of worker \<open>i\<close>.
\<close>

fun handle_sigchld ::
  "(string \<Rightarrow> 32 word option) \<Rightarrow> (string \<Rightarrow> 32 word) \<Rightarrow> (int \<times> fork_ans) list \<Rightarrow> ('l, 'h) proc \<Rightarrow>
     (int option \<times> ('l, 'h) proc) res" where
  "handle_sigchld inet_pton inet_addr [] p = Inr (None, p)"
| "handle_sigchld inet_pton inet_addr ((pid, a) # as) p = (case reap_child pid p of
      (None, p1) \<Rightarrow> handle_sigchld inet_pton inet_addr as p1
    | (Some i, p1) \<Rightarrow> rbind (start_work inet_pton inet_addr a i p1) (\<lambda>(child, p2).
        if child then Inr (Some i, p2) else handle_sigchld inet_pton inet_addr as p2))"

end
