(* ===== verification/Worker_Start.thy ===== *)
theory Worker_Start
  imports Startup
begin

text \<open>
  The start and the end of a worker process (\<^verbatim>\<open>work.c\<close>), and the connections it makes to other servers (\<^verbatim>\<open>net_util.c\<close>).
\<close>

section \<open>Connections to other servers\<close>

definition send_to_serv ::
  "'l nlist \<Rightarrow> ('l, 'h) proc serv_if \<Rightarrow> int \<Rightarrow> byte list \<Rightarrow> int \<Rightarrow> ('l, 'h) proc \<Rightarrow> (int \<times> ('l, 'h) proc) res" where
  "send_to_serv L S fd msg len p = do_fd_send L S fd msg len p"

text \<open>Whether the new descriptor could be registered is not looked at.\<close>

definition connect_to_serv ::
  "(string \<Rightarrow> 32 word option) \<Rightarrow> int \<Rightarrow> bool \<Rightarrow> string \<Rightarrow> int \<Rightarrow> int \<Rightarrow> int \<Rightarrow> ('l, 'h) proc \<Rightarrow>
     (int \<times> ('l, 'h) proc) res" where
  "connect_to_serv inet_pton sockfd connect_ok ip port bufsize timeout p = (case inet_pton ip of
       None \<Rightarrow> Inr (- 1, p)
     | Some a \<Rightarrow>
         let fd = fst (safe_tcp_connect inet_pton sockfd connect_ok ip (word_of_int port) bufsize timeout) in
         if fd > 0 then
           rbind (add_fdinfo_to_epinfo fd 0 fd_type_svr a (word_of_int port) p) (\<lambda>(_, p1). Inr (fd, p1))
         else Inr (- 1, p))"

text \<open>
  The registration functions no other function of the program calls; \<open>add_pfd_to_epinfo\<close> and \<open>mod_pfd_to_epinfo\<close> give the
  kernel the session as the data of the events. \<open>ctl_ok\<close> is the answer of \<open>epoll_ctl\<close>.
\<close>

definition add_fd_to_epinfo :: "int \<Rightarrow> 32 word \<Rightarrow> ('l, 'h) proc \<Rightarrow> (int \<times> ('l, 'h) proc) res" where
  "add_fd_to_epinfo fd events p =
     rbind (next_ctl (eff (ECtlAdd fd (or events EPOLLET)) (eff (ENonblock fd) p))) (\<lambda>(ctl_ok, p1).
       Inr (if ctl_ok then 0 else - 1, p1))"

definition add_pfd_to_epinfo :: "fdsess \<Rightarrow> 32 word \<Rightarrow> ('l, 'h) proc \<Rightarrow> (int \<times> ('l, 'h) proc) res" where
  "add_pfd_to_epinfo sess events p =
     rbind (next_ctl (eff (ECtlAdd (fs_fd sess) (or events EPOLLET)) (eff (ENonblock (fs_fd sess)) p))) (\<lambda>(ctl_ok, p1).
       Inr (if ctl_ok then 0 else - 1, p1))"

definition mod_pfd_to_epinfo :: "fdsess \<Rightarrow> 32 word \<Rightarrow> ('l, 'h) proc \<Rightarrow> ('l, 'h) proc" where
  "mod_pfd_to_epinfo sess events p = eff (ECtlMod (fs_fd sess) (or events EPOLLET)) p"

section \<open>The start of a worker\<close>

text \<open>Closing the master's descriptors, and the queues and pipes of the workers \<open>ks\<close>, in the process of worker \<open>i\<close>.\<close>

fun close_master_fds :: "nat \<Rightarrow> nat \<Rightarrow> ('l, 'h) proc \<Rightarrow> ('l, 'h) proc res" where
  "close_master_fds i 0 p = Inr p"
| "close_master_fds i (Suc k) p = rbind (fdw p (int i)) (\<lambda>w.
     close_master_fds (Suc i) k (if w_fd w > 0 then eff (EClose (w_fd w)) p else p))"

fun close_queues :: "int \<Rightarrow> int list \<Rightarrow> ('l, 'h) proc \<Rightarrow> ('l, 'h) proc res" where
  "close_queues i [] p = Inr p"
| "close_queues i (k # ks) p = rbind (get_work p k) (\<lambda>w.
     if k = i then
       close_queues i ks (eff (EClose (fst (mq_pipefd (wk_sq w)))) (eff (EClose (snd (mq_pipefd (wk_rq w)))) p))
     else rbind (fini_queues [k] p) (\<lambda>p1. close_queues i ks (eff (EClose (snd (mq_pipefd (wk_rq w)))) p1)))"

text \<open>
  The answers of the calls in \<open>work_init\<close>. \<open>sprintf\<close> puts the id into 16 bytes, which is enough for 32 bits. When the
  log cannot be opened the function returns 0, as if it had succeeded, with nothing else done. Taking the heads off the
  lists writes to their neighbours, entries of the master's table, which has been freed.
\<close>

record work_ans =
  wa_log :: bool
  wa_epfd :: int
  wa_evs :: bool
  wa_fds :: bool
  wa_mcast :: mc_ans
  wa_time :: "32 word"

definition work_init ::
  "'l nlist \<Rightarrow> ('h, int, fdsess) ghash \<Rightarrow> ('s, string, 'a servcach) ghash \<Rightarrow> (string \<Rightarrow> 32 word) \<Rightarrow>
     (int \<Rightarrow> ('l, 'h) proc \<Rightarrow> (int \<times> ('l, 'h) proc) res) option \<Rightarrow> work_ans \<Rightarrow> int \<Rightarrow> bool \<Rightarrow> ('l, 'h) proc \<Rightarrow> 's mc_state \<Rightarrow>
     (int \<times> ('l, 'h) proc \<times> 's mc_state) res" where
  "work_init L G Sv inet_addr serv_init a i isreboot p m = (let s = p_setting p in
     if \<not> wa_log a then Inr (0, p, m) else
     rbind (close_master_fds 0 (nat (p_maxfd p + 1)) p) (\<lambda>p1.
     let p2 = (eff (EClose (p_epfd p1)) p1)\<lparr>p_fds := [], p_maxfd := 0, p_seq := 0, p_count := 0\<rparr> in
     rbind (close_queues i [0..(if isreboot then p_nr_used p2 - 1 else i)] p2) (\<lambda>p3.
     let p4 = p3\<lparr>p_epfd := wa_epfd a\<rparr> in
     if wa_epfd a = - 1 then Inr (- 1, p4, m)
     else if \<not> wa_evs a then Inr (- 1, p4, m)
     else if \<not> wa_fds a then Inr (- 1, p4, m)
     else let p5 = p4\<lparr>p_fds := replicate (nat (nr_max_fd s)) zero_wrap\<rparr> in
     rbind (get_work p5 i) (\<lambda>k.
     rbind (add_fdinfo_to_epinfo (fst (mq_pipefd (wk_rq k))) i fd_type_pipe 0 0 p5) (\<lambda>(r1, p6).
     if r1 = - 1 then Inr (- 1, p6, m) else
     case mcast_cli_init inet_addr (wa_mcast a) (mcast_ip s) (mcast_port s) (mcast_out_ip s) of (mcast_fd, _) \<Rightarrow>
     if mcast_fd = - 1 then Inr (- 1, p6, m) else
     rbind (add_fdinfo_to_epinfo mcast_fd i fd_type_mcast 0 0 p6) (\<lambda>(r2, p7).
     if r2 = - 1 then Inr (- 1, p7, m) else
     let p8 = (snd (init_fds G p7))\<lparr>p_stop := 0, p_chl_pids := map (\<lambda>_. 0) (p_chl_pids p7)\<rparr> in
     rbind (case serv_init of None \<Rightarrow> Inr (0, p8) | Some f \<Rightarrow> f 0 p8) (\<lambda>(r3, p9).
     if r3 \<noteq> 0 then Inr (- 1, p9, m)
     else if nl_items L Read_head (p_links p) \<noteq> [] \<or> nl_items L Close_head (p_links p) \<noteq> [] then Inl UseAfterFree
     else
     let p10 = p9\<lparr>p_links := nl_del_init L Close_head (nl_del_init L Read_head (p_links p9))\<rparr> in
     rbind (upd_work i (\<lambda>k. k\<lparr>next_syn_addr := wa_time a + 5, next_del_expire_addr := wa_time a + 10\<rparr>) p10) (\<lambda>p11.
       Inr (0, p11\<lparr>p_work_idx := i\<rparr>, m\<lparr>mc_servs := init_mcast_servs Sv\<rparr>)))))))))"

definition work_fini ::
  "(int \<Rightarrow> ('l, 'h) proc \<Rightarrow> (int \<times> ('l, 'h) proc) res) option \<Rightarrow> int \<Rightarrow> ('l, 'h) proc \<Rightarrow> (int \<times> ('l, 'h) proc) res" where
  "work_fini serv_fini i p =
     rbind (case serv_fini of None \<Rightarrow> Inr p | Some f \<Rightarrow> rbind (f 0 p) (\<lambda>(_, p1). Inr p1)) (\<lambda>p1.
     rbind (fini_queues [i] p1) (\<lambda>p2.
       Inr (0, eff (EClose (p_epfd p2)) (p2\<lparr>p_fds := []\<rparr>))))"

end
