(* ===== verification/Dispatch.thy ===== *)
theory Dispatch
  imports Worker_Start
begin

text \<open>
  The loops of the two kinds of process: what is done once per round (\<open>handle_closelist\<close>, \<open>handle_readlist\<close>), the events
  of \<open>epoll_wait\<close>, signals and timers (\<open>master_dispatch\<close>, \<open>work_dispatch\<close>).
\<close>

section \<open>The two lists, once per round\<close>

fun close_each ::
  "'l nlist \<Rightarrow> ('l, 'h) proc serv_if \<Rightarrow> int \<Rightarrow> lnode list \<Rightarrow> ('l, 'h) proc \<Rightarrow> ('l, 'h) proc res" where
  "close_each L S ismaster [] p = Inr p"
| "close_each L S ismaster (Node k # ns) p = rbind (fdw p k) (\<lambda>w. let fd = w_fd w in
     rbind (if slen (w_buff w) > 0 then
              rbind (do_fd_write fd p) (\<lambda>(r, p1).
                if r = - 1 then upd_buff k (\<lambda>b. b\<lparr>slen := 0\<rparr>) p1 else Inr p1)
            else Inr p) (\<lambda>p2.
     rbind (do_fd_close L S fd ismaster p2) (\<lambda>(_, p3). close_each L S ismaster ns p3)))"
| "close_each L S ismaster (_ # ns) p = close_each L S ismaster ns p"

definition handle_closelist ::
  "'l nlist \<Rightarrow> ('l, 'h) proc serv_if \<Rightarrow> int \<Rightarrow> ('l, 'h) proc \<Rightarrow> (int \<times> ('l, 'h) proc) res" where
  "handle_closelist L S ismaster p =
     rbind (close_each L S ismaster (nl_items L Close_head (p_links p)) p) (\<lambda>p1. Inr (0, p1))"

text \<open>\<open>while (do_fd_open(fd)) {}\<close> in \<open>handle_readlist\<close>, and \<open>while (do_fd_open(fd) != -1)\<close> in the master's loop.\<close>

fun open_while ::
  "(int \<Rightarrow> bool) \<Rightarrow> 'l nlist \<Rightarrow> ('l, 'h) proc serv_if \<Rightarrow> nat \<Rightarrow> int \<Rightarrow> ('l, 'h) proc \<Rightarrow> ('l, 'h) proc res" where
  "open_while c L S 0 fd p = Inl Exhausted"
| "open_while c L S (Suc n) fd p = rbind (do_fd_open L S fd p) (\<lambda>(r, p1).
     if c r then open_while c L S n fd p1 else Inr p1)"

fun read_each ::
  "'l nlist \<Rightarrow> ('l, 'h) proc serv_if \<Rightarrow> nat \<Rightarrow> int \<Rightarrow> lnode list \<Rightarrow> ('l, 'h) proc \<Rightarrow> ('l, 'h) proc res" where
  "read_each L S n ismaster [] p = Inr p"
| "read_each L S n ismaster (Node k # ns) p = rbind (fdw p k) (\<lambda>w. let fd = w_fd w in
     if w_type w = fd_type_listen then
       rbind (open_while (\<lambda>r. r \<noteq> 0) L S n fd p) (\<lambda>p1. read_each L S n ismaster ns p1)
     else
       rbind (if ismaster = 0 then do_proc_svr L S n fd p else handle_cli L S n fd p) (\<lambda>(r, p1).
       rbind (if r = - 1 then rbind (do_fd_close L S fd ismaster p1) (\<lambda>(_, p2). Inr p2) else Inr p1) (\<lambda>p3.
         read_each L S n ismaster ns p3)))"
| "read_each L S n ismaster (_ # ns) p = read_each L S n ismaster ns p"

definition handle_readlist ::
  "'l nlist \<Rightarrow> ('l, 'h) proc serv_if \<Rightarrow> nat \<Rightarrow> int \<Rightarrow> ('l, 'h) proc \<Rightarrow> (int \<times> ('l, 'h) proc) res" where
  "handle_readlist L S n ismaster p =
     rbind (read_each L S n ismaster (nl_items L Read_head (p_links p)) p) (\<lambda>p1. Inr (0, p1))"

section \<open>The loop of the master\<close>

text \<open>
  What \<open>epoll_wait\<close> answers: events (descriptor and event bits), an error, or the signals that interrupt it: a
  termination signal, or \<open>SIGCHLD\<close> with the children that have stopped. That is where signals are taken in the
  model.
\<close>

datatype ep_ans = EpEvents "(int \<times> 32 word) list" | EpErr errno | EpTerm int | EpChld "(int \<times> fork_ans) list"

definition has_ev :: "32 word \<Rightarrow> 32 word \<Rightarrow> bool" where
  "has_ev ev b \<longleftrightarrow> and ev b \<noteq> 0"

text \<open>The part of both loops for a descriptor that can be written.\<close>

definition write_event ::
  "'l nlist \<Rightarrow> ('l, 'h) proc serv_if \<Rightarrow> int \<Rightarrow> int \<Rightarrow> ('l, 'h) proc \<Rightarrow> ('l, 'h) proc res" where
  "write_event L S ismaster fd p = rbind (fdw p fd) (\<lambda>w.
     rbind (if slen (w_buff w) > 0 then
              rbind (do_fd_write fd p) (\<lambda>(r, p1).
                if r = - 1 then rbind (do_fd_close L S fd ismaster p1) (\<lambda>(_, p2). Inr p2) else Inr p1)
            else Inr p) (\<lambda>p3.
     rbind (fdw p3 fd) (\<lambda>w3. Inr (if slen (w_buff w3) = 0 then mod_fd_to_epinfo fd EPOLLIN p3 else p3))))"

definition handle_hup :: "int \<Rightarrow> ('l, 'h) proc \<Rightarrow> ('l, 'h) proc res" where
  "handle_hup fd p = rbind (fdw p fd) (\<lambda>w. rbind (get_work p (w_idx w)) (\<lambda>_. Inr p))"

definition master_event ::
  "'l nlist \<Rightarrow> ('l, 'h) proc serv_if \<Rightarrow> nat \<Rightarrow> int \<times> 32 word \<Rightarrow> ('l, 'h) proc \<Rightarrow> ('l, 'h) proc res" where
  "master_event L S n e p = (case e of (fd, ev) \<Rightarrow>
     if has_ev ev EPOLLIN then rbind (fdw p fd) (\<lambda>w. case w_type w of
         fd_type_listen \<Rightarrow> open_while (\<lambda>r. r \<noteq> - 1) L S n fd p
       | fd_type_cli \<Rightarrow> rbind (handle_cli L S n fd p) (\<lambda>(r, p1).
           if r = - 1 then rbind (do_fd_close L S fd 1 p1) (\<lambda>(_, p2). Inr p2) else Inr p1)
       | fd_type_pipe \<Rightarrow> rbind (handle_pipe fd p) (\<lambda>(_, p1). Inr p1)
       | _ \<Rightarrow> Inr p)
     else if has_ev ev EPOLLOUT then write_event L S 1 fd p
     else if has_ev ev EPOLLHUP then handle_hup fd p
     else Inr p)"

fun each_event :: "('e \<Rightarrow> 'p \<Rightarrow> 'p res) \<Rightarrow> 'e list \<Rightarrow> 'p \<Rightarrow> 'p res" where
  "each_event f [] p = Inr p"
| "each_event f (e # es) p = rbind (f e p) (each_event f es)"

text \<open>
  What one answer of \<open>epoll_wait\<close> does; the array for the events has \<open>cap\<close> places. \<open>Some (r, c)\<close>: the loop is left
  with \<open>r\<close>, in the new process of worker \<open>i\<close> if \<open>c\<close> is \<open>Some i\<close>.
\<close>

definition wait_step ::
  "(string \<Rightarrow> 32 word option) \<Rightarrow> (string \<Rightarrow> 32 word) \<Rightarrow> int \<Rightarrow> int \<Rightarrow> int \<Rightarrow> (int \<times> 32 word \<Rightarrow> ('l, 'h) proc \<Rightarrow> ('l, 'h) proc res) \<Rightarrow>
     ep_ans \<Rightarrow> ('l, 'h) proc \<Rightarrow> ((int \<times> int option) option \<times> ('l, 'h) proc) res" where
  "wait_step inet_pton inet_addr pid cap err_ret event a p = (case a of
       EpErr e \<Rightarrow> if e \<noteq> EINTR then Inr (Some (err_ret, None), p) else Inr (None, p)
     | EpTerm signo \<Rightarrow> rbind (handle_term pid signo p) (\<lambda>p1. Inr (None, p1))
     | EpChld cs \<Rightarrow> rbind (handle_sigchld inet_pton inet_addr cs p) (\<lambda>(child, p1).
         Inr (map_option (\<lambda>i. (0, Some i)) child, p1))
     | EpEvents es \<Rightarrow> if cap < int (length es) then Inl OutOfBounds
         else rbind (each_event event es p) (\<lambda>p1. Inr (None, p1)))"

text \<open>\<open>master_dispatch\<close>, for the answers of \<open>epoll_wait\<close> to come; it returns with those left.\<close>

fun master_dispatch ::
  "(string \<Rightarrow> 32 word option) \<Rightarrow> (string \<Rightarrow> 32 word) \<Rightarrow> int \<Rightarrow> 'l nlist \<Rightarrow> ('l, 'h) proc serv_if \<Rightarrow> nat \<Rightarrow> ep_ans list \<Rightarrow>
     ('l, 'h) proc \<Rightarrow> ((int \<times> int option) \<times> ep_ans list \<times> ('l, 'h) proc) res" where
  "master_dispatch inet_pton inet_addr pid L S n [] p = (if p_stop p \<noteq> 0 then Inr ((0, None), [], p) else Inl Exhausted)"
| "master_dispatch inet_pton inet_addr pid L S n (a # as) p =
     (if p_stop p \<noteq> 0 then Inr ((0, None), a # as, p)
      else rbind (handle_closelist L S 1 p) (\<lambda>(_, p1).
           rbind (handle_readlist L S n 1 p1) (\<lambda>(_, p2).
           rbind (handle_mq_send L S n p2) (\<lambda>p3.
           rbind (wait_step inet_pton inet_addr pid (nr_max_event (p_setting p3)) (- 1) (master_event L S n) a p3)
             (\<lambda>(r, p4). case r of
               Some rc \<Rightarrow> Inr (rc, as, p4)
             | None \<Rightarrow> master_dispatch inet_pton inet_addr pid L S n as p4)))))"

section \<open>The loop of a worker\<close>

text \<open>
  The interfaces of a worker: lists, business library, the tables of sessions, services and addresses, and what the
  multicast handlers need; \<open>we_fuel\<close> bounds every inner loop.
\<close>

record ('l, 'h, 's, 'a) work_env =
  we_nlist :: "'l nlist"
  we_so :: "('l, 'h) proc serv_if"
  we_sess :: "('h, int, fdsess) ghash"
  we_servs :: "('s, string, 'a servcach) ghash"
  we_addrs :: "('a, 32 word, addrcach) ghash"
  we_mc :: "('l, 'h) proc mc_env"
  we_inet_addr :: "string \<Rightarrow> 32 word"
  we_fuel :: nat

definition work_event ::
  "('l, 'h, 's, 'a) work_env \<Rightarrow> int \<times> 32 word \<Rightarrow> ('l, 'h) proc \<times> 's mc_state \<Rightarrow> (('l, 'h) proc \<times> 's mc_state) res" where
  "work_event W e pm = (case e of (fd, ev) \<Rightarrow> case pm of (p, m) \<Rightarrow>
     if has_ev ev EPOLLIN then rbind (fdw p fd) (\<lambda>w. case w_type w of
         fd_type_pipe \<Rightarrow> rbind (do_proc_pipe fd p) (\<lambda>(_, p1). Inr (p1, m))
       | fd_type_svr \<Rightarrow> rbind (do_proc_svr (we_nlist W) (we_so W) (we_fuel W) fd p) (\<lambda>(r, p1).
           if r = - 1 then rbind (do_fd_close (we_nlist W) (we_so W) fd 0 p1) (\<lambda>(_, p2). Inr (p2, m)) else Inr (p1, m))
       | fd_type_mcast \<Rightarrow> rbind (do_proc_mcast (we_servs W) (we_addrs W) (we_mc W) (we_fuel W) p m)
           (\<lambda>(_, p1, m1). Inr (p1, m1))
       | _ \<Rightarrow> Inr (p, m))
     else if has_ev ev EPOLLOUT then rbind (write_event (we_nlist W) (we_so W) 0 fd p) (\<lambda>p1. Inr (p1, m))
     else Inr (p, m))"

text \<open>
  One round: the answer of \<open>epoll_wait\<close>, the time, the answers for the announcement and its random delay. The array for
  the events has only \<open>nr_max_event / 10\<close> places, while \<open>epoll_wait\<close> is told \<open>nr_max_event\<close>.
\<close>

record round_ans =
  wr_ep :: ep_ans
  wr_now :: "32 word"
  wr_mcast :: mc_ans
  wr_rnd :: "32 word"

definition work_cap :: "('l, 'h) proc \<Rightarrow> int" where
  "work_cap p = cquot (nr_max_event (p_setting p)) 10"

text \<open>The answer of \<open>epoll_wait\<close>; \<open>False\<close>: the loop is left.\<close>

definition work_wait ::
  "('l, 'h, 's, 'a) work_env \<Rightarrow> int \<Rightarrow> ep_ans \<Rightarrow> ('l, 'h) proc \<times> 's mc_state \<Rightarrow> (bool \<times> ('l, 'h) proc \<times> 's mc_state) res" where
  "work_wait W pid a pm = (case a of
       EpErr e \<Rightarrow> Inr (e = EINTR, pm)
     | EpTerm signo \<Rightarrow> rbind (handle_term pid signo (fst pm)) (\<lambda>p1. Inr (True, p1, snd pm))
     | EpChld cs \<Rightarrow> Inr (True, pm)
     | EpEvents es \<Rightarrow> if work_cap (fst pm) < int (length es) then Inl OutOfBounds
         else rbind (each_event (work_event W) es pm) (\<lambda>pm1. Inr (True, pm1)))"

definition do_del_expired_addr :: "('l, 'h) proc \<Rightarrow> ('l, 'h) proc" where
  "do_del_expired_addr p = p"

definition work_timers ::
  "('l, 'h, 's, 'a) work_env \<Rightarrow> int \<Rightarrow> round_ans \<Rightarrow> ('l, 'h) proc \<Rightarrow> ('l, 'h) proc res" where
  "work_timers W i a p =
     rbind (case so_handle_timer (we_so W) of None \<Rightarrow> Inr p | Some f \<Rightarrow> f p) (\<lambda>p1.
     rbind (get_work p1 i) (\<lambda>k.
     rbind (if next_syn_addr k < wr_now a then
              rbind (do_syn_serv_addr (we_inet_addr W) (wr_mcast a) (wr_now a) (wr_rnd a) p1) (\<lambda>(_, p2). Inr p2)
            else Inr p1) (\<lambda>p3.
     rbind (get_work p3 i) (\<lambda>k3.
       Inr (if next_del_expire_addr k3 < wr_now a then do_del_expired_addr p3 else p3)))))"

text \<open>A round without an answer to leave the loop; a worker does not expect children of its own.\<close>

fun work_loop ::
  "('l, 'h, 's, 'a) work_env \<Rightarrow> int \<Rightarrow> int \<Rightarrow> round_ans list \<Rightarrow> ('l, 'h) proc \<times> 's mc_state \<Rightarrow>
     (int \<times> round_ans list \<times> ('l, 'h) proc \<times> 's mc_state) res" where
  "work_loop W pid i [] pm = (if p_stop (fst pm) \<noteq> 0 then Inr (0, [], pm) else Inl Exhausted)"
| "work_loop W pid i (a # as) pm =
     (if p_stop (fst pm) \<noteq> 0 then Inr (0, a # as, pm)
      else rbind (work_wait W pid (wr_ep a) pm) (\<lambda>(go_on, p1, m1).
           if \<not> go_on then Inr (0, as, p1, m1)
           else rbind (handle_mq_recv (we_sess W) (we_so W) (we_fuel W) i p1) (\<lambda>(_, p2).
                rbind (work_timers W i a p2) (\<lambda>p3. work_loop W pid i as (p3, m1)))))"

definition work_dispatch ::
  "('l, 'h, 's, 'a) work_env \<Rightarrow> int \<Rightarrow> int \<Rightarrow> round_ans list \<Rightarrow> ('l, 'h) proc \<Rightarrow> 's mc_state \<Rightarrow>
     (int \<times> round_ans list \<times> ('l, 'h) proc \<times> 's mc_state) res" where
  "work_dispatch W pid i as p m =
     rbind (handle_closelist (we_nlist W) (we_so W) 0 p) (\<lambda>(_, p1).
     rbind (handle_readlist (we_nlist W) (we_so W) (we_fuel W) 0 p1) (\<lambda>(_, p2).
       work_loop W pid i as (p2\<lparr>p_stop := 0\<rparr>, m)))"

end
