(* ===== verification/Server.thy ===== *)
theory Server
  imports Dispatch
begin

text \<open>
  The program: a worker from \<open>fork\<close> to its end, and \<open>main\<close> (\<^verbatim>\<open>simple_svr.c\<close>).
\<close>

text \<open>A worker from its start to its end, for what \<open>fork\<close> left it: in \<open>main\<close> and in \<open>start_work\<close>.\<close>

definition work_main ::
  "('l, 'h, 's, 'a) work_env \<Rightarrow> (int \<Rightarrow> ('l, 'h) proc \<Rightarrow> (int \<times> ('l, 'h) proc) res) option \<Rightarrow>
     (int \<Rightarrow> ('l, 'h) proc \<Rightarrow> (int \<times> ('l, 'h) proc) res) option \<Rightarrow> int \<Rightarrow> work_ans \<Rightarrow> round_ans list \<Rightarrow> int \<Rightarrow> bool \<Rightarrow>
     ('l, 'h) proc \<Rightarrow> 's mc_state \<Rightarrow> ('l, 'h) proc res" where
  "work_main W serv_init serv_fini pid a as i isreboot p m =
     rbind (work_init (we_nlist W) (we_sess W) (we_servs W) (we_inet_addr W) serv_init a i isreboot p m) (\<lambda>(r, p1, m1).
     if r = - 1 then Inr p1 else
     rbind (work_dispatch W pid i as p1 m1) (\<lambda>(_, _, p2, _).
     rbind (work_fini serv_fini i p2) (\<lambda>(_, p3). Inr p3)))"

section \<open>main\<close>

text \<open>
  The loop of \<open>main\<close> that starts the workers. \<open>None\<close>: all have been started; otherwise the reason to leave it:
  the queues could not be made (return -1), \<open>fork\<close> or listening failed (\<open>fail\<close>), or this is child \<open>i\<close>.
\<close>

datatype start_end = Start_mq | Start_fail | Start_child int

fun start_works ::
  "(string \<Rightarrow> 32 word option) \<Rightarrow> (string \<Rightarrow> 32 word) \<Rightarrow> fork_ans list \<Rightarrow> int \<Rightarrow> ('l, 'h) proc \<Rightarrow>
     (start_end option \<times> ('l, 'h) proc) res" where
  "start_works inet_pton inet_addr [] i p = (if i < p_nr_used p then Inl Exhausted else Inr (None, p))"
| "start_works inet_pton inet_addr (a # as) i p =
     (if i < p_nr_used p then
        rbind (master_mq_create (fa_rq a) (fa_sq a) i p) (\<lambda>(r, p1).
        if r = - 1 then Inr (Some Start_mq, p1)
        else if fa_fork a < 0 then Inr (Some Start_fail, p1)
        else if fa_fork a = 0 then Inr (Some (Start_child i), p1)
        else rbind (master_listen inet_pton inet_addr (fa_listen a) i p1) (\<lambda>(r2, p2).
          if r2 = - 1 then Inr (Some Start_fail, p2)
          else if 0 \<le> i \<and> i < int (length (p_chl_pids p2))
          then start_works inet_pton inet_addr as (i + 1) (p2\<lparr>p_chl_pids := (p_chl_pids p2)[nat i := fa_fork a]\<rparr>)
          else Inl OutOfBounds))
      else Inr (None, p))"

text \<open>
  \<open>main\<close>. The memory of the arguments has \<open>room\<close> bytes up to \<open>argv_end\<close>. The name of the service is the format of the
  title: with a \<open>%\<close> in it, arguments would be read that are not there. The result says how \<open>main\<close> ends here: it returns,
  or this is the new process of worker \<open>i\<close>.
\<close>

datatype main_end = Main_ret int | Main_child int bool

record main_ans =
  mn_junk :: "string \<times> string \<times> string"
  mn_simple :: "string option"
  mn_works :: "string option"
  mn_behind :: "string \<Rightarrow> string"
  mn_blank :: work
  mn_log :: bool
  mn_args :: args
  mn_mem :: string
  mn_init :: init_ans
  mn_forks :: "fork_ans list"
  mn_eps :: "ep_ans list"
  mn_pid :: int

definition set_title :: "main_ans \<Rightarrow> svr_setting \<Rightarrow> unit res" where
  "set_title a s = (let title = c_str (srv_name s) in
     if NUL \<notin> set (srv_name s) \<or> CHR ''%'' \<in> set title then Inl OutOfBounds
     else rbind (chg_proc_title title (ar_room (mn_args a)) (mn_mem a)) (\<lambda>_. Inr ()))"

definition run_master ::
  "(string \<Rightarrow> 32 word option) \<Rightarrow> (string \<Rightarrow> 32 word) \<Rightarrow> 'l nlist \<Rightarrow> ('l, 'h) proc serv_if \<Rightarrow> nat \<Rightarrow>
     (int \<Rightarrow> ('l, 'h) proc \<Rightarrow> (int \<times> ('l, 'h) proc) res) option \<Rightarrow> (int \<Rightarrow> ('l, 'h) proc \<Rightarrow> (int \<times> ('l, 'h) proc) res) option \<Rightarrow>
     main_ans \<Rightarrow> ('l, 'h) proc \<Rightarrow> (main_end \<times> ('l, 'h) proc) res" where
  "run_master inet_pton inet_addr L S n serv_init serv_fini a p =
     rbind (start_works inet_pton inet_addr (mn_forks a) 0 p) (\<lambda>(e, p1). case e of
       Some Start_mq \<Rightarrow> Inr (Main_ret (- 1), p1)
     | Some (Start_child i) \<Rightarrow> Inr (Main_child i False, p1)
     | Some Start_fail \<Rightarrow> rbind (master_fini serv_fini p1) (\<lambda>(_, p2). Inr (Main_ret 0, p2))
     | None \<Rightarrow>
         rbind (case serv_init of None \<Rightarrow> Inr (0, p1) | Some f \<Rightarrow> f 1 p1) (\<lambda>(r, p2).
         if r \<noteq> 0 then Inr (Main_ret (- 1), p2) else
         rbind (master_dispatch inet_pton inet_addr (mn_pid a) L S n (mn_eps a) p2) (\<lambda>((_, c), _, p3). case c of
           Some i \<Rightarrow> Inr (Main_child i True, p3)
         | None \<Rightarrow> rbind (master_fini serv_fini p3) (\<lambda>(_, p4). Inr (Main_ret 0, p4)))))"

definition server_main ::
  "(string \<Rightarrow> 32 word option) \<Rightarrow> (string \<Rightarrow> 32 word) \<Rightarrow> 'l nlist \<Rightarrow> ('l, 'h) proc serv_if \<Rightarrow> ('c, string, string) ghash \<Rightarrow>
     (int \<Rightarrow> string \<Rightarrow> bool) \<Rightarrow> nat \<Rightarrow> (int \<Rightarrow> ('l, 'h) proc \<Rightarrow> (int \<times> ('l, 'h) proc) res) option \<Rightarrow>
     (int \<Rightarrow> ('l, 'h) proc \<Rightarrow> (int \<times> ('l, 'h) proc) res) option \<Rightarrow> main_ans \<Rightarrow> ('l, 'h) proc \<Rightarrow> so_tab \<Rightarrow>
     (main_end \<times> ('l, 'h) proc) res" where
  "server_main inet_pton inet_addr L S G ds n serv_init serv_fini a p t =
     rbind (load_conf G (mn_blank a) (mn_junk a) (mn_simple a) (mn_works a)) (\<lambda>(r, h, ws).
     if r = - 1 then Inr (Main_ret 0, p) else
     let p1 = (case ws of None \<Rightarrow> p | Some m \<Rightarrow> p\<lparr>p_works := wm_works m, p_nr_used := wm_nr_used m\<rparr>) in
     rbind (init_setting G (mn_behind a) h (p_setting p1)) (\<lambda>(r2, s).
     let p2 = p1\<lparr>p_setting := s\<rparr> in
     if r2 = - 1 then Inr (Main_ret 0, p2)
     else if \<not> mn_log a then Inr (Main_ret 0, p2)
     else rbind (set_title a s) (\<lambda>_.
       case master_init L ds (mn_init a) p2 t of (r3, p3, _) \<Rightarrow>
       if r3 = - 1 then Inr (Main_ret 0, p3)
       else run_master inet_pton inet_addr L S n serv_init serv_fini a p3)))"

end
