(* ===== verification/Entry_Inv.thy ===== *)
theory Entry_Inv
  imports Dispatch
begin

text \<open>
  The interface (\<open>entry_inv\<close>) under which the operations on one entry of the connection table keep a predicate on the state.
\<close>

section \<open>What a predicate on the state needs, to be kept by the operations on one entry\<close>

text \<open>
  An interface between a predicate \<open>I\<close> on processes and the operations on the entry \<open>fd\<close>: \<open>I\<close> does not depend on the
  answers of the kernel, the counters and the trace; it is kept by pushing a block to a receive queue, by changes of the entry that leave its flag,
  type and descriptor alone, or that are made while the entry is detached (\<open>D\<close>, which taking it off the two lists gives);
  and by the operations on the lists, for adding to them if the entry is ready for that (\<open>R\<close>).
\<close>

definition same_id :: "fd_wrap \<Rightarrow> fd_wrap \<Rightarrow> bool" where
  "same_id w w' \<longleftrightarrow> w_flag w' = w_flag w \<and> w_type w' = w_type w \<and> w_fd w' = w_fd w"

lemma raw2blk_type: "raw2blk fd p = Inr b \<Longrightarrow> blk_type b \<noteq> blk_code BLK_ALIGN"
  by (auto simp: raw2blk_def rbind_Inr_iff)

lemma push_rq_length: "(\<And>ws. length ws = length (p_works p) \<Longrightarrow> I (p\<lparr>p_works := ws\<rparr>)) \<Longrightarrow> sat (\<lambda>(r, p1). I p1) (push_rq i b d p)"
  by (auto simp: sat_def push_rq_def upd_work_def rbind_Inr_iff)

locale entry_inv =
  fixes L :: "'l nlist" and S :: "('l, 'h) proc serv_if" and fd :: int and I :: "('l, 'h) proc \<Rightarrow> bool"
    and D :: "('l, 'h) proc \<Rightarrow> bool" and R :: "('l, 'h) proc \<Rightarrow> bool"
  assumes keep_io:
      "I p \<Longrightarrow> I (p\<lparr>p_recvs := rs\<rparr>)" "I p \<Longrightarrow> I (p\<lparr>p_sends := ss\<rparr>)" "I p \<Longrightarrow> I (p\<lparr>p_ctls := cs\<rparr>)"
      "I p \<Longrightarrow> I (p\<lparr>p_allocs := al\<rparr>)" "I p \<Longrightarrow> I (eff e p)"
      "I p \<Longrightarrow> I (p\<lparr>p_count := c\<rparr>)" "I p \<Longrightarrow> I (p\<lparr>p_maxfd := mx\<rparr>)"
    and keep_push: "I p \<Longrightarrow> blk_type b \<noteq> blk_code BLK_ALIGN \<Longrightarrow> sat (\<lambda>(r, p1). I p1) (push_rq i b d p)"
    and keep_entry: "I p \<Longrightarrow> valid_fd p fd \<Longrightarrow> same_id (wrap_of p fd) w \<Longrightarrow> I (p\<lparr>p_fds := (p_fds p)[nat fd := w]\<rparr>)"
    and keep_detached: "D p \<Longrightarrow> valid_fd p fd \<Longrightarrow> same_id (wrap_of p fd) w \<Longrightarrow> D (p\<lparr>p_fds := (p_fds p)[nat fd := w]\<rparr>)"
      "D p \<Longrightarrow> D (eff e p)"
    and keep_retype: "I p \<Longrightarrow> valid_fd p fd \<Longrightarrow> D p \<Longrightarrow>
      I (p\<lparr>p_fds := (p_fds p)[nat fd := (wrap_of p fd)\<lparr>w_type := fd_type_null\<rparr>]\<rparr>)"
    and keep_ready: "R p \<Longrightarrow> valid_fd p fd \<Longrightarrow> same_id (wrap_of p fd) w \<Longrightarrow> R (p\<lparr>p_fds := (p_fds p)[nat fd := w]\<rparr>)"
      "R p \<Longrightarrow> R (eff e p)" "R p \<Longrightarrow> R (p\<lparr>p_recvs := rs\<rparr>)" "R p \<Longrightarrow> R (p\<lparr>p_allocs := al\<rparr>)"
    and keep_add_read: "I p \<Longrightarrow> R p \<Longrightarrow> sat I (do_add_to_readlist L fd p)"
    and keep_del_read: "I p \<Longrightarrow> sat (\<lambda>p1. I p1) (do_del_from_readlist L fd p)"
    and keep_del_close: "I p \<Longrightarrow> sat (\<lambda>p1. I p1) (do_del_from_closelist L fd p)"
    and del_both: "I p \<Longrightarrow> do_del_from_readlist L fd p = Inr p1 \<Longrightarrow> do_del_from_closelist L fd p1 = Inr p2 \<Longrightarrow> D p2"
begin

lemma upd_entry: "I p \<Longrightarrow> (\<And>w. same_id w (f w)) \<Longrightarrow> sat I (upd_fdw fd f p)"
  by (auto simp: upd_fdw_def fdw_Inr_iff intro!: sat_bind_any keep_entry)

lemma upd_buffer: "I p \<Longrightarrow> sat I (upd_buff fd f p)"
  unfolding upd_buff_def by (erule upd_entry) (simp add: same_id_def)

lemma next_alloc_inv: "I p \<Longrightarrow> sat (\<lambda>(r, p1). I p1) (next_alloc p)"
  by (auto simp: next_alloc_def intro: keep_io split: list.splits)

lemma next_ctl_inv: "I p \<Longrightarrow> sat (\<lambda>(r, p1). I p1) (next_ctl p)"
  by (auto simp: next_ctl_def intro: keep_io split: list.splits)

lemma mod_fd_inv: "I p \<Longrightarrow> I (mod_fd_to_epinfo k ev p)"
  by (simp add: mod_fd_to_epinfo_def keep_io)

lemma free_buff_inv: "I p \<Longrightarrow> sat I (free_buff fd p)"
  unfolding free_buff_def by (rule sat_bind_any, rule sat_bind[OF upd_buffer]) (auto intro: keep_io)

end

context entry_inv
begin

lemma free_buff_detached: "free_buff fd p = Inr p1 \<Longrightarrow> D p \<Longrightarrow> valid_fd p1 fd \<and> D p1"
  by (auto simp: free_buff_def upd_buff_def upd_fdw_def rbind_Inr_iff fdw_Inr_iff same_id_def intro!: keep_detached)

lemma close_null_inv: "I p \<Longrightarrow> D p \<Longrightarrow>
    sat (\<lambda>(r, p1). I p1) (rbind (free_buff fd p) (\<lambda>p4. rbind (upd_fdw fd (\<lambda>w. w\<lparr>w_type := fd_type_null\<rparr>) p4) (\<lambda>p5.
       let p6 = (eff (EClose fd) p5)\<lparr>p_count := p_count p5 - 1\<rparr> in
       Inr (0, if p_maxfd p6 = fd then p6\<lparr>p_maxfd := prev_null (p_fds p6) (nat fd)\<rparr> else p6))))"
proof (rule sat_bind_any)
  fix p4 assume I: "I p" "D p" and p4: "free_buff fd p = Inr p4"
  have v: "valid_fd p4 fd" "D p4" using free_buff_detached[OF p4] I by auto
  have "I p4" using satD[OF free_buff_inv[OF I(1)] p4] .
  then have "I (p4\<lparr>p_fds := (p_fds p4)[nat fd := (wrap_of p4 fd)\<lparr>w_type := fd_type_null\<rparr>]\<rparr>)"
    using v by (rule keep_retype)
  then show "sat (\<lambda>(r, p1). I p1) (rbind (upd_fdw fd (\<lambda>w. w\<lparr>w_type := fd_type_null\<rparr>) p4) (\<lambda>p5.
       let p6 = (eff (EClose fd) p5)\<lparr>p_count := p_count p5 - 1\<rparr> in
       Inr (0, if p_maxfd p6 = fd then p6\<lparr>p_maxfd := prev_null (p_fds p6) (nat fd)\<rparr> else p6)))"
    using v(1) by (auto simp: Let_def intro!: keep_io)
qed

lemma close_any_inv:
  assumes I: "I p" and m: "\<And>f. m = 0 \<Longrightarrow> so_on_serv_closed S = Some f \<Longrightarrow> sat I (f fd p)"
  shows "sat (\<lambda>(r, p1). I p1) (do_fd_close L S fd m p)"
proof -
  have notify: "sat I (if m \<noteq> 0 then rbind (push_rq i b d p) (\<lambda>(_, p1). Inr p1)
    else (case so_on_serv_closed S of None \<Rightarrow> Inr p | Some f \<Rightarrow> f fd p))" if "blk_type b = blk_code BLK_CLOSE" for i b d
    using m I that by (auto intro: sat_bind[OF keep_push[OF I]] split: option.splits)
  have tail: "sat (\<lambda>(r, p1). I p1) (rbind (do_del_from_readlist L fd p1) (\<lambda>p2. rbind (do_del_from_closelist L fd p2) (\<lambda>p3.
       rbind (free_buff fd p3) (\<lambda>p4. rbind (upd_fdw fd (\<lambda>w. w\<lparr>w_type := fd_type_null\<rparr>) p4) (\<lambda>p5.
       let p6 = (eff (EClose fd) p5)\<lparr>p_count := p_count p5 - 1\<rparr> in
       Inr (0, if p_maxfd p6 = fd then p6\<lparr>p_maxfd := prev_null (p_fds p6) (nat fd)\<rparr> else p6))))))" if "I p1" for p1
  proof (rule sat_bind_any, rule sat_bind_any)
    fix p2 p3 assume s: "do_del_from_readlist L fd p1 = Inr p2" "do_del_from_closelist L fd p2 = Inr p3"
    have "I p3" using satD[OF keep_del_close s(2)] satD[OF keep_del_read s(1)] that by simp
    then show "sat (\<lambda>(r, p1). I p1) (rbind (free_buff fd p3) (\<lambda>p4. rbind (upd_fdw fd (\<lambda>w. w\<lparr>w_type := fd_type_null\<rparr>) p4) (\<lambda>p5.
       let p6 = (eff (EClose fd) p5)\<lparr>p_count := p_count p5 - 1\<rparr> in
       Inr (0, if p_maxfd p6 = fd then p6\<lparr>p_maxfd := prev_null (p_fds p6) (nat fd)\<rparr> else p6))))"
      by (rule close_null_inv) (rule del_both[OF that s])
  qed
  show ?thesis
    unfolding do_fd_close_def
    by (rule sat_bind_any, rule sat_if, simp add: I, rule sat_bind[OF notify], simp, rule tail)
qed

lemma close_inv: "I p \<Longrightarrow> m \<noteq> 0 \<Longrightarrow> sat (\<lambda>(r, p1). I p1) (do_fd_close L S fd m p)"
  by (rule close_any_inv) simp_all

lemma write_inv: "I p \<Longrightarrow> sat (\<lambda>(r, p1). I p1) (do_fd_write fd p)"
  unfolding do_fd_write_def
  by (rule sat_bind_any, rule sat_let, rule sat_bind_any, rule sat_prod, rule sat_prod, rule sat_let, rule sat_if,
      rule sat_bind[OF upd_buffer]) (auto intro: keep_io)

lemma upd_buff_ready: "R p \<Longrightarrow> upd_buff fd f p = Inr p1 \<Longrightarrow> R p1"
  by (auto simp: upd_buff_def upd_fdw_def rbind_Inr_iff fdw_Inr_iff same_id_def intro!: keep_ready)

lemma map_rbf_inv: "I p \<Longrightarrow> R p \<Longrightarrow> sat (\<lambda>(r, p1). I p1 \<and> R p1) (map_rbf n fd p)"
  unfolding map_rbf_def
proof (rule sat_bind_any, rule sat_if, rule sat_bind_any, rule sat_prod, rule sat_bind_any)
  fix w x a p1 p2
  assume I: "I p" "R p" and x: "next_alloc p = Inr x" "x = (a, p1)"
    and p2: "upd_buff fd (\<lambda>b. b\<lparr>msglen := 0, rlen := 0, rbf := Some (if a then replicate (nat n) 0 else [])\<rparr>) p1 = Inr p2"
  have "I p1 \<and> R p1" using I x by (auto simp: next_alloc_def intro: keep_io keep_ready split: list.splits)
  then have "I p2 \<and> R p2" using satD[OF upd_buffer p2] upd_buff_ready[OF _ p2] by simp
  then show "sat (\<lambda>(r, p1). I p1 \<and> R p1) (Inr (a, if a then eff (EMmap n) p2 else p2))" by (auto intro: keep_io keep_ready)
qed simp

lemma recv_more_inv: "I p \<Longrightarrow> R p \<Longrightarrow> sat (\<lambda>(r, p1). I p1) (recv_more L cap fd p)"
  unfolding recv_more_def
proof (rule sat_bind_any, rule sat_let, rule sat_if, simp, rule sat_bind_any, rule sat_prod, rule sat_prod, rule sat_bind_any,
    rule sat_bind_any, rule sat_if)
  fix b got x r y bs rest rb p2
  assume I: "I p" "R p" and p2: "upd_buff fd (\<lambda>b. b\<lparr>rbf := Some rb\<rparr>) (p\<lparr>p_recvs := rest\<rparr>) = Inr p2"
  have I2: "I p2" "R p2" using satD[OF upd_buffer p2] upd_buff_ready[OF _ p2] I by (auto intro: keep_io keep_ready)
  then show "sat (\<lambda>(r, p1). I p1) (Inr (- 1, p2))" by simp
  show "sat (\<lambda>(r, p1). I p1) (rbind (cint (rlen b + r)) (\<lambda>rl. rbind (upd_buff fd (\<lambda>b. b\<lparr>rlen := rl\<rparr>) p2) (\<lambda>p3.
         rbind (if rl = cap then do_add_to_readlist L fd p3 else do_del_from_readlist L fd p3) (\<lambda>p4. Inr (r, p4)))))"
  proof (rule sat_bind_any, rule sat_bind_any)
    fix rl p3 assume p3: "upd_buff fd (\<lambda>b. b\<lparr>rlen := rl\<rparr>) p2 = Inr p3"
    have "I p3" "R p3" using satD[OF upd_buffer p3] upd_buff_ready[OF _ p3] I2 by auto
    then have "sat I (if rl = cap then do_add_to_readlist L fd p3 else do_del_from_readlist L fd p3)"
      by (auto intro: keep_add_read keep_del_read)
    then show "sat (\<lambda>(r, p1). I p1)
       (rbind (if rl = cap then do_add_to_readlist L fd p3 else do_del_from_readlist L fd p3) (\<lambda>p4. Inr (r, p4)))"
      by (rule sat_bind) simp
  qed
qed

lemma read_inv: "I p \<Longrightarrow> R p \<Longrightarrow> sat (\<lambda>(r, p1). I p1) (handle_read L fd p)"
  unfolding handle_read_def
  by (rule sat_bind[OF map_rbf_inv], assumption+, rule sat_prod, rule sat_if) (auto intro: recv_more_inv)

lemma get_length_inv: "I p \<Longrightarrow> sat I (get_length S kind fd off p)"
  unfolding get_length_def
  by (rule sat_bind_any, rule sat_let, rule sat_if, rule sat_bind_any, rule sat_bind_any, rule upd_buffer) simp_all

lemma consume_inv: "I p \<Longrightarrow> sat (\<lambda>(r, p1). I p1) (consume fd off p)"
  unfolding consume_def
  by (rule sat_bind_any, rule sat_let, rule sat_bind_any, rule sat_bind[OF upd_buffer]) simp_all

lemma keep_rest_inv: "I p \<Longrightarrow> sat I (keep_rest fd off p)"
  unfolding keep_rest_def
  by (rule sat_bind_any, rule sat_let, rule sat_if, rule sat_bind_any, rule sat_bind_any, rule sat_bind_any, rule upd_buffer) simp_all

lemma push_again_inv: "I p \<Longrightarrow> sat (\<lambda>(r, p1). I p1) (push_again S n fd off p)"
proof (induction n arbitrary: off p)
  case (Suc n)
  show ?case
    unfolding push_again.simps
    by (rule sat_bind[OF get_length_inv[OF Suc.prems]], rule sat_bind_any, rule sat_let, rule sat_if, rule sat_bind_any,
        rule sat_bind_any, rule sat_bind[OF keep_push], assumption, erule raw2blk_type, rule sat_prod, rule sat_if, simp,
        rule sat_bind[OF consume_inv], simp, rule sat_prod, rule sat_bind_any, rule sat_if) (auto intro: Suc.IH)
qed simp

lemma cli_inv: "I p \<Longrightarrow> R p \<Longrightarrow> sat (\<lambda>(r, p1). I p1) (handle_cli L S n fd p)"
  unfolding handle_cli_def
  by (rule sat_bind[OF read_inv], assumption+, rule sat_prod, rule sat_if, simp, rule sat_bind[OF push_again_inv], simp,
      rule sat_prod, rule sat_option, simp, rule sat_bind[OF keep_rest_inv]) simp_all

lemma map_rbf_any_inv: "I p \<Longrightarrow> sat (\<lambda>(r, p1). I p1) (map_rbf n fd p)"
  unfolding map_rbf_def
  by (rule sat_bind_any, rule sat_if, rule sat_bind[OF next_alloc_inv], assumption, rule sat_prod,
      rule sat_bind[OF upd_buffer]) (auto intro: keep_io)

lemma pipe_inv: "I p \<Longrightarrow> sat (\<lambda>(r, p1). I p1) (handle_pipe fd p)"
  unfolding handle_pipe_def
  by (rule sat_let, rule sat_bind[OF map_rbf_any_inv], assumption+, rule sat_prod, rule sat_if) (auto intro: keep_io)

lemma flush_inv: "I p \<Longrightarrow> sat (\<lambda>(r, p1). I p1) (flush_pending L S fd p)"
  unfolding flush_pending_def
  by (rule sat_bind_any, rule sat_if, rule sat_bind[OF write_inv], assumption, rule sat_prod, rule sat_if,
      rule sat_bind[OF close_inv]) auto

lemma send_direct_inv: "I p \<Longrightarrow> sat (\<lambda>(r, p1). I p1) (send_direct L S fd data len p)"
  unfolding send_direct_def
  by (rule sat_bind_any, rule sat_if, rule sat_bind_any, rule sat_prod, rule sat_prod, rule sat_let, rule sat_if,
      rule sat_bind[OF close_inv]) (auto intro: keep_io)

lemma grow_inv: "I p \<Longrightarrow> sat (\<lambda>(r, p1). I p1) (grow_sbf fd n p)"
  unfolding grow_sbf_def
  by (rule sat_bind_any, rule sat_let, rule sat_option, rule sat_bind[OF next_alloc_inv], assumption, rule sat_prod, rule sat_if,
      rule sat_bind[OF upd_buffer], simp, simp, rule sat_bind[OF upd_buffer], simp, simp, rule sat_bind_any, rule sat_if,
      rule sat_bind[OF next_alloc_inv], assumption, rule sat_prod, rule sat_if, rule sat_bind[OF upd_buffer], simp, simp,
      rule sat_bind[OF upd_buffer]) simp_all

lemma buff_rest_inv: "I p \<Longrightarrow> sat (\<lambda>(r, p1). I p1) (buff_rest fd left p)"
  unfolding buff_rest_def
  by (rule sat_bind[OF grow_inv], assumption, rule sat_prod, rule sat_option, rule sat_bind_any, rule sat_let, rule sat_option,
      simp, rule sat_bind_any, rule sat_bind_any, rule sat_bind[OF upd_buffer]) simp_all

lemma queue_rest_inv: "I p \<Longrightarrow> sat (\<lambda>(r, p1). I p1) (queue_rest L S fd data len n p)"
  unfolding queue_rest_def
  by (rule sat_if, rule sat_bind_any, rule sat_bind[OF buff_rest_inv], assumption, rule sat_prod, rule sat_option, rule sat_bind_any,
      rule sat_if, rule sat_bind[OF close_inv]) auto

lemma set_events_inv: "I p \<Longrightarrow> sat (\<lambda>(r, p1). I p1) (set_events fd b p)"
  unfolding set_events_def by (rule sat_bind_any) (auto intro: mod_fd_inv)

lemma send_inv: "I p \<Longrightarrow> sat (\<lambda>(r, p1). I p1) (do_fd_send L S fd data len p)"
  unfolding do_fd_send_def
  by (rule sat_bind[OF flush_inv], assumption, rule sat_prod, rule sat_option, simp, rule sat_bind[OF send_direct_inv], simp,
      rule sat_prod, rule sat_option, simp, rule sat_bind[OF queue_rest_inv], simp, rule sat_prod, rule sat_option, simp)
    (auto intro: set_events_inv)

lemma write_event_inv: "I p \<Longrightarrow> m \<noteq> 0 \<Longrightarrow> sat I (write_event L S m fd p)"
  unfolding write_event_def
proof (rule sat_bind_any, rule sat_bind)
  fix w assume I: "I p" "m \<noteq> 0"
  show "sat I (if slen (w_buff w) > 0 then rbind (do_fd_write fd p) (\<lambda>(r, p1).
      if r = - 1 then rbind (do_fd_close L S fd m p1) (\<lambda>(_, p2). Inr p2) else Inr p1) else Inr p)"
    by (rule sat_if, rule sat_bind[OF write_inv[OF I(1)]], rule sat_prod, rule sat_if, rule sat_bind[OF close_inv]) (auto simp: I)
qed (auto intro!: sat_bind_any mod_fd_inv)

end

end
