(* ===== verification/Master_Lists.thy ===== *)
theory Master_Lists
  imports Entry_Inv
begin

text \<open>
  The lists of connections are sound through all the master does: the interface \<open>entry_inv\<close> interpreted for the invariant of
  the lists and for what stays open, and the invariant followed through the loop.
\<close>

section \<open>The lists of the master\<close>

text \<open>
  The invariant: the lists and the flags agree (\<open>cache_ok\<close>), only an open descriptor has a flag, and the entry of a client
  holds its own number.
\<close>

definition ids_ok :: "('l, 'h) proc \<Rightarrow> bool" where
  "ids_ok p \<longleftrightarrow> (\<forall>fd. valid_fd p fd \<longrightarrow> (w_flag (wrap_of p fd) \<noteq> 0 \<longrightarrow> open_fd p fd) \<and>
     (w_type (wrap_of p fd) = fd_type_cli \<longrightarrow> w_fd (wrap_of p fd) = fd))"

definition lists_ok :: "'l nlist \<Rightarrow> ('l, 'h) proc \<Rightarrow> bool" where
  "lists_ok L p \<longleftrightarrow> nlist_laws L \<and> cache_ok L p \<and> ids_ok p"

lemma wrap_upd:
  "valid_fd p fd \<Longrightarrow> valid_fd p k \<Longrightarrow> (p_fds p)[nat fd := w] ! nat k = (if k = fd then w else wrap_of p k)"
  by (auto simp: valid_fd_def)

lemma ids_ok_entry:
  assumes "ids_ok p" and "valid_fd p fd" and "same_id (wrap_of p fd) w \<or> (w_flag w = 0 \<and> (w_type w = fd_type_cli \<longrightarrow> w_fd w = fd))"
  shows "ids_ok (p\<lparr>p_fds := (p_fds p)[nat fd := w]\<rparr>)"
  using assms by (auto simp: ids_ok_def open_fd_def same_id_def wrap_upd)

lemma ids_ok_flag:
  assumes "ids_ok p" and "valid_fd p fd" and "same_but_flag fd p p1" and "w_flag (wrap_of p1 fd) \<noteq> 0 \<Longrightarrow> open_fd p fd"
  shows "ids_ok p1"
proof -
  obtain l fl where p1: "p1 = p\<lparr>p_links := l, p_fds := (p_fds p)[nat fd := (wrap_of p fd)\<lparr>w_flag := fl\<rparr>]\<rparr>"
    using assms(3) by (auto simp: same_but_flag_def)
  have "valid_fd p1 k = valid_fd p k" for k by (simp add: p1 valid_fd_def)
  then show ?thesis using assms(1,2,4) by (auto simp: p1 ids_ok_def open_fd_def wrap_upd)
qed

lemma cache_ok_entry: "cache_ok L p \<Longrightarrow> valid_fd p fd \<Longrightarrow> w_flag w = w_flag (wrap_of p fd) \<Longrightarrow>
    cache_ok L (p\<lparr>p_fds := (p_fds p)[nat fd := w]\<rparr>)"
  using cache_ok_cong(1)[of "p\<lparr>p_fds := (p_fds p)[nat fd := w]\<rparr>" p L] by (simp add: flag_update)

lemma lists_ok_entry:
  assumes "lists_ok L p" and "valid_fd p fd" and "w_flag w = w_flag (wrap_of p fd)"
    and "same_id (wrap_of p fd) w \<or> (w_flag w = 0 \<and> (w_type w = fd_type_cli \<longrightarrow> w_fd w = fd))"
  shows "lists_ok L (p\<lparr>p_fds := (p_fds p)[nat fd := w]\<rparr>)"
  using assms by (auto simp: lists_ok_def intro: ids_ok_entry cache_ok_entry)

lemma lists_ok_io:
  assumes "lists_ok L p" and "p_fds q = p_fds p" and "p_links q = p_links p"
  shows "lists_ok L q"
proof -
  have "cache_ok L q" using assms cache_ok_cong(1)[of q p L] by (simp add: lists_ok_def)
  then show ?thesis using assms by (simp add: lists_ok_def ids_ok_def open_fd_def valid_fd_def)
qed

lemma lists_ok_add_read:
  assumes "lists_ok L p" and "open_fd p fd" shows "sat (lists_ok L) (do_add_to_readlist L fd p)"
proof -
  have v: "valid_fd p fd" using assms(2) by (simp add: open_fd_def)
  obtain p1 where p1: "do_add_to_readlist L fd p = Inr p1" "cache_ok L p1" "same_but_flag fd p p1"
    using add_read.upd_law[of L p fd] assms(1) v by (auto simp: lists_ok_def)
  then show ?thesis using assms v ids_ok_flag[OF _ v p1(3)] by (simp add: lists_ok_def)
qed

lemma lists_ok_del:
  assumes "lists_ok L p" and v: "valid_fd p fd" and c: "cache_ok L p1" and f: "same_but_flag fd p p1"
    and sub: "set (fst (cache L p1)) \<subseteq> set (fst (cache L p))" "set (snd (cache L p1)) \<subseteq> set (snd (cache L p))"
  shows "lists_ok L p1"
proof -
  have v1: "valid_fd p1 fd" using v f by (auto simp: same_but_flag_def valid_fd_def)
  have "w_flag (wrap_of p1 fd) \<noteq> 0 \<Longrightarrow> open_fd p fd"
    using flag_tests(1)[OF c v1] flag_tests(1)[of L p fd] assms(1) v sub by (auto simp: lists_ok_def ids_ok_def)
  then show ?thesis using assms ids_ok_flag[OF _ v f] by (simp add: lists_ok_def)
qed

lemma lists_ok_del_read:
  assumes "lists_ok L p" shows "sat (\<lambda>p1. lists_ok L p1 \<and> valid_fd p1 fd \<and> Node fd \<notin> set (fst (cache L p1))) (do_del_from_readlist L fd p)"
proof (cases "valid_fd p fd")
  case True
  obtain p1 where p1: "do_del_from_readlist L fd p = Inr p1" "cache_ok L p1" "same_but_flag fd p p1" "cache L p1 = del_read fd (cache L p)"
    using del_read.upd_law[of L p fd] assms True by (auto simp: lists_ok_def)
  have "lists_ok L p1" using lists_ok_del[OF assms True p1(2,3)] p1(4) by (cases "cache L p") auto
  moreover have "valid_fd p1 fd" using True p1(3) by (auto simp: same_but_flag_def valid_fd_def)
  ultimately show ?thesis using p1(1,4) by (cases "cache L p") auto
next
  case False
  then have "fdw p fd = Inl OutOfBounds" by (auto simp: fdw_def valid_fd_def)
  then show ?thesis by (simp add: do_del_from_readlist_def)
qed

lemma lists_ok_del_close:
  assumes "lists_ok L p"
  shows "sat (\<lambda>p1. lists_ok L p1 \<and> (Node fd \<notin> set (fst (cache L p)) \<longrightarrow> w_flag (wrap_of p1 fd) = 0)) (do_del_from_closelist L fd p)"
proof (cases "valid_fd p fd")
  case True
  obtain p1 where p1: "do_del_from_closelist L fd p = Inr p1" "cache_ok L p1" "same_but_flag fd p p1" "cache L p1 = del_close fd (cache L p)"
    using del_close.upd_law[of L p fd] assms True by (auto simp: lists_ok_def)
  have l: "lists_ok L p1" using lists_ok_del[OF assms True p1(2,3)] p1(4) by (cases "cache L p") auto
  have "valid_fd p1 fd" using True p1(3) by (auto simp: same_but_flag_def valid_fd_def)
  from flag_tests(1)[OF p1(2) this] show ?thesis using p1(1,4) l by (cases "cache L p") auto
next
  case False
  then have "fdw p fd = Inl OutOfBounds" by (auto simp: fdw_def valid_fd_def)
  then show ?thesis by (simp add: do_del_from_closelist_def)
qed

lemma push_lists: "lists_ok L p \<Longrightarrow> sat (\<lambda>(r, p1). lists_ok L p1) (push_rq i b d p)"
  by (rule push_rq_length[where I = "lists_ok L"], erule lists_ok_io) simp_all

interpretation lists: entry_inv L S fd "lists_ok L" "\<lambda>p. w_flag (wrap_of p fd) = 0" "\<lambda>p. open_fd p fd" for L S fd
proof unfold_locales
  fix p :: "('a, 'b) proc" and p1 p2
  assume "lists_ok L p" "do_del_from_readlist L fd p = Inr p1" "do_del_from_closelist L fd p1 = Inr p2"
  then show "w_flag (wrap_of p2 fd) = 0"
    using satD[OF lists_ok_del_read] satD[OF lists_ok_del_close] by blast
qed (auto intro: push_lists lists_ok_io lists_ok_entry lists_ok_add_read sat_mono[OF lists_ok_del_read] sat_mono[OF lists_ok_del_close]
  simp: same_id_def valid_fd_def open_fd_def)

text \<open>The same interface gives that an operation on one entry leaves the other descriptors open.\<close>

lemma open_fd_entry: "valid_fd p fd \<Longrightarrow> fd \<noteq> j \<Longrightarrow> open_fd (p\<lparr>p_fds := (p_fds p)[nat fd := w]\<rparr>) j = open_fd p j"
  by (auto simp: open_fd_def wrap_upd)

lemma open_fd_cong: "p_fds q = p_fds p \<Longrightarrow> open_fd q j = open_fd p j"
  by (simp add: open_fd_def valid_fd_def)

lemma open_fd_flag: "same_but_flag fd p p1 \<Longrightarrow> valid_fd p fd \<Longrightarrow> fd \<noteq> j \<Longrightarrow> open_fd p1 j = open_fd p j"
  by (auto simp: same_but_flag_def open_fd_def wrap_upd)

lemma list_ops_open:
  assumes "lists_ok L p" and "fd \<noteq> j"
  shows "sat (\<lambda>p1. open_fd p1 j = open_fd p j) (do_add_to_readlist L fd p)"
    "sat (\<lambda>p1. open_fd p1 j = open_fd p j) (do_del_from_readlist L fd p)"
    "sat (\<lambda>p1. open_fd p1 j = open_fd p j) (do_del_from_closelist L fd p)"
  using assms(2) open_fd_entry[of p fd j] open_fd_cong
  by (auto simp: do_add_to_readlist_def do_del_from_readlist_def do_del_from_closelist_def fdw_Inr_iff open_fd_def wrap_upd
      intro!: sat_bind_any)

interpretation other: entry_inv L S fd "\<lambda>p. lists_ok L p \<and> fd \<noteq> j \<and> open_fd p j" "\<lambda>p. w_flag (wrap_of p fd) = 0" "\<lambda>p. open_fd p fd"
  for L S fd j
proof unfold_locales
  fix p :: "('a, 'b) proc"
  assume I: "lists_ok L p \<and> fd \<noteq> j \<and> open_fd p j"
  show "open_fd p fd \<Longrightarrow> sat (\<lambda>p. lists_ok L p \<and> fd \<noteq> j \<and> open_fd p j) (do_add_to_readlist L fd p)"
    using I lists.keep_add_read[of L p fd] list_ops_open(1)[of L p fd j] by (auto simp: sat_def)
  show "sat (\<lambda>p. lists_ok L p \<and> fd \<noteq> j \<and> open_fd p j) (do_del_from_readlist L fd p)"
    using I lists.keep_del_read[of L p fd] list_ops_open(2)[of L p fd j] by (auto simp: sat_def)
  show "sat (\<lambda>p. lists_ok L p \<and> fd \<noteq> j \<and> open_fd p j) (do_del_from_closelist L fd p)"
    using I lists.keep_del_close[of L p fd] list_ops_open(3)[of L p fd j] by (auto simp: sat_def)
  fix p1 p2
  show "do_del_from_readlist L fd p = Inr p1 \<Longrightarrow> do_del_from_closelist L fd p1 = Inr p2 \<Longrightarrow> w_flag (wrap_of p2 fd) = 0"
    using I lists.del_both by blast
  show "sat (\<lambda>(r, p). lists_ok L p \<and> fd \<noteq> j \<and> open_fd p j) (push_rq i b d p)" for i b d
    by (rule push_rq_length[where I = "\<lambda>p. lists_ok L p \<and> fd \<noteq> j \<and> open_fd p j"])
      (use I in \<open>auto intro: lists_ok_io simp: open_fd_def valid_fd_def\<close>)
qed (auto intro: lists.keep_io lists.keep_entry lists.keep_retype simp: open_fd_entry, auto simp: open_fd_def valid_fd_def same_id_def)

section \<open>Steps of the master\<close>

text \<open>A step keeps the invariant and closes no descriptor outside \<open>X\<close>.\<close>

definition lists_step :: "'l nlist \<Rightarrow> int set \<Rightarrow> ('l, 'h) proc \<Rightarrow> ('l, 'h) proc \<Rightarrow> bool" where
  "lists_step L X p p1 \<longleftrightarrow> lists_ok L p1 \<and> (\<forall>j. j \<notin> X \<longrightarrow> open_fd p j \<longrightarrow> open_fd p1 j)"

lemma lists_step_refl: "lists_ok L p \<Longrightarrow> lists_step L X p p"
  by (simp add: lists_step_def)

lemma lists_step_trans: "lists_step L X p q \<Longrightarrow> lists_step L Y q r \<Longrightarrow> X \<union> Y \<subseteq> Z \<Longrightarrow> lists_step L Z p r"
  unfolding lists_step_def by blast

lemma sat_step:
  assumes "sat (\<lambda>(r, p1). lists_ok L p1) m" and "\<And>j. fd \<noteq> j \<Longrightarrow> open_fd p j \<Longrightarrow> sat (\<lambda>(r, p1). lists_ok L p1 \<and> fd \<noteq> j \<and> open_fd p1 j) m"
  shows "sat (\<lambda>(r, p1). lists_step L {fd} p p1) m"
  using assms unfolding sat_def lists_step_def by (auto split: prod.splits) 

lemma sat_step1:
  assumes "sat (lists_ok L) m" and "\<And>j. fd \<noteq> j \<Longrightarrow> open_fd p j \<Longrightarrow> sat (\<lambda>p1. lists_ok L p1 \<and> fd \<noteq> j \<and> open_fd p1 j) m"
  shows "sat (lists_step L {fd} p) m"
  using assms unfolding sat_def lists_step_def by auto

lemma close_step: "lists_ok L p \<Longrightarrow> m \<noteq> 0 \<Longrightarrow> sat (\<lambda>(r, p1). lists_step L {fd} p p1) (do_fd_close L S fd m p)"
  by (rule sat_step, rule lists.close_inv, assumption+, rule other.close_inv) simp_all

lemma write_step: "lists_ok L p \<Longrightarrow> sat (\<lambda>(r, p1). lists_step L {fd} p p1) (do_fd_write fd p)"
  by (rule sat_step, rule lists.write_inv, assumption, rule other.write_inv) simp

lemma send_step: "lists_ok L p \<Longrightarrow> sat (\<lambda>(r, p1). lists_step L {fd} p p1) (do_fd_send L S fd d n p)"
  by (rule sat_step, rule lists.send_inv, assumption, rule other.send_inv) simp

lemma pipe_step: "lists_ok L p \<Longrightarrow> sat (\<lambda>(r, p1). lists_step L {fd} p p1) (handle_pipe fd p)"
  by (rule sat_step, rule lists.pipe_inv, assumption, rule other.pipe_inv) simp

lemma cli_step: "lists_ok L p \<Longrightarrow> open_fd p fd \<Longrightarrow> sat (\<lambda>(r, p1). lists_step L {fd} p p1) (handle_cli L S n fd p)"
  by (rule sat_step, rule lists.cli_inv, assumption+, rule other.cli_inv) simp_all

lemma write_event_step: "lists_ok L p \<Longrightarrow> m \<noteq> 0 \<Longrightarrow> sat (lists_step L {fd} p) (write_event L S m fd p)"
  by (rule sat_step1, rule lists.write_event_inv, assumption+, rule other.write_event_inv) simp_all

lemma step_io: "lists_ok L p \<Longrightarrow> p_fds q = p_fds p \<Longrightarrow> p_links q = p_links p \<Longrightarrow> lists_step L X p q"
  unfolding lists_step_def using lists_ok_io[of L p q] open_fd_cong[of q p] by blast

lemma step_io_trans: "lists_step L X p q \<Longrightarrow> p_fds r = p_fds q \<Longrightarrow> p_links r = p_links q \<Longrightarrow> lists_step L X p r"
  unfolding lists_step_def using lists_ok_io[of L q r] open_fd_cong[of r q] by blast

text \<open>Closing after a failure, as the loops do it.\<close>

lemma close_after_step:
  assumes "sat (\<lambda>(r, p1). lists_step L {fd} p p1) op" and "m \<noteq> 0"
  shows "sat (lists_step L {fd} p) (rbind op (\<lambda>(r, p1).
    if r = - 1 then rbind (do_fd_close L S fd m p1) (\<lambda>(_, p2). Inr p2) else Inr p1))"
proof (rule sat_bind[OF assms(1)], clarify)
  fix r p1 assume s: "lists_step L {fd} p p1"
  then have "sat (\<lambda>(r, p2). lists_step L {fd} p1 p2) (do_fd_close L S fd m p1)"
    using assms(2) by (intro close_step) (simp_all add: lists_step_def)
  then have "sat (lists_step L {fd} p) (rbind (do_fd_close L S fd m p1) (\<lambda>(_, p2). Inr p2))"
    by (rule sat_bind) (use s in \<open>auto intro: lists_step_trans\<close>)
  then show "sat (lists_step L {fd} p) (if r = - 1 then rbind (do_fd_close L S fd m p1) (\<lambda>(_, p2). Inr p2) else Inr p1)"
    using s by simp
qed

lemma blk_send_step: "lists_ok L p \<Longrightarrow> sat (\<lambda>(r, p1). lists_step L {blk_fd b} p p1) (do_blk_send L S b d p)"
  unfolding do_blk_send_def by (rule sat_if, rule sat_bind[OF close_step]) (auto intro: send_step)

lemma set_sq_io: "set_sq i q p = Inr p1 \<Longrightarrow> p_fds p1 = p_fds p \<and> p_links p1 = p_links p"
  by (auto simp: set_sq_def upd_work_def rbind_Inr_iff)

lemma send_queue_inv: "lists_ok L p \<Longrightarrow> sat (lists_ok L) (send_queue L S n i p)"
proof (induction n arbitrary: p)
  case (Suc n)
  show ?case
    unfolding send_queue.simps
  proof (rule sat_bind_any, rule sat_bind_any, rule sat_prod, rule sat_bind_any, rule sat_option)
    fix k x blk q1 p1 assume "set_sq i q1 p = Inr p1"
    from lists_ok_io[OF Suc.prems] set_sq_io[OF this] have l1: "lists_ok L p1" by blast
    then show "sat (lists_ok L) (Inr p1)" by simp
    fix a
    show "sat (lists_ok L) (rbind (read_head q1 a) (\<lambda>b. rbind (at_ptr (Some (mq_shm q1)) (a + blk_head_len)) (\<lambda>d.
      rbind (do_blk_send L S b d p1) (\<lambda>(_, p2). rbind (get_work p2 i) (\<lambda>k2. rbind (mq_pop (wk_sq k2)) (\<lambda>q2.
      rbind (set_sq i q2 p2) (\<lambda>p3. send_queue L S n i p3)))))))"
    proof (rule sat_bind_any, rule sat_bind_any, rule sat_bind[OF blk_send_step[OF l1]], rule sat_prod, rule sat_bind_any,
        rule sat_bind_any, rule sat_bind_any)
      fix b r p2 q2 p3 x
      assume "case x of (r, y) \<Rightarrow> lists_step L {blk_fd b} p1 y" "x = (r, p2)" "set_sq i q2 p2 = Inr p3"
      then show "sat (lists_ok L) (send_queue L S n i p3)"
        using Suc.IH[of p3] lists_ok_io[of L p2 p3] set_sq_io[of i q2 p2 p3] unfolding lists_step_def by blast
    qed
  qed
qed simp

lemma send_queues_lists: "lists_ok L p \<Longrightarrow> sat (lists_ok L) (send_queues L S n is p)"
proof (induction "is" arbitrary: p)
  case (Cons i "is")
  show ?case unfolding send_queues.simps by (rule sat_bind[OF send_queue_inv[OF Cons.prems]]) (rule Cons.IH)
qed simp

section \<open>New clients\<close>

lemma next_ctl_io: "next_ctl p = Inr (r, p1) \<Longrightarrow> p_fds p1 = p_fds p \<and> p_links p1 = p_links p"
  by (auto simp: next_ctl_def split: list.splits)

lemma fold_close_io: "p_fds (fold (\<lambda>c. eff (EClose c)) cs p) = p_fds p \<and> p_links (fold (\<lambda>c. eff (EClose c)) cs p) = p_links p"
  by (induction cs arbitrary: p) simp_all

lemma add_cli_step:
  assumes "lists_ok L p" and "\<not> open_fd p fd"
  shows "sat (\<lambda>(r, p1). lists_step L {} p p1) (add_fdinfo_to_epinfo fd idx fd_type_cli ip port p)"
  unfolding add_fdinfo_to_epinfo_def
proof (rule sat_bind_any, rule sat_prod, rule sat_if)
  fix x r p1 assume "next_ctl (eff (ECtlAdd fd (reg_events fd_type_cli)) (eff (ENonblock fd) p)) = Inr x" "x = (r, p1)"
  then have io: "p_fds p1 = p_fds p" "p_links p1 = p_links p" by (auto dest!: next_ctl_io)
  have s1: "lists_step L {} p p1" by (rule step_io[OF assms(1) io])
  then show "sat (\<lambda>(r, p1). lists_step L {} p p1) (Inr (- 1, p1))" by simp
  have l1: "lists_ok L p1" and no: "\<not> open_fd p1 fd" using s1 assms(2) open_fd_cong[OF io(1)] by (auto simp: lists_step_def)
  let ?w = "\<lambda>w. w\<lparr>w_type := fd_type_cli, w_idx := idx, w_fd := fd, w_addr := \<lparr>addr_ip = ip, addr_port = port\<rparr>, w_flag := 0,
      w_buff := empty_buff\<rparr>"
  show "sat (\<lambda>(r, p1). lists_step L {} p p1) (rbind (upd_fdw fd ?w p1) (\<lambda>p2.
      Inr (0, p2\<lparr>p_seq := p_seq p2 + 1, p_maxfd := (if p_maxfd p2 < fd then fd else p_maxfd p2)\<rparr>)))"
  proof (rule sat_bind_any)
    fix p2 assume p2: "upd_fdw fd ?w p1 = Inr p2"
    then have v: "valid_fd p1 fd" and e: "p2 = p1\<lparr>p_fds := (p_fds p1)[nat fd := ?w (wrap_of p1 fd)]\<rparr>"
      by (auto simp: upd_fdw_def rbind_Inr_iff fdw_Inr_iff)
    have "w_flag (wrap_of p1 fd) = 0" using l1 v no by (auto simp: lists_ok_def ids_ok_def)
    then have "lists_ok L p2" unfolding e by (intro lists_ok_entry[OF l1 v]) simp_all
    moreover have "open_fd p2 j" if "open_fd p1 j" for j
      using that v no unfolding e by (cases "j = fd") (simp_all add: open_fd_entry)
    ultimately have "lists_step L {} p p2" using s1 by (simp add: lists_step_def)
    then show "sat (\<lambda>(r, p1). lists_step L {} p p1)
        (Inr (0, p2\<lparr>p_seq := p_seq p2 + 1, p_maxfd := (if p_maxfd p2 < fd then fd else p_maxfd p2)\<rparr>))"
      by (simp add: step_io_trans)
  qed
qed

lemma push_rq_io: "push_rq i b d p = Inr (r, p1) \<Longrightarrow> p_fds p1 = p_fds p \<and> p_links p1 = p_links p"
  by (auto simp: push_rq_def upd_work_def rbind_Inr_iff)

lemma told_step:
  assumes "lists_step L {fd} p p2"
  shows "sat (\<lambda>(r, p1). lists_step L {fd} p p1) (rbind (fdw p2 newfd) (\<lambda>nw.
      rbind (push_rq (w_idx nw) (b nw) (d nw) p2)
        (\<lambda>(pr, p3). if pr = - 1 then rbind (do_fd_close L S fd 2 p3) (\<lambda>(_, p4). Inr (newfd, p4)) else Inr (newfd, p3))))"
proof (rule sat_bind_any, rule sat_bind_any, rule sat_prod)
  fix nw t pr p3 assume "push_rq (w_idx nw) (b nw) (d nw) p2 = Inr t" "t = (pr, p3)"
  then have s3: "lists_step L {fd} p p3" using step_io_trans[OF assms] push_rq_io by blast
  then have "sat (\<lambda>(r, p4). lists_step L {fd} p3 p4) (do_fd_close L S fd 2 p3)"
    by (intro close_step) (simp_all add: lists_step_def)
  then have "sat (\<lambda>(r, p1). lists_step L {fd} p p1) (rbind (do_fd_close L S fd 2 p3) (\<lambda>(_, p4). Inr (newfd, p4)))"
    by (rule sat_bind) (use s3 in \<open>auto intro: lists_step_trans\<close>)
  then show "sat (\<lambda>(r, p1). lists_step L {fd} p p1)
      (if pr = - 1 then rbind (do_fd_close L S fd 2 p3) (\<lambda>(_, p4). Inr (newfd, p4)) else Inr (newfd, p3))"
    using s3 by simp
qed

lemma open_step: "lists_ok L p \<Longrightarrow> sat (\<lambda>(r, p1). lists_step L {fd} p p1) (do_fd_open L S fd p)"
  unfolding do_fd_open_def
proof (rule sat_bind_any, rule sat_prod, rule sat_bind_any)
  fix x nb p0 and y :: "int \<times> (32 word \<times> 16 word) \<times> int list \<times> accept_ans list"
  assume I: "lists_ok L p" and x: "next_ctl p = Inr x" "x = (nb, p0)"
  obtain newfd ip port cl rest where y: "y = (newfd, (ip, port), cl, rest)" by (metis prod.collapse)
  define p1 where "p1 = fold (\<lambda>c. eff (EClose c)) cl (p0\<lparr>p_accepts := rest\<rparr>)"
  have "p_fds p1 = p_fds p" "p_links p1 = p_links p"
    using x fold_close_io[of cl "p0\<lparr>p_accepts := rest\<rparr>"] by (auto simp: p1_def dest!: next_ctl_io)
  then have s1: "lists_step L {fd} p p1" by (rule step_io[OF I])
  then have l1: "lists_ok L p1" by (simp add: lists_step_def)
  have new: "sat (\<lambda>(r, p2). lists_step L {fd} p p2) (rbind (fdw p1 fd) (\<lambda>w.
       rbind (add_fdinfo_to_epinfo newfd (w_idx w) fd_type_cli ip port p1) (\<lambda>(r, p2).
       if r = - 1 then Inr (0, p2)
       else rbind (fdw p2 newfd) (\<lambda>nw.
         rbind (push_rq (w_idx nw) \<lparr>blk_id = w_idx nw, blk_fd = newfd, blk_type = blk_code BLK_OPEN,
                                   blk_len = blk_head_len + fd_addr_len\<rparr> (enc_addr (w_addr nw)) p2)
           (\<lambda>(pr, p3). if pr = - 1 then rbind (do_fd_close L S fd 2 p3) (\<lambda>(_, p4). Inr (newfd, p4)) else Inr (newfd, p3))))))"
    if "\<not> open_fd p1 newfd"
  proof (rule sat_bind_any, rule sat_bind[OF add_cli_step[OF l1 that]], rule sat_prod, rule sat_if)
    fix v r p2 assume "case v of (r, p2) \<Rightarrow> lists_step L {} p1 p2" "v = (r, p2)"
    then have s2: "lists_step L {fd} p p2" using s1 lists_step_trans[of L "{fd}" p p1 "{}" p2 "{fd}"] by simp
    then show "sat (\<lambda>(r, p2). lists_step L {fd} p p2) (Inr (0, p2))" by simp
    show "sat (\<lambda>(r, p2). lists_step L {fd} p p2) (rbind (fdw p2 newfd) (\<lambda>nw.
         rbind (push_rq (w_idx nw) \<lparr>blk_id = w_idx nw, blk_fd = newfd, blk_type = blk_code BLK_OPEN,
                                   blk_len = blk_head_len + fd_addr_len\<rparr> (enc_addr (w_addr nw)) p2)
           (\<lambda>(pr, p3). if pr = - 1 then rbind (do_fd_close L S fd 2 p3) (\<lambda>(_, p4). Inr (newfd, p4)) else Inr (newfd, p3))))"
      by (rule told_step[OF s2])
  qed
  show "sat (\<lambda>(r, p1). lists_step L {fd} p p1) ((\<lambda>(newfd, (ip, port), cl, rest).
     let p1 = fold (\<lambda>c. eff (EClose c)) cl (p0\<lparr>p_accepts := rest\<rparr>) in
     if newfd > 0 then
       if open_fd p1 newfd then Inl Exhausted else
       rbind (fdw p1 fd) (\<lambda>w.
       rbind (add_fdinfo_to_epinfo newfd (w_idx w) fd_type_cli ip port p1) (\<lambda>(r, p2).
       if r = - 1 then Inr (0, p2)
       else rbind (fdw p2 newfd) (\<lambda>nw.
         rbind (push_rq (w_idx nw) \<lparr>blk_id = w_idx nw, blk_fd = newfd, blk_type = blk_code BLK_OPEN,
                                   blk_len = blk_head_len + fd_addr_len\<rparr> (enc_addr (w_addr nw)) p2)
           (\<lambda>(pr, p3). if pr = - 1 then rbind (do_fd_close L S fd 2 p3) (\<lambda>(_, p4). Inr (newfd, p4)) else Inr (newfd, p3)))))
     else Inr (newfd, p1)) y)"
    unfolding y prod.case p1_def[symmetric] Let_def
    by (rule sat_if, rule sat_if, simp, rule new, assumption) (use s1 in simp)
qed

lemma open_while_step: "lists_ok L p \<Longrightarrow> sat (lists_step L {fd} p) (open_while c L S n fd p)"
proof (induction n arbitrary: p)
  case (Suc n)
  show ?case
    unfolding open_while.simps
  proof (rule sat_bind[OF open_step[OF Suc.prems]], rule sat_prod, rule sat_if)
    fix x r p1 assume "case x of (r, p1) \<Rightarrow> lists_step L {fd} p p1" "x = (r, p1)"
    then have s: "lists_step L {fd} p p1" by simp
    then show "sat (lists_step L {fd} p) (Inr p1)" by simp
    have "sat (lists_step L {fd} p1) (open_while c L S n fd p1)" using s by (intro Suc.IH) (simp add: lists_step_def)
    then show "sat (lists_step L {fd} p) (open_while c L S n fd p1)"
      by (rule sat_mono) (use s in \<open>auto intro: lists_step_trans\<close>)
  qed
qed simp

section \<open>The two lists, once per round\<close>

text \<open>Everything on a list is open; while the loop works through a list, what is still to come stays open.\<close>

definition all_open :: "('l, 'h) proc \<Rightarrow> lnode list \<Rightarrow> bool" where
  "all_open p ns \<longleftrightarrow> distinct ns \<and> (\<forall>x\<in>set ns. \<exists>k. x = Node k \<and> open_fd p k)"

lemma all_open_listed:
  assumes "lists_ok L p"
  shows "all_open p (nl_items L Read_head (p_links p))" "all_open p (nl_items L Close_head (p_links p))"
proof -
  have ok: "cache_ok L p" and ids: "ids_ok p" using assms by (simp_all add: lists_ok_def)
  have "\<exists>k. x = Node k \<and> open_fd p k" if m: "x \<in> set (fst (cache L p)) \<union> set (snd (cache L p))" for x
  proof -
    obtain k where k: "x = Node k" "valid_fd p k" using cache_okD(4)[OF ok m] by auto
    then have "w_flag (wrap_of p k) \<noteq> 0" using flag_tests(1)[OF ok k(2)] m by simp
    then show ?thesis using ids k by (auto simp: ids_ok_def)
  qed
  then show "all_open p (nl_items L Read_head (p_links p))" "all_open p (nl_items L Close_head (p_links p))"
    using cache_okD(1,2)[OF ok] by (simp_all add: all_open_def cache_def)
qed

lemma all_open_step: "all_open p (Node k # ns) \<Longrightarrow> lists_step L {k} p p1 \<Longrightarrow> all_open p1 ns"
  by (fastforce simp: all_open_def lists_step_def)

lemma all_open_head: "all_open p (Node k # ns) \<Longrightarrow> fdw p k = Inr (wrap_of p k) \<and> w_fd (wrap_of p k) = k \<and> open_fd p k"
  by (simp add: all_open_def open_fd_def)

lemma all_open_other [simp]: "\<not> all_open p (Read_head # ns)" "\<not> all_open p (Close_head # ns)"
  by (simp_all add: all_open_def)

lemma flush_step:
  assumes "lists_ok L p"
  shows "sat (lists_step L {k} p) (rbind (do_fd_write k p) (\<lambda>(r, p1).
    if r = - 1 then upd_buff k (\<lambda>b. b\<lparr>slen := 0\<rparr>) p1 else Inr p1))"
proof (rule sat_bind[OF write_step[OF assms]], clarify)
  fix r p1 assume s: "lists_step L {k} p p1"
  then have l: "lists_ok L p1" by (simp add: lists_step_def)
  have "sat (lists_step L {k} p1) (upd_buff k (\<lambda>b. b\<lparr>slen := 0\<rparr>) p1)"
    by (rule sat_step1, rule lists.upd_buffer[OF l], rule other.upd_buffer) (simp add: l)
  then have "sat (lists_step L {k} p) (upd_buff k (\<lambda>b. b\<lparr>slen := 0\<rparr>) p1)"
    by (rule sat_mono) (use s in \<open>auto intro: lists_step_trans\<close>)
  then show "sat (lists_step L {k} p) (if r = - 1 then upd_buff k (\<lambda>b. b\<lparr>slen := 0\<rparr>) p1 else Inr p1)"
    using s by simp
qed

lemma close_each_lists: "lists_ok L p \<Longrightarrow> all_open p ns \<Longrightarrow> m \<noteq> 0 \<Longrightarrow> sat (lists_ok L) (close_each L S m ns p)"
proof (induction ns arbitrary: p)
  case (Cons x ns)
  obtain k where x: "x = Node k" using Cons.prems(2) by (auto simp: all_open_def)
  note h = all_open_head[OF Cons.prems(2)[unfolded x]]
  define w where "w = wrap_of p k"
  have "sat (lists_step L {k} p) (if slen (w_buff w) > 0 then rbind (do_fd_write k p) (\<lambda>(r, p1).
      if r = - 1 then upd_buff k (\<lambda>b. b\<lparr>slen := 0\<rparr>) p1 else Inr p1) else Inr p)"
    using flush_step[OF Cons.prems(1)] lists_step_refl[OF Cons.prems(1)] by simp
  then have "sat (lists_ok L) (rbind (if slen (w_buff w) > 0 then rbind (do_fd_write k p) (\<lambda>(r, p1).
      if r = - 1 then upd_buff k (\<lambda>b. b\<lparr>slen := 0\<rparr>) p1 else Inr p1) else Inr p) (\<lambda>p2.
      rbind (do_fd_close L S k m p2) (\<lambda>(_, p3). close_each L S m ns p3)))"
  proof (rule sat_bind)
    fix p2 assume s: "lists_step L {k} p p2"
    then have "lists_ok L p2" by (simp add: lists_step_def)
    from close_step[OF this Cons.prems(3), of k S]
    show "sat (lists_ok L) (rbind (do_fd_close L S k m p2) (\<lambda>(_, p3). close_each L S m ns p3))"
    proof (rule sat_bind, clarify)
      fix r p3 assume "lists_step L {k} p2 p3"
      with s have "lists_step L {k} p p3" by (auto intro: lists_step_trans)
      then show "sat (lists_ok L) (close_each L S m ns p3)"
        using all_open_step[OF Cons.prems(2)[unfolded x]] Cons.IH[of p3] Cons.prems(3) by (auto simp: lists_step_def)
    qed
  qed
  then show ?case using h by (simp add: x w_def Let_def cong: if_cong)
qed simp

lemma read_each_lists: "lists_ok L p \<Longrightarrow> all_open p ns \<Longrightarrow> sat (lists_ok L) (read_each L S n 1 ns p)"
proof (induction ns arbitrary: p)
  case (Cons x ns)
  obtain k where x: "x = Node k" using Cons.prems(2) by (auto simp: all_open_def)
  note h = all_open_head[OF Cons.prems(2)[unfolded x]]
  have next_ok: "sat (lists_ok L) (read_each L S n 1 ns p1)" if "lists_step L {k} p p1" for p1
    using Cons.IH[of p1] all_open_step[OF Cons.prems(2)[unfolded x] that] that by (simp add: lists_step_def)
  show ?case
  proof (cases "w_type (wrap_of p k) = fd_type_listen")
    case True
    have "sat (lists_ok L) (rbind (open_while (\<lambda>r. r \<noteq> 0) L S n k p) (\<lambda>p1. read_each L S n 1 ns p1))"
      by (rule sat_bind[OF open_while_step[OF Cons.prems(1)]], rule next_ok)
    then show ?thesis using h True by (simp add: x Let_def)
  next
    case False
    have "sat (lists_step L {k} p) (rbind (handle_cli L S n k p) (\<lambda>(r, p1).
        if r = - 1 then rbind (do_fd_close L S k 1 p1) (\<lambda>(_, p2). Inr p2) else Inr p1))"
      by (rule close_after_step[OF cli_step[OF Cons.prems(1)]]) (use h in simp_all)
    then have "sat (lists_ok L) (rbind (rbind (handle_cli L S n k p) (\<lambda>(r, p1).
        if r = - 1 then rbind (do_fd_close L S k 1 p1) (\<lambda>(_, p2). Inr p2) else Inr p1)) (read_each L S n 1 ns))"
      by (rule sat_bind) (rule next_ok)
    then show ?thesis using h False by (simp add: x Let_def rbind_assoc split_def cong: if_cong)
  qed
qed simp

section \<open>The loop\<close>

lemma master_event_lists: "lists_ok L p \<Longrightarrow> sat (lists_ok L) (master_event L S n e p)"
proof (cases e)
  case (Pair fd ev)
  assume I: "lists_ok L p"
  have stepD: "sat (lists_step L X p) r \<Longrightarrow> sat (lists_ok L) r" for X r
    by (erule sat_mono) (simp add: lists_step_def)
  have cli: "sat (lists_ok L) (rbind (handle_cli L S n fd p) (\<lambda>(r, p1).
      if r = - 1 then rbind (do_fd_close L S fd 1 p1) (\<lambda>(_, p2). Inr p2) else Inr p1))"
    if "valid_fd p fd" "w_type (wrap_of p fd) = fd_type_cli"
  proof -
    have "open_fd p fd" using I that by (simp add: lists_ok_def ids_ok_def open_fd_def)
    from close_after_step[OF cli_step[OF I this], of 1 S] show ?thesis by (intro stepD) simp
  qed
  have pipe: "sat (lists_ok L) (rbind (handle_pipe fd p) (\<lambda>(_, p1). Inr p1))"
    by (rule sat_bind[OF pipe_step[OF I]]) (auto simp: lists_step_def)
  have hup: "sat (lists_ok L) (handle_hup fd p)" using I by (auto simp: handle_hup_def intro!: sat_bind_any)
  show ?thesis
    unfolding master_event_def Pair prod.case
  proof (rule sat_if, rule sat_bind_any)
    fix w assume "fdw p fd = Inr w"
    then have w: "valid_fd p fd" "w = wrap_of p fd" by (simp_all add: fdw_Inr_iff)
    show "sat (lists_ok L) (case w_type w of
         fd_type_listen \<Rightarrow> open_while (\<lambda>r. r \<noteq> - 1) L S n fd p
       | fd_type_cli \<Rightarrow> rbind (handle_cli L S n fd p) (\<lambda>(r, p1).
           if r = - 1 then rbind (do_fd_close L S fd 1 p1) (\<lambda>(_, p2). Inr p2) else Inr p1)
       | fd_type_pipe \<Rightarrow> rbind (handle_pipe fd p) (\<lambda>(_, p1). Inr p1)
       | _ \<Rightarrow> Inr p)"
      using stepD[OF open_while_step[OF I, of fd "\<lambda>r. r \<noteq> - 1" S n]] cli[OF w(1)] pipe I w(2)
      by (cases "w_type w") simp_all
  next
    show "sat (lists_ok L) (if has_ev ev EPOLLOUT then write_event L S 1 fd p
      else if has_ev ev EPOLLHUP then handle_hup fd p else Inr p)"
      using stepD[OF write_event_step[OF I, of 1 fd S]] hup I by simp
  qed
qed

lemma each_event_lists: "lists_ok L p \<Longrightarrow> sat (lists_ok L) (each_event (master_event L S n) es p)"
proof (induction es arbitrary: p)
  case (Cons e es)
  show ?case by (simp, rule sat_bind[OF master_event_lists[OF Cons.prems]], rule Cons.IH)
qed simp

lemma kill_children_io: "kill_children signo i k p = Inr p1 \<Longrightarrow> p_fds p1 = p_fds p \<and> p_links p1 = p_links p"
  by (induction signo i k p rule: kill_children.induct) (auto simp: Let_def split: if_splits)

lemma handle_term_lists: "lists_ok L p \<Longrightarrow> sat (lists_ok L) (handle_term pid signo p)"
  by (auto simp: handle_term_def sat_def dest!: kill_children_io intro: lists_ok_io)

text \<open>
  C11: Through any sequence of rounds of the master's loop in which no worker is restarted, for any clients, workers and other events, the lists of
  connections to read and to close stay sound: no connection is on a list twice or on both, each flag says where its
  connection is, and only open connections are on a list. What a restart breaks is in theory \<open>Restart\<close>.
\<close>

theorem master_dispatch_keeps_lists:
  fixes p :: "('l, 'h) proc"
  assumes "lists_ok L p" and "\<forall>a\<in>set as. \<forall>cs. a \<noteq> EpChld cs"
  shows "sat (\<lambda>(_, _, p1). lists_ok L p1) (master_dispatch inet_pton inet_addr pid L S n as p)"
  using assms
proof (induction as arbitrary: p)
  case (Cons a as)
  have wait: "sat (\<lambda>(_, p4). lists_ok L p4) (wait_step inet_pton inet_addr pid c (- 1) (master_event L S n) a p3)"
    if "lists_ok L p3" for c p3
    unfolding wait_step_def
    using Cons.prems(2) each_event_lists[OF that, of S n] handle_term_lists[OF that, of pid] that
    by (auto split: ep_ans.splits intro!: sat_bind[where Q = "lists_ok L"])
  show ?case
    unfolding master_dispatch.simps handle_closelist_def handle_readlist_def rbind_assoc rbind_simps prod.case
  proof (rule sat_if, simp add: Cons.prems(1), rule sat_bind[OF close_each_lists[OF Cons.prems(1) all_open_listed(2)[OF Cons.prems(1)]]],
      simp, rule sat_bind)
    fix p1 :: "('l, 'h) proc" assume l1: "lists_ok L p1"
    show "sat (lists_ok L) (read_each L S n 1 (nl_items L Read_head (p_links p1)) p1)"
      by (rule read_each_lists[OF l1 all_open_listed(1)[OF l1]])
  next
    fix p2 :: "('l, 'h) proc" assume l2: "lists_ok L p2"
    show "sat (\<lambda>(_, _, p1). lists_ok L p1) (rbind (handle_mq_send L S n p2) (\<lambda>p3.
        rbind (wait_step inet_pton inet_addr pid (nr_max_event (p_setting p3)) (- 1) (master_event L S n) a p3) (\<lambda>(r, p4).
          case r of None \<Rightarrow> master_dispatch inet_pton inet_addr pid L S n as p4 | Some rc \<Rightarrow> Inr (rc, as, p4))))"
      unfolding handle_mq_send_def
      by (rule sat_bind[OF send_queues_lists[OF l2]], rule sat_bind[OF wait], assumption, rule sat_prod, rule sat_option)
        (use Cons in auto)
  qed
qed simp

lemma demo_reader_lists: "lists_ok demo_nlist (demo_reader rs)"
proof -
  have "fd = 0 \<or> fd = 1" if "valid_fd (demo_reader rs) fd" for fd using that by (auto simp: valid_fd_def)
  then have "ids_ok (demo_reader rs)" by (fastforce simp: ids_ok_def)
  then show ?thesis by (simp add: lists_ok_def demo_nlist_laws demo_reader_ok)
qed

lemma master_dispatch_keeps_lists_witness:
  "sat (\<lambda>(_, _, p1). lists_ok demo_nlist p1) (master_dispatch (\<lambda>_. None) (\<lambda>_. 0) 1 demo_nlist demo_serv 9
     [EpEvents [(1, EPOLLIN), (1, EPOLLOUT)], EpErr EINTR, EpTerm 15] (demo_reader [RData [1, 2, 3], RErr EAGAIN]))"
  by (rule master_dispatch_keeps_lists[OF demo_reader_lists]) simp

end
