(* ===== verification/Restart.thy ===== *)
theory Restart
  imports Master_Lists
begin

text \<open>
  The restart of a worker, and what it does to the connections that are still there: the entries of the dead worker's
  clients stay on the lists.
\<close>

section \<open>What a restart leaves of the connection table\<close>

lemma close_fds_effect:
  "close_fds idx i k p = Inr p1 \<Longrightarrow> p_links p1 = p_links p \<and> length (p_fds p1) = length (p_fds p) \<and>
    (\<forall>j. j < length (p_fds p) \<longrightarrow> p_fds p1 ! j =
       (if i \<le> j \<and> j < i + k \<and> w_idx (p_fds p ! j) = idx \<and> w_fd (p_fds p ! j) > 0 then (p_fds p ! j)\<lparr>w_fd := - 1\<rparr> else p_fds p ! j))"
proof (induction k arbitrary: i p)
  case (Suc k)
  show ?case
  proof (cases "w_idx (p_fds p ! i) = idx \<and> w_fd (p_fds p ! i) > 0")
    case True
    define p0 where "p0 = eff (EClose (w_fd (p_fds p ! i))) (rm_fd_from_epinfo (w_fd (p_fds p ! i)) p)"
    define p2 where "p2 = p0\<lparr>p_fds := (p_fds p)[i := (p_fds p ! i)\<lparr>w_fd := - 1\<rparr>]\<rparr>"
    have p0: "p_fds p0 = p_fds p" "p_links p0 = p_links p" by (simp_all add: p0_def rm_fd_from_epinfo_def)
    have i: "i < length (p_fds p)" using Suc.prems by (auto simp: fdw_def rbind_Inr_iff split: if_splits)
    then have v: "valid_fd p (int i)" "valid_fd p0 (int i)" by (simp_all add: valid_fd_def p0(1))
    have "close_fds idx (Suc i) k p2 = Inr p1" using Suc.prems True v by (simp add: p0_def[symmetric] p2_def p0(1))
    from Suc.IH[OF this] i True show ?thesis by (auto simp: p2_def p0 nth_list_update)
  next
    case False
    then have "close_fds idx (Suc i) k p = Inr p1" using Suc.prems by (auto simp: fdw_def rbind_Inr_iff split: if_splits)
    from Suc.IH[OF this] False show ?thesis by (auto simp: Suc_le_eq le_less)
  qed
qed simp

lemma fini_queues_io: "fini_queues is p = Inr p1 \<Longrightarrow> p_fds p1 = p_fds p \<and> p_links p1 = p_links p"
  by (induction "is" arbitrary: p) (auto simp: rbind_Inr_iff upd_work_def Let_def)

lemma upd_work_io: "upd_work i f p = Inr p1 \<Longrightarrow> p_fds p1 = p_fds p \<and> p_links p1 = p_links p"
  by (auto simp: upd_work_def rbind_Inr_iff)

lemma mq_create_io: "sat (\<lambda>(r, p1). p_fds p1 = p_fds p \<and> p_links p1 = p_links p) (master_mq_create a1 a2 i p)"
  unfolding master_mq_create_def
  by (rule sat_let, rule sat_bind_any, rule sat_bind_any, rule sat_prod, rule sat_bind_any, rule sat_if,
      simp add: upd_work_io, rule sat_bind_any, rule sat_prod, rule sat_bind_any) (auto dest!: upd_work_io)

lemma add_fdinfo_other:
  "add_fdinfo_to_epinfo fd idx ty ip port p = Inr (r, p1) \<Longrightarrow> p_links p1 = p_links p \<and> length (p_fds p1) = length (p_fds p) \<and>
    (\<forall>j. valid_fd p j \<longrightarrow> j \<noteq> fd \<longrightarrow> wrap_of p1 j = wrap_of p j)"
  by (auto simp: add_fdinfo_to_epinfo_def rbind_Inr_iff upd_fdw_def fdw_Inr_iff valid_fd_def dest!: next_ctl_io split: if_splits)

lemma master_listen_other:
  assumes "master_listen inet_pton inet_addr a i p = Inr (r, p1)" and "valid_fd p j" and "j \<noteq> la_socket a"
    and "\<And>k. get_work p i = Inr k \<Longrightarrow> j \<noteq> fst (mq_pipefd (wk_sq k))"
  shows "p_links p1 = p_links p \<and> wrap_of p1 j = wrap_of p j \<and> valid_fd p1 j"
proof -
  have sock: "safe_socket_listen ip la s t st b bs = Inr (fd, cs) \<Longrightarrow> fd = la_socket la \<or> fd = - 1" for ip la s t st b bs fd cs
    by (auto simp: safe_socket_listen_def split: if_splits prod.splits bool.splits)
  have "sat (\<lambda>(r, p1). p_links p1 = p_links p \<and> wrap_of p1 j = wrap_of p j \<and> valid_fd p1 j) (master_listen inet_pton inet_addr a i p)"
    unfolding master_listen_def
  proof (rule sat_bind_any, rule sat_bind_any, rule sat_prod, rule sat_if, simp add: assms(2), rule sat_bind_any, rule sat_prod,
      rule sat_if)
    fix k x fd cs y r1 p1
    assume k: "get_work p i = Inr k" and x: "safe_socket_listen inet_pton a (Some (wk_ip k)) (wk_port k) SOCK_STREAM 1024 (raw_buf_len (p_setting p)) = Inr x"
      "x = (fd, cs)" "fd \<noteq> - 1"
      and y: "add_fdinfo_to_epinfo fd i fd_type_listen (inet_addr (wk_ip k)) (wk_port k) p = Inr y" "y = (r1, p1)"
    have "j \<noteq> fd" using sock[OF x(1)[unfolded x(2)]] x(3) assms(3) by auto
    then have s1: "p_links p1 = p_links p" "wrap_of p1 j = wrap_of p j" "valid_fd p1 j"
      using add_fdinfo_other[OF y(1)[unfolded y(2)]] assms(2) by (auto simp: valid_fd_def)
    then show "sat (\<lambda>(r, p1). p_links p1 = p_links p \<and> wrap_of p1 j = wrap_of p j \<and> valid_fd p1 j) (Inr (- 1, p1))" by simp
    show "sat (\<lambda>(r, p1). p_links p1 = p_links p \<and> wrap_of p1 j = wrap_of p j \<and> valid_fd p1 j)
        (rbind (add_fdinfo_to_epinfo (fst (mq_pipefd (wk_sq k))) i fd_type_pipe 0 0 p1) (\<lambda>(r2, p2).
     if r2 = - 1 then Inr (- 1, p2) else
       Inr (0, eff (EClose (snd (mq_pipefd (wk_sq k)))) (eff (EClose (fst (mq_pipefd (wk_rq k)))) p2))))"
    proof (rule sat_bind_any, rule sat_prod)
      fix z r2 p2 assume z: "add_fdinfo_to_epinfo (fst (mq_pipefd (wk_sq k))) i fd_type_pipe 0 0 p1 = Inr z" "z = (r2, p2)"
      have "p_links p2 = p_links p \<and> wrap_of p2 j = wrap_of p j \<and> valid_fd p2 j"
        using add_fdinfo_other[OF z(1)[unfolded z(2)]] s1 assms(4)[OF k] by (auto simp: valid_fd_def)
      then show "sat (\<lambda>(r, p1). p_links p1 = p_links p \<and> wrap_of p1 j = wrap_of p j \<and> valid_fd p1 j)
        (if r2 = - 1 then Inr (- 1, p2) else
          Inr (0, eff (EClose (snd (mq_pipefd (wk_sq k)))) (eff (EClose (fst (mq_pipefd (wk_rq k)))) p2)))"
        by (simp add: valid_fd_def)
    qed
  qed
  from satD[OF this assms(1)] show ?thesis by simp
qed

lemma mq_create_pipe:
  "sat (\<lambda>(r, p1). r \<noteq> - 1 \<longrightarrow> (\<forall>k. get_work p1 i = Inr k \<longrightarrow> mq_pipefd (wk_sq k) = fst a2)) (master_mq_create a1 a2 i p)"
  unfolding master_mq_create_def
proof (rule sat_let, rule sat_bind_any, rule sat_bind_any, rule sat_prod, rule sat_bind_any, rule sat_if, simp,
    rule sat_bind_any, rule sat_prod, rule sat_bind_any)
  fix len k x r1 q1 p1 y r2 q2 p2
  assume y: "mq_init (wk_sq k) len MEM_TYPE_SEND (fst a2) (snd a2) = Inr y" "y = (r2, q2)"
    and p2: "upd_work i (\<lambda>k. k\<lparr>wk_sq := q2\<rparr>) p1 = Inr p2"
  have "mq_pipefd q2 = fst a2" using y by (auto simp: mq_init_def Let_def split: if_splits)
  then have "\<forall>k. get_work p2 i = Inr k \<longrightarrow> mq_pipefd (wk_sq k) = fst a2"
    using p2 by (auto simp: upd_work_def get_work_def rbind_Inr_iff split: if_splits)
  then show "sat (\<lambda>(r, p1). r \<noteq> - 1 \<longrightarrow> (\<forall>k. get_work p1 i = Inr k \<longrightarrow> mq_pipefd (wk_sq k) = fst a2))
      (Inr (if r2 = - 1 then - 1 else 0, p2))" by simp
qed

lemma start_work_entry:
  assumes sw: "start_work inet_pton inet_addr a idx p = Inr (False, p1)"
    and j: "valid_fd p j" "j \<le> p_maxfd p" "w_idx (wrap_of p j) = idx" "w_fd (wrap_of p j) = j" "0 < j"
    and reuse: "j \<noteq> la_socket (fa_listen a)" "j \<noteq> fst (fst (fa_sq a))"
  shows "p_links p1 = p_links p \<and> wrap_of p1 j = (wrap_of p j)\<lparr>w_fd := - 1\<rparr> \<and> valid_fd p1 j"
proof -
  let ?P = "\<lambda>q. p_links q = p_links p \<and> wrap_of q j = (wrap_of p j)\<lparr>w_fd := - 1\<rparr> \<and> valid_fd q j"
  have "sat (\<lambda>(c, q). c \<or> ?P q) (start_work inet_pton inet_addr a idx p)"
    unfolding start_work_def
  proof (rule sat_bind_any, rule sat_bind_any, rule sat_bind_any, rule sat_let, rule sat_bind_any, rule sat_prod)
    fix q1 q2 k q3 x r q4
    assume q1: "close_fds idx 0 (nat (p_maxfd p + 1)) p = Inr q1" and q2: "fini_queues [idx] q1 = Inr q2"
      and q3: "q3 = eff (EClose (snd (mq_pipefd (wk_rq k)))) q2"
      and x: "master_mq_create (fa_rq a) (fa_sq a) idx q3 = Inr x" "x = (r, q4)"
    have "?P q1" using close_fds_effect[OF q1] j by (auto simp: valid_fd_def)
    then have P4: "?P q4" using fini_queues_io[OF q2] satD[OF mq_create_io x(1)] by (simp add: q3 x(2) valid_fd_def)
    show "sat (\<lambda>(c, q). c \<or> ?P q) (if r = - 1 then Inr (False, q4)
     else if fa_fork a < 0 then Inr (False, q4)
     else if fa_fork a = 0 then Inr (True, q4)
     else rbind (master_listen inet_pton inet_addr (fa_listen a) idx q4) (\<lambda>(r2, p5).
       if r2 = - 1 then Inr (False, p5)
       else if 0 \<le> idx \<and> idx < int (length (p_chl_pids p5))
       then Inr (False, p5\<lparr>p_chl_pids := (p_chl_pids p5)[nat idx := fa_fork a]\<rparr>) else Inl OutOfBounds))"
    proof (rule sat_if, simp add: P4, rule sat_if, simp add: P4, rule sat_if, simp, rule sat_bind_any, rule sat_prod)
      fix y r2 p5 assume r: "r \<noteq> - 1"
        and y: "master_listen inet_pton inet_addr (fa_listen a) idx q4 = Inr y" "y = (r2, p5)"
      have "j \<noteq> fst (mq_pipefd (wk_sq w))" if "get_work q4 idx = Inr w" for w
        using satD[OF mq_create_pipe x(1)] r x(2) that reuse(2) by auto
      then have "?P p5" using master_listen_other[OF y(1)[unfolded y(2)] _ reuse(1)] P4 by auto
      then show "sat (\<lambda>(c, q). c \<or> ?P q) (if r2 = - 1 then Inr (False, p5)
         else if 0 \<le> idx \<and> idx < int (length (p_chl_pids p5))
         then Inr (False, p5\<lparr>p_chl_pids := (p_chl_pids p5)[nat idx := fa_fork a]\<rparr>) else Inl OutOfBounds)"
        by (simp add: valid_fd_def)
    qed
  qed
  from satD[OF this sw] show ?thesis by simp
qed

text \<open>
  C32: When a worker is restarted while one of its clients is on the list of connections to read, the master forgets to
  take the client off the list: the next round reads connection -1, in front of the table of connections.
\<close>

theorem restart_breaks_readlist:
  assumes "start_work inet_pton inet_addr a idx p = Inr (False, p1)"
    and "valid_fd p j" "j \<le> p_maxfd p" "w_idx (wrap_of p j) = idx" "w_fd (wrap_of p j) = j" "0 < j"
    and "w_type (wrap_of p j) = fd_type_cli" and "nl_items L Read_head (p_links p) = Node j # ns"
    and "j \<noteq> la_socket (fa_listen a)" "j \<noteq> fst (fst (fa_sq a))"
  shows "handle_readlist L S n 1 p1 = Inl OutOfBounds"
proof -
  have e: "p_links p1 = p_links p" "wrap_of p1 j = (wrap_of p j)\<lparr>w_fd := - 1\<rparr>" "valid_fd p1 j"
    using start_work_entry[OF assms(1-6,9,10)] by auto
  have "handle_cli L S n (- 1) p1 = Inl OutOfBounds" by (simp add: handle_cli_def handle_read_def map_rbf_def fdw_def)
  then show ?thesis using e assms(7,8) by (simp add: handle_readlist_def Let_def)
qed

definition demo_restart :: "(lnode \<Rightarrow> lnode list, int \<rightharpoonup> fdsess) proc" where
  "demo_restart = (demo_proc [demo_wrap fd_type_cli 0 demo_buff, demo_wrap fd_type_cli 1 demo_buff])
     \<lparr>p_links := (\<lambda>h. if h = Read_head then [Node 1] else [])\<rparr>"

definition demo_fork :: fork_ans where
  "demo_fork = \<lparr>fa_rq = ((10, 11), True), fa_sq = ((12, 13), True), fa_fork = - 1,
     fa_listen = \<lparr>la_socket = 14, la_reuse = True, la_rcvbuf = True, la_sndbuf = True, la_bind = True, la_listen = True\<rparr>\<rparr>"

lemma restart_breaks_readlist_witness:
  "\<exists>p1. start_work (\<lambda>_. None) (\<lambda>_. 0) demo_fork 0 demo_restart = Inr (False, p1)
     \<and> handle_readlist demo_nlist demo_serv 5 1 p1 = Inl OutOfBounds"
proof -
  have "\<exists>p1. start_work (\<lambda>_. None) (\<lambda>_. 0) demo_fork 0 demo_restart = Inr (False, p1)"
    by (simp add: start_work_def demo_restart_def demo_proc_def demo_fork_def fdw_def upd_fdw_def demo_wrap_def numeral_2_eq_2 rm_fd_from_epinfo_def eff_def
        get_work_def upd_work_def master_mq_create_def mq_init_def mem_head_len_def demo_setting_def Let_def)
  then obtain p1 where p1: "start_work (\<lambda>_. None) (\<lambda>_. 0) demo_fork 0 demo_restart = Inr (False, p1)" by blast
  have "handle_readlist demo_nlist demo_serv 5 1 p1 = Inl OutOfBounds"
    by (rule restart_breaks_readlist[OF p1, of 1 demo_nlist "[]"])
      (simp_all add: demo_restart_def demo_proc_def valid_fd_def demo_wrap_def demo_nlist_def demo_fork_def)
  with p1 show ?thesis by blast
qed

end
