(* ===== verification/Master_End.thy ===== *)
theory Master_End
  imports Master_Lists
begin

text \<open>
  The end of the master, a new client whose worker cannot be told of it, and the signals to end.
\<close>

section \<open>The end of the master\<close>

lemma free_buffs_bad:
  "i + k \<le> length (p_fds p) \<Longrightarrow> \<exists>j. i \<le> j \<and> j < i + k \<and> w_fd (p_fds p ! j) \<noteq> 0 \<and> rbf (w_buff (p_fds p ! j)) \<noteq> None \<Longrightarrow>
    free_buffs i k p = Inl BadFree"
proof (induction k arbitrary: i)
  case (Suc k)
  have v: "valid_fd p (int i)" using Suc.prems(1) by (simp add: valid_fd_def)
  show ?case
  proof (cases "w_fd (p_fds p ! i) \<noteq> 0 \<and> rbf (w_buff (p_fds p ! i)) \<noteq> None")
    case True
    then show ?thesis using v by simp
  next
    case False
    obtain j where j: "i \<le> j" "j < i + Suc k" "w_fd (p_fds p ! j) \<noteq> 0" "rbf (w_buff (p_fds p ! j)) \<noteq> None" using Suc.prems(2) by blast
    then have "Suc i \<le> j" using False by (cases "j = i") auto
    then have "free_buffs (Suc i) k p = Inl BadFree"
      by (intro Suc.IH exI[of _ j]) (use Suc.prems(1) j in auto)
    then show ?thesis using v False by auto
  qed
qed auto

lemma fini_queues_ok: "\<forall>i\<in>set is. 0 \<le> i \<and> i < int (length (p_works p)) \<Longrightarrow>
    \<exists>p1. fini_queues is p = Inr p1 \<and> p_fds p1 = p_fds p \<and> p_maxfd p1 = p_maxfd p"
proof (induction "is" arbitrary: p)
  case (Cons i "is")
  define q where "q = p\<lparr>p_works := (p_works p)[nat i := (p_works p ! nat i)
    \<lparr>wk_rq := snd (mq_fini (wk_rq (p_works p ! nat i)) (mem_queue_len (p_setting p))),
     wk_sq := snd (mq_fini (wk_sq (p_works p ! nat i)) (mem_queue_len (p_setting p)))\<rparr>]\<rparr>"
  have "fini_queues (i # is) p = fini_queues is q" using Cons.prems by (simp add: Let_def q_def)
  then show ?case using Cons.IH[of q] Cons.prems by (simp add: q_def)
qed simp

text \<open>
  When the master stops while a connection below \<open>maxfd\<close> has a receive buffer, which every client has that has sent
  something, it gives the mapped memory to \<open>free\<close>.
\<close>

theorem master_fini_frees_mapping:
  assumes "p_nr_used p \<le> int (length (p_works p))" and "p_maxfd p \<le> int (length (p_fds p))"
    and "0 \<le> fd" and "fd < p_maxfd p" and "w_fd (wrap_of p fd) = fd" and "fd \<noteq> 0" and "rbf (buff_of p fd) \<noteq> None"
  shows "master_fini None p = Inl BadFree"
proof -
  have "\<forall>i\<in>set [0..p_nr_used p - 1]. 0 \<le> i \<and> i < int (length (p_works p))" using assms(1) by auto
  from fini_queues_ok[OF this] obtain p1 where p1: "fini_queues [0..p_nr_used p - 1] p = Inr p1" "p_fds p1 = p_fds p" "p_maxfd p1 = p_maxfd p"
    by auto
  have "free_buffs 0 (nat (p_maxfd p1)) p1 = Inl BadFree"
    by (rule free_buffs_bad) (use assms(2-7) p1(2,3) in \<open>auto intro!: exI[of _ "nat fd"]\<close>)
  then show ?thesis by (simp add: master_fini_def p1(1))
qed

lemma master_fini_frees_mapping_witness:
  "master_fini None ((demo_reader [])\<lparr>p_maxfd := 2\<rparr>) = Inl BadFree"
  by (rule master_fini_frees_mapping[of _ 1]) (simp_all add: demo_reader_def)

section \<open>Accepting when the worker's queue is full\<close>

lemma add_cli_ok:
  assumes "p_ctls p = True # cs" and "valid_fd p fd"
  shows "\<exists>p1. add_fdinfo_to_epinfo fd idx fd_type_cli ip port p = Inr (0, p1) \<and> p_works p1 = p_works p \<and> p_links p1 = p_links p
    \<and> length (p_fds p1) = length (p_fds p) \<and> p_setting p1 = p_setting p
    \<and> wrap_of p1 fd = (wrap_of p fd)\<lparr>w_type := fd_type_cli, w_idx := idx, w_fd := fd, w_addr := \<lparr>addr_ip = ip, addr_port = port\<rparr>,
        w_flag := 0, w_buff := empty_buff\<rparr>
    \<and> (\<forall>j. valid_fd p j \<longrightarrow> j \<noteq> fd \<longrightarrow> wrap_of p1 j = wrap_of p j)"
  using assms valid_fd_nat[OF assms(2)]
  by (auto simp: add_fdinfo_to_epinfo_def next_ctl_def upd_fdw_def fdw_def valid_fd_def)


definition open_msg :: "int \<Rightarrow> int \<Rightarrow> 32 word \<Rightarrow> 16 word \<Rightarrow> msg" where
  "open_msg i fd ip port = (\<lparr>blk_id = i, blk_fd = fd, blk_type = blk_code BLK_OPEN, blk_len = blk_head_len + fd_addr_len\<rparr>,
     enc_addr \<lparr>addr_ip = ip, addr_port = port\<rparr>)"

lemma open_msg_valid: "is_cint i \<Longrightarrow> is_cint fd \<Longrightarrow> valid_msg (open_msg i fd ip port)"
  by (simp add: open_msg_def valid_msg_def cint_head_def blk_head_len_def fd_addr_len_def enc_addr_def is_cint_def MQ_MAX_def)

text \<open>
  C35: When the queue of the worker refuses the notice of a new client, \<open>do_fd_open\<close> closes the listening descriptor it
  was called with, instead of the new one: the server accepts no more clients for this worker, and the new client stays
  in the table although its worker has never heard of it.
\<close>

theorem do_fd_open_full_closes_listener:
  assumes inv: "lists_ok L p" and fd: "valid_fd p fd" "w_type (wrap_of p fd) = fd_type_listen" "w_idx (wrap_of p fd) = i" "is_cint fd"
    and new: "0 < newfd" "newfd \<noteq> fd" "valid_fd p newfd" "\<not> open_fd p newfd" "is_cint newfd"
    and ans: "p_accepts p = ADone newfd ip port # rest" "p_ctls p = True # True # cs"
    and q: "rq_holds p i xs" "is_cint i"
    and full: "mq_push (wk_rq (p_works p ! nat i)) (fst (open_msg i newfd ip port)) (snd (open_msg i newfd ip port)) = Inr (- 1, q1)"
  shows "\<exists>p1. do_fd_open L S fd p = Inr (newfd, p1) \<and> w_type (wrap_of p1 fd) = fd_type_null \<and> last (p_trace p1) = EClose fd
    \<and> w_type (wrap_of p1 newfd) = fd_type_cli \<and> open_fd p1 newfd"
proof -
  define p1 where "p1 = p\<lparr>p_ctls := True # cs, p_accepts := rest\<rparr>"
  have p1: "p_ctls p1 = True # cs" "valid_fd p1 newfd" "p_works p1 = p_works p" "p_fds p1 = p_fds p"
    using new(3) by (simp_all add: p1_def valid_fd_def)
  have l1: "lists_ok L p1" by (rule lists_ok_io[OF inv]) (simp_all add: p1_def)
  have o1: "\<not> open_fd p1 newfd" using new(4) by (simp add: p1_def open_fd_def valid_fd_def)
  obtain p2 where p2: "add_fdinfo_to_epinfo newfd i fd_type_cli ip port p1 = Inr (0, p2)" "p_works p2 = p_works p1"
    "length (p_fds p2) = length (p_fds p1)"
    "wrap_of p2 newfd = (wrap_of p1 newfd)\<lparr>w_type := fd_type_cli, w_idx := i, w_fd := newfd, w_addr := \<lparr>addr_ip = ip, addr_port = port\<rparr>,
        w_flag := 0, w_buff := empty_buff\<rparr>"
    "wrap_of p2 fd = wrap_of p fd"
    using add_cli_ok[OF p1(1,2), of i ip port] fd(1) new(2) p1(4) by (auto simp: valid_fd_def)
  have l2: "lists_ok L p2" using satD[OF add_cli_step[OF l1 o1] p2(1)] by (simp add: lists_step_def)
  have rq2: "rq_holds p2 i xs" using q(1) p2(2) p1(3) by (simp add: rq_holds_def)
  obtain r ws where w: "push_rq i (fst (open_msg i newfd ip port)) (snd (open_msg i newfd ip port)) p2 = Inr (r, p2\<lparr>p_works := ws\<rparr>)"
    "rq_holds (p2\<lparr>p_works := ws\<rparr>) i (after_push r (open_msg i newfd ip port) xs)"
    using push_rq_ok[OF rq2, of "fst (open_msg i newfd ip port)" "snd (open_msg i newfd ip port)"] open_msg_valid[OF q(2) new(5), of ip port]
    by auto
  have i: "0 \<le> i" "i < int (length (p_works p2))" using rq2 by (auto simp: rq_holds_def)
  have r: "r = - 1" using w(1) full i p2(2) p1(3) by (auto simp: push_rq_def)
  define p3 where "p3 = p2\<lparr>p_works := ws\<rparr>"
  have v3: "valid_fd p3 fd" "wrap_of p3 fd = wrap_of p fd" "valid_fd p3 newfd"
    using fd(1) new(3) p2(3,5) p1(4) by (simp_all add: p3_def valid_fd_def)
  have c3: "nlist_laws L" "cache_ok L p3" using lists_ok_io[OF l2, of p3] by (simp_all add: p3_def lists_ok_def)
  have rq3: "rq_holds p3 (w_idx (wrap_of p3 fd)) xs" using w(2) r fd(3) v3(2) by (simp add: p3_def after_push_def)
  obtain p4 where p4: "do_fd_close L S fd 2 p3 = Inr (0, p4)" "w_type (wrap_of p4 fd) = fd_type_null" "others_kept fd p3 p4"
    "p_trace p4 = p_trace p3 @ (if rbf (buff_of p3 fd) \<noteq> None then [EMunmap (max_msg_len (p_setting p3))] else []) @ [EClose fd]"
    using close_effect[OF c3 v3(1) _ _ rq3, of 2 S] fd q(2) v3(2) by auto
  have n4: "wrap_of p4 newfd = wrap_of p2 newfd" "valid_fd p4 newfd"
    using p4(3) new(2) v3(1,3) others_kept_valid[OF p4(3)] by (auto simp: others_kept_def p3_def valid_fd_def)
  have "do_fd_open L S fd p = Inr (newfd, p4)"
    using ans new(1,3) o1 fd p2(1,3) w(1) r p4(1) p2(4)
    by (simp add: do_fd_open_def next_ctl_def safe_tcp_accept_def p1_def[symmetric] Let_def fdw_def valid_fd_def p1(4)
        open_msg_def p3_def)
  then show ?thesis using p4(2,4) n4 p2(4) by (intro exI[of _ p4]) (simp add: open_fd_def)
qed


text \<open>A listening descriptor 1 of a worker whose queue has room for no message, and a client that gets the descriptor 2.\<close>

definition full_queue :: mem_queue where
  "full_queue = demo_queue\<lparr>mq_shm := replicate 20 0, mq_len := 20\<rparr>"

definition demo_listen :: "(lnode \<Rightarrow> lnode list, int \<rightharpoonup> fdsess) proc" where
  "demo_listen = (demo_proc [zero_wrap, demo_wrap fd_type_listen 1 demo_buff, zero_wrap])
     \<lparr>p_works := [demo_work\<lparr>wk_rq := full_queue\<rparr>], p_accepts := [ADone 2 5 6], p_ctls := [True, True]\<rparr>"

lemma full_queue_rel: "mq_rel full_queue []"
  by (simp add: full_queue_def demo_queue_def mq_rel_def mq_wf_def unwrapped_def mem_head_len_def MQ_MAX_def)

lemma full_queue_push: "\<exists>q1. mq_push full_queue (fst (open_msg 0 2 5 6)) d = Inr (- 1, q1)"
  by (simp add: full_queue_def demo_queue_def mq_push_def mapped_def mem_head_len_def mq_push_round numeral_2_eq_2 open_msg_def
      blk_head_len_def fd_addr_len_def is_cint_def mark_align_def)

lemma demo_listen_lists: "lists_ok demo_nlist demo_listen"
proof -
  let ?ws = "[zero_wrap, demo_wrap fd_type_listen 1 demo_buff, zero_wrap]"
  have "cache_ok demo_nlist (demo_proc ?ws)" by (rule demo_cache_ok) (auto simp: zero_wrap_def)
  then have "cache_ok demo_nlist demo_listen"
    using cache_ok_cong(1)[of demo_listen "demo_proc ?ws" demo_nlist] by (simp add: demo_listen_def)
  moreover have "ids_ok demo_listen"
  proof -
    have "fd = 0 \<or> fd = 1 \<or> fd = 2" if "valid_fd demo_listen fd" for fd
      using that by (auto simp: valid_fd_def demo_listen_def)
    moreover have "p_fds demo_listen = ?ws" by (simp add: demo_listen_def)
    ultimately show ?thesis by (fastforce simp: ids_ok_def zero_wrap_def)
  qed
  ultimately show ?thesis by (simp add: lists_ok_def demo_nlist_laws)
qed

lemma do_fd_open_full_closes_listener_witness:
  "\<exists>p1. do_fd_open demo_nlist demo_serv 1 demo_listen = Inr (2, p1) \<and> w_type (wrap_of p1 1) = fd_type_null
     \<and> last (p_trace p1) = EClose 1 \<and> open_fd p1 2"
proof -
  obtain q1 where q1: "mq_push full_queue (fst (open_msg 0 2 5 6)) (snd (open_msg 0 2 5 6)) = Inr (- 1, q1)"
    using full_queue_push by blast
  have "rq_holds demo_listen 0 []" by (simp add: rq_holds_def demo_listen_def full_queue_rel)
  then show ?thesis
    using do_fd_open_full_closes_listener[OF demo_listen_lists, of 1 0 2 5 6 "[]" "[]" "[]" q1 demo_serv] q1
    by (auto simp: demo_listen_def valid_fd_def open_fd_def zero_wrap_def is_cint_def)
qed

section \<open>Signals\<close>

lemma kill_children_effect:
  "i + k \<le> length (p_chl_pids p) \<Longrightarrow> kill_children signo i k p = Inr (p\<lparr>
     p_chl_pids := take i (p_chl_pids p) @ replicate k 0 @ drop (i + k) (p_chl_pids p),
     p_trace := p_trace p @ replicate (length (filter (\<lambda>x. x \<noteq> 0) (take k (drop i (p_chl_pids p))))) (EKill 0 signo)\<rparr>)"
proof (induction k arbitrary: i p)
  case (Suc k)
  let ?l = "p_chl_pids p"
  have i: "i < length ?l" using Suc.prems by simp
  then have d: "drop i ?l = ?l ! i # drop (Suc i) ?l" by (simp add: Cons_nth_drop_Suc)
  show ?case
  proof (cases "?l ! i = 0")
    case True
    have "take (Suc i) ?l = take i ?l @ [0]" using i True by (simp add: take_Suc_conv_app_nth)
    then show ?thesis using Suc.IH[of "Suc i" p] Suc.prems True i by (simp add: d)
  next
    case False
    let ?p = "eff (EKill 0 signo) (p\<lparr>p_chl_pids := ?l[i := 0]\<rparr>)"
    have "take (Suc i) (?l[i := 0]) = take i ?l @ [0]" using i by (simp add: take_Suc_conv_app_nth)
    then show ?thesis using Suc.IH[of "Suc i" ?p] Suc.prems False i by (simp add: d Let_def eff_def drop_update_cancel)
  qed
qed simp

text \<open>
  A signal to end makes the master stop, clears the slots of the workers, and for every worker that runs calls \<open>kill\<close> with
  0: the slot is cleared before it is used. No worker's own process id is ever passed; the signal goes to the whole process
  group, the master itself included.
\<close>

theorem handle_term_signals_group:
  assumes "0 \<le> p_nr_used p" and "p_nr_used p \<le> int (length (p_chl_pids p))" and "pid \<notin> set (take (nat (p_nr_used p)) (p_chl_pids p))"
  shows "handle_term pid signo p = Inr (p\<lparr>p_stop := 1,
     p_chl_pids := replicate (nat (p_nr_used p)) 0 @ drop (nat (p_nr_used p)) (p_chl_pids p),
     p_trace := p_trace p @ replicate (length (filter (\<lambda>x. x \<noteq> 0) (take (nat (p_nr_used p)) (p_chl_pids p)))) (EKill 0 signo)\<rparr>)"
  using assms by (simp add: handle_term_def kill_children_effect)

lemma handle_term_signals_group_witness:
  "handle_term 5 15 ((demo_proc [])\<lparr>p_nr_used := 3, p_chl_pids := [100, 0, 102, 0]\<rparr>) = Inr ((demo_proc [])\<lparr>p_nr_used := 3, p_stop := 1,
     p_chl_pids := [0, 0, 0, 0], p_trace := [EKill 0 15, EKill 0 15]\<rparr>)"
  using handle_term_signals_group[of "(demo_proc [])\<lparr>p_nr_used := 3, p_chl_pids := [100, 0, 102, 0]\<rparr>" 5 15]
  by (simp add: numeral_3_eq_3 numeral_2_eq_2)

end
