(* ===== verification/Master_Loop.thy ===== *)
theory Master_Loop
  imports Entry_Inv
begin

text \<open>
  How a predicate on the master's state is followed through its loop: one interface for the handlers (\<open>master_ops\<close>), extended
  by what sending and restarting need for the whole loop (\<open>master_inv\<close>).
\<close>

section \<open>What a predicate needs\<close>

lemma sat_prod_app: "(\<And>a b. r = (a, b) \<Longrightarrow> sat P (f a b x)) \<Longrightarrow> sat P ((case r of (a, b) \<Rightarrow> f a b) x)"
  by (cases r) simp

text \<open>
  Besides the interface of every entry: the predicate does not depend on the clients to be accepted, the sequence number and
  the stop flag, nor on the contents of the connection table and of the slots for process ids.
\<close>

locale master_ops =
  fixes L :: "'l nlist" and S :: "('l, 'h) proc serv_if" and I :: "('l, 'h) proc \<Rightarrow> bool"
  assumes entry: "entry_inv L fd I (\<lambda>_. True) (\<lambda>_. True)"
    and keep_state: "I p \<Longrightarrow> I (p\<lparr>p_accepts := ac\<rparr>)" "I p \<Longrightarrow> I (p\<lparr>p_stop := st\<rparr>)" "I p \<Longrightarrow> I (p\<lparr>p_seq := sq\<rparr>)"
      "I p \<Longrightarrow> length fs = length (p_fds p) \<Longrightarrow> I (p\<lparr>p_fds := fs\<rparr>)"
      "I p \<Longrightarrow> length ch = length (p_chl_pids p) \<Longrightarrow> I (p\<lparr>p_chl_pids := ch\<rparr>)"
begin

lemmas keep_io = entry_inv.keep_io[OF entry]
lemmas keep_push = entry_inv.keep_push[OF entry]
lemmas close_inv = entry_inv.close_inv[OF entry]
lemmas send_inv = entry_inv.send_inv[OF entry]
lemmas write_inv = entry_inv.write_inv[OF entry]
lemmas upd_buffer = entry_inv.upd_buffer[OF entry]
lemmas cli_inv = entry_inv.cli_inv[OF entry _ TrueI]
lemmas pipe_inv = entry_inv.pipe_inv[OF entry]
lemmas write_event_inv = entry_inv.write_event_inv[OF entry]
lemmas next_ctl_inv = entry_inv.next_ctl_inv[OF entry]
lemmas keeps = keep_io keep_state

end

context master_ops
begin

lemma close_after_inv:
  assumes "sat (\<lambda>(r, p1). I p1) op" and "m \<noteq> 0"
  shows "sat I (rbind op (\<lambda>(r, p1).
    if r = - 1 then rbind (do_fd_close L S fd m p1) (\<lambda>(_, p2). Inr p2) else Inr p1))"
  by (rule sat_bind[OF assms(1)], rule sat_prod, rule sat_if, rule sat_bind[OF close_inv]) (use assms(2) in auto)

lemma blk_send_inv: "I p \<Longrightarrow> sat (\<lambda>(r, p1). I p1) (do_blk_send L S b d p)"
  unfolding do_blk_send_def by (rule sat_if, rule sat_bind[OF close_inv]) (auto intro: send_inv)

lemma fold_close_inv: "I p \<Longrightarrow> I (fold (\<lambda>c. eff (EClose c)) cs p)"
  by (induction cs arbitrary: p) (auto intro: keeps)

lemma upd_fdw_inv: "I p \<Longrightarrow> sat I (upd_fdw fd f p)"
  by (auto simp: upd_fdw_def intro!: sat_bind_any keeps)

lemma add_fdinfo_inv: "I p \<Longrightarrow> sat (\<lambda>(r, p1). I p1) (add_fdinfo_to_epinfo fd idx ty ip port p)"
  unfolding add_fdinfo_to_epinfo_def
  by (rule sat_bind[OF next_ctl_inv], intro keeps, assumption, rule sat_prod, rule sat_if, simp,
      rule sat_bind[OF upd_fdw_inv], simp) (simp add: keeps)

lemma open_inv: "I p \<Longrightarrow> sat (\<lambda>(r, p1). I p1) (do_fd_open L S fd p)"
  unfolding do_fd_open_def
  by (rule sat_bind[OF next_ctl_inv], assumption, rule sat_prod, rule sat_bind_any, rule sat_prod, rule sat_prod,
      rule sat_prod_app, rule sat_prod, rule sat_let, rule sat_if, rule sat_if, simp, rule sat_bind_any,
      rule sat_bind[OF add_fdinfo_inv], simp add: fold_close_inv keeps, rule sat_prod, rule sat_if, simp,
      rule sat_bind_any, rule sat_bind[OF keep_push], simp, simp, rule sat_prod, rule sat_if,
      rule sat_bind[OF close_inv]) (auto simp: fold_close_inv keeps)

lemma open_while_inv: "I p \<Longrightarrow> sat I (open_while c L S n fd p)"
proof (induction n arbitrary: p)
  case (Suc n)
  show ?case
    unfolding open_while.simps
    by (rule sat_bind[OF open_inv[OF Suc.prems]], rule sat_prod, rule sat_if, rule Suc.IH) simp_all
qed simp

lemma close_each_inv: "I p \<Longrightarrow> m \<noteq> 0 \<Longrightarrow> sat I (close_each L S m ns p)"
proof (induction ns arbitrary: p)
  case (Cons x ns)
  have flush: "sat I (if slen (w_buff w) > 0 then rbind (do_fd_write (w_fd w) p) (\<lambda>(r, p1).
      if r = - 1 then upd_buff k (\<lambda>b. b\<lparr>slen := 0\<rparr>) p1 else Inr p1) else Inr p)" for w k
    by (rule sat_if, rule sat_bind[OF write_inv[OF Cons.prems(1)]], rule sat_prod, rule sat_if, rule upd_buffer)
      (use Cons.prems(1) in simp_all)
  show ?case
  proof (cases x)
    case (Node k)
    show ?thesis
      unfolding Node close_each.simps Let_def
      by (rule sat_bind_any, rule sat_bind[OF flush], rule sat_bind[OF close_inv], assumption,
          rule Cons.prems(2), rule sat_prod) (use Cons in auto)
  qed (use Cons in simp_all)
qed simp

lemma read_each_inv: "I p \<Longrightarrow> sat I (read_each L S n 1 ns p)"
proof (induction ns arbitrary: p)
  case (Cons x ns)
  show ?case
  proof (cases x)
    case (Node k)
    show ?thesis
      unfolding Node read_each.simps Let_def
      by (rule sat_bind_any, rule sat_if, rule sat_bind[OF open_while_inv[OF Cons.prems]], rule Cons.IH, assumption, simp,
          rule sat_bind[OF cli_inv[OF Cons.prems]], rule sat_prod, rule sat_bind[where Q = "I"], rule sat_if,
          rule sat_bind[OF close_inv]) (use Cons.IH in auto)
  qed (use Cons in simp_all)
qed simp

lemma master_event_inv: "I p \<Longrightarrow> sat I (master_event L S n e p)"
proof (cases e)
  case (Pair fd ev)
  assume I: "I p"
  have cli: "sat I (rbind (handle_cli L S n fd p) (\<lambda>(r, p1).
      if r = - 1 then rbind (do_fd_close L S fd 1 p1) (\<lambda>(_, p2). Inr p2) else Inr p1))"
    by (rule close_after_inv[OF cli_inv[OF I]]) simp
  have pipe: "sat I (rbind (handle_pipe fd p) (\<lambda>(_, p1). Inr p1))"
    by (rule sat_bind[OF pipe_inv[OF I]]) auto
  have hup: "sat I (handle_hup fd p)" using I by (auto simp: handle_hup_def intro!: sat_bind_any)
  show ?thesis
    unfolding master_event_def Pair prod.case
  proof (rule sat_if, rule sat_bind_any)
    fix w show "sat I (case w_type w of
         fd_type_listen \<Rightarrow> open_while (\<lambda>r. r \<noteq> - 1) L S n fd p
       | fd_type_cli \<Rightarrow> rbind (handle_cli L S n fd p) (\<lambda>(r, p1).
           if r = - 1 then rbind (do_fd_close L S fd 1 p1) (\<lambda>(_, p2). Inr p2) else Inr p1)
       | fd_type_pipe \<Rightarrow> rbind (handle_pipe fd p) (\<lambda>(_, p1). Inr p1)
       | _ \<Rightarrow> Inr p)"
      using open_while_inv[OF I] cli pipe I by (cases "w_type w") simp_all
  next
    show "sat I (if has_ev ev EPOLLOUT then write_event L S 1 fd p
      else if has_ev ev EPOLLHUP then handle_hup fd p else Inr p)"
      using write_event_inv[OF I, of 1] hup I by simp
  qed
qed

lemma each_event_inv: "I p \<Longrightarrow> sat I (each_event (master_event L S n) es p)"
proof (induction es arbitrary: p)
  case (Cons e es)
  show ?case by (simp, rule sat_bind[OF master_event_inv[OF Cons.prems]], rule Cons.IH)
qed simp

end

section \<open>Signals\<close>

context master_ops
begin

lemma kill_children_inv: "I p \<Longrightarrow> sat I (kill_children signo i k p)"
  by (induction signo i k p rule: kill_children.induct) (auto simp: Let_def keeps)

lemma handle_term_inv: "I p \<Longrightarrow> sat I (handle_term pid signo p)"
  by (simp add: handle_term_def kill_children_inv keeps)

lemma close_fds_inv: "I p \<Longrightarrow> sat I (close_fds idx i k p)"
proof (induction k arbitrary: i p)
  case (Suc k)
  show ?case
    unfolding close_fds.simps
    by (rule sat_bind_any, rule sat_if, rule sat_bind[OF upd_fdw_inv])
      (use Suc in \<open>auto simp: keeps rm_fd_from_epinfo_def\<close>)
qed simp

lemma master_listen_inv: "I p \<Longrightarrow> sat (\<lambda>(r, p1). I p1) (master_listen inet_pton inet_addr a i p)"
  unfolding master_listen_def
  by (rule sat_bind_any, rule sat_bind_any, rule sat_prod, rule sat_if, simp, rule sat_bind[OF add_fdinfo_inv], assumption,
      rule sat_prod, rule sat_if, simp, rule sat_bind[OF add_fdinfo_inv], simp, rule sat_prod)
    (auto simp: keeps)

end

section \<open>The whole loop\<close>

text \<open>An answer of \<open>epoll_wait\<close> whose restarts, if it has any, go as \<open>good\<close> says.\<close>

definition good_ans :: "(fork_ans \<Rightarrow> bool) \<Rightarrow> ep_ans \<Rightarrow> bool" where
  "good_ans good a \<longleftrightarrow> (case a of EpChld cs \<Rightarrow> list_all (good \<circ> snd) cs | _ \<Rightarrow> True)"

text \<open>
  Two more steps: one round over a send queue, and the restart of a worker, for the answers \<open>good\<close> allows.
\<close>

locale master_inv = master_ops +
  fixes inet_pton :: "string \<Rightarrow> 32 word option" and inet_addr :: "string \<Rightarrow> 32 word" and good :: "fork_ans \<Rightarrow> bool"
  assumes keep_send: "I p \<Longrightarrow> sat I (send_queue L S n i p)"
    and keep_start: "I p \<Longrightarrow> good a \<Longrightarrow> sat (\<lambda>(c, p1). I p1) (start_work inet_pton inet_addr a idx p)"
begin

lemma send_queues_inv: "I p \<Longrightarrow> sat I (send_queues L S n is p)"
proof (induction "is" arbitrary: p)
  case (Cons i "is")
  show ?case unfolding send_queues.simps by (rule sat_bind[OF keep_send[OF Cons.prems]]) (rule Cons.IH)
qed simp

lemma handle_sigchld_inv: "I p \<Longrightarrow> list_all (good \<circ> snd) cs \<Longrightarrow> sat (\<lambda>(c, p1). I p1) (handle_sigchld inet_pton inet_addr cs p)"
proof (induction cs arbitrary: p)
  case (Cons x cs)
  obtain pid a where x: "x = (pid, a)" by (cases x)
  show ?case
  proof (cases "reap_child pid p")
    case (Pair o1 p1)
    then have p1: "I p1" using Cons.prems(1) by (auto simp: reap_child_def keeps split: option.splits)
    show ?thesis
    proof (cases o1)
      case (Some i)
      have "sat (\<lambda>(c, p1). I p1) (rbind (start_work inet_pton inet_addr a i p1) (\<lambda>(child, p2).
        if child then Inr (Some i, p2) else handle_sigchld inet_pton inet_addr cs p2))"
        by (rule sat_bind[OF keep_start[OF p1]], use Cons.prems(2) x in simp, rule sat_prod, rule sat_if) (use Cons x in simp_all)
      then show ?thesis by (simp add: x Pair Some)
    qed (use Cons.IH[OF p1] Cons.prems(2) in \<open>simp add: x Pair\<close>)
  qed
qed simp

lemma wait_inv: "I p \<Longrightarrow> good_ans good a \<Longrightarrow>
    sat (\<lambda>(_, p1). I p1) (wait_step inet_pton inet_addr pid c r (master_event L S n) a p)"
  unfolding wait_step_def
  by (cases a) (auto simp: good_ans_def intro!: sat_bind[OF handle_term_inv] sat_bind[OF handle_sigchld_inv] sat_bind[OF each_event_inv])

lemma dispatch_inv: "I p \<Longrightarrow> list_all (good_ans good) as \<Longrightarrow>
    sat (\<lambda>(_, _, p1). I p1) (master_dispatch inet_pton inet_addr pid L S n as p)"
proof (induction as arbitrary: p)
  case (Cons a as)
  have a: "good_ans good a" "list_all (good_ans good) as" using Cons.prems(2) by simp_all
  show ?case
    unfolding master_dispatch.simps handle_closelist_def handle_readlist_def handle_mq_send_def rbind_assoc rbind_simps prod.case
    by (rule sat_if, simp add: Cons.prems, rule sat_bind[OF close_each_inv[OF Cons.prems(1)]], simp,
        rule sat_bind[OF read_each_inv], assumption, rule sat_bind[OF send_queues_inv], assumption,
        rule sat_bind[OF wait_inv[OF _ a(1)]], assumption, rule sat_prod, rule sat_option) (use Cons.IH a(2) in auto)
qed simp

end

end
