(* ===== verification/Master_Shape.thy ===== *)
theory Master_Shape
  imports Master_Loop
begin

text \<open>
  The shape of the master's state through all it does, restarts included: the interface of the loop interpreted for a
  predicate that asks nothing of a restart.
\<close>

section \<open>What has the same shape\<close>

definition same_shape :: "('l, 'h) proc \<Rightarrow> ('l, 'h) proc \<Rightarrow> bool" where
  "same_shape z p \<longleftrightarrow> p_setting p = p_setting z \<and> length (p_fds p) = length (p_fds z) \<and> length (p_works p) = length (p_works z)
     \<and> p_nr_used p = p_nr_used z \<and> length (p_chl_pids p) = length (p_chl_pids z) \<and> p_epfd p = p_epfd z"

lemma same_shape_refl: "same_shape p p"
  by (simp add: same_shape_def)

lemma same_shape_upd:
  assumes "same_shape z p"
  shows "same_shape z (p\<lparr>p_recvs := rs\<rparr>)" "same_shape z (p\<lparr>p_sends := ss\<rparr>)" "same_shape z (p\<lparr>p_ctls := cs\<rparr>)"
    "same_shape z (p\<lparr>p_allocs := al\<rparr>)" "same_shape z (eff e p)" "same_shape z (p\<lparr>p_count := c\<rparr>)"
    "same_shape z (p\<lparr>p_maxfd := mx\<rparr>)" "same_shape z (p\<lparr>p_accepts := ac\<rparr>)" "same_shape z (p\<lparr>p_links := l\<rparr>)"
    "same_shape z (p\<lparr>p_stop := st\<rparr>)" "same_shape z (p\<lparr>p_seq := sq\<rparr>)"
    "length ws = length (p_works p) \<Longrightarrow> same_shape z (p\<lparr>p_works := ws\<rparr>)"
    "length fs = length (p_fds p) \<Longrightarrow> same_shape z (p\<lparr>p_fds := fs\<rparr>)"
    "length ch = length (p_chl_pids p) \<Longrightarrow> same_shape z (p\<lparr>p_chl_pids := ch\<rparr>)"
  using assms by (simp_all add: same_shape_def eff_def)

lemma push_shape: "same_shape z p \<Longrightarrow> sat (\<lambda>(r, p1). same_shape z p1) (push_rq i b d p)"
  by (rule push_rq_length[where I = "same_shape z"]) (rule same_shape_upd)

interpretation shape: master_ops L S "same_shape z" for L S z
  by (unfold_locales, unfold_locales) (auto simp: same_shape_upd do_add_to_readlist_def do_del_from_readlist_def
      do_del_from_closelist_def fdw_Inr_iff intro!: push_shape sat_bind_any same_shape_upd)

section \<open>Sending and restarting\<close>

lemma upd_work_shape: "same_shape z p \<Longrightarrow> sat (same_shape z) (upd_work i f p)"
  by (auto simp: upd_work_def intro!: sat_bind_any same_shape_upd)

lemma send_queue_shape: "same_shape z p \<Longrightarrow> sat (same_shape z) (send_queue L S n i p)"
proof (induction n arbitrary: p)
  case (Suc n)
  show ?case
    unfolding send_queue.simps set_sq_def
    by (rule sat_bind_any, rule sat_bind_any, rule sat_prod, rule sat_bind[OF upd_work_shape[OF Suc.prems]], rule sat_option, simp,
        rule sat_bind_any, rule sat_bind_any, rule sat_bind[OF shape.blk_send_inv], assumption, rule sat_prod, rule sat_bind_any,
        rule sat_bind_any, rule sat_bind[OF upd_work_shape], simp, rule Suc.IH)
qed simp

lemma fini_queues_shape: "same_shape z p \<Longrightarrow> sat (same_shape z) (fini_queues is p)"
proof (induction "is" arbitrary: p)
  case (Cons i "is")
  show ?case
    unfolding fini_queues.simps Let_def
    by (rule sat_bind_any, rule sat_bind[OF upd_work_shape[OF Cons.prems]], rule Cons.IH)
qed simp

lemma mq_create_shape: "same_shape z p \<Longrightarrow> sat (\<lambda>(r, p1). same_shape z p1) (master_mq_create a1 a2 i p)"
  unfolding master_mq_create_def
  by (rule sat_let, rule sat_bind_any, rule sat_bind_any, rule sat_prod, rule sat_bind[OF upd_work_shape], assumption, rule sat_if,
      simp, rule sat_bind_any, rule sat_prod, rule sat_bind[OF upd_work_shape]) simp_all

lemma start_work_shape: "same_shape z p \<Longrightarrow> sat (\<lambda>(c, p1). same_shape z p1) (start_work inet_pton inet_addr a idx p)"
  unfolding start_work_def
  by (rule sat_bind[OF shape.close_fds_inv], assumption, rule sat_bind[OF fini_queues_shape], assumption, rule sat_bind_any, rule sat_let,
      rule sat_bind[OF mq_create_shape[where z = z]], simp add: same_shape_upd, rule sat_prod, rule sat_if, simp, rule sat_if, simp,
      rule sat_if, simp, rule sat_bind[OF shape.master_listen_inv[where z = z]], simp, rule sat_prod) (auto simp: same_shape_upd)

interpretation shape_loop: master_inv L S "same_shape z" inet_pton inet_addr "\<lambda>_. True" for L S z inet_pton inet_addr
  by unfold_locales (auto intro: send_queue_shape start_work_shape)

text \<open>
  Through any run of the master's loop, restarts of workers included, the settings, the size of the connection
  table, the number of workers and of the slots for their process ids, and the epoll descriptor stay what they were.
\<close>

theorem master_dispatch_keeps_shape:
  "sat (\<lambda>(_, _, p1). same_shape p p1) (master_dispatch inet_pton inet_addr pid L S n as p)"
  by (rule shape_loop.dispatch_inv) (auto simp: same_shape_refl good_ans_def list_all_iff split: ep_ans.split)

end
