(* ===== verification/Worker_Sessions.thy ===== *)
theory Worker_Sessions
  imports Entry_Inv
begin

text \<open>
  What a worker makes of the messages from the master (\<open>handle_mq_recv\<close> of \<^verbatim>\<open>work.c\<close> with the session table of
  \<^verbatim>\<open>fds.c\<close>): the refinement of an abstract server that keeps a map of sessions and serves a list of messages.
\<close>

section \<open>What the business library does, as the worker relies on it\<close>

text \<open>
  A library as an automaton: \<open>lib_st\<close> reads its state off a process; a message gives an answer (not 0: drop the client) and
  the next state, the notice of a closed client the next state.
\<close>

record ('x, 'w) lib_spec =
  lib_st :: "'w \<Rightarrow> 'x"
  lib_msg :: "'x \<Rightarrow> fdsess \<Rightarrow> byte list \<Rightarrow> int \<times> 'x"
  lib_closed :: "'x \<Rightarrow> int \<Rightarrow> 'x"

text \<open>
  It may answer clients through the send queue of the worker and change what is its own, but neither the sessions nor
  the receive queue. \<open>sq_ready\<close>: the send queue can be pushed to.
\<close>

definition sq_ready :: "int \<Rightarrow> ('l, 'h) proc \<Rightarrow> bool" where
  "sq_ready i p \<longleftrightarrow> (\<exists>ys. sq_holds p i ys)"

definition lib_frame :: "int \<Rightarrow> ('l, 'h) proc \<Rightarrow> ('l, 'h) proc \<Rightarrow> bool" where
  "lib_frame i p p1 \<longleftrightarrow> p_sess p1 = p_sess p \<and> length (p_works p1) = length (p_works p)
     \<and> wk_rq (p_works p1 ! nat i) = wk_rq (p_works p ! nat i) \<and> sq_ready i p1"

definition lib_laws :: "int \<Rightarrow> ('x, ('l, 'h) proc) lib_spec \<Rightarrow> ('l, 'h) proc serv_if \<Rightarrow> bool" where
  "lib_laws i A S \<longleftrightarrow>
     (\<forall>p ws h. lib_st A (p\<lparr>p_works := ws\<rparr>) = lib_st A p \<and> lib_st A (p\<lparr>p_sess := h\<rparr>) = lib_st A p) \<and>
     (\<forall>p d s. sq_ready i p \<longrightarrow> (\<exists>r p1. so_proc_cli_msg S d (int (length d)) s p = Inr (r, p1) \<and> lib_frame i p p1
        \<and> lib_msg A (lib_st A p) s d = (r, lib_st A p1))) \<and>
     (\<forall>p fd. sq_ready i p \<longrightarrow> (\<exists>p1. so_on_cli_closed S fd p = Inr p1 \<and> lib_frame i p p1
        \<and> lib_closed A (lib_st A p) fd = lib_st A p1))"

section \<open>Serving a list of messages, abstractly\<close>

definition sess_of :: "msg \<Rightarrow> fdsess" where
  "sess_of m = (case m of (b, d) \<Rightarrow> let a = dec_addr d in
     \<lparr>fs_fd = blk_fd b, fs_id = blk_id b, fs_ip = s32 (uint (addr_ip a)), fs_port = uint (addr_port a)\<rparr>)"

fun serve :: "('x, 'w) lib_spec \<Rightarrow> (int \<rightharpoonup> fdsess) \<times> 'x \<Rightarrow> msg \<Rightarrow> (int \<rightharpoonup> fdsess) \<times> 'x" where
  "serve A (fm, x) (b, d) =
     (if blk_type b = blk_code BLK_OPEN then (fm(blk_fd b \<mapsto> sess_of (b, d)), x)
      else case fm (blk_fd b) of
          None \<Rightarrow> (fm, x)
        | Some s \<Rightarrow>
            if blk_type b = blk_code BLK_DATA then
              (case lib_msg A x s d of (r, x1) \<Rightarrow>
                if r \<noteq> 0 then (fm(blk_fd b := None), lib_closed A x1 (blk_fd b)) else (fm, x1))
            else if blk_type b = blk_code BLK_CLOSE then (fm(blk_fd b := None), lib_closed A x (blk_fd b))
            else (fm, x))"

text \<open>Messages as the master sends them: a client is opened when it has no session, with its address.\<close>

fun orderly :: "int \<Rightarrow> ('x, 'w) lib_spec \<Rightarrow> (int \<rightharpoonup> fdsess) \<times> 'x \<Rightarrow> msg list \<Rightarrow> bool" where
  "orderly i A fx [] = True"
| "orderly i A fx ((b, d) # ms) = ((blk_type b = blk_code BLK_OPEN \<longrightarrow>
      blk_id b = i \<and> fst fx (blk_fd b) = None \<and> int (length d) = fd_addr_len) \<and> orderly i A (serve A fx (b, d)) ms)"

section \<open>One block\<close>

definition sess_map :: "('h, int, fdsess) ghash \<Rightarrow> ('l, 'h) proc \<Rightarrow> int \<rightharpoonup> fdsess" where
  "sess_map G p = gh_lookup G (p_sess p)"

definition sess_ids :: "int \<Rightarrow> (int \<rightharpoonup> fdsess) \<Rightarrow> bool" where
  "sess_ids i fm \<longleftrightarrow> (\<forall>fd s. fm fd = Some s \<longrightarrow> fs_id s = i)"

text \<open>What a block does, apart from the receive queue.\<close>

definition served :: "('h, int, fdsess) ghash \<Rightarrow> ('x, ('l, 'h) proc) lib_spec \<Rightarrow> int \<Rightarrow> (int \<rightharpoonup> fdsess) \<times> 'x \<Rightarrow> ('l, 'h) proc \<Rightarrow>
    ('l, 'h) proc \<Rightarrow> bool" where
  "served G A i fx p p1 \<longleftrightarrow> (sess_map G p1, lib_st A p1) = fx \<and> length (p_works p1) = length (p_works p)
     \<and> wk_rq (p_works p1 ! nat i) = wk_rq (p_works p ! nat i) \<and> sq_ready i p1"

lemma blk_close_served:
  assumes G: "ghash_laws G" and S: "lib_laws i A S" and sq: "sq_ready i p" and s: "sess_map G p (blk_fd b) = Some s"
  shows "\<exists>p1. do_blk_close G S b p = Inr (0, p1)
    \<and> served G A i ((sess_map G p)(blk_fd b := None), lib_closed A (lib_st A p) (blk_fd b)) p p1"
proof -
  obtain p1 where p1: "so_on_cli_closed S (blk_fd b) p = Inr p1" "lib_frame i p p1"
    "lib_closed A (lib_st A p) (blk_fd b) = lib_st A p1"
    using S sq unfolding lib_laws_def by blast
  have st: "lib_st A (p1\<lparr>p_sess := h\<rparr>) = lib_st A p1" for h using S by (simp add: lib_laws_def)
  have "sess_map G (remove_fd G (blk_fd b) p1) = (sess_map G p)(blk_fd b := None)"
    using p1(2) by (auto simp: sess_map_def remove_fd_def lib_frame_def ghash_simps[OF G])
  then show ?thesis
    using s p1 by (auto simp: do_blk_close_def get_fd_def sess_map_def served_def st lib_frame_def remove_fd_def
        sq_ready_def sq_holds_def)
qed

lemma close_cli_served:
  assumes G: "ghash_laws G" and S: "lib_laws i A S" and sq: "sq_ready i p" and s: "sess_map G p fd = Some s" "fs_id s = i"
    and ci: "is_cint i" "is_cint fd"
  shows "\<exists>p1. close_cli G S fd p = Inr p1
    \<and> served G A i ((sess_map G p)(fd := None), lib_closed A (lib_st A p) fd) p p1"
proof -
  let ?b = "\<lparr>blk_id = i, blk_fd = fd, blk_type = blk_code BLK_CLOSE, blk_len = blk_head_len\<rparr>"
  obtain ys where ys: "sq_holds p i ys" using sq by (auto simp: sq_ready_def)
  have "valid_msg (?b, [])" using close_msg_valid[OF ci] by (simp add: close_msg_def)
  from push_sq_ok[OF ys this] obtain r ws where w: "push_sq i ?b [] p = Inr (r, p\<lparr>p_works := ws\<rparr>)"
    "sq_holds (p\<lparr>p_works := ws\<rparr>) i (after_push r (?b, []) ys)" "length ws = length (p_works p)"
    "\<forall>j. wk_rq (ws ! j) = wk_rq (p_works p ! j)" by blast
  let ?p = "p\<lparr>p_works := ws\<rparr>"
  have st: "lib_st A ?p = lib_st A p" using S by (simp add: lib_laws_def)
  have "sq_ready i ?p" "sess_map G ?p = sess_map G p" using w(2) by (auto simp: sq_ready_def sess_map_def)
  then obtain p1 where p1: "do_blk_close G S ?b ?p = Inr (0, p1)"
    "served G A i ((sess_map G p)(fd := None), lib_closed A (lib_st A p) fd) ?p p1"
    using blk_close_served[OF G S, of ?p ?b s] s st by auto
  then show ?thesis using s w by (auto simp: close_cli_def get_fd_def sess_map_def served_def Let_def)
qed

lemma served_refl: "sq_ready i p \<Longrightarrow> served G A i (sess_map G p, lib_st A p) p p"
  by (simp add: served_def)

lemma blk_msg_served:
  assumes G: "ghash_laws G" and S: "lib_laws i A S" and sq: "sq_ready i p" and ids: "sess_ids i (sess_map G p)"
    and v: "valid_msg (b, d)" "is_cint i" and t: "blk_type b = blk_code BLK_DATA"
  shows "\<exists>r p1. do_blk_msg G S b (Inr d) p = Inr (r, p1) \<and> served G A i (serve A (sess_map G p, lib_st A p) (b, d)) p p1"
proof (cases "sess_map G p (blk_fd b)")
  case None
  then show ?thesis using t v served_refl[OF sq]
    by (auto simp: do_blk_msg_def get_fd_def sess_map_def valid_msg_def)
next
  case (Some s)
  have len: "blk_len b - blk_head_len = int (length d)" "\<not> blk_len b < blk_head_len" "is_cint (blk_fd b)"
    using v by (auto simp: valid_msg_def cint_head_def)
  obtain r p1 where p1: "so_proc_cli_msg S d (int (length d)) s p = Inr (r, p1)" "lib_frame i p p1"
    "lib_msg A (lib_st A p) s d = (r, lib_st A p1)"
    using S sq unfolding lib_laws_def by blast
  have m: "sess_map G p1 = sess_map G p" "sq_ready i p1" using p1(2) by (auto simp: sess_map_def lib_frame_def)
  show ?thesis
  proof (cases "r = 0")
    case True
    then show ?thesis using Some t p1 m len
      by (auto simp: do_blk_msg_def get_fd_def sess_map_def served_def lib_frame_def)
  next
    case False
    obtain p2 where p2: "close_cli G S (blk_fd b) p1 = Inr p2"
      "served G A i ((sess_map G p)(blk_fd b := None), lib_closed A (lib_st A p1) (blk_fd b)) p1 p2"
      using close_cli_served[OF G S m(2), of "blk_fd b" s] Some ids v(2) len m by (auto simp: sess_ids_def)
    then show ?thesis using Some t p1 m len False
      by (auto simp: do_blk_msg_def get_fd_def sess_map_def served_def lib_frame_def)
  qed
qed

lemma blk_open_served:
  assumes G: "ghash_laws G" and S: "lib_laws i A S" and sq: "sq_ready i p"
    and v: "valid_msg (b, d)" and o: "sess_map G p (blk_fd b) = None" "int (length d) = fd_addr_len"
  shows "\<exists>p1. do_blk_open G b (Inr d) p = Inr (0, p1) \<and> served G A i ((sess_map G p)(blk_fd b \<mapsto> sess_of (b, d)), lib_st A p) p p1"
proof -
  let ?p = "p\<lparr>p_sess := gh_insert G (p_sess p) (blk_fd b) (sess_of (b, d))\<rparr>"
  have st: "lib_st A ?p = lib_st A p" using S by (simp add: lib_laws_def)
  have "do_blk_open G b (Inr d) p = Inr (0, ?p)"
    using v o by (simp add: do_blk_open_def get_fd_def sess_map_def save_fd_def sess_of_def Let_def valid_msg_def)
  moreover have "sess_map G ?p = (sess_map G p)(blk_fd b \<mapsto> sess_of (b, d))"
    by (auto simp: sess_map_def ghash_simps[OF G])
  ultimately show ?thesis using sq st by (auto simp: served_def sq_ready_def sq_holds_def)
qed

lemma blk_is_parts:
  assumes "blk_is q a (b, d)" and "valid_msg (b, d)"
  shows "read_head q a = Inr b" "read_data q a (blk_len b - blk_head_len) = Inr d"
  using assms by (auto simp: blk_is_def read_msg_def rbind_Inr_iff)

lemma do_blk_served:
  assumes G: "ghash_laws G" and S: "lib_laws i A S" and sq: "sq_ready i p" and ids: "sess_ids i (sess_map G p)"
    and i: "0 \<le> i" "i < int (length (p_works p))" "is_cint i"
    and at: "blk_is (wk_rq (p_works p ! nat i)) a (b, d)" and v: "valid_msg (b, d)"
    and o: "orderly i A (sess_map G p, lib_st A p) [(b, d)]"
  shows "\<exists>p1. do_blk G S i a p = Inr p1 \<and> served G A i (serve A (sess_map G p, lib_st A p) (b, d)) p p1"
proof -
  note rd = blk_is_parts[OF at v]
  consider "blk_type b = blk_code BLK_DATA" | "blk_type b = blk_code BLK_OPEN" | "blk_type b = blk_code BLK_CLOSE"
    | "blk_type b \<notin> {blk_code BLK_DATA, blk_code BLK_OPEN, blk_code BLK_CLOSE}" by auto
  then show ?thesis
  proof cases
    case 1
    then show ?thesis using blk_msg_served[OF G S sq ids v i(3) 1] rd i by (auto simp: do_blk_def Let_def 1 simp del: serve.simps)
  next
    case 2
    then show ?thesis using blk_open_served[OF G S sq v] o rd i by (auto simp: do_blk_def Let_def)
  next
    case 3
    show ?thesis
    proof (cases "sess_map G p (blk_fd b)")
      case None
      then show ?thesis using 3 rd i served_refl[OF sq]
        by (auto simp: do_blk_def Let_def do_blk_close_def get_fd_def sess_map_def)
    next
      case (Some s)
      then show ?thesis using 3 rd i blk_close_served[OF G S sq Some] by (auto simp: do_blk_def Let_def)
    qed
  next
    case 4
    then show ?thesis using rd i served_refl[OF sq] by (auto simp: do_blk_def Let_def split: option.splits)
  qed
qed

lemma serve_ids: "sess_ids i fm \<Longrightarrow> orderly i A (fm, x) [(b, d)] \<Longrightarrow> sess_ids i (fst (serve A (fm, x) (b, d)))"
  by (auto simp: sess_ids_def sess_of_def Let_def split: option.splits prod.splits)

section \<open>All of them\<close>

text \<open>Writing the receive queue of the worker changes nothing else.\<close>

lemma set_rq_ok:
  assumes "0 \<le> i" "i < int (length (p_works p))"
  shows "\<exists>ws. set_rq i q p = Inr (p\<lparr>p_works := ws\<rparr>) \<and> length ws = length (p_works p) \<and> wk_rq (ws ! nat i) = q
    \<and> (sq_ready i (p\<lparr>p_works := ws\<rparr>) \<longleftrightarrow> sq_ready i p)"
proof -
  have "nat i < length (p_works p)" using assms by simp
  then show ?thesis using assms
    by (intro exI[of _ "(p_works p)[nat i := (p_works p ! nat i)\<lparr>wk_rq := q\<rparr>]"])
      (simp add: set_rq_def sq_ready_def sq_holds_def)
qed

text \<open>One round of the loop, for whatever is to be shown of the block (\<open>Q\<close>).\<close>

lemma set_rq_works:
  assumes "0 \<le> i" "i < int (length (p_works p))"
  shows "\<exists>ws. set_rq i q p = Inr (p\<lparr>p_works := ws\<rparr>) \<and> length ws = length (p_works p) \<and> wk_rq (ws ! nat i) = q
      \<and> (\<forall>j. wk_sq (ws ! j) = wk_sq (p_works p ! j))"
  using assms by (intro exI[of _ "(p_works p)[nat i := (p_works p ! nat i)\<lparr>wk_rq := q\<rparr>]"]) (simp add: set_rq_def nth_list_update)

lemma recv_start:
  assumes rq: "rq_holds p i ((b, d) # xs)"
  shows "\<exists>a ws. length ws = length (p_works p) \<and> (\<forall>j. wk_sq (ws ! j) = wk_sq (p_works p ! j)) \<and>
    blk_is (wk_rq (ws ! nat i)) a (b, d) \<and> mq_front (wk_rq (ws ! nat i)) (b, d) xs \<and>
    handle_mq_recv G S (Suc n) i p = rbind (do_blk G S i a (p\<lparr>p_works := ws\<rparr>)) (\<lambda>p2. rbind (get_work p2 i) (\<lambda>k2.
      rbind (mq_pop (wk_rq k2)) (\<lambda>q2. rbind (set_rq i q2 p2) (handle_mq_recv G S n i))))"
proof -
  have i: "0 \<le> i" "i < int (length (p_works p))" and rel: "mq_rel (wk_rq (p_works p ! nat i)) ((b, d) # xs)"
    using rq by (auto simp: rq_holds_def)
  obtain a q1 where q1: "mq_get (wk_rq (p_works p ! nat i)) = Inr (Some a, q1)" "mq_front q1 (b, d) xs" "blk_is q1 a (b, d)"
    using mq_get_rel_cons[OF rel] by blast
  obtain ws where w: "set_rq i q1 p = Inr (p\<lparr>p_works := ws\<rparr>)" "length ws = length (p_works p)" "wk_rq (ws ! nat i) = q1"
    "\<forall>j. wk_sq (ws ! j) = wk_sq (p_works p ! j)" using set_rq_works[OF i] by blast
  have "handle_mq_recv G S (Suc n) i p = rbind (do_blk G S i a (p\<lparr>p_works := ws\<rparr>)) (\<lambda>p2. rbind (get_work p2 i) (\<lambda>k2.
      rbind (mq_pop (wk_rq k2)) (\<lambda>q2. rbind (set_rq i q2 p2) (handle_mq_recv G S n i))))"
    using i q1(1) w(1) by simp
  then show ?thesis using w q1 by blast
qed

lemma recv_round:
  assumes rq: "rq_holds p i ((b, d) # xs)"
    and blk: "\<And>ws a. length ws = length (p_works p) \<Longrightarrow> (\<forall>j. wk_sq (ws ! j) = wk_sq (p_works p ! j)) \<Longrightarrow>
      blk_is (wk_rq (ws ! nat i)) a (b, d) \<Longrightarrow> \<exists>p2. do_blk G S i a (p\<lparr>p_works := ws\<rparr>) = Inr p2
        \<and> length (p_works p2) = length (p_works p) \<and> wk_rq (p_works p2 ! nat i) = wk_rq (ws ! nat i) \<and> Q p2"
    and Q: "\<And>p ws. Q p \<Longrightarrow> length ws = length (p_works p) \<Longrightarrow> (\<forall>j. wk_sq (ws ! j) = wk_sq (p_works p ! j)) \<Longrightarrow> Q (p\<lparr>p_works := ws\<rparr>)"
  shows "\<exists>p1. handle_mq_recv G S (Suc n) i p = handle_mq_recv G S n i p1 \<and> rq_holds p1 i xs \<and> Q p1"
proof -
  have i: "0 \<le> i" "i < int (length (p_works p))" using rq by (auto simp: rq_holds_def)
  obtain a ws where w: "length ws = length (p_works p)" "\<forall>j. wk_sq (ws ! j) = wk_sq (p_works p ! j)"
    "blk_is (wk_rq (ws ! nat i)) a (b, d)" "mq_front (wk_rq (ws ! nat i)) (b, d) xs" and
    run: "handle_mq_recv G S (Suc n) i p = rbind (do_blk G S i a (p\<lparr>p_works := ws\<rparr>)) (\<lambda>p2. rbind (get_work p2 i) (\<lambda>k2.
      rbind (mq_pop (wk_rq k2)) (\<lambda>q2. rbind (set_rq i q2 p2) (handle_mq_recv G S n i))))"
    using recv_start[OF rq] by blast
  obtain p2 where p2: "do_blk G S i a (p\<lparr>p_works := ws\<rparr>) = Inr p2" "length (p_works p2) = length (p_works p)"
    "wk_rq (p_works p2 ! nat i) = wk_rq (ws ! nat i)" "Q p2" using blk[OF w(1-3)] by blast
  have i2: "i < int (length (p_works p2))" using i p2(2) by simp
  obtain q2 where q2: "mq_pop (wk_rq (ws ! nat i)) = Inr q2" "mq_rel q2 xs" using mq_pop_rel[OF w(4)] by blast
  obtain ws2 where w2: "set_rq i q2 p2 = Inr (p2\<lparr>p_works := ws2\<rparr>)" "length ws2 = length (p_works p2)" "wk_rq (ws2 ! nat i) = q2"
    "\<forall>j. wk_sq (ws2 ! j) = wk_sq (p_works p2 ! j)" using set_rq_works[OF i(1) i2] by blast
  have "handle_mq_recv G S (Suc n) i p = handle_mq_recv G S n i (p2\<lparr>p_works := ws2\<rparr>)"
    using run i p2 i2 q2(1) w2(1) by simp
  moreover have "rq_holds (p2\<lparr>p_works := ws2\<rparr>) i xs" using w2 i i2 q2(2) by (simp add: rq_holds_def)
  ultimately show ?thesis using Q[OF p2(4) w2(2,4)] by blast
qed

lemma serve_next:
  assumes G: "ghash_laws G" and S: "lib_laws i A S" and q: "rq_holds p i ((b, d) # xs)" "is_cint i" and sq: "sq_ready i p"
    and ids: "sess_ids i (sess_map G p)" and v: "valid_msg (b, d)" and o: "orderly i A (sess_map G p, lib_st A p) [(b, d)]"
  shows "\<exists>p1. handle_mq_recv G S (Suc n) i p = handle_mq_recv G S n i p1 \<and> rq_holds p1 i xs \<and> sq_ready i p1
    \<and> (sess_map G p1, lib_st A p1) = serve A (sess_map G p, lib_st A p) (b, d)"
proof (rule recv_round[OF q(1)], goal_cases)
  have st: "lib_st A (p\<lparr>p_works := ws\<rparr>) = lib_st A p" for p ws using S by (simp add: lib_laws_def)
  have i: "0 \<le> i" "i < int (length (p_works p))" using q(1) by (auto simp: rq_holds_def)
  {
    case (1 ws a)
    then have "sess_map G (p\<lparr>p_works := ws\<rparr>) = sess_map G p" "sq_ready i (p\<lparr>p_works := ws\<rparr>)"
      using sq by (simp_all add: sess_map_def sq_ready_def sq_holds_def)
    then show ?case using do_blk_served[OF G S, of "p\<lparr>p_works := ws\<rparr>" a b d] ids i 1 q(2) v o st by (auto simp: served_def)
  next
    case (2 p ws)
    then show ?case using st by (simp add: sess_map_def sq_ready_def sq_holds_def)
  }
qed

lemma mq_recv_serves:
  assumes "ghash_laws G" and "lib_laws i A S" and "rq_holds p i ms" and "is_cint i" and "sq_ready i p"
    and "sess_ids i (sess_map G p)" and "list_all valid_msg ms" and "orderly i A (sess_map G p, lib_st A p) ms" and "length ms < n"
  shows "\<exists>p1. handle_mq_recv G S n i p = Inr (0, p1) \<and> rq_holds p1 i [] \<and> sq_ready i p1
    \<and> (sess_map G p1, lib_st A p1) = foldl (serve A) (sess_map G p, lib_st A p) ms"
  using assms(3,5-9)
proof (induction ms arbitrary: p n)
  case Nil
  then obtain m where n: "n = Suc m" by (cases n) auto
  have i: "0 \<le> i" "i < int (length (p_works p))" and rel: "mq_rel (wk_rq (p_works p ! nat i)) []"
    using Nil(1) by (auto simp: rq_holds_def)
  obtain q1 where q1: "mq_get (wk_rq (p_works p ! nat i)) = Inr (None, q1)" "mq_rel q1 []" using mq_get_rel_nil[OF rel] by blast
  obtain ws where w: "set_rq i q1 p = Inr (p\<lparr>p_works := ws\<rparr>)" "length ws = length (p_works p)" "wk_rq (ws ! nat i) = q1"
    "sq_ready i (p\<lparr>p_works := ws\<rparr>)" using set_rq_ok[OF i, of q1] Nil(2) by blast
  have "lib_st A (p\<lparr>p_works := ws\<rparr>) = lib_st A p" using assms(2) by (simp add: lib_laws_def)
  then show ?case using n i q1 w by (simp add: rq_holds_def sess_map_def)
next
  case (Cons m ms)
  obtain b d where m: "m = (b, d)" by (cases m)
  obtain k where n: "n = Suc k" using Cons.prems(6) by (cases n) auto
  have o: "orderly i A (sess_map G p, lib_st A p) [(b, d)]" using Cons.prems(5) by (simp add: m)
  obtain p1 where p1: "handle_mq_recv G S (Suc k) i p = handle_mq_recv G S k i p1" "rq_holds p1 i ms" "sq_ready i p1"
    "(sess_map G p1, lib_st A p1) = serve A (sess_map G p, lib_st A p) (b, d)"
    using serve_next[OF assms(1,2) _ assms(4), of p b d ms k] Cons.prems o by (auto simp: m)
  have "sess_ids i (sess_map G p1)" using serve_ids[OF Cons.prems(3) o] p1(4)[symmetric] by simp
  moreover have "orderly i A (sess_map G p1, lib_st A p1) ms" using Cons.prems(5) p1(4) by (simp add: m)
  ultimately show ?case using Cons.IH[OF p1(2,3), of k] Cons.prems(4,6) p1 n by (simp add: m)
qed

text \<open>
  C10: One call of \<open>handle_mq_recv\<close> serves all the messages in the queue, in order: it returns 0 with the queue empty, and
  the sessions and the state of the business library are those after the messages one by one. A new client gets a session,
  a message goes to the library with the session of its client and is dropped if there is none, a client that is closed
  or whose message the library refuses loses its session and the library is told. The messages have to be in the order a master sends them
  in that tells the worker of every end of a client (\<open>orderly\<close>): a block that opens a client comes for a descriptor without a session; the other
  case is \<open>refused_open_desync\<close>.
\<close>

theorem handle_mq_recv_serves:
  assumes "ghash_laws G" and "lib_laws i A S" and "rq_holds p i ms" and "is_cint i" and "sq_ready i p"
    and "sess_ids i (sess_map G p)" and "list_all valid_msg ms" and "orderly i A (sess_map G p, lib_st A p) ms" and "length ms < n"
  shows "\<exists>p1. handle_mq_recv G S n i p = Inr (0, p1) \<and> rq_holds p1 i [] \<and> sq_ready i p1
    \<and> (sess_map G p1, lib_st A p1) = foldl (serve A) (sess_map G p, lib_st A p) ms"
  by (rule mq_recv_serves[OF assms])

text \<open>A library that refuses every message; client 7 connects and sends one.\<close>

definition strict_serv :: "('l, 'h) proc serv_if" where
  "strict_serv = demo_serv\<lparr>so_proc_cli_msg := (\<lambda>d n s p. Inr (1, p))\<rparr>"

definition strict_lib :: "(unit, ('l, 'h) proc) lib_spec" where
  "strict_lib = \<lparr>lib_st = (\<lambda>_. ()), lib_msg = (\<lambda>_ _ _. (1, ())), lib_closed = (\<lambda>_ _. ())\<rparr>"

lemma strict_laws: "lib_laws i strict_lib strict_serv"
  by (auto simp: lib_laws_def strict_lib_def strict_serv_def demo_serv_def lib_frame_def)

definition demo_open :: msg where
  "demo_open = (\<lparr>blk_id = 0, blk_fd = 7, blk_type = blk_code BLK_OPEN, blk_len = 19\<rparr>, [1, 0, 0, 127, 80, 0])"

lemma demo_open_valid: "valid_msg demo_open"
  by (simp add: demo_open_def valid_msg_def cint_head_def is_cint_def blk_head_len_def MQ_MAX_def)

lemma demo_two: "\<exists>q. mq_rel q [demo_open, demo_msg]"
proof -
  obtain r q1 where q1: "mq_push demo_queue (fst demo_open) (snd demo_open) = Inr (r, q1)" "mq_rel q1 [demo_open]"
    "mq_head q1 = 31 \<and> mq_tail q1 = 12 \<and> mq_len q1 = 64"
    using mq_push_pushed[OF demo_queue_rel, of "fst demo_open" "snd demo_open"] demo_open_valid
    by (auto simp: accepts_def pushed_def demo_queue_def demo_open_def mq_push_def mapped_def mem_head_len_def mq_push_round
        numeral_2_eq_2 is_cint_def write_blk_def rbind_Inr_iff memcpy_src_def split: if_splits)
  then have "accepts q1 (fst demo_msg)" by (simp add: accepts_def demo_msg_def)
  then obtain q2 where "pushed q1 [demo_open] (fst demo_msg, snd demo_msg) 0 q2"
    using mq_push_pushed[OF q1(2), of "fst demo_msg" "snd demo_msg"] demo_msg_valid by auto
  then show ?thesis by (auto simp: pushed_def)
qed

lemma handle_mq_recv_serves_witness:
  "\<exists>(p :: (lnode \<Rightarrow> lnode list, int \<rightharpoonup> fdsess) proc) p1. rq_holds p 0 [demo_open, demo_msg] \<and> handle_mq_recv demo_ghash strict_serv 5 0 p = Inr (0, p1)
    \<and> rq_holds p1 0 [] \<and> sess_map demo_ghash p1 = Map.empty"
proof -
  obtain q where q: "mq_rel q [demo_open, demo_msg]" using demo_two by blast
  define p where "p = (demo_proc [])\<lparr>p_works := [demo_work\<lparr>wk_rq := q\<rparr>]\<rparr>"
  have h: "rq_holds p 0 [demo_open, demo_msg]" using q by (simp add: p_def rq_holds_def)
  have s: "sq_ready 0 p" by (auto simp: p_def sq_ready_def sq_holds_def demo_work_def intro: demo_queue_rel)
  have e: "sess_map demo_ghash p = Map.empty" by (simp add: p_def sess_map_def demo_ghash_def)
  have "foldl (serve strict_lib) (Map.empty, ()) [demo_open, demo_msg] = (Map.empty, ())"
    by (simp add: demo_open_def demo_msg_def strict_lib_def)
  with handle_mq_recv_serves[OF demo_ghash_laws strict_laws h _ s, of 5]
  have "\<exists>p1. handle_mq_recv demo_ghash strict_serv 5 0 p = Inr (0, p1) \<and> rq_holds p1 0 [] \<and> sess_map demo_ghash p1 = Map.empty"
    by (auto simp: e sess_ids_def demo_open_valid demo_msg_valid is_cint_def) (auto simp: demo_open_def demo_msg_def fd_addr_len_def strict_lib_def)
  with h show ?thesis by blast
qed

section \<open>An open that is refused\<close>

lemma retyped_pop:
  assumes f: "mq_front q (b, d) xs" and st: "store (mq_shm q) (mq_tail q + 8) (blk_code BLK_CLOSE # le32 blk_head_len) = Inr m"
  shows "\<exists>q1. mq_pop (q\<lparr>mq_shm := m\<rparr>) = Inr q1 \<and> mq_tail q1 = mq_tail q + 13 \<and> load (mq_shm q1) (mq_tail q1) (int (length d)) = Inr d"
proof -
  have r: "mq_rel q ((b, d) # xs)" using f by (simp add: mq_front_def)
  obtain ys e where c: "chain (mq_shm q) (mq_tail q) ((b, d) # ys) e" "e < mq_len q" using mq_front_chain[OF f] by blast
  have wf: "mq_wf q" "mapped q" "mq_blk_cnt q = int (length ((b, d) # xs))" using mq_relD[OF r] by auto
  have e: "mq_tail q + 13 \<le> e" using chain_extent[OF c(1)] by simp
  have len: "length m = length (mq_shm q)" using length_store[OF st] .
  have "load m (mq_tail q + 9) 4 = Inr (le32 13)"
    using load_sub[OF load_store_same[OF st], of 1 4] by (simp add: blk_head_len_def add.commute)
  moreover have "load m (mq_tail q + 13) (int (length d)) = Inr d"
    using load_store_disjoint[OF st, of "mq_tail q + 13" "int (length d)"] c(1) by (simp add: blk_head_len_def)
  moreover have "is_cint (mq_tail q + 13)" "is_cint (int (length xs))"
    using e c(2) wf(1) mq_rel_count[OF r] by (auto simp: mq_wf_def is_cint_def MQ_MAX_def mem_head_len_def)
  moreover have "mapped (q\<lparr>mq_shm := m\<rparr>)" using wf(2) len by (simp add: mapped_def)
  ultimately show ?thesis using wf(3) by (simp add: mq_pop_def is_cint_def)
qed

text \<open>
  C34: When a worker refuses a new client, because it has a session for the descriptor already, it turns the block into
  a close block in the queue itself, with a shorter length. The block is then taken off with this length, so the queue goes on
  in the middle of it: the address of the client is where the next block is expected.
\<close>

theorem refused_open_desync:
  assumes q: "0 \<le> i" "i < int (length (p_works p))" "is_cint i" "mq_front (wk_rq (p_works p ! nat i)) (b, d) xs" "sq_holds p i ys"
    and b: "valid_msg (b, d)" "blk_type b = blk_code BLK_OPEN" "get_fd G p (blk_fd b) \<noteq> None"
  shows "\<exists>p1 q1. do_blk G S i (mq_tail (wk_rq (p_works p ! nat i))) p = Inr p1 \<and> mq_pop (wk_rq (p_works p1 ! nat i)) = Inr q1
    \<and> mq_tail q1 = mq_tail (wk_rq (p_works p ! nat i)) + blk_head_len \<and> load (mq_shm q1) (mq_tail q1) (int (length d)) = Inr d"
proof -
  define q where "q = wk_rq (p_works p ! nat i)"
  have f: "mq_front q (b, d) xs" using assms(4) by (simp add: q_def)
  have at: "blk_is q (mq_tail q) (b, d)" by (rule mq_front_blk_is[OF f])
  then have rd: "read_head q (mq_tail q) = Inr b" by (auto simp: blk_is_def read_msg_def rbind_Inr_iff)
  have wf: "mq_wf q" using f mq_relD(1) by (auto simp: mq_front_def)
  obtain zs e where c: "chain (mq_shm q) (mq_tail q) ((b, d) # zs) e" "e < mq_len q" using mq_front_chain[OF f] by blast
  have e: "mq_tail q + 13 \<le> e" using chain_extent[OF c(1)] by simp
  obtain m where m: "store (mq_shm q) (mq_tail q + 8) (blk_code BLK_CLOSE # le32 blk_head_len) = Inr m"
    using store_Inr[of "mq_tail q + 8" "blk_code BLK_CLOSE # le32 blk_head_len" "mq_shm q"] e c(2) wf
    by (auto simp: mq_wf_def mem_head_len_def)
  obtain q1 where q1: "mq_pop (q\<lparr>mq_shm := m\<rparr>) = Inr q1" "mq_tail q1 = mq_tail q + 13"
    "load (mq_shm q1) (mq_tail q1) (int (length d)) = Inr d" using retyped_pop[OF f m] by blast
  define p2 where "p2 = p\<lparr>p_works := (p_works p)[nat i := (p_works p ! nat i)\<lparr>wk_rq := q\<lparr>mq_shm := m\<rparr>\<rparr>]\<rparr>"
  have n: "nat i < length (p_works p)" using assms(1,2) by simp
  have p2: "set_rq i (q\<lparr>mq_shm := m\<rparr>) p = Inr p2" "sq_holds p2 i ys" "wk_rq (p_works p2 ! nat i) = q\<lparr>mq_shm := m\<rparr>"
    using assms(1,2,5) n by (simp_all add: p2_def set_rq_def sq_holds_def)
  let ?b = "b\<lparr>blk_type := blk_code BLK_CLOSE, blk_len := blk_head_len\<rparr>"
  have "valid_msg (?b, [])" using b(1) by (simp add: valid_msg_def cint_head_def is_cint_def blk_head_len_def MQ_MAX_def)
  then obtain r ws where ws: "push_sq i ?b [] p2 = Inr (r, p2\<lparr>p_works := ws\<rparr>)" "\<forall>j. wk_rq (ws ! j) = wk_rq (p_works p2 ! j)"
    using push_sq_ok[OF p2(2)] by blast
  have "do_blk G S i (mq_tail q) p = Inr (p2\<lparr>p_works := ws\<rparr>)"
    using assms(1,2) rd b m p2(1) ws(1) by (simp add: do_blk_def Let_def do_blk_open_def q_def[symmetric])
  then show ?thesis using q1 ws(2) p2(3)
    by (intro exI[of _ "p2\<lparr>p_works := ws\<rparr>"] exI[of _ q1]) (simp add: q_def[symmetric] blk_head_len_def)
qed

lemma refused_open_desync_witness:
  "\<exists>(p :: (lnode \<Rightarrow> lnode list, int \<rightharpoonup> fdsess) proc) q p1 q1. wk_rq (p_works p ! 0) = q \<and> mq_rel q [demo_open, demo_msg]
     \<and> do_blk demo_ghash demo_serv 0 (mq_tail q) p = Inr p1 \<and> mq_pop (wk_rq (p_works p1 ! 0)) = Inr q1
     \<and> load (mq_shm q1) (mq_tail q1) 6 = Inr [1, 0, 0, 127, 80, 0]"
proof -
  obtain q0 where "mq_rel q0 [demo_open, demo_msg]" using demo_two by blast
  then obtain q where q: "mq_front q demo_open [demo_msg]" using mq_get_rel_cons by blast
  define p :: "(lnode \<Rightarrow> lnode list, int \<rightharpoonup> fdsess) proc" where
    "p = (demo_proc [])\<lparr>p_works := [demo_work\<lparr>wk_rq := q\<rparr>], p_sess := [7 \<mapsto> sess_of demo_open]\<rparr>"
  have sq: "sq_holds p 0 []" by (simp add: p_def sq_holds_def demo_work_def demo_queue_rel)
  have w: "wk_rq (p_works p ! 0) = q" by (simp add: p_def)
  have "\<exists>p1 q1. do_blk demo_ghash demo_serv 0 (mq_tail (wk_rq (p_works p ! nat 0))) p = Inr p1 \<and> mq_pop (wk_rq (p_works p1 ! nat 0)) = Inr q1
    \<and> mq_tail q1 = mq_tail (wk_rq (p_works p ! nat 0)) + blk_head_len \<and> load (mq_shm q1) (mq_tail q1) (int (length (snd demo_open))) = Inr (snd demo_open)"
    by (rule refused_open_desync[where b = "fst demo_open" and xs = "[demo_msg]", OF _ _ _ _ sq])
      (use q demo_open_valid in \<open>simp_all add: p_def is_cint_def get_fd_def demo_ghash_def, simp_all add: demo_open_def\<close>)
  then obtain p1 q1 where r: "do_blk demo_ghash demo_serv 0 (mq_tail q) p = Inr p1" "mq_pop (wk_rq (p_works p1 ! 0)) = Inr q1"
    "load (mq_shm q1) (mq_tail q1) (int (length (snd demo_open))) = Inr (snd demo_open)" using w by auto
  have "mq_rel q [demo_open, demo_msg]" using q by (simp add: mq_front_def)
  then show ?thesis using w r by (intro exI[of _ p] exI[of _ q] exI[of _ p1] exI[of _ q1]) (simp add: demo_open_def)
qed

end
