(* ===== verification/Answer_Path.thy ===== *)
theory Answer_Path
  imports Worker_Sessions Master_Stream "HOL-Library.Sublist"
begin

text \<open>
  The way of an answer: from the business library through the send queue (\<open>send_to_cli\<close> of \<^verbatim>\<open>work.c\<close>) and the master
  (\<open>handle_mq_send\<close>, \<open>do_blk_send\<close> of \<^verbatim>\<open>master.c\<close>) to the clients.
\<close>

section \<open>The worker's side: the answers queued\<close>

text \<open>A worker answers: \<open>send_to_cli\<close> for each session and message; the messages the queue took are the result.\<close>

fun answers :: "(fdsess \<times> byte list) list \<Rightarrow> ('l, 'h) proc \<Rightarrow> ((fdsess \<times> byte list) list \<times> ('l, 'h) proc) res" where
  "answers [] p = Inr ([], p)"
| "answers ((s, d) # as) p = rbind (send_to_cli s d (int (length d)) p) (\<lambda>(r, p1).
     rbind (answers as p1) (\<lambda>(bs, p2). Inr (if r = 0 then (s, d) # bs else bs, p2)))"

definition answer_ok :: "int \<Rightarrow> fdsess \<times> byte list \<Rightarrow> bool" where
  "answer_ok i a \<longleftrightarrow> fs_id (fst a) = i \<and> is_cint (fs_fd (fst a)) \<and> snd a \<noteq> [] \<and> int (length (snd a)) \<le> MSG_MAX"

definition answer_msg :: "fdsess \<times> byte list \<Rightarrow> msg" where
  "answer_msg a = data_msg (fs_id (fst a)) (fs_fd (fst a)) (snd a)"

lemma send_to_cli_ok:
  assumes "sq_holds p i xs" and "is_cint i" and "answer_ok i (s, d)"
  shows "\<exists>r p1. send_to_cli s d (int (length d)) p = Inr (r, p1) \<and> (r = 0 \<or> r = - 1)
    \<and> sq_holds p1 i (after_push r (answer_msg (s, d)) xs)"
proof -
  have v: "valid_msg (answer_msg (s, d))" using assms(2,3) by (auto simp: answer_msg_def answer_ok_def intro: data_msg_valid)
  have c: "is_cint (int (length d) + blk_head_len)"
    using assms(3) by (simp add: answer_ok_def MSG_MAX_def MQ_MAX_def is_cint_def blk_head_len_def)
  have "valid_msg (fst (answer_msg (s, d)), snd (answer_msg (s, d)))" using v by simp
  from push_sq_ok[OF assms(1) this] obtain r ws where
    "push_sq i (fst (answer_msg (s, d))) (snd (answer_msg (s, d))) p = Inr (r, p\<lparr>p_works := ws\<rparr>)" "r = 0 \<or> r = - 1"
    "sq_holds (p\<lparr>p_works := ws\<rparr>) i (after_push r (answer_msg (s, d)) xs)" by auto
  then show ?thesis using assms(3) c by (auto simp: send_to_cli_def answer_msg_def data_msg_def answer_ok_def)
qed

lemma answers_ok:
  "sq_holds p i xs \<Longrightarrow> is_cint i \<Longrightarrow> list_all (answer_ok i) as \<Longrightarrow>
    \<exists>bs p1. answers as p = Inr (bs, p1) \<and> sq_holds p1 i (xs @ map answer_msg bs) \<and> list_all (answer_ok i) bs \<and> subseq bs as"
proof (induction as arbitrary: p xs)
  case (Cons a as)
  obtain s d where a: "a = (s, d)" by (cases a)
  obtain r p1 where r: "send_to_cli s d (int (length d)) p = Inr (r, p1)" "r = 0 \<or> r = - 1"
    "sq_holds p1 i (after_push r (answer_msg (s, d)) xs)"
    using send_to_cli_ok[OF Cons.prems(1,2), of s d] Cons.prems(3) by (auto simp: a)
  obtain bs p2 where b: "answers as p1 = Inr (bs, p2)" "sq_holds p2 i (after_push r (answer_msg (s, d)) xs @ map answer_msg bs)"
    "list_all (answer_ok i) bs" "subseq bs as"
    using Cons.IH[OF r(3) Cons.prems(2)] Cons.prems(3) by auto
  show ?case using r b Cons.prems(3) by (auto simp: a after_push_def intro: list_emb_Cons)
qed simp

section \<open>The master's side\<close>

lemma send_loop_whole: "bs \<noteq> [] \<Longrightarrow> send_loop bs [] (SDone (length bs) # rest) = Inr (int (length bs), bs, rest)"
  by (cases rest) simp_all

text \<open>Nothing is waiting and the kernel takes the message in one piece.\<close>

definition sent_whole :: "int \<Rightarrow> byte list \<Rightarrow> effect list" where
  "sent_whole fd d = [ESend fd d, ECtlMod fd (or EPOLLIN EPOLLET)]"

lemma do_fd_send_whole:
  assumes "valid_fd p fd" and "slen (buff_of p fd) = 0" and "d \<noteq> []" and "p_sends p = SDone (length d) # rest"
  shows "do_fd_send L S fd (d @ ext) (int (length d)) p
    = Inr (0, p\<lparr>p_sends := rest, p_trace := p_trace p @ sent_whole fd d\<rparr>)"
proof -
  have "safe_tcp_send_n (d @ ext) (int (length d)) (p_sends p) = Inr (int (length d), d, rest)"
    using assms(3,4) by (simp add: safe_tcp_send_n_def send_loop_whole del: send_loop.simps)
  then show ?thesis using assms(1,2)
    by (simp add: do_fd_send_def flush_pending_def send_direct_def queue_rest_def set_events_def Let_def eff_def
        mod_fd_to_epinfo_def sent_whole_def)
qed

lemma set_sq_ok:
  assumes "0 \<le> i" "i < int (length (p_works p))"
  shows "\<exists>ws. set_sq i q p = Inr (p\<lparr>p_works := ws\<rparr>) \<and> length ws = length (p_works p) \<and> wk_sq (ws ! nat i) = q"
proof -
  have "nat i < length (p_works p)" using assms by simp
  then show ?thesis using assms
    by (intro exI[of _ "(p_works p)[nat i := (p_works p ! nat i)\<lparr>wk_sq := q\<rparr>]"]) (simp add: set_sq_def)
qed

text \<open>What \<open>at_ptr\<close> and the length give of a block is its data.\<close>

lemma blk_is_data:
  assumes "blk_is q a (b, d)" and "valid_msg (b, d)"
  shows "\<exists>ext. at_ptr (Some (mq_shm q)) (a + blk_head_len) = Inr (d @ ext)"
proof -
  have "load (mq_shm q) (a + blk_head_len) (int (length d)) = Inr d"
    using assms by (auto simp: blk_is_def read_msg_def read_data_def rbind_Inr_iff valid_msg_def)
  then have l: "0 \<le> a + blk_head_len" "a + blk_head_len + int (length d) \<le> int (length (mq_shm q))"
    "d = take (length d) (drop (nat (a + blk_head_len)) (mq_shm q))"
    by (auto simp: load_def split: if_splits)
  then have "drop (nat (a + blk_head_len)) (mq_shm q) = d @ drop (length d) (drop (nat (a + blk_head_len)) (mq_shm q))"
    by (metis append_take_drop_id)
  then show ?thesis using l by (simp add: at_ptr_def) 
qed

text \<open>One round of the master, and all of them.\<close>

lemma send_queue_one:
  assumes q: "sq_holds p i (answer_msg a # xs)" and a: "answer_ok i a" "is_cint i"
    and fd: "valid_fd p (fs_fd (fst a))" "slen (buff_of p (fs_fd (fst a))) = 0"
    and ans: "p_sends p = SDone (length (snd a)) # rest"
  shows "\<exists>ws. send_queue L S (Suc n) i p = send_queue L S n i (p\<lparr>p_works := ws, p_sends := rest,
      p_trace := p_trace p @ sent_whole (fs_fd (fst a)) (snd a)\<rparr>) \<and> sq_holds (p\<lparr>p_works := ws\<rparr>) i xs"
proof -
  obtain b d where m: "answer_msg a = (b, d)" by (cases "answer_msg a")
  have d: "d = snd a" "blk_fd b = fs_fd (fst a)" "blk_type b = blk_code BLK_DATA" "blk_len b - blk_head_len = int (length d)"
    using m by (auto simp: answer_msg_def data_msg_def)
  have v: "valid_msg (b, d)" using data_msg_valid[of i "fs_fd (fst a)" "snd a"] a m by (auto simp: answer_msg_def answer_ok_def)
  have i: "0 \<le> i" "i < int (length (p_works p))" and rel: "mq_rel (wk_sq (p_works p ! nat i)) ((b, d) # xs)"
    using q by (auto simp: sq_holds_def m)
  obtain k q1 where q1: "mq_get (wk_sq (p_works p ! nat i)) = Inr (Some k, q1)" "mq_front q1 (b, d) xs" "blk_is q1 k (b, d)"
    using mq_get_rel_cons[OF rel] by blast
  obtain ws where w: "set_sq i q1 p = Inr (p\<lparr>p_works := ws\<rparr>)" "length ws = length (p_works p)" "wk_sq (ws ! nat i) = q1"
    using set_sq_ok[OF i] by blast
  obtain ext where e: "at_ptr (Some (mq_shm q1)) (k + blk_head_len) = Inr (d @ ext)" using blk_is_data[OF q1(3) v] by blast
  have rd: "read_head q1 k = Inr b" using q1(3) by (auto simp: blk_is_def read_msg_def rbind_Inr_iff)
  let ?p2 = "p\<lparr>p_works := ws, p_sends := rest, p_trace := p_trace p @ sent_whole (fs_fd (fst a)) (snd a)\<rparr>"
  have snd: "do_blk_send L S b (d @ ext) (p\<lparr>p_works := ws\<rparr>) = Inr (0, ?p2)"
    using do_fd_send_whole[of "p\<lparr>p_works := ws\<rparr>" "fs_fd (fst a)" d rest L S ext] fd ans d a(1)
    by (simp add: do_blk_send_def answer_ok_def)
  obtain q2 where q2: "mq_pop q1 = Inr q2" "mq_rel q2 xs" using mq_pop_rel[OF q1(2)] by blast
  have i2: "i < int (length (p_works ?p2))" using w(2) i by simp
  obtain ws2 where w2: "set_sq i q2 ?p2 = Inr (?p2\<lparr>p_works := ws2\<rparr>)" "length ws2 = length ws" "wk_sq (ws2 ! nat i) = q2"
    using set_sq_ok[OF i(1) i2] by auto
  have "send_queue L S (Suc n) i p = send_queue L S n i (?p2\<lparr>p_works := ws2\<rparr>)"
    using i i2 q1(1) w rd e snd q2(1) w2(1) by simp
  moreover have "sq_holds (p\<lparr>p_works := ws2\<rparr>) i xs" using w2 w i q2(2) by (simp add: sq_holds_def)
  moreover have "?p2\<lparr>p_works := ws2\<rparr> = p\<lparr>p_works := ws2, p_sends := rest,
      p_trace := p_trace p @ sent_whole (fs_fd (fst a)) (snd a)\<rparr>" by (cases p) simp
  ultimately show ?thesis by (intro exI[of _ ws2]) (simp del: send_queue.simps)
qed

lemma send_queue_all:
  assumes "sq_holds p i (map answer_msg as)" and "list_all (answer_ok i) as" and "is_cint i"
    and "\<forall>a\<in>set as. valid_fd p (fs_fd (fst a)) \<and> slen (buff_of p (fs_fd (fst a))) = 0"
    and "p_sends p = map (\<lambda>a. SDone (length (snd a))) as @ rest" and "length as < n"
  shows "\<exists>ws. send_queue L S n i p = Inr (p\<lparr>p_works := ws, p_sends := rest,
      p_trace := p_trace p @ concat (map (\<lambda>a. sent_whole (fs_fd (fst a)) (snd a)) as)\<rparr>) \<and> sq_holds (p\<lparr>p_works := ws\<rparr>) i []"
  using assms
proof (induction as arbitrary: p n)
  case Nil
  obtain m where n: "n = Suc m" using Nil.prems(6) by (cases n) auto
  have i: "0 \<le> i" "i < int (length (p_works p))" and rel: "mq_rel (wk_sq (p_works p ! nat i)) []"
    using Nil.prems(1) by (auto simp: sq_holds_def)
  obtain q1 where q1: "mq_get (wk_sq (p_works p ! nat i)) = Inr (None, q1)" "mq_rel q1 []" using mq_get_rel_nil[OF rel] by blast
  obtain ws where w: "set_sq i q1 p = Inr (p\<lparr>p_works := ws\<rparr>)" "length ws = length (p_works p)" "wk_sq (ws ! nat i) = q1"
    using set_sq_ok[OF i] by blast
  have "send_queue L S n i p = Inr (p\<lparr>p_works := ws\<rparr>)" using n i q1(1) w by simp
  moreover have "p\<lparr>p_works := ws\<rparr> = p\<lparr>p_works := ws, p_sends := rest, p_trace := p_trace p\<rparr>" using Nil.prems(5) by simp
  ultimately show ?case using w q1(2) i by (intro exI[of _ ws]) (simp add: sq_holds_def)
next
  case (Cons a as)
  obtain m where n: "n = Suc m" using Cons.prems(6) by (cases n) auto
  let ?p = "\<lambda>ws. p\<lparr>p_works := ws, p_sends := map (\<lambda>a. SDone (length (snd a))) as @ rest,
      p_trace := p_trace p @ sent_whole (fs_fd (fst a)) (snd a)\<rparr>"
  obtain ws where w: "send_queue L S (Suc m) i p = send_queue L S m i (?p ws)" "sq_holds (p\<lparr>p_works := ws\<rparr>) i (map answer_msg as)"
    using send_queue_one[of p i a "map answer_msg as" "map (\<lambda>a. SDone (length (snd a))) as @ rest" L S m] Cons.prems by auto
  have "sq_holds (?p ws) i (map answer_msg as)" using w(2) by (simp add: sq_holds_def)
  from Cons.IH[OF this, of m] obtain ws2 where "send_queue L S m i (?p ws) = Inr ((?p ws)\<lparr>p_works := ws2, p_sends := rest,
      p_trace := p_trace (?p ws) @ concat (map (\<lambda>a. sent_whole (fs_fd (fst a)) (snd a)) as)\<rparr>)"
    "sq_holds ((?p ws)\<lparr>p_works := ws2\<rparr>) i []"
    using Cons.prems n by (auto simp: valid_fd_def)
  moreover have "(?p ws)\<lparr>p_works := ws2, p_sends := rest,
      p_trace := p_trace (?p ws) @ concat (map (\<lambda>a. sent_whole (fs_fd (fst a)) (snd a)) as)\<rparr> =
    p\<lparr>p_works := ws2, p_sends := rest, p_trace := p_trace p @ concat (map (\<lambda>a. sent_whole (fs_fd (fst a)) (snd a)) (a # as))\<rparr>"
    by (cases p) simp
  ultimately show ?case using w(1) n by (intro exI[of _ ws2]) (simp add: sq_holds_def del: send_queue.simps)
qed

section \<open>Both together\<close>

lemma sent_on_whole:
  "sent_on fd (concat (map (\<lambda>a. sent_whole (fs_fd (fst a)) (snd a)) bs)) = concat (map snd (filter (\<lambda>a. fs_fd (fst a) = fd) bs))"
  by (induction bs) (simp_all add: sent_whole_def)

text \<open>
  C9: From the business library to the clients. A worker whose send queue is empty gives messages for clients to \<open>send_to_cli\<close>; the master, which
  shares the send queue with it, then works the queue off. When nothing else is waiting for any of these clients and the kernel takes
  each message whole (otherwise see \<open>do_fd_write_full_flush\<close> and \<open>do_fd_send_no_buffer\<close>), every client is sent exactly the
  messages for it that the queue accepted, in order, and those are a subsequence of the messages given; the queue is empty and no
  connection has changed.
\<close>

theorem answers_reach_clients:
  assumes worker: "sq_holds pw i []" "is_cint i" "list_all (answer_ok i) as" "answers as pw = Inr (bs, pw')"
    and shared: "i < int (length (p_works pm))" "wk_sq (p_works pm ! nat i) = wk_sq (p_works pw' ! nat i)"
    and clients: "\<forall>a\<in>set as. valid_fd pm (fs_fd (fst a)) \<and> slen (buff_of pm (fs_fd (fst a))) = 0"
    and kernel: "p_sends pm = map (\<lambda>a. SDone (length (snd a))) bs @ rest" and n: "length as < n"
  shows "subseq bs as \<and> (\<exists>pm'. send_queue L S n i pm = Inr pm' \<and> sq_holds pm' i [] \<and> p_fds pm' = p_fds pm \<and>
    (\<forall>fd. sent_on fd (p_trace pm') = sent_on fd (p_trace pm) @ concat (map snd (filter (\<lambda>a. fs_fd (fst a) = fd) bs))))"
proof -
  have b: "sq_holds pw' i (map answer_msg bs)" "list_all (answer_ok i) bs" "subseq bs as"
    using answers_ok[OF worker(1-3)] worker(4) by auto
  have "sq_holds pm i (map answer_msg bs)" using b(1) shared by (simp add: sq_holds_def)
  moreover have "set bs \<subseteq> set as" using list_emb_set[OF b(3)] by blast
  moreover have "length bs \<le> length as" using list_emb_length[OF b(3)] .
  ultimately obtain ws where w: "send_queue L S n i pm = Inr (pm\<lparr>p_works := ws, p_sends := rest,
      p_trace := p_trace pm @ concat (map (\<lambda>a. sent_whole (fs_fd (fst a)) (snd a)) bs)\<rparr>)" "sq_holds (pm\<lparr>p_works := ws\<rparr>) i []"
    using send_queue_all[of pm i bs rest n L S] b(2) worker(2) clients kernel n by auto
  show ?thesis
    using b(3) w by (auto simp: sq_holds_def sent_on_whole)
qed

lemma answers_reach_clients_witness:
  "\<exists>pw' pm'. answers [(\<lparr>fs_fd = 7, fs_id = 1, fs_ip = 0, fs_port = 0\<rparr>, [104, 105])] ((demo_proc [])\<lparr>p_works := [demo_work, demo_work]\<rparr>)
       = Inr ([(\<lparr>fs_fd = 7, fs_id = 1, fs_ip = 0, fs_port = 0\<rparr>, [104, 105])], pw')
     \<and> send_queue demo_nlist demo_serv 3 1 ((demo_proc (replicate 8 (demo_wrap fd_type_cli 0 demo_buff)))
         \<lparr>p_works := p_works pw', p_sends := [SDone 2]\<rparr>) = Inr pm' \<and> sent_on 7 (p_trace pm') = [104, 105]"
proof -
  let ?a = "(\<lparr>fs_fd = 7, fs_id = 1, fs_ip = 0, fs_port = 0\<rparr>, [104, 105]) :: fdsess \<times> byte list"
  let ?pw = "(demo_proc [])\<lparr>p_works := [demo_work, demo_work]\<rparr>"
  obtain q where q: "mq_push demo_queue (fst demo_msg) (snd demo_msg) = Inr (0, q)" using demo_push by blast
  define pw' where "pw' = ?pw\<lparr>p_works := [demo_work, demo_work\<lparr>wk_sq := q\<rparr>]\<rparr>"
  have run: "answers [?a] ?pw = Inr ([?a], pw')"
    using q by (simp add: send_to_cli_def push_sq_def demo_msg_def blk_head_len_def is_cint_def demo_work_def pw'_def)
  let ?pm = "(demo_proc (replicate 8 (demo_wrap fd_type_cli 0 demo_buff)))\<lparr>p_works := p_works pw', p_sends := [SDone 2]\<rparr>"
  have sq: "sq_holds ?pw 1 []" by (simp add: sq_holds_def demo_work_def demo_queue_rel)
  have a: "list_all (answer_ok 1) [?a]" by (simp add: answer_ok_def is_cint_def MSG_MAX_def MQ_MAX_def)
  have m: "1 < int (length (p_works ?pm))" by (simp add: pw'_def)
  have c: "\<forall>a\<in>set [?a]. valid_fd ?pm (fs_fd (fst a)) \<and> slen (buff_of ?pm (fs_fd (fst a))) = 0"
    by (simp add: valid_fd_def demo_buff_def)
  have k: "p_sends ?pm = map (\<lambda>a. SDone (length (snd a))) [?a] @ []" by simp
  obtain pm' where "send_queue demo_nlist demo_serv 3 1 ?pm = Inr pm'"
    "sent_on 7 (p_trace pm') = sent_on 7 (p_trace ?pm) @ concat (map snd (filter (\<lambda>a. fs_fd (fst a) = 7) [?a]))"
    using answers_reach_clients[OF sq _ a run m _ c k, of 3 demo_nlist demo_serv] by (auto simp: is_cint_def simp del: send_queue.simps)
  then show ?thesis using run by (intro exI[of _ pw'] exI[of _ pm']) (simp del: send_queue.simps answers.simps)
qed

end
