(* ===== verification/Sample_Lib.thy ===== *)
theory Sample_Lib
  imports Answer_Path
begin

text \<open>
  The sample business library (\<^verbatim>\<open>test_sserv\<close>): an echo server. What it reads of a packet, its functions, the table the
  server calls them through, and how a stream of its packets is cut.
\<close>

section \<open>Packets\<close>

record proto_pkg =
  pkg_len :: int
  pkg_cmd :: "16 word"
  pkg_id :: int
  pkg_seq :: int
  pkg_ret :: int

text \<open>The fields of the packed structure, out of the bytes at the pointer.\<close>

definition proto_len :: int where "proto_len = 18"

definition dec_proto :: "byte list \<Rightarrow> proto_pkg res" where
  "dec_proto bs = rbind (load bs 0 proto_len) (\<lambda>h. Inr
     \<lparr>pkg_len = get32 (take 4 h), pkg_cmd = word_of_int (le_val (take 2 (drop 4 h))), pkg_id = get32 (take 4 (drop 6 h)),
      pkg_seq = get32 (take 4 (drop 10 h)), pkg_ret = get32 (take 4 (drop 14 h))\<rparr>)"

section \<open>The functions of the library\<close>

text \<open>\<open>memcpy(cli, msg, n)\<close> into an array of \<open>cap\<close> bytes on the stack.\<close>

definition copy_cli :: "int \<Rightarrow> byte list \<Rightarrow> int \<Rightarrow> byte list res" where
  "copy_cli cap msg n = (if cap < n then Inl OutOfBounds else memcpy_src msg n)"

definition get_msg_len :: "int \<Rightarrow> byte list \<Rightarrow> int \<Rightarrow> int \<Rightarrow> int res" where
  "get_msg_len fd data len ismaster = rbind (load data 0 4) (\<lambda>b. Inr (get32 b))"

definition CLI_SIZE :: int where "CLI_SIZE = 65536"

definition proc_cli_msg :: "byte list \<Rightarrow> int \<Rightarrow> fdsess \<Rightarrow> ('l, 'h) proc \<Rightarrow> (int \<times> ('l, 'h) proc) res" where
  "proc_cli_msg msg len sess p = rbind (dec_proto msg) (\<lambda>pkg.
     rbind (copy_cli CLI_SIZE msg (pkg_len pkg)) (\<lambda>cli. send_to_cli sess cli (pkg_len pkg) p))"

definition handle_switch ::
  "('h, int, fdsess) ghash \<Rightarrow> int \<Rightarrow> byte list \<Rightarrow> int \<Rightarrow> ('l, 'h) proc \<Rightarrow> (int \<times> ('l, 'h) proc) res" where
  "handle_switch G fd msg len p = rbind (dec_proto msg) (\<lambda>pkg.
     rbind (copy_cli 4096 msg (pkg_len pkg)) (\<lambda>cli. case get_fd G p (pkg_seq pkg) of
       None \<Rightarrow> Inl NullDeref
     | Some sess \<Rightarrow> send_to_cli sess cli (pkg_len pkg) p))"

definition proc_serv_msg ::
  "('h, int, fdsess) ghash \<Rightarrow> int \<Rightarrow> int \<Rightarrow> byte list \<Rightarrow> int \<Rightarrow> ('l, 'h) proc \<Rightarrow> (int \<times> ('l, 'h) proc) res" where
  "proc_serv_msg G switch_fd fd msg len p =
     (if fd = switch_fd then rbind (handle_switch G fd msg len p) (\<lambda>(_, p1). Inr (0, p1)) else Inr (0, p))"

definition on_cli_closed :: "int \<Rightarrow> ('l, 'h) proc \<Rightarrow> (int \<times> ('l, 'h) proc) res" where
  "on_cli_closed fd p = Inr (0, p)"

text \<open>The result and the value of \<open>switch_fd\<close> afterwards.\<close>

definition on_serv_closed :: "int \<Rightarrow> int \<Rightarrow> int \<times> int" where
  "on_serv_closed switch_fd fd = (0, if fd = switch_fd then - 1 else switch_fd)"

text \<open>\<open>timer_init\<close>, \<open>timer_fini\<close> and \<open>timer_handle\<close> are libnanc's.\<close>

definition serv_init :: "('w \<Rightarrow> 'w res) \<Rightarrow> int \<Rightarrow> 'w \<Rightarrow> (int \<times> 'w) res" where
  "serv_init timer_init ismaster p = rbind (timer_init p) (\<lambda>p1. Inr (0, p1))"

definition serv_fini :: "('w \<Rightarrow> 'w res) \<Rightarrow> int \<Rightarrow> 'w \<Rightarrow> (int \<times> 'w) res" where
  "serv_fini timer_fini ismaster p = rbind (timer_fini p) (\<lambda>p1. Inr (0, p1))"

definition handle_timer :: "('w \<Rightarrow> 'w res) \<Rightarrow> 'w \<Rightarrow> 'w res" where
  "handle_timer timer_handle p = timer_handle p"

definition reload_logic :: "'w \<Rightarrow> (int \<times> 'w) res" where
  "reload_logic p = Inr (0, p)"

definition proc_mcast_msg :: "byte list \<Rightarrow> 'w \<Rightarrow> (int \<times> 'w) res" where
  "proc_mcast_msg pkg p = Inr (0, p)"

text \<open>
  The table the server calls it through. \<open>switch_fd\<close> starts as -1 and nothing in the library sets it to anything else.
\<close>

definition switch_start :: int where "switch_start = - 1"

definition sample_serv :: "('h, int, fdsess) ghash \<Rightarrow> (('l, 'h) proc \<Rightarrow> ('l, 'h) proc res) \<Rightarrow> ('l, 'h) proc serv_if" where
  "sample_serv G timer_handle = \<lparr>so_handle_timer = Some (handle_timer timer_handle), so_proc_cli_msg = proc_cli_msg,
     so_proc_serv_msg = (\<lambda>fd msg len p. rbind (proc_serv_msg G switch_start fd msg len p) (\<lambda>(_, p1). Inr p1)),
     so_on_cli_closed = (\<lambda>fd p. rbind (on_cli_closed fd p) (\<lambda>(_, p1). Inr p1)),
     so_on_serv_closed = Some (\<lambda>fd p. Inr p), so_get_msg_len = get_msg_len\<rparr>"

lemma switch_stays: "snd (on_serv_closed switch_start fd) = switch_start"
  by (simp add: on_serv_closed_def switch_start_def)

lemma sample_serv_simps [simp]:
  "so_proc_cli_msg (sample_serv G th) = proc_cli_msg" "so_get_msg_len (sample_serv G th) = get_msg_len"
  "so_on_cli_closed (sample_serv G th) fd p = Inr p"
  by (simp_all add: sample_serv_def on_cli_closed_def)

section \<open>Its packets in a stream\<close>

definition pkg_size :: "byte list \<Rightarrow> int" where
  "pkg_size bs = get32 (take 4 bs)"

definition head_in :: "byte list \<Rightarrow> bool" where
  "head_in bs \<longleftrightarrow> 4 \<le> length bs \<and> 0 < pkg_size bs"

definition is_pkg :: "byte list \<Rightarrow> bool" where
  "is_pkg d \<longleftrightarrow> pkg_size d = int (length d) \<and> proto_len \<le> int (length d) \<and> int (length d) \<le> CLI_SIZE"

lemma pkg_size_append: "4 \<le> length bs \<Longrightarrow> pkg_size (bs @ ds) = pkg_size bs"
  by (simp add: pkg_size_def)

lemma head_in_append: "head_in bs \<Longrightarrow> pkg_size (bs @ ds) = pkg_size bs"
  by (simp add: head_in_def pkg_size_append)

lemma sample_len_law: "len_law head_in (sample_serv G th) kind fd pkg_size"
  by (auto simp: len_law_def head_in_def get_msg_len_def load_def pkg_size_def min_def)

lemma pkg_size_cint: "4 \<le> length bs \<Longrightarrow> is_cint (pkg_size bs)"
  by (simp add: pkg_size_def get32_cint)

lemma get_msg_len_size: "4 \<le> length rb \<Longrightarrow> get_msg_len fd rb n k = Inr (pkg_size rb)"
  by (simp add: get_msg_len_def load_def pkg_size_def)

text \<open>Of \<open>n\<close> bytes of a stream of packets, how many belong to a packet that has not ended yet.\<close>

fun left_over :: "byte list list \<Rightarrow> nat \<Rightarrow> nat" where
  "left_over [] n = n"
| "left_over (d # ds) n = (if length d \<le> n then left_over ds (n - length d) else n)"

lemma left_over_append: "left_over (qs @ ds) (length (concat qs) + n) = left_over ds n"
  by (induction qs) (simp_all add: add.assoc)

text \<open>No piece ends within the length field of a packet.\<close>

definition fields_whole :: "byte list list \<Rightarrow> byte list list \<Rightarrow> bool" where
  "fields_whole ps us \<longleftrightarrow> (\<forall>k\<le>length us. left_over ps (length (concat (take k us))) \<notin> {1, 2, 3})"

text \<open>The length known for the packet in front: none yet, or the right one.\<close>

definition len_known :: "int \<Rightarrow> byte list \<Rightarrow> byte list list \<Rightarrow> bool" where
  "len_known c u ps \<longleftrightarrow> c = 0 \<or> ps \<noteq> [] \<and> u \<noteq> [] \<and> c = int (length (hd ps))"

lemma cut_part:
  "list_all is_pkg ps \<Longrightarrow> v @ w = concat ps \<Longrightarrow> len_known c v ps \<Longrightarrow> left_over ps (length v) \<notin> {1, 2, 3} \<Longrightarrow>
    asks head_in pkg_size c v \<and> (\<exists>qs rs r k. ps = qs @ rs \<and> cut pkg_size c v = (qs, r, k) \<and> v = concat qs @ r \<and> len_known k r rs)"
proof (induction ps arbitrary: v c)
  case Nil
  then show ?case by (subst asks.simps, subst cut.simps) (auto simp: len_known_def)
next
  case (Cons d ps)
  have d: "pkg_size d = int (length d)" "18 \<le> length d" "d \<noteq> []" using Cons.prems(1) by (auto simp: is_pkg_def proto_len_def)
  show ?case
  proof (cases "v = []")
    case True
    then have "c = 0" using Cons.prems(3) by (auto simp: len_known_def)
    then show ?thesis using True by (subst asks.simps, subst cut.simps) (auto simp: len_known_def)
  next
    case ne: False
    have c: "c = 0 \<or> c = int (length d)" using Cons.prems(3) by (auto simp: len_known_def)
    have four: "4 \<le> length v" using Cons.prems(4) ne d(2) by (cases "length v") (auto split: if_splits)
    have "take 4 v = take 4 (v @ w)" using four by simp
    also have "\<dots> = take 4 d" using Cons.prems(2) d(2) by simp
    finally have size: "pkg_size v = int (length d)" using d(1) by (simp add: pkg_size_def)
    then have head: "head_in v" using four d(2) by (auto simp: head_in_def)
    have m: "(if c = 0 \<and> v \<noteq> [] then pkg_size v else c) = int (length d)" using c size ne by auto
    show ?thesis
    proof (cases "length d \<le> length v")
      case False
      have "asks head_in pkg_size c v" using head size d(3) False by (subst asks.simps) (simp add: Let_def m)
      moreover have "cut pkg_size c v = ([], v, int (length d))" using False by (subst cut.simps) (simp add: Let_def m)
      ultimately show ?thesis using ne by (auto simp: len_known_def)
    next
      case True
      then obtain v' where v: "v = d @ v'" using Cons.prems(2)
        by (metis append_eq_append_conv_if append_take_drop_id concat.simps(2))
      have ih: "asks head_in pkg_size 0 v' \<and> (\<exists>qs rs r k. ps = qs @ rs \<and> cut pkg_size 0 v' = (qs, r, k) \<and> v' = concat qs @ r \<and> len_known k r rs)"
        by (rule Cons.IH) (use Cons.prems v in \<open>auto simp: len_known_def\<close>)
      then obtain qs rs r k where q: "ps = qs @ rs" "cut pkg_size 0 v' = (qs, r, k)" "v' = concat qs @ r" "len_known k r rs" by blast
      have "asks head_in pkg_size c v" using c head size d(3) ih by (subst asks.simps) (auto simp: Let_def v)
      moreover have "cut pkg_size c v = (d # qs, r, k)"
        using c size d(3) q(2) by (subst cut.simps) (auto simp: Let_def v cut.simps[of pkg_size 0 "[]"])
      ultimately show ?thesis using q v by (intro conjI exI[of _ "d # qs"] exI[of _ rs]) auto
    qed
  qed
qed

lemma cut_pkgs: "list_all is_pkg ps \<Longrightarrow> cut pkg_size 0 (concat ps) = (ps, [], 0)"
proof (induction ps)
  case (Cons d ps)
  have d: "pkg_size d = int (length d)" "18 \<le> length d" using Cons.prems by (auto simp: is_pkg_def proto_len_def)
  have "pkg_size (d @ concat ps) = int (length d)" using d pkg_size_append[of d "concat ps"] by simp
  then show ?case using Cons d(2) by (cases "concat ps = []") (subst cut.simps, auto simp: Let_def cut.simps[of pkg_size 0 "[]"])+
qed (simp add: cut.simps)

lemma fields_whole_asks:
  "list_all is_pkg ps \<Longrightarrow> u @ concat us = concat ps \<Longrightarrow> len_known c u ps \<Longrightarrow>
    (\<forall>k\<le>length us. left_over ps (length u + length (concat (take k us))) \<notin> {1, 2, 3}) \<Longrightarrow> asks_pieces head_in pkg_size c u us"
proof (induction us arbitrary: ps u c)
  case (Cons d us)
  have one: "left_over ps (length (u @ d)) \<notin> {1, 2, 3}" using Cons.prems(4)[rule_format, of 1] by simp
  have known: "len_known c (u @ d) ps" using Cons.prems(3) by (auto simp: len_known_def)
  obtain qs rs r k where q: "asks head_in pkg_size c (u @ d)" "ps = qs @ rs" "cut pkg_size c (u @ d) = (qs, r, k)"
    "u @ d = concat qs @ r" "len_known k r rs"
    using cut_part[OF Cons.prems(1) _ known one, of "concat us"] Cons.prems(2) by auto
  have len: "length u + length d = length (concat qs) + length r" using arg_cong[OF q(4), of length] by simp
  have "asks_pieces head_in pkg_size k r us"
  proof (rule Cons.IH[OF _ _ q(5)])
    show "list_all is_pkg rs" using Cons.prems(1) q(2) by simp
    have "concat qs @ r @ concat us = concat qs @ concat rs" using Cons.prems(2) q(2,4) by (metis append.assoc concat.simps(2) concat_append)
    then show "r @ concat us = concat rs" by simp
    have "left_over rs (length r + n) = left_over ps (length u + (length d + n))" for n
      using left_over_append[of qs rs "length r + n"] len q(2) by (simp add: add.assoc[symmetric])
    then show "\<forall>k\<le>length us. left_over rs (length r + length (concat (take k us))) \<notin> {1, 2, 3}"
      using Cons.prems(4)[rule_format, of "Suc k" for k] by simp
  qed
  then show ?case using q(1,3) by simp
qed simp

lemma sample_asks:
  assumes "list_all is_pkg ps" and "concat us = concat ps" and "fields_whole ps us"
  shows "asks_pieces head_in pkg_size 0 [] us"
  using fields_whole_asks[of ps "[]" us 0] assms by (simp add: fields_whole_def len_known_def)

end
