(* ===== verification/Sample_Echo.thy ===== *)
theory Sample_Echo
  imports Sample_Lib
begin

text \<open>
  What a client of the sample business library gets: its own packets back, through the master, the worker, the library, the
  send queue and the master again; and what packets of other kinds do to the server.
\<close>

section \<open>The worker echoes\<close>

lemma dec_proto_size: "proto_len \<le> int (length d) \<Longrightarrow> \<exists>k. dec_proto d = Inr k \<and> pkg_len k = pkg_size d"
  by (simp add: dec_proto_def load_def proto_len_def pkg_size_def)

lemma proc_cli_msg_pkg: "is_pkg d \<Longrightarrow> proc_cli_msg d n s p = send_to_cli s d (int (length d)) p"
  using dec_proto_size[of d] by (auto simp: is_pkg_def proc_cli_msg_def copy_cli_def memcpy_src_def)

text \<open>
  What one message of a client makes of its session and of the send queue: the answer is queued and the session stays, or
  the queue refuses it, and the session is closed with a notice to the master if there is room for that.
\<close>

definition echoed :: "('h, int, fdsess) ghash \<Rightarrow> int \<Rightarrow> fdsess \<Rightarrow> msg list \<Rightarrow> ('l, 'h) proc \<Rightarrow> bool" where
  "echoed G i s ys p \<longleftrightarrow> sess_map G p (fs_fd s) = Some s \<and> sq_holds p i ys"

definition echo_stopped :: "('h, int, fdsess) ghash \<Rightarrow> int \<Rightarrow> fdsess \<Rightarrow> msg list \<Rightarrow> ('l, 'h) proc \<Rightarrow> bool" where
  "echo_stopped G i s ys p \<longleftrightarrow> sess_map G p (fs_fd s) = None \<and>
     (sq_holds p i ys \<or> sq_holds p i (ys @ [close_msg i (fs_fd s)]))"

text \<open>Whether a queue takes the answers one after the other.\<close>

fun takes :: "int \<Rightarrow> int \<Rightarrow> mem_queue \<Rightarrow> byte list list \<Rightarrow> bool" where
  "takes i fd q [] = True"
| "takes i fd q (d # ds) = (case mq_push q (fst (data_msg i fd d)) d of Inl e \<Rightarrow> False | Inr (r, q1) \<Rightarrow> r = 0 \<and> takes i fd q1 ds)"

definition sq_takes :: "int \<Rightarrow> int \<Rightarrow> ('l, 'h) proc \<Rightarrow> byte list list \<Rightarrow> bool" where
  "sq_takes i fd p ds = takes i fd (wk_sq (p_works p ! nat i)) ds"

lemma sq_takes_push:
  assumes "push_sq i (fst (data_msg i fd d)) d p = Inr (r, p1)"
  shows "sq_takes i fd p (d # ds) \<longleftrightarrow> r = 0 \<and> sq_takes i fd p1 ds"
  using assms by (auto simp: push_sq_def rbind_Inr_iff get_work_def upd_work_def sq_takes_def split: if_splits)

lemma send_to_cli_pkg:
  assumes "sq_holds p i ys" and "is_cint i" and "is_cint (fs_fd s)" and "fs_id s = i" and "is_pkg d"
  shows "\<exists>r ws. send_to_cli s d (int (length d)) p = Inr (r, p\<lparr>p_works := ws\<rparr>) \<and> (r = 0 \<or> r = - 1)
    \<and> sq_holds (p\<lparr>p_works := ws\<rparr>) i (after_push r (data_msg i (fs_fd s) d) ys) \<and> length ws = length (p_works p)
    \<and> (\<forall>j. wk_rq (ws ! j) = wk_rq (p_works p ! j))
    \<and> (\<forall>ds. sq_takes i (fs_fd s) p (d # ds) \<longleftrightarrow> r = 0 \<and> sq_takes i (fs_fd s) (p\<lparr>p_works := ws\<rparr>) ds)"
proof -
  have l: "int (length d) \<le> MSG_MAX" "is_cint (int (length d) + blk_head_len)"
    using assms(5) by (simp_all add: is_pkg_def CLI_SIZE_def MSG_MAX_def MQ_MAX_def is_cint_def blk_head_len_def)
  obtain r ws where "push_sq i (fst (data_msg i (fs_fd s) d)) d p = Inr (r, p\<lparr>p_works := ws\<rparr>)" "r = 0 \<or> r = - 1"
    "sq_holds (p\<lparr>p_works := ws\<rparr>) i (after_push r (data_msg i (fs_fd s) d) ys)" "length ws = length (p_works p)"
    "\<forall>j. wk_rq (ws ! j) = wk_rq (p_works p ! j)"
    using push_sq_ok[OF assms(1), of "fst (data_msg i (fs_fd s) d)" d] data_msg_valid[OF assms(2,3) l(1)] by (auto simp: data_msg_def)
  moreover from this(1) have "sq_takes i (fs_fd s) p (d # ds) \<longleftrightarrow> r = 0 \<and> sq_takes i (fs_fd s) (p\<lparr>p_works := ws\<rparr>) ds" for ds
    by (rule sq_takes_push)
  ultimately show ?thesis using assms(4) l(2) by (auto simp: send_to_cli_def data_msg_def)
qed

lemma close_cli_sample:
  assumes G: "ghash_laws G" and sq: "sq_holds p i ys" and s: "sess_map G p (fs_fd s) = Some s" "fs_id s = i"
    and ci: "is_cint i" "is_cint (fs_fd s)"
  shows "\<exists>p1. close_cli G (sample_serv G th) (fs_fd s) p = Inr p1 \<and> echo_stopped G i s ys p1
    \<and> length (p_works p1) = length (p_works p) \<and> wk_rq (p_works p1 ! nat i) = wk_rq (p_works p ! nat i)"
proof -
  obtain r ws where w: "push_sq i (fst (close_msg i (fs_fd s))) [] p = Inr (r, p\<lparr>p_works := ws\<rparr>)" "r = 0 \<or> r = - 1"
    "sq_holds (p\<lparr>p_works := ws\<rparr>) i (after_push r (close_msg i (fs_fd s)) ys)" "length ws = length (p_works p)"
    "\<forall>j. wk_rq (ws ! j) = wk_rq (p_works p ! j)"
    using push_sq_ok[OF sq, of "fst (close_msg i (fs_fd s))" "[]"] close_msg_valid[OF ci] by (auto simp: close_msg_def)
  let ?p1 = "remove_fd G (fs_fd s) (p\<lparr>p_works := ws\<rparr>)"
  have "close_cli G (sample_serv G th) (fs_fd s) p = Inr ?p1"
    using s w(1) by (simp add: close_cli_def get_fd_def sess_map_def close_msg_def Let_def do_blk_close_def)
  moreover have "echo_stopped G i s ys ?p1"
    using w(2,3) by (auto simp: echo_stopped_def sess_map_def remove_fd_def ghash_simps[OF G] sq_holds_def after_push_def)
  ultimately show ?thesis using w(4,5) by (simp add: remove_fd_def)
qed

text \<open>Both outcomes, and that the room in the send queue decides.\<close>

definition echo_step :: "('h, int, fdsess) ghash \<Rightarrow> int \<Rightarrow> fdsess \<Rightarrow> msg list \<Rightarrow> byte list \<Rightarrow> ('l, 'h) proc \<Rightarrow> ('l, 'h) proc \<Rightarrow> bool" where
  "echo_step G i s ys d p p1 \<longleftrightarrow>
     echoed G i s (ys @ [data_msg i (fs_fd s) d]) p1 \<and> (\<forall>ds. sq_takes i (fs_fd s) p (d # ds) = sq_takes i (fs_fd s) p1 ds)
     \<or> echo_stopped G i s ys p1 \<and> (\<forall>ds. \<not> sq_takes i (fs_fd s) p (d # ds))"

lemma blk_msg_echo:
  assumes G: "ghash_laws G" and e: "echoed G i s ys p" and s: "fs_id s = i" "is_cint i" "is_cint (fs_fd s)" and d: "is_pkg d"
  shows "\<exists>r p1. do_blk_msg G (sample_serv G th) (fst (data_msg i (fs_fd s) d)) (Inr d) p = Inr (r, p1) \<and> echo_step G i s ys d p p1
    \<and> length (p_works p1) = length (p_works p) \<and> wk_rq (p_works p1 ! nat i) = wk_rq (p_works p ! nat i)"
proof -
  have m: "get_fd G p (fs_fd s) = Some s" "sq_holds p i ys" using e by (simp_all add: echoed_def get_fd_def sess_map_def)
  obtain r ws where w: "send_to_cli s d (int (length d)) p = Inr (r, p\<lparr>p_works := ws\<rparr>)" "r = 0 \<or> r = - 1"
    "sq_holds (p\<lparr>p_works := ws\<rparr>) i (after_push r (data_msg i (fs_fd s) d) ys)" "length ws = length (p_works p)"
    "\<forall>j. wk_rq (ws ! j) = wk_rq (p_works p ! j)"
    "\<forall>ds. sq_takes i (fs_fd s) p (d # ds) \<longleftrightarrow> r = 0 \<and> sq_takes i (fs_fd s) (p\<lparr>p_works := ws\<rparr>) ds"
    using send_to_cli_pkg[OF m(2) s(2,3,1) d] by blast
  let ?p = "p\<lparr>p_works := ws\<rparr>"
  have step: "do_blk_msg G (sample_serv G th) (fst (data_msg i (fs_fd s) d)) (Inr d) p =
    (if r \<noteq> 0 then rbind (close_cli G (sample_serv G th) (fs_fd s) ?p) (\<lambda>p2. Inr (0, p2)) else Inr (0, ?p))"
    using m(1) w(1) by (simp add: do_blk_msg_def data_msg_def blk_head_len_def proc_cli_msg_pkg[OF d])
  have sm: "sess_map G ?p (fs_fd s) = Some s" using e by (simp add: echoed_def sess_map_def)
  show ?thesis
  proof (cases "r = 0")
    case True
    then show ?thesis using step w sm by (simp add: echo_step_def echoed_def after_push_def)
  next
    case False
    then have "sq_holds ?p i ys" using w(3) by (simp add: after_push_def)
    from close_cli_sample[OF G this sm s(1-3), of th] show ?thesis using step False w(4-6) by (auto simp: echo_step_def)
  qed
qed

lemma do_blk_data:
  assumes i: "0 \<le> i" "i < int (length (p_works p))" and at: "blk_is (wk_rq (p_works p ! nat i)) a (data_msg i' fd d)"
    and v: "valid_msg (data_msg i' fd d)"
  shows "do_blk G S i a p = rbind (do_blk_msg G S (fst (data_msg i' fd d)) (Inr d) p) (\<lambda>(_, p1). Inr p1)"
  using i blk_is_parts[of _ a "fst (data_msg i' fd d)" d] at v by (simp add: do_blk_def data_msg_def Let_def)

lemma pkg_data_valid: "is_pkg d \<Longrightarrow> is_cint i \<Longrightarrow> is_cint fd \<Longrightarrow> valid_msg (data_msg i fd d)"
  by (rule data_msg_valid) (simp_all add: is_pkg_def CLI_SIZE_def MSG_MAX_def MQ_MAX_def)

lemma echo_round:
  assumes G: "ghash_laws G" and q: "rq_holds p i (data_msg i (fs_fd s) d # xs)" and e: "echoed G i s ys p"
    and s: "fs_id s = i" "is_cint i" "is_cint (fs_fd s)" and d: "is_pkg d"
  shows "\<exists>p1. handle_mq_recv G (sample_serv G th) (Suc n) i p = handle_mq_recv G (sample_serv G th) n i p1 \<and> rq_holds p1 i xs
    \<and> echo_step G i s ys d p p1"
proof (rule recv_round[where b = "fst (data_msg i (fs_fd s) d)" and d = d], goal_cases)
  case 1
  then show ?case using q by (simp add: data_msg_def)
next
  case (2 ws a)
  have i: "0 \<le> i" "i < int (length (p_works p))" using q by (simp_all add: rq_holds_def)
  have e1: "echoed G i s ys (p\<lparr>p_works := ws\<rparr>)" using e 2 by (simp add: echoed_def sess_map_def sq_holds_def)
  have "echo_step G i s ys d (p\<lparr>p_works := ws\<rparr>) = echo_step G i s ys d p" using 2 by (simp add: echo_step_def sq_takes_def fun_eq_iff)
  then show ?case using i 2 blk_msg_echo[OF G e1 s d, of th] do_blk_data[OF i(1), of "p\<lparr>p_works := ws\<rparr>" a i "fs_fd s" d G "sample_serv G th"]
      pkg_data_valid[OF d s(2,3)] by (auto simp: data_msg_def)
next
  case (3 p ws)
  then show ?case by (auto simp: echo_step_def echoed_def echo_stopped_def sess_map_def sq_holds_def sq_takes_def)
qed

lemma stopped_round:
  assumes q: "rq_holds p i (data_msg i (fs_fd s) d # xs)" and e: "echo_stopped G i s ys p"
    and s: "is_cint i" "is_cint (fs_fd s)" and d: "is_pkg d"
  shows "\<exists>p1. handle_mq_recv G (sample_serv G th) (Suc n) i p = handle_mq_recv G (sample_serv G th) n i p1 \<and> rq_holds p1 i xs
    \<and> echo_stopped G i s ys p1"
proof (rule recv_round[where b = "fst (data_msg i (fs_fd s) d)" and d = d], goal_cases)
  case 1
  then show ?case using q by (simp add: data_msg_def)
next
  case (2 ws a)
  have i: "0 \<le> i" "i < int (length (p_works p))" using q by (simp_all add: rq_holds_def)
  have "echo_stopped G i s ys (p\<lparr>p_works := ws\<rparr>)" using e 2 by (auto simp: echo_stopped_def sess_map_def sq_holds_def)
  moreover from this have "do_blk_msg G (sample_serv G th) (fst (data_msg i (fs_fd s) d)) (Inr d) (p\<lparr>p_works := ws\<rparr>) = Inr (0, p\<lparr>p_works := ws\<rparr>)"
    by (simp add: do_blk_msg_def data_msg_def echo_stopped_def get_fd_def sess_map_def)
  ultimately show ?case using i 2 do_blk_data[OF i(1), of "p\<lparr>p_works := ws\<rparr>" a i "fs_fd s" d G "sample_serv G th"]
      pkg_data_valid[OF d s] by (auto simp: data_msg_def)
next
  case (3 p ws)
  then show ?case by (auto simp: echo_stopped_def sess_map_def sq_holds_def)
qed

lemma mq_recv_nil:
  assumes "rq_holds p i []"
  shows "\<exists>ws. handle_mq_recv G S (Suc n) i p = Inr (0, p\<lparr>p_works := ws\<rparr>) \<and> rq_holds (p\<lparr>p_works := ws\<rparr>) i []
    \<and> length ws = length (p_works p) \<and> (\<forall>j. wk_sq (ws ! j) = wk_sq (p_works p ! j))"
proof -
  have i: "0 \<le> i" "i < int (length (p_works p))" and rel: "mq_rel (wk_rq (p_works p ! nat i)) []"
    using assms by (auto simp: rq_holds_def)
  obtain q1 where q1: "mq_get (wk_rq (p_works p ! nat i)) = Inr (None, q1)" "mq_rel q1 []" using mq_get_rel_nil[OF rel] by blast
  then show ?thesis using i
    by (intro exI[of _ "(p_works p)[nat i := (p_works p ! nat i)\<lparr>wk_rq := q1\<rparr>]"])
      (simp add: set_rq_def nth_list_update rq_holds_def)
qed

text \<open>All messages of one client, one after the other.\<close>

lemma stopped_run:
  "rq_holds p i (map (data_msg i (fs_fd s)) ps) \<Longrightarrow> echo_stopped G i s ys p \<Longrightarrow> is_cint i \<Longrightarrow> is_cint (fs_fd s) \<Longrightarrow>
    list_all is_pkg ps \<Longrightarrow> length ps < n \<Longrightarrow>
    \<exists>p1. handle_mq_recv G (sample_serv G th) n i p = Inr (0, p1) \<and> rq_holds p1 i [] \<and> echo_stopped G i s ys p1"
proof (induction ps arbitrary: p n)
  case Nil
  then obtain m where "n = Suc m" by (cases n) auto
  then show ?case using mq_recv_nil[of p i G "sample_serv G th" m] Nil by (fastforce simp: echo_stopped_def sess_map_def sq_holds_def)
next
  case (Cons d ps)
  then obtain m where "n = Suc m" by (cases n) auto
  then show ?case using stopped_round[of p i s d "map (data_msg i (fs_fd s)) ps" G ys th m] Cons by (auto simp del: handle_mq_recv.simps)
qed

lemma echo_run:
  assumes G: "ghash_laws G" and s: "fs_id s = i" "is_cint i" "is_cint (fs_fd s)"
  shows "rq_holds p i (map (data_msg i (fs_fd s)) ps) \<Longrightarrow> echoed G i s ys p \<Longrightarrow> list_all is_pkg ps \<Longrightarrow> length ps < n \<Longrightarrow>
    \<exists>p1. handle_mq_recv G (sample_serv G th) n i p = Inr (0, p1) \<and> rq_holds p1 i [] \<and>
      (if sq_takes i (fs_fd s) p ps then echoed G i s (ys @ map (data_msg i (fs_fd s)) ps) p1
       else \<exists>k<length ps. echo_stopped G i s (ys @ map (data_msg i (fs_fd s)) (take k ps)) p1)"
proof (induction ps arbitrary: p n ys)
  case Nil
  then obtain m where "n = Suc m" by (cases n) auto
  then show ?case using mq_recv_nil[of p i G "sample_serv G th" m] Nil
    by (fastforce simp: echoed_def sess_map_def sq_holds_def sq_takes_def)
next
  case (Cons d ps)
  then obtain m where n: "n = Suc m" by (cases n) auto
  obtain p1 where p1: "handle_mq_recv G (sample_serv G th) (Suc m) i p = handle_mq_recv G (sample_serv G th) m i p1"
    "rq_holds p1 i (map (data_msg i (fs_fd s)) ps)" "echo_step G i s ys d p p1"
    using echo_round[OF G _ Cons.prems(2) s, of d "map (data_msg i (fs_fd s)) ps" th m] Cons.prems by auto
  show ?case
  proof (cases "echoed G i s (ys @ [data_msg i (fs_fd s) d]) p1")
    case True
    then have t: "sq_takes i (fs_fd s) p (d # ps) = sq_takes i (fs_fd s) p1 ps"
      using p1(3) by (auto simp: echo_step_def echoed_def echo_stopped_def)
    from Cons.IH[OF p1(2) True, of m] Cons.prems n obtain p2 where p2:
      "handle_mq_recv G (sample_serv G th) m i p1 = Inr (0, p2)" "rq_holds p2 i []"
      "if sq_takes i (fs_fd s) p1 ps then echoed G i s ((ys @ [data_msg i (fs_fd s) d]) @ map (data_msg i (fs_fd s)) ps) p2
       else \<exists>k<length ps. echo_stopped G i s ((ys @ [data_msg i (fs_fd s) d]) @ map (data_msg i (fs_fd s)) (take k ps)) p2" by auto
    have "\<exists>k<length (d # ps). echo_stopped G i s (ys @ map (data_msg i (fs_fd s)) (take k (d # ps))) p2"
      if nt: "\<not> sq_takes i (fs_fd s) p1 ps"
    proof -
      obtain k where "k < length ps" "echo_stopped G i s (ys @ map (data_msg i (fs_fd s)) (take (Suc k) (d # ps))) p2"
        using nt p2(3) by auto
      then show ?thesis by (intro exI[of _ "Suc k"]) simp
    qed
    then show ?thesis using p1(1) n t p2 by (auto simp del: handle_mq_recv.simps)
  next
    case False
    then have f: "echo_stopped G i s ys p1" "\<not> sq_takes i (fs_fd s) p (d # ps)" using p1(3) by (auto simp: echo_step_def)
    from stopped_run[OF p1(2) f(1) s(2,3), of m th] Cons.prems n obtain p2 where
      "handle_mq_recv G (sample_serv G th) m i p1 = Inr (0, p2)" "rq_holds p2 i []" "echo_stopped G i s ys p2" by auto
    then show ?thesis using p1(1) n f(2) by (auto intro!: exI[of _ p2] exI[of _ 0] simp del: handle_mq_recv.simps)
  qed
qed

section \<open>From a client and back to it\<close>

text \<open>The master can pass on what the worker sent to connection \<open>fd\<close>: nothing waits there, and the kernel takes each message whole.\<close>

definition passes_on :: "int \<Rightarrow> byte list list \<Rightarrow> ('l, 'h) proc \<Rightarrow> bool" where
  "passes_on fd ps p \<longleftrightarrow> valid_fd p fd \<and> slen (buff_of p fd) = 0 \<and>
     (\<exists>rest. p_sends p = map (\<lambda>d. SDone (length d)) ps @ rest)"

lemma echo_sent:
  fixes s :: fdsess
  assumes e: "sq_holds p i (map (data_msg i (fs_fd s)) ps)" and s: "fs_id s = i" "is_cint i" "is_cint (fs_fd s)"
    and ps: "list_all is_pkg ps" and p: "passes_on (fs_fd s) ps p" and n: "length ps < n"
  shows "\<exists>p1. send_queue L S n i p = Inr p1 \<and> sq_holds p1 i []
    \<and> sent_on (fs_fd s) (p_trace p1) = sent_on (fs_fd s) (p_trace p) @ concat ps"
proof -
  let ?as = "map (\<lambda>d. (s, d)) ps"
  obtain rest where r: "p_sends p = map (\<lambda>a. SDone (length (snd a))) ?as @ rest" using p by (auto simp: passes_on_def comp_def)
  have "sq_holds p i (map answer_msg ?as)" using e s(1) by (simp add: answer_msg_def comp_def)
  moreover have "list_all (answer_ok i) ?as"
    using ps s by (auto simp: list_all_iff answer_ok_def is_pkg_def proto_len_def CLI_SIZE_def MSG_MAX_def MQ_MAX_def)
  moreover have "\<forall>a\<in>set ?as. valid_fd p (fs_fd (fst a)) \<and> slen (buff_of p (fs_fd (fst a))) = 0"
    using p by (simp add: passes_on_def)
  ultimately obtain ws where w: "send_queue L S n i p = Inr (p\<lparr>p_works := ws, p_sends := rest,
      p_trace := p_trace p @ concat (map (\<lambda>a. sent_whole (fs_fd (fst a)) (snd a)) ?as)\<rparr>)" "sq_holds (p\<lparr>p_works := ws\<rparr>) i []"
    using send_queue_all[of p i ?as rest n L S] s(2) r n by auto
  have "concat (map snd (filter (\<lambda>a. fs_fd (fst a) = fs_fd s) ?as)) = concat ps" by (simp add: filter_map comp_def)
  then show ?thesis using w by (auto simp: sq_holds_def sent_on_whole simp del: map_map)
qed

text \<open>
  C7: The sample server echoes, when its phases follow each other. A client whose connection has nothing unread sends a stream of packets, in any
  pieces that do not split the length field of a packet; the master reads all of it and queues the packets, all of which the
  queue takes. The worker, whose send queue is empty, then serves them with the sample library. If the send queue takes all
  the answers the session stays, and the master, which is given the send queue after that, sends the client exactly the bytes it had
  sent, provided nothing is waiting for the client and the kernel takes every packet whole (\<open>passes_on\<close>; otherwise see
  \<open>do_fd_send_no_buffer\<close>). If the send queue does not take all of them, the session is closed.
\<close>

theorem sample_echo:
  assumes run: "cli_run L (sample_serv G th) n fd pm us pm'" and ok: "readable L cap fd pm i []"
    and fresh: "unread pm fd = []" "msglen (buff_of pm fd) = 0" and n: "cap < int n"
    and pkgs: "concat us = concat ps" "list_all is_pkg ps" "fields_whole ps us"
    and shared: "i < int (length (p_works pw))" "wk_rq (p_works pw ! nat i) = wk_rq (p_works pm' ! nat i)"
    and worker: "ghash_laws G" "sq_holds pw i []" "sess_map G pw fd = Some s" "fs_id s = i" "fs_fd s = fd"
    and m: "length ps < m"
  shows "\<exists>pw'. handle_mq_recv G (sample_serv G th) m i pw = Inr (0, pw') \<and> rq_holds pw' i [] \<and>
    (if sq_takes i fd pw ps then sess_map G pw' fd = Some s \<and>
      (\<forall>pm2. passes_on fd ps pm2 \<and> i < int (length (p_works pm2)) \<and> wk_sq (p_works pm2 ! nat i) = wk_sq (p_works pw' ! nat i) \<longrightarrow>
        (\<exists>pm3. send_queue L (sample_serv G th) m i pm2 = Inr pm3 \<and>
          sent_on fd (p_trace pm3) = sent_on fd (p_trace pm2) @ concat us))
     else sess_map G pw' fd = None)"
proof -
  have i: "is_cint i" "is_cint fd" using ok by (simp_all add: readable_def)
  have "rq_holds pm' i (map (data_msg i fd) ps)"
    using cli_run_cut[OF run ok _ _ sample_len_law head_in_append n, of ps "[]" 0] sample_asks[OF pkgs(2,1,3)] cut_pkgs[OF pkgs(2)] fresh pkgs(1)
    by (simp add: readable_def cut.simps)
  then have q: "rq_holds pw i (map (data_msg i (fs_fd s)) ps)" using shared worker(5) by (simp add: rq_holds_def)
  have e: "echoed G i s [] pw" using worker by (simp add: echoed_def)
  obtain pw' where w: "handle_mq_recv G (sample_serv G th) m i pw = Inr (0, pw')" "rq_holds pw' i []"
    "if sq_takes i fd pw ps then echoed G i s (map (data_msg i fd) ps) pw' else sess_map G pw' fd = None"
    using echo_run[OF worker(1,4) i(1) _ q e pkgs(2) m, of th] i(2) worker(5) by (auto simp: echo_stopped_def split: if_splits)
  have "\<exists>pm3. send_queue L (sample_serv G th) m i pm2 = Inr pm3 \<and> sent_on fd (p_trace pm3) = sent_on fd (p_trace pm2) @ concat us"
    if "sq_takes i fd pw ps" "passes_on fd ps pm2" "i < int (length (p_works pm2))"
      "wk_sq (p_works pm2 ! nat i) = wk_sq (p_works pw' ! nat i)" for pm2
    using echo_sent[of pm2 i s ps m L "sample_serv G th"] that w(3) worker i pkgs m by (auto simp: echoed_def sq_holds_def)
  then show ?thesis using w worker(5) by (auto simp: echoed_def)
qed

text \<open>An example: a packet of 18 bytes that arrives in two pieces, buffers of 32 bytes.\<close>

definition demo_pkg :: "byte list" where
  "demo_pkg = [18, 0, 0, 0, 1, 0, 2, 0, 0, 0, 3, 0, 0, 0, 0, 0, 0, 0]"

definition wide_cli :: "recv_ans list \<Rightarrow> (lnode \<Rightarrow> lnode list, int \<rightharpoonup> fdsess) proc" where
  "wide_cli rs = (demo_proc [demo_wrap fd_type_cli 0 demo_buff, demo_wrap fd_type_cli 1 (demo_buff\<lparr>rbf := Some (replicate 32 0)\<rparr>)])
     \<lparr>p_setting := demo_setting\<lparr>max_buf_len := 32\<rparr>, p_recvs := rs\<rparr>"

definition pieces :: "recv_ans list \<times> recv_ans list" where
  "pieces = ([RData (take 6 demo_pkg), RErr EAGAIN], [RData (drop 6 demo_pkg), RErr EAGAIN])"


lemma wide_cli_eval:
  "case handle_cli demo_nlist (sample_serv demo_ghash Inr) 33 1 (wide_cli (fst pieces)) of Inl e \<Rightarrow> False
     | Inr (r, p1) \<Rightarrow> r = 0 \<and> p_recvs p1 = [] \<and>
        (case handle_cli demo_nlist (sample_serv demo_ghash Inr) 33 1 (p1\<lparr>p_recvs := snd pieces @ []\<rparr>) of Inl e \<Rightarrow> False
         | Inr (r2, p2) \<Rightarrow> r2 = 0 \<and> p_recvs p2 = [])"
  by code_simp

lemma wide_cli_run: "\<exists>p2. cli_run demo_nlist (sample_serv demo_ghash Inr) 33 1 (wide_cli []) [take 6 demo_pkg, drop 6 demo_pkg] p2"
proof -
  have e: "wide_cli (fst pieces) = (wide_cli [])\<lparr>p_recvs := fst pieces @ []\<rparr>" by (simp add: wide_cli_def)
  obtain p1 where p1: "handle_cli demo_nlist (sample_serv demo_ghash Inr) 33 1 (wide_cli (fst pieces)) = Inr (0, p1)" "p_recvs p1 = []"
    "case handle_cli demo_nlist (sample_serv demo_ghash Inr) 33 1 (p1\<lparr>p_recvs := snd pieces @ []\<rparr>) of Inl e \<Rightarrow> False
         | Inr (r2, p2) \<Rightarrow> r2 = 0 \<and> p_recvs p2 = []"
    using evaluated[OF wide_cli_eval] by auto
  from evaluated[OF p1(3)] obtain p2 where p2: "handle_cli demo_nlist (sample_serv demo_ghash Inr) 33 1 (p1\<lparr>p_recvs := snd pieces @ []\<rparr>) = Inr (0, p2)" "p_recvs p2 = []"
    by auto
  have "cli_run demo_nlist (sample_serv demo_ghash Inr) 33 1 (wide_cli []) [recv_bytes (fst pieces), recv_bytes (snd pieces)] p2"
    by (rule one_call[where rest = "[]"], rule p1(1)[unfolded e], rule p1(2), rule one_call[where rest = "[]"], rule p2(1), rule p2(2), rule no_call)
  then show ?thesis by (auto simp: pieces_def)
qed

lemma wide_cli_readable: "readable demo_nlist 32 1 (wide_cli rs) 0 []"
proof -
  let ?ws = "[demo_wrap fd_type_cli 0 demo_buff, demo_wrap fd_type_cli 1 (demo_buff\<lparr>rbf := Some (replicate 32 0)\<rparr>)]"
  have "cache_ok demo_nlist (demo_proc ?ws)" by (rule demo_cache_ok) auto
  then have "cache_ok demo_nlist (wide_cli rs)"
    using cache_ok_cong(1)[of "wide_cli rs" "demo_proc ?ws" demo_nlist] by (simp add: wide_cli_def)
  then show ?thesis
    by (simp add: readable_def demo_nlist_laws wide_cli_def valid_fd_def rq_holds_def rbuff_ok_def demo_buff_def demo_setting_def
        demo_work_def demo_queue_rel is_cint_def MSG_MAX_def MQ_MAX_def)
qed

lemma demo_pkg_ok: "is_pkg demo_pkg" "fields_whole [demo_pkg] [take 6 demo_pkg, drop 6 demo_pkg]"
  by (simp add: is_pkg_def demo_pkg_def pkg_size_def get32_def s32_def proto_len_def CLI_SIZE_def)
    (auto simp: fields_whole_def demo_pkg_def le_Suc_eq)

lemma sample_echo_witness:
  "\<exists>pm' (pw :: (lnode \<Rightarrow> lnode list, int \<rightharpoonup> fdsess) proc) pw' pm3.
     cli_run demo_nlist (sample_serv demo_ghash Inr) 33 1 (wide_cli []) [take 6 demo_pkg, drop 6 demo_pkg] pm'
     \<and> handle_mq_recv demo_ghash (sample_serv demo_ghash Inr) 2 0 pw = Inr (0, pw')
     \<and> send_queue demo_nlist (sample_serv demo_ghash Inr) 2 0 ((wide_cli [])\<lparr>p_works := p_works pw', p_sends := [SDone 18]\<rparr>) = Inr pm3
     \<and> sent_on 1 (p_trace pm3) = demo_pkg"
proof -
  obtain pm' where run: "cli_run demo_nlist (sample_serv demo_ghash Inr) 33 1 (wide_cli []) [take 6 demo_pkg, drop 6 demo_pkg] pm'"
    using wide_cli_run by blast
  have fresh: "unread (wide_cli []) 1 = []" "msglen (buff_of (wide_cli []) 1) = 0"
    by (simp_all add: unread_def wide_cli_def demo_buff_def)
  let ?s = "\<lparr>fs_fd = 1, fs_id = 0, fs_ip = 0, fs_port = 0\<rparr> :: fdsess"
  define pw :: "(lnode \<Rightarrow> lnode list, int \<rightharpoonup> fdsess) proc" where
    "pw = (demo_proc [])\<lparr>p_works := [demo_work\<lparr>wk_rq := wk_rq (p_works pm' ! 0)\<rparr>], p_sess := [1 \<mapsto> ?s]\<rparr>"
  have "takes 0 1 demo_queue [demo_pkg]" by code_simp
  then have t: "sq_takes 0 1 pw [demo_pkg]" by (simp add: sq_takes_def pw_def demo_work_def)
  have w: "sq_holds pw 0 []" "sess_map demo_ghash pw 1 = Some ?s"
    by (auto simp: pw_def sq_holds_def demo_work_def sess_map_def demo_ghash_def intro: demo_queue_rel)
  have len: "0 < int (length (p_works pw))" "wk_rq (p_works pw ! nat 0) = wk_rq (p_works pm' ! nat 0)" by (simp_all add: pw_def)
  have "concat [take 6 demo_pkg, drop 6 demo_pkg] = concat [demo_pkg]" "list_all is_pkg [demo_pkg]" using demo_pkg_ok(1) by simp_all
  from sample_echo[OF run wide_cli_readable fresh _ this demo_pkg_ok(2) len demo_ghash_laws w, of 2] t obtain pw' where
    pw': "handle_mq_recv demo_ghash (sample_serv demo_ghash Inr) 2 0 pw = Inr (0, pw')"
    "\<forall>pm2. passes_on 1 [demo_pkg] pm2 \<and> 0 < int (length (p_works pm2)) \<and> wk_sq (p_works pm2 ! nat 0) = wk_sq (p_works pw' ! nat 0) \<longrightarrow>
        (\<exists>pm3. send_queue demo_nlist (sample_serv demo_ghash Inr) 2 0 pm2 = Inr pm3 \<and>
          sent_on 1 (p_trace pm3) = sent_on 1 (p_trace pm2) @ concat [take 6 demo_pkg, drop 6 demo_pkg])"
    "rq_holds pw' 0 []" by auto
  let ?pm2 = "(wide_cli [])\<lparr>p_works := p_works pw', p_sends := [SDone 18]\<rparr>"
  have "passes_on 1 [demo_pkg] ?pm2" by (simp add: passes_on_def valid_fd_def wide_cli_def demo_buff_def demo_pkg_def)
  moreover have "0 < int (length (p_works ?pm2))" using pw'(3) by (simp add: rq_holds_def)
  moreover have "wk_sq (p_works ?pm2 ! nat 0) = wk_sq (p_works pw' ! nat 0)" by simp
  ultimately obtain pm3 where "send_queue demo_nlist (sample_serv demo_ghash Inr) 2 0 ?pm2 = Inr pm3"
    "sent_on 1 (p_trace pm3) = sent_on 1 (p_trace ?pm2) @ concat [take 6 demo_pkg, drop 6 demo_pkg]" using pw'(2) by blast
  then show ?thesis using run pw'(1) by (intro exI[of _ pm'] exI[of _ pw] exI[of _ pw'] exI[of _ pm3]) (simp add: wide_cli_def)
qed

end
