(* ===== verification/Sample_Faults.thy ===== *)
theory Sample_Faults
  imports Sample_Echo
begin

text \<open>
  What the sample business library (\<^verbatim>\<open>test_sserv\<close>) lets a client do to the server: it takes the lengths of packets from
  the bytes of the client, whether they are there or not, and checks none of them.
\<close>

section \<open>Lengths the client chooses\<close>

text \<open>
  C40: One packet of one client brings the master down, and with it the service of all clients: when the length in front of the
  bytes just read is negative and the queue has room at its head, the sample library hands it on, and the master
  copies a negative number of bytes.
\<close>

theorem sample_negative_length:
  assumes ok: "readable L cap fd p i xs" and rd: "handle_read L fd p = Inr (r, p1)" "r \<noteq> - 1"
    and len: "msglen (buff_of p1 fd) = 0" "4 \<le> length (unread p1 fd)" "pkg_size (unread p1 fd) < 0"
    and room: "mq_tail (wk_rq (p_works p ! nat i)) \<le> mq_head (wk_rq (p_works p ! nat i))"
      "mq_head (wk_rq (p_works p ! nat i)) + blk_head_len \<le> mq_len (wk_rq (p_works p ! nat i))"
  shows "handle_cli L (sample_serv G th) (Suc n) fd p = Inl BadSize"
proof -
  note w = read_window[OF ok rd]
  obtain rb where rb: "rbf (buff_of p1 fd) = Some rb" using w(1) by (auto simp: window_ok_def)
  have "rb = unread p1 fd @ drop (nat (rlen (buff_of p1 fd))) rb" using rb by (simp add: unread_def)
  then have "4 \<le> length rb" "pkg_size rb = pkg_size (unread p1 fd)" using len(2) pkg_size_append by (metis length_append trans_le_add1, metis)
  then have g: "get_msg_len fd rb (rlen (buff_of p1 fd)) SERV_MASTER = Inr (pkg_size (unread p1 fd))"
    by (simp add: get_msg_len_size)
  have "push_again (sample_serv G th) (Suc n) fd 0 p1 = Inl BadSize"
  proof (rule push_again_negative_length[where m = "pkg_size (unread p1 fd)"])
    show "rq_holds p1 (w_idx (wrap_of p1 fd)) xs" using w(5,7) by (simp add: readable_def)
    show "is_cint (pkg_size (unread p1 fd))" using len(2) by (rule pkg_size_cint)
  qed (use w len rb room g in \<open>auto\<close>)
  then show ?thesis using rd by (simp add: handle_cli_def del: push_again.simps)
qed

lemma sample_negative_length_witness:
  "handle_cli demo_nlist (sample_serv demo_ghash Inr) 33 1 (wide_cli [RData [255, 255, 255, 255], RErr EAGAIN]) = Inl BadSize"
proof -
  have "case handle_read demo_nlist 1 (wide_cli [RData [255, 255, 255, 255], RErr EAGAIN]) of Inl e \<Rightarrow> False
     | Inr (r, p1) \<Rightarrow> r = 4 \<and> msglen (buff_of p1 1) = 0 \<and> unread p1 1 = [255, 255, 255, 255]" by code_simp
  from evaluated[OF this] obtain p1 where p1: "handle_read demo_nlist 1 (wide_cli [RData [255, 255, 255, 255], RErr EAGAIN]) = Inr (4, p1)"
    "msglen (buff_of p1 1) = 0" "unread p1 1 = [255, 255, 255, 255]" by auto
  have n: "(33 :: nat) = Suc 32" by simp
  show ?thesis unfolding n
    by (rule sample_negative_length[OF wide_cli_readable p1(1)])
      (use p1(2,3) in \<open>simp_all add: pkg_size_def get32_def s32_def wide_cli_def demo_work_def demo_queue_def blk_head_len_def\<close>)
qed

text \<open>
  The sample library gives a length as soon as one byte of a packet has arrived. As long as the four bytes of the length field are
  not all there it reads what is left in the buffer behind them; the master keeps the number it got, \<open>k\<close>, and
  when \<open>k\<close> bytes are there it queues these as the message, whatever the length of the packet is.
\<close>

theorem sample_split_length:
  assumes ok: "readable L cap fd p i xs" and rd: "handle_read L fd p = Inr (r, p1)" "r \<noteq> - 1"
    and part: "msglen (buff_of p1 fd) = 0" "rbf (buff_of p1 fd) = Some (u @ stale)" "rlen (buff_of p1 fd) = int (length u)"
      "u \<noteq> []" "4 \<le> length (u @ stale)"
    and k: "k = pkg_size (u @ stale)" "int (length u) < k" and n: "cap < int n"
  shows "\<exists>p2. handle_cli L (sample_serv G th) n fd p = Inr (0, p2) \<and> unread p2 fd = u \<and> msglen (buff_of p2 fd) = k \<and>
    (\<forall>used rest p3. int (length (u @ recv_bytes used)) = k \<and> p_recvs p3 = rest \<and>
       handle_cli L (sample_serv G th) n fd (p2\<lparr>p_recvs := used @ rest\<rparr>) = Inr (0, p3) \<longrightarrow>
       rq_holds p3 i (xs @ [data_msg i fd (u @ recv_bytes used)]))"
proof -
  note w = read_window[OF ok rd]
  obtain m where m: "n = Suc m" using n ok by (cases n) (auto simp: readable_def)
  let ?b = "(buff_of p1 fd)\<lparr>msglen := k\<rparr>"
  let ?p2 = "p1\<lparr>p_fds := (p_fds p1)[nat fd := (wrap_of p1 fd)\<lparr>w_buff := ?b\<rparr>]\<rparr>"
  note nf = valid_fd_nat[OF w(2)]
  have "get_length (sample_serv G th) SERV_MASTER fd 0 p1 = Inr ?p2"
    using w(2) part k(1) get_msg_len_size[OF part(5)] by (simp add: get_length_def at_ptr_def)
  then have "push_again (sample_serv G th) n fd 0 p1 = Inr (Some 0, ?p2)" using w(2) nf part(3) k(2) by (simp add: m)
  then have run: "handle_cli L (sample_serv G th) n fd p = Inr (0, ?p2)"
    using rd w(2) by (simp add: handle_cli_def keep_rest_def del: push_again.simps)
  have u: "unread ?p2 fd = u" "msglen (buff_of ?p2 fd) = k" "rbf (buff_of ?p2 fd) \<noteq> None"
    using nf part by (simp_all add: unread_def)
  have r2: "readable L cap fd ?p2 i xs"
    using w(7) nf cache_ok_cong(1)[of ?p2 p1 L] k(2) rq_holds_works[of ?p2 p1]
    by (auto simp: readable_def rbuff_ok_def flag_update split: option.splits)
  obtain p2 where p2: "handle_cli L (sample_serv G th) n fd p = Inr (0, p2)" "readable L cap fd p2 i xs" "unread p2 fd = u"
    "msglen (buff_of p2 fd) = k" "rbf (buff_of p2 fd) \<noteq> None" using run r2 u by blast
  have "rq_holds p3 i (xs @ [data_msg i fd (u @ recv_bytes used)])"
    if "int (length (u @ recv_bytes used)) = k" "p_recvs p3 = rest"
      "handle_cli L (sample_serv G th) n fd (p2\<lparr>p_recvs := used @ rest\<rparr>) = Inr (0, p3)" for used rest p3
  proof -
    let ?f = "u @ recv_bytes used"
    have k0: "0 < k" using k(2) by simp
    have as: "asks head_in pkg_size k ?f" using that(1) k0 by (subst asks.simps) auto
    have ct: "cut pkg_size k ?f = ([?f], [], 0)" using that(1) k0 by (subst cut.simps) auto
    show ?thesis using handle_cli_call[OF p2(2) sample_len_law n, unfolded p2(3,4), OF as _ that(3,2) ct] p2(5) by (simp add: readable_def)
  qed
  then show ?thesis using p2 by blast
qed

text \<open>The first byte of a packet of 276 bytes arrives, then 19 more.\<close>

lemma sample_split_length_witness:
  "\<exists>p2 p3. handle_cli demo_nlist (sample_serv demo_ghash Inr) 33 1 (wide_cli [RData [20], RErr EAGAIN]) = Inr (0, p2) \<and>
     handle_cli demo_nlist (sample_serv demo_ghash Inr) 33 1 (p2\<lparr>p_recvs := [RData (1 # replicate 18 0), RErr EAGAIN]\<rparr>) = Inr (0, p3) \<and>
     rq_holds p3 0 [data_msg 0 1 (20 # 1 # replicate 18 0)]"
proof -
  let ?used = "[RData (1 # replicate 18 0), RErr EAGAIN]" and ?S = "sample_serv demo_ghash Inr"
  have "case handle_read demo_nlist 1 (wide_cli [RData [20], RErr EAGAIN]) of Inl e \<Rightarrow> False
     | Inr (r, p1) \<Rightarrow> r = 1 \<and> msglen (buff_of p1 1) = 0 \<and> rbf (buff_of p1 1) = Some ([20] @ replicate 31 0) \<and> rlen (buff_of p1 1) = 1"
    by code_simp
  from evaluated[OF this] obtain p1 where p1: "handle_read demo_nlist 1 (wide_cli [RData [20], RErr EAGAIN]) = Inr (1, p1)"
    "msglen (buff_of p1 1) = 0" "rbf (buff_of p1 1) = Some ([20] @ replicate 31 0)" "rlen (buff_of p1 1) = int (length [20 :: byte])" by auto
  have k: "20 = pkg_size ([20] @ replicate 31 0)" by code_simp
  have side: "(1 :: int) \<noteq> - 1" "[20 :: byte] \<noteq> []" "4 \<le> length ([20 :: byte] @ replicate 31 0)" "int (length [20 :: byte]) < 20"
    "(32 :: int) < int 33" by simp_all
  obtain p2 where p2: "handle_cli demo_nlist ?S 33 1 (wide_cli [RData [20], RErr EAGAIN]) = Inr (0, p2)"
    "\<And>used rest p3. int (length ([20] @ recv_bytes used)) = 20 \<Longrightarrow> p_recvs p3 = rest \<Longrightarrow>
       handle_cli demo_nlist ?S 33 1 (p2\<lparr>p_recvs := used @ rest\<rparr>) = Inr (0, p3) \<Longrightarrow>
       rq_holds p3 0 ([] @ [data_msg 0 1 ([20] @ recv_bytes used)])"
    using sample_split_length[OF wide_cli_readable p1(1) side(1) p1(2-4) side(2,3) k side(4,5), of demo_ghash Inr] by (auto simp only: append_Nil)
  have "case handle_cli demo_nlist ?S 33 1 (wide_cli [RData [20], RErr EAGAIN]) of Inl e \<Rightarrow> False
     | Inr (r, p2) \<Rightarrow> (case handle_cli demo_nlist ?S 33 1 (p2\<lparr>p_recvs := ?used @ []\<rparr>) of Inl e \<Rightarrow> False
         | Inr (r2, p3) \<Rightarrow> r2 = 0 \<and> p_recvs p3 = [])" by code_simp
  then have "case handle_cli demo_nlist ?S 33 1 (p2\<lparr>p_recvs := ?used @ []\<rparr>) of Inl e \<Rightarrow> False
         | Inr (r2, p3) \<Rightarrow> r2 = 0 \<and> p_recvs p3 = []" by (simp only: p2(1) sum.case prod.case)
  from evaluated[OF this] obtain p3 where p3: "handle_cli demo_nlist ?S 33 1 (p2\<lparr>p_recvs := ?used @ []\<rparr>) = Inr (0, p3)" "p_recvs p3 = []"
    by blast
  have "rq_holds p3 0 ([] @ [data_msg 0 1 ([20] @ recv_bytes ?used)])" by (rule p2(2)[OF _ p3(2,1)]) simp
  then show ?thesis using p2(1) p3(1) by (intro exI[of _ p2] exI[of _ p3]) simp
qed

text \<open>
  The sample library copies as many bytes as the length field of the packet says into an array of 65536 bytes on its stack. A
  longer packet, one cut short or one with a negative length field makes the worker copy over its stack, read behind
  the message or copy a negative number of bytes. The configuration that comes with the server allows messages that long.
\<close>

theorem sample_trusts_length:
  assumes q: "rq_holds p i (data_msg i fd d # xs)" and i: "is_cint i" "is_cint fd" and s: "sess_map G p fd = Some s"
    and d: "int (length d) \<le> MSG_MAX" "proto_len \<le> int (length d)"
    and len: "pkg_size d < 0 \<or> CLI_SIZE < pkg_size d \<or> int (length d) < pkg_size d"
  shows "handle_mq_recv G (sample_serv G th) (Suc n) i p = Inl (if pkg_size d < 0 then BadSize else OutOfBounds)"
proof -
  have m: "(fst (data_msg i fd d), d) = data_msg i fd d" by (simp add: data_msg_def)
  obtain a ws where w: "length ws = length (p_works p)" "blk_is (wk_rq (ws ! nat i)) a (data_msg i fd d)"
    "handle_mq_recv G (sample_serv G th) (Suc n) i p = rbind (do_blk G (sample_serv G th) i a (p\<lparr>p_works := ws\<rparr>)) (\<lambda>p2. rbind (get_work p2 i) (\<lambda>k2.
      rbind (mq_pop (wk_rq k2)) (\<lambda>q2. rbind (set_rq i q2 p2) (handle_mq_recv G (sample_serv G th) n i))))"
    using recv_start[of p i "fst (data_msg i fd d)" d xs G "sample_serv G th" n] q unfolding m by blast
  have "0 \<le> i" "i < int (length (p_works p))" using q by (simp_all add: rq_holds_def)
  then have blk: "do_blk G (sample_serv G th) i a (p\<lparr>p_works := ws\<rparr>) =
      rbind (do_blk_msg G (sample_serv G th) (fst (data_msg i fd d)) (Inr d) (p\<lparr>p_works := ws\<rparr>)) (\<lambda>(_, p1). Inr p1)"
    using do_blk_data[of i "p\<lparr>p_works := ws\<rparr>" a i fd d] w(1,2) data_msg_valid[OF i d(1)] by simp
  obtain k where k: "dec_proto d = Inr k" "pkg_len k = pkg_size d" using dec_proto_size[OF d(2)] by blast
  have "proc_cli_msg d n s p = Inl (if pkg_size d < 0 then BadSize else OutOfBounds)" for n and p :: "('a, 'b) proc"
    using k len by (auto simp: proc_cli_msg_def copy_cli_def memcpy_src_def CLI_SIZE_def)
  moreover have "get_fd G (p\<lparr>p_works := ws\<rparr>) fd = Some s" using s by (simp add: get_fd_def sess_map_def)
  ultimately show ?thesis using w(3) blk by (simp add: do_blk_msg_def data_msg_def blk_head_len_def)
qed

text \<open>A packet of 18 bytes that claims to have 100.\<close>

lemma sample_trusts_length_witness:
  "\<exists>(p :: (lnode \<Rightarrow> lnode list, int \<rightharpoonup> fdsess) proc). rq_holds p 0 [data_msg 0 7 (100 # replicate 17 0)] \<and>
     handle_mq_recv demo_ghash (sample_serv demo_ghash Inr) 5 0 p = Inl OutOfBounds"
proof -
  let ?d = "100 # replicate 17 0 :: byte list"
  have v: "valid_msg (fst (data_msg 0 7 ?d), ?d)" using data_msg_valid[of 0 7 ?d] by (simp add: data_msg_def is_cint_def MSG_MAX_def MQ_MAX_def)
  have "accepts demo_queue (fst (data_msg 0 7 ?d))" by (simp add: accepts_def demo_queue_def data_msg_def blk_head_len_def)
  then obtain q where q: "mq_rel q [data_msg 0 7 ?d]"
    using mq_push_pushed[OF demo_queue_rel v] by (auto simp: pushed_def data_msg_def)
  let ?s = "\<lparr>fs_fd = 7, fs_id = 0, fs_ip = 0, fs_port = 0\<rparr> :: fdsess"
  define p :: "(lnode \<Rightarrow> lnode list, int \<rightharpoonup> fdsess) proc" where "p = (demo_proc [])\<lparr>p_works := [demo_work\<lparr>wk_rq := q\<rparr>], p_sess := [7 \<mapsto> ?s]\<rparr>"
  have h: "rq_holds p 0 [data_msg 0 7 ?d]" "sess_map demo_ghash p 7 = Some ?s"
    using q by (simp_all add: p_def rq_holds_def sess_map_def demo_ghash_def)
  have "pkg_size ?d = 100" by code_simp
  moreover have n: "(5 :: nat) = Suc 4" by simp
  ultimately have "handle_mq_recv demo_ghash (sample_serv demo_ghash Inr) 5 0 p = Inl OutOfBounds" unfolding n
    using sample_trusts_length[OF h(1) _ _ h(2), of Inr 4] by (simp add: is_cint_def MSG_MAX_def MQ_MAX_def proto_len_def)
  then show ?thesis using h(1) by blast
qed

end
