(* ===== verification/Mcast_Tools.thy ===== *)
theory Mcast_Tools
  imports Mcast_Reload Conf_Load
begin

text \<open>
  The tools for the multicast group (\<^verbatim>\<open>test_mcast\<close>): a copy of the functions of \<^verbatim>\<open>mcast.c\<close>, the program that asks for a reload
  of the business library, seen together with the worker that receives its packet, and the program that sends greetings.
\<close>

section \<open>A second copy of the multicast functions\<close>

text \<open>
  The functions of the tools are those of the server, but they report an error with \<open>fprintf(0, ...)\<close>, to a null pointer
  in the place of a stream.
\<close>

definition no_stream :: "'a res" where "no_stream = Inl NullDeref"

definition pub_cli_init ::
  "(string \<Rightarrow> 32 word) \<Rightarrow> mc_ans \<Rightarrow> string \<Rightarrow> 16 word \<Rightarrow> string \<Rightarrow> (int \<times> mc_call list) res" where
  "pub_cli_init inet_addr a mip mport local_ip =
     (let fd = ma_socket a in
      if fd = - 1 then no_stream
      else if \<not> ma_reuse a then no_stream
      else if \<not> ma_bind a then no_stream
      else if \<not> ma_ttl a then no_stream
      else if \<not> ma_loop a then no_stream
      else if \<not> ma_join a then no_stream
      else Inr (fd, [McReuse fd, McBind fd 0 mport, set_mcast_ttl fd 1, set_mcast_loop fd 1,
        join_mcast fd (inet_addr mip) (inet_addr local_ip)]))"

definition pub_send_pkg ::
  "(string \<Rightarrow> 32 word) \<Rightarrow> mc_ans \<Rightarrow> string \<Rightarrow> 16 word \<Rightarrow> string \<Rightarrow> byte \<Rightarrow> int \<Rightarrow> byte list \<Rightarrow> (int \<times> mc_call list) res" where
  "pub_send_pkg inet_addr a mip mport local_ip ty len data =
     (let fd = ma_socket a in
      if fd = - 1 then no_stream
      else if \<not> ma_ttl a then no_stream
      else if \<not> ma_loop a then no_stream
      else if \<not> ma_if a then no_stream
      else rbind (fill_pkg ty len data) (\<lambda>pkg.
        if ma_sent a \<noteq> int (length pkg) then no_stream
        else Inr (0, [set_mcast_ttl fd 1, set_mcast_loop fd 1, set_mcast_if fd (inet_addr local_ip),
          McSend fd pkg (inet_addr mip) mport, McClose fd])))"

text \<open>Where the function of the server returns -1 the copy uses the null pointer; otherwise they are the same.\<close>

definition crash_on_error :: "(int \<times> mc_call list) res \<Rightarrow> (int \<times> mc_call list) res" where
  "crash_on_error r = rbind r (\<lambda>(v, calls). if v = - 1 then no_stream else Inr (v, calls))"

text \<open>
  The copy of the multicast functions that the tools use does what the functions of the server do as long as every
  call succeeds. Where those return -1, it crashes.
\<close>

theorem pub_copies_crash:
  "pub_send_pkg inet_addr a mip mport local_ip ty len data =
     crash_on_error (send_pkg_to_mcast inet_addr a mip mport local_ip ty len data)
   \<and> pub_cli_init inet_addr a mip mport local_ip = crash_on_error (Inr (mcast_cli_init inet_addr a mip mport local_ip))"
proof
  show "pub_send_pkg inet_addr a mip mport local_ip ty len data =
     crash_on_error (send_pkg_to_mcast inet_addr a mip mport local_ip ty len data)"
    by (cases "fill_pkg ty len data") (simp_all add: pub_send_pkg_def crash_on_error_def send_pkg_to_mcast_def Let_def)
  show "pub_cli_init inet_addr a mip mport local_ip = crash_on_error (Inr (mcast_cli_init inet_addr a mip mport local_ip))"
    by (simp add: pub_cli_init_def crash_on_error_def mcast_cli_init_def Let_def)
qed

section \<open>The tool that asks for a reload\<close>

text \<open>\<open>strcpy\<close> to an offset of a buffer.\<close>

definition strcpy_at :: "byte list \<Rightarrow> int \<Rightarrow> string \<Rightarrow> byte list res" where
  "strcpy_at m a s = store m a (map char_byte s @ [0])"

definition tool_name :: string where "tool_name = ''online''"
definition tool_so :: string where "tool_so = ''/home/houbin/work/sserver/test_sserv/test_serv.so''"

text \<open>The packet in the buffer of 1024 bytes, whose contents are whatever was on the stack, and its length.\<close>

definition tool_pkg :: "byte list \<Rightarrow> byte list res" where
  "tool_pkg buff = rbind (store buff 0 (enc_pkg \<lparr>pk_len = 167, mcast_type = MCAST_RELOAD_SO\<rparr>)) (\<lambda>b1.
     rbind (store b1 5 (le_bytes 2 1)) (\<lambda>b2. rbind (strcpy_at b2 7 tool_name) (\<lambda>b3. rbind (strcpy_at b3 39 tool_so) (\<lambda>b4.
       load b4 0 167))))"

definition reloadso_cli :: "(string \<Rightarrow> 32 word) \<Rightarrow> mc_ans \<Rightarrow> byte list \<Rightarrow> (int \<times> mc_call list) res" where
  "reloadso_cli inet_addr a buff =
     (let fd = ma_socket a; c1 = [set_mcast_ttl fd 1, set_mcast_loop fd 1, set_mcast_if fd (inet_addr ''127.0.0.1'')] in
      if fd = - 1 then Inr (1, [])
      else if \<not> ma_if a then Inr (1, c1)
      else rbind (tool_pkg buff) (\<lambda>pkg. let c2 = c1 @ [McSend fd pkg (inet_addr ''239.0.0.2'') 8888] in
        if ma_sent a < 0 then Inr (1, c2) else Inr (0, c2 @ [McClose fd])))"

lemma store_whole: "0 \<le> a \<Longrightarrow> nat a + length bs \<le> length m \<Longrightarrow> store m a bs = Inr (take (nat a) m @ bs @ drop (nat a + length bs) m)"
  by (simp add: store_def)

lemma tool_pkg_msg:
  assumes "length buff = 1024"
  shows "\<exists>na sa. tool_pkg buff = Inr (reload_msg 1 na sa) \<and> holds_str 32 tool_name na \<and> holds_str 128 tool_so sa"
proof -
  define na where "na = map char_byte tool_name @ 0 # take 25 (drop 14 buff)"
  define sa where "sa = map char_byte tool_so @ 0 # take 78 (drop 89 buff)"
  let ?h = "enc_pkg \<lparr>pk_len = 167, mcast_type = MCAST_RELOAD_SO\<rparr>"
  have l: "length tool_name = 6" "length tool_so = 49" by (simp_all add: tool_name_def tool_so_def)
  have s1: "store buff 0 ?h = Inr (?h @ drop 5 buff)" using assms by (simp add: store_whole)
  have s2: "store (?h @ drop 5 buff) 5 (le_bytes 2 1) = Inr (?h @ le_bytes 2 1 @ drop 7 buff)"
    using assms by (simp add: store_whole)
  have s3: "strcpy_at (?h @ le_bytes 2 1 @ drop 7 buff) 7 tool_name = Inr (?h @ le_bytes 2 1 @ map char_byte tool_name @ 0 # drop 14 buff)"
    using assms l by (simp add: strcpy_at_def store_whole)
  have d: "drop 14 buff = take 25 (drop 14 buff) @ drop 39 buff" using append_take_drop_id[of 25 "drop 14 buff"] by simp
  have "?h @ le_bytes 2 1 @ map char_byte tool_name @ 0 # drop 14 buff = ?h @ le_bytes 2 1 @ na @ drop 39 buff"
    unfolding na_def by (subst d) simp
  moreover have "length na = 32" using assms l by (simp add: na_def)
  ultimately have s4: "strcpy_at (?h @ le_bytes 2 1 @ map char_byte tool_name @ 0 # drop 14 buff) 39 tool_so
      = Inr (?h @ le_bytes 2 1 @ na @ map char_byte tool_so @ 0 # drop 89 buff)"
    using assms l by (simp add: strcpy_at_def store_whole)
  have s5: "load (?h @ le_bytes 2 1 @ na @ map char_byte tool_so @ 0 # drop 89 buff) 0 167 = Inr (?h @ le_bytes 2 1 @ na @ sa)"
    using assms l \<open>length na = 32\<close> by (simp add: load_def sa_def)
  have "tool_pkg buff = Inr (reload_msg 1 na sa)" using s1 s2 s3 s4 s5 by (simp add: tool_pkg_def reload_msg_def)
  moreover have "holds_str 32 tool_name na"
    using \<open>length na = 32\<close> unfolding holds_str_def
    by (intro conjI exI[of _ "map byte_char (take 25 (drop 14 buff))"]) (simp_all add: na_def tool_name_def comp_def)
  moreover have "holds_str 128 tool_so sa"
    using assms l unfolding holds_str_def
    by (intro conjI exI[of _ "map byte_char (take 78 (drop 89 buff))"]) (simp_all add: sa_def tool_so_def comp_def)
  ultimately show ?thesis by blast
qed

text \<open>
  C28: The tool has the library reloaded: whatever was in its buffer, the datagram it sends makes process 1 of the service
  \<open>online\<close> close its library, load the one named and call \<open>reload_logic\<close>; all the functions of the new library can be used
  then and the old one is closed.
\<close>

theorem reload_tool_reloads:
  assumes buff: "length buff = 1024" and net: "ma_socket a \<noteq> - 1" "ma_if a" "0 \<le> ma_sent a"
    and worker: "announcer p k tool_name" "wk_id k = 1" "me_access E tool_so"
    and lib: "me_dlopen E tool_so = Some h" "\<forall>s\<in>set required_syms. me_dlsym E h s" "me_reload_logic E p = Inr p1"
  shows "\<exists>d m1. reloadso_cli inet_addr a buff = Inr (0, [set_mcast_ttl (ma_socket a) 1, set_mcast_loop (ma_socket a) 1,
      set_mcast_if (ma_socket a) (inet_addr ''127.0.0.1''), McSend (ma_socket a) d (inet_addr ''239.0.0.2'') 8888, McClose (ma_socket a)]) \<and>
    recv_pkg S A E d p m = Inr (p1, m1) \<and> so_ready (mc_so m1) \<and>
    so_open (mc_so m1) = h # (case so_handle (mc_so m) of None \<Rightarrow> so_open (mc_so m) | Some g \<Rightarrow> remove1 g (so_open (mc_so m)))"
proof -
  obtain na sa where t: "tool_pkg buff = Inr (reload_msg 1 na sa)" "holds_str 32 tool_name na" "holds_str 128 tool_so sa"
    using tool_pkg_msg[OF buff] by blast
  obtain t1 where r: "reg_so (me_dlsym E) (Some h) (unreg_so (mc_so m)) = (0, t1)" "so_ready t1"
    "so_open t1 = h # (case so_handle (mc_so m) of None \<Rightarrow> so_open (mc_so m) | Some g \<Rightarrow> remove1 g (so_open (mc_so m)))"
    using reg_ready[where ds = "me_dlsym E" and h = h and t = "mc_so m", OF lib(2)] by blast
  have "ok (so_call ''reload_logic'' t1)" using r(2) by (rule so_ready_call) (simp add: required_syms_def)
  then obtain v where "so_call ''reload_logic'' t1 = Inr v" by (auto elim: ok_cases)
  moreover from this have "so_ptr t1 ''reload_logic'' \<noteq> None" by (auto simp: so_call_def split: option.splits)
  ultimately obtain b where "recv_pkg S A E (reload_msg 1 na sa) p m = Inr (p1, m\<lparr>mc_buf := b, mc_so := t1\<rparr>)"
    using recv_reload_msg[OF worker(1) t(2,3) worker(3), of 1 S A m] worker(2) lib r(1) by auto
  moreover have "reloadso_cli inet_addr a buff = Inr (0, [set_mcast_ttl (ma_socket a) 1, set_mcast_loop (ma_socket a) 1,
      set_mcast_if (ma_socket a) (inet_addr ''127.0.0.1''), McSend (ma_socket a) (reload_msg 1 na sa) (inet_addr ''239.0.0.2'') 8888, McClose (ma_socket a)])"
    using net t(1) by (simp add: reloadso_cli_def Let_def)
  ultimately show ?thesis using r by (intro exI[of _ "reload_msg 1 na sa"] exI[of _ "m\<lparr>mc_buf := b, mc_so := t1\<rparr>"]) simp
qed

lemma reload_tool_reloads_witness:
  "\<exists>d m1. reloadso_cli (\<lambda>_. 5) demo_sent (replicate 1024 77) = Inr (0, [set_mcast_ttl 7 1, set_mcast_loop 7 1, set_mcast_if 7 5,
      McSend 7 d 5 8888, McClose 7]) \<and>
    recv_pkg demo_ghash demo_ghash demo_env d (demo_announcer ''online'') demo_mc = Inr (demo_announcer ''online'', m1) \<and>
    so_ready (mc_so m1) \<and> so_open (mc_so m1) = [2]"
proof -
  have "announcer (demo_announcer ''online'') demo_work ''online''" by (rule demo_announcer_ok) simp_all
  then have a: "announcer (demo_announcer ''online'') demo_work tool_name" by (simp add: tool_name_def)
  show ?thesis
    using reload_tool_reloads[OF _ _ _ _ a, of "replicate 1024 77" demo_sent demo_env 2 "demo_announcer ''online''" "\<lambda>_. 5" demo_ghash demo_ghash demo_mc]
    by (simp add: demo_sent_def demo_work_def demo_env_def demo_mc_def demo_so_def)
qed

section \<open>The test of the group\<close>

text \<open>The loop of \<^verbatim>\<open>test_mcast.c\<close>; \<open>i\<close> counts up from 1, \<open>ns\<close> are the results of \<open>sendto\<close>.\<close>

definition hello_text :: "int \<Rightarrow> byte list" where
  "hello_text i = map char_byte (''helloworld_'' @ dec (nat i)) @ [0]"

fun hello_loop :: "(string \<Rightarrow> 32 word) \<Rightarrow> int \<Rightarrow> int list \<Rightarrow> int \<Rightarrow> (int \<times> mc_call list) res" where
  "hello_loop inet_addr fd [] i = Inl Exhausted"
| "hello_loop inet_addr fd (n # ns) i = rbind (cint (i + 1)) (\<lambda>j.
     let c = McSend fd (hello_text j) (inet_addr ''239.0.0.2'') 8888 in
     if n < 0 then Inr (1, [c]) else rbind (hello_loop inet_addr fd ns j) (\<lambda>(r, cs). Inr (r, c # cs)))"

definition test_mcast :: "(string \<Rightarrow> 32 word) \<Rightarrow> mc_ans \<Rightarrow> int list \<Rightarrow> (int \<times> mc_call list) res" where
  "test_mcast inet_addr a ns =
     (let fd = ma_socket a; c = [set_mcast_ttl fd 1, set_mcast_loop fd 1, set_mcast_if fd (inet_addr ''127.0.0.1'')] in
      if fd = - 1 then Inr (1, []) else if \<not> ma_if a then Inr (1, c)
      else rbind (hello_loop inet_addr fd ns 1) (\<lambda>(r, cs). Inr (r, c @ cs)))"

text \<open>Its datagrams are no packets of the server: a worker takes them for requests to its business library.\<close>

lemma hello_is_other_request:
  assumes "0 \<le> i"
  shows "\<exists>b. recv_pkg S A E (hello_text i) p m =
    rbind (do_mcast_other_req E p (m\<lparr>mc_buf := b\<rparr>)) (\<lambda>(_, p2, m2). Inr (p2, m2))"
proof -
  have "mcast_type (dec_pkg (hello_text i @ x)) = char_byte (CHR ''o'')" for x by (simp add: dec_pkg_def hello_text_def nth_append)
  moreover have "char_byte (CHR ''o'') = 111" by (simp add: char_byte_def)
  ultimately show ?thesis
    by (intro exI) (simp add: recv_pkg_def Let_def MCAST_SERV_NOTI_def MCAST_RELOAD_SO_def MCAST_RELOAD_CONF_def)
qed

end
