(* ===== verification/Test_Clients.thy ===== *)
theory Test_Clients
  imports Sample_Echo Mcast_Discovery
begin

text \<open>
  The two test clients of the sample server (\<^verbatim>\<open>epoll_cli.cpp\<close>, \<^verbatim>\<open>pingpong.cpp\<close>): their messages, the loops over what comes back,
  their main loops over the answers of the kernel, and how far they get.
\<close>

section \<open>What both clients share\<close>

definition enc_proto :: "proto_pkg \<Rightarrow> byte list" where
  "enc_proto k = le32 (pkg_len k) @ le_bytes 2 (uint (pkg_cmd k)) @ le32 (pkg_id k) @ le32 (pkg_seq k) @ le32 (pkg_ret k)"

text \<open>The numbers \<open>rs\<close> are the results of \<open>rand\<close>; the array behind \<open>buf\<close> is \<open>arr\<close>.\<close>

definition gen_str :: "byte list \<Rightarrow> nat list \<Rightarrow> byte list res" where
  "gen_str arr rs = store arr 0 (map (\<lambda>r. of_nat (97 + r mod 26)) rs)"

text \<open>The bytes before the terminator: what \<open>strlen\<close> counts, reading on until it finds one.\<close>

definition c_bytes :: "byte list \<Rightarrow> byte list res" where
  "c_bytes arr = (if 0 \<in> set arr then Inr (takeWhile (\<lambda>b. b \<noteq> 0) arr) else Inl OutOfBounds)"

text \<open>\<open>safe_tcp_recv_n\<close> of the clients is that of the server; it stores at the start of an array with contents \<open>junk\<close>.\<close>

definition recv_into :: "byte list \<Rightarrow> int \<Rightarrow> recv_ans list \<Rightarrow> (int \<times> byte list) res" where
  "recv_into junk n ans = rbind (safe_tcp_recv_n n ans) (\<lambda>(r, d, _).
     if length junk < length d then Inl OutOfBounds else Inr (r, d @ drop (length d) junk))"

text \<open>
  One event: its mask, what \<open>recv\<close> answers, and what is in the array for it before. \<open>evs[i].events && EPOLLIN\<close> is true
  for every mask but 0.
\<close>

record cli_event =
  ce_mask :: "32 word"
  ce_recvs :: "recv_ans list"
  ce_junk :: "byte list"

text \<open>
  One round of the main loop: the events, none if \<open>epoll_wait\<close> runs out of time or is interrupted, \<open>None\<close> if it fails;
  and the random numbers used after it.
\<close>

record cli_round =
  cr_wait :: "cli_event list option"
  cr_num :: nat
  cr_rands :: "nat list"

section \<open>epoll_cli\<close>

text \<open>
  The loop over the messages received. Of \<open>seq_time_map\<close> only the keys matter, the times in it are printed.
  Printing reads the data of a message up to a terminator.
\<close>

fun epoll_parse :: "nat \<Rightarrow> byte list \<Rightarrow> int \<Rightarrow> int \<Rightarrow> int set \<Rightarrow> int set res" where
  "epoll_parse 0 rb len off pend = Inl Exhausted"
| "epoll_parse (Suc n) rb len off pend =
     (if off < len then
        rbind (at_ptr (Some rb) off) (\<lambda>src. rbind (dec_proto src) (\<lambda>m.
        rbind (c_bytes (drop 18 src)) (\<lambda>_. rbind (cint (off + pkg_len m)) (\<lambda>off2.
          epoll_parse n rb len off2 (pend - {pkg_seq m})))))
      else Inr pend)"

text \<open>The events of a round; \<open>None\<close> if \<open>main\<close> returns.\<close>

fun epoll_events :: "nat \<Rightarrow> cli_event list \<Rightarrow> int set \<Rightarrow> int set option res" where
  "epoll_events n [] pend = Inr (Some pend)"
| "epoll_events n (e # es) pend =
     (if ce_mask e \<noteq> 0 then
        rbind (recv_into (ce_junk e) 102400 (ce_recvs e)) (\<lambda>(r, rb).
          if r \<le> 0 then Inr None
          else rbind (epoll_parse n rb r 0 pend) (\<lambda>pend1. epoll_events n es pend1))
      else epoll_events n es pend)"

text \<open>The text of the next messages: \<open>char input[200]\<close>, filled with up to 200 characters.\<close>

definition epoll_input :: "nat \<Rightarrow> nat list \<Rightarrow> byte list res" where
  "epoll_input num rands = (let n = num mod 200 + 1 in
     if length rands < n then Inl Exhausted else rbind (gen_str (replicate 200 0) (take n rands)) c_bytes)"

text \<open>The 200 messages, of at most 218 bytes, in an array of 1024; nobody looks at what \<open>send\<close> returns.\<close>

definition epoll_msg :: "int \<Rightarrow> byte list \<Rightarrow> int \<Rightarrow> byte list" where
  "epoll_msg i s q = enc_proto \<lparr>pkg_len = 18 + int (length s) + 1, pkg_cmd = word_of_int (i + 1), pkg_id = i, pkg_seq = q, pkg_ret = i + 2\<rparr> @ s @ [0]"

fun epoll_batch :: "nat \<Rightarrow> int \<Rightarrow> byte list \<Rightarrow> int \<Rightarrow> int set \<Rightarrow> (byte list list \<times> int \<times> int set) res" where
  "epoll_batch 0 i s seq pend = Inr ([], seq, pend)"
| "epoll_batch (Suc n) i s seq pend = rbind (cint (seq + 1)) (\<lambda>q.
     rbind (epoll_batch n (i + 1) s q (insert q pend)) (\<lambda>(ms, st). Inr (epoll_msg i s q # ms, st)))"

text \<open>
  The main loop: a new batch is sent only when every message of the last one has come back. The result is the exit status
  and the messages sent; \<open>n\<close> bounds the rounds of the loop over the messages received.
\<close>

fun epoll_loop :: "nat \<Rightarrow> cli_round list \<Rightarrow> int \<Rightarrow> int set \<Rightarrow> (int \<times> byte list list) res" where
  "epoll_loop n [] seq pend = Inl Exhausted"
| "epoll_loop n (c # cs) seq pend = (case cr_wait c of None \<Rightarrow> Inr (0, []) | Some es \<Rightarrow>
     rbind (epoll_events n es pend) (\<lambda>x. case x of None \<Rightarrow> Inr (0, []) | Some pend1 \<Rightarrow>
       if pend1 \<noteq> {} then epoll_loop n cs seq pend1
       else rbind (epoll_input (cr_num c) (cr_rands c)) (\<lambda>s. rbind (epoll_batch 200 0 s seq pend1) (\<lambda>(ms, seq1, pend2).
         rbind (epoll_loop n cs seq1 pend2) (\<lambda>(r, out). Inr (r, ms @ out))))))"

definition epoll_cli :: "bool \<Rightarrow> bool \<Rightarrow> nat \<Rightarrow> cli_round list \<Rightarrow> (int \<times> byte list list) res" where
  "epoll_cli connected epfd_ok n cs = (if \<not> connected then Inr (0, []) else if \<not> epfd_ok then Inr (0, []) else epoll_loop n cs 0 {})"

section \<open>pingpong\<close>

definition PING_NUM :: int where "PING_NUM = 16365"

text \<open>
  One event: \<open>recvbuf\<close> has \<open>num\<close> bytes, but 16384 may be stored there; then \<open>num + 1\<close> bytes of the data of the message are
  copied to \<open>buf\<close>. The loop over the messages ends after one, since that must have the length of all that was received.
\<close>

definition ping_recv :: "cli_event \<Rightarrow> int set \<Rightarrow> byte list \<Rightarrow> (int set \<times> byte list) option res" where
  "ping_recv e pend buf = rbind (recv_into (ce_junk e) 16384 (ce_recvs e)) (\<lambda>(r, rb).
     if r \<le> 0 then Inr None
     else rbind (dec_proto rb) (\<lambda>m. if pkg_len m \<noteq> r then Inr None
       else rbind (memcpy_src (drop 18 rb) (PING_NUM + 1)) (\<lambda>d. rbind (store buf 0 d) (\<lambda>buf1. Inr (Some (pend - {pkg_seq m}, buf1))))))"

fun ping_events :: "cli_event list \<Rightarrow> int set \<Rightarrow> byte list \<Rightarrow> (int set \<times> byte list) option res" where
  "ping_events [] pend buf = Inr (Some (pend, buf))"
| "ping_events (e # es) pend buf =
     (if ce_mask e \<noteq> 0 then rbind (ping_recv e pend buf) (\<lambda>x. case x of None \<Rightarrow> Inr None | Some (pend1, buf1) \<Rightarrow> ping_events es pend1 buf1)
      else ping_events es pend buf)"

text \<open>The message: all of \<open>input\<close>, an array of 16384 bytes; \<open>i\<close> is left over from the loop over the events.\<close>

definition ping_msg :: "int \<Rightarrow> int \<Rightarrow> byte list \<Rightarrow> byte list res" where
  "ping_msg i q buf = rbind (c_bytes buf) (\<lambda>s. if 16384 < 18 + length s + 1 then Inl OutOfBounds
     else Inr (enc_proto \<lparr>pkg_len = 18 + int (length s) + 1, pkg_cmd = word_of_int (i + 1), pkg_id = i, pkg_seq = q, pkg_ret = i + 2\<rparr> @ s @ [0]))"

text \<open>The product that is printed at the end is computed in \<open>int\<close>.\<close>

definition ping_report :: "int \<Rightarrow> unit res" where
  "ping_report secs = rbind (cint (secs * 2)) (\<lambda>a. rbind (cint (a * 16)) (\<lambda>b. rbind (cint (b * 1024)) (\<lambda>c.
     rbind (cint (c * 1000000)) (\<lambda>_. Inr ()))))"

fun ping_loop :: "int \<Rightarrow> cli_round list \<Rightarrow> int \<Rightarrow> int set \<Rightarrow> byte list \<Rightarrow> (int \<times> byte list list) res" where
  "ping_loop secs [] seq pend buf = Inl Exhausted"
| "ping_loop secs (c # cs) seq pend buf = (case cr_wait c of None \<Rightarrow> Inr (0, []) | Some es \<Rightarrow>
     rbind (ping_events es pend buf) (\<lambda>x. case x of None \<Rightarrow> Inr (0, []) | Some (pend1, buf1) \<Rightarrow>
       if pend1 \<noteq> {} then ping_loop secs cs seq pend1 buf1
       else if 100000 \<le> seq then rbind (ping_report secs) (\<lambda>_. Inr (0, []))
       else rbind (cint (seq + 1)) (\<lambda>q. rbind (ping_msg (int (length es)) q buf1) (\<lambda>m.
         rbind (ping_loop secs cs q (insert q pend1) buf1) (\<lambda>(r, out). Inr (r, m # out))))))"

text \<open>The text is made once, in an array of 16367 zeros; \<open>secs\<close> are the seconds it takes.\<close>

definition pingpong :: "bool \<Rightarrow> bool \<Rightarrow> nat list \<Rightarrow> int \<Rightarrow> cli_round list \<Rightarrow> (int \<times> byte list list) res" where
  "pingpong connected epfd_ok rands secs cs =
     (if length rands < nat PING_NUM then Inl Exhausted
      else rbind (gen_str (replicate 16367 0) (take (nat PING_NUM) rands)) (\<lambda>buf.
        if \<not> connected then Inr (0, []) else if \<not> epfd_ok then Inr (0, []) else ping_loop secs cs 0 {} buf))"

section \<open>Messages sent and echoed\<close>

lemma dec_enc_proto:
  assumes "is_cint (pkg_len k)" "is_cint (pkg_id k)" "is_cint (pkg_seq k)" "is_cint (pkg_ret k)"
  shows "dec_proto (enc_proto k @ x) = Inr k"
proof -
  have "word_of_int (le_val (le_bytes 2 (uint (pkg_cmd k)))) = pkg_cmd k" by (rule word_of_int_le_val) simp
  then show ?thesis using assms by (cases k) (simp add: dec_proto_def load_def proto_len_def enc_proto_def)
qed

lemma length_enc_proto [simp]: "length (enc_proto k) = 18"
  by (simp add: enc_proto_def)

text \<open>The numbers of the messages of a batch fit \<open>int\<close>, and its text is a string of the array.\<close>

definition text_ok :: "byte list \<Rightarrow> bool" where
  "text_ok s \<longleftrightarrow> length s \<le> 199 \<and> 0 \<notin> set s"

lemma length_epoll_msg [simp]: "length (epoll_msg i s q) = length s + 19"
  by (simp add: epoll_msg_def)

lemma epoll_msg_parts:
  assumes "is_cint i" "i \<le> 1000" "is_cint q" "text_ok s"
  shows "\<exists>k. dec_proto (epoll_msg i s q @ x) = Inr k \<and> pkg_len k = int (length s) + 19 \<and> pkg_seq k = q"
    "c_bytes (drop 18 (epoll_msg i s q @ x)) = Inr s" "is_pkg (epoll_msg i s q)"
proof -
  let ?k = "\<lparr>pkg_len = 18 + int (length s) + 1, pkg_cmd = word_of_int (i + 1), pkg_id = i, pkg_seq = q, pkg_ret = i + 2\<rparr>"
  have c: "is_cint (18 + int (length s) + 1)" "is_cint (i + 2)" using assms by (auto simp: is_cint_def text_ok_def)
  then have d: "dec_proto (enc_proto ?k @ y) = Inr ?k" for y using assms by (intro dec_enc_proto) simp_all
  show "\<exists>k. dec_proto (epoll_msg i s q @ x) = Inr k \<and> pkg_len k = int (length s) + 19 \<and> pkg_seq k = q"
    using d[of "s @ [0] @ x"] by (simp add: epoll_msg_def)
  have "takeWhile (\<lambda>b. b \<noteq> 0) (s @ 0 # x) = s" using assms(4) by (induction s) (auto simp: text_ok_def)
  then show "c_bytes (drop 18 (epoll_msg i s q @ x)) = Inr s" by (simp add: epoll_msg_def c_bytes_def)
  have "pkg_size (epoll_msg i s q) = int (length s) + 19"
    using c(1) by (simp add: pkg_size_def epoll_msg_def enc_proto_def)
  then show "is_pkg (epoll_msg i s q)" using assms(4) by (simp add: is_pkg_def proto_len_def CLI_SIZE_def text_ok_def)
qed

lemma epoll_parse_whole:
  "\<forall>(i, q)\<in>set xs. is_cint i \<and> i \<le> 1000 \<and> is_cint q \<Longrightarrow> text_ok s \<Longrightarrow>
    rb = pre @ concat (map (\<lambda>(i, q). epoll_msg i s q) xs) @ junk \<Longrightarrow> off = int (length pre) \<Longrightarrow>
    len = off + int (length (concat (map (\<lambda>(i, q). epoll_msg i s q) xs))) \<Longrightarrow> is_cint len \<Longrightarrow> length xs < n \<Longrightarrow>
    epoll_parse n rb len off pend = Inr (pend - set (map snd xs))"
proof (induction xs arbitrary: n pre off pend)
  case Nil
  then obtain m where "n = Suc m" by (cases n) auto
  then show ?case using Nil by simp
next
  case (Cons x xs)
  obtain m where n: "n = Suc m" using Cons.prems(7) by (cases n) auto
  obtain i q where x: "x = (i, q)" by (cases x)
  let ?msgs = "concat (map (\<lambda>(i, q). epoll_msg i s q) xs)" and ?m = "epoll_msg i s q"
  have src: "at_ptr (Some rb) off = Inr (?m @ ?msgs @ junk)" using Cons.prems(3,4) by (simp add: at_ptr_def x)
  have ok: "is_cint i" "i \<le> 1000" "is_cint q" using Cons.prems(1) x by auto
  obtain k where k: "dec_proto (?m @ ?msgs @ junk) = Inr k" "pkg_len k = int (length s) + 19" "pkg_seq k = q"
    using epoll_msg_parts(1)[OF ok Cons.prems(2)] by blast
  have lt: "off < len" "is_cint (off + (int (length s) + 19))" using Cons.prems(4,5,6) x by (auto simp: is_cint_def)
  have "epoll_parse m rb len (off + (int (length s) + 19)) (pend - {q}) = Inr (pend - {q} - set (map snd xs))"
    by (rule Cons.IH[of "pre @ ?m"]) (use Cons.prems n x in auto)
  then show ?case using n lt src k epoll_msg_parts(2)[OF ok Cons.prems(2)] x by simp (simp add: Diff_insert2[symmetric] insert_commute)
qed

lemma epoll_batch_all:
  "is_cint seq \<Longrightarrow> is_cint (seq + int n) \<Longrightarrow> epoll_batch n i s seq pend =
    Inr (map (\<lambda>j. epoll_msg (i + int j) s (seq + 1 + int j)) [0..<n], seq + int n, pend \<union> {seq + 1..seq + int n})"
proof (induction n arbitrary: i seq pend)
  case (Suc n)
  have c: "is_cint (seq + 1)" "is_cint (seq + 1 + int n)" using Suc.prems by (auto simp: is_cint_def)
  have "map (\<lambda>j. epoll_msg (i + int j) s (seq + 1 + int j)) [0..<Suc n] =
      epoll_msg i s (seq + 1) # map (\<lambda>j. epoll_msg (i + 1 + int j) s (seq + 1 + 1 + int j)) [0..<n]"
    by (simp only: upt_rec[of 0 "Suc n"] map_Suc_upt[symmetric]) (simp add: comp_def ac_simps)
  moreover have "{seq + 1..seq + int (Suc n)} = insert (seq + 1) {seq + 1 + 1..seq + 1 + int n}" by auto
  ultimately show ?case using Suc.IH[OF c, of "i + 1" "insert (seq + 1) pend"] c by simp
qed simp

text \<open>
  C29: The client \<open>epoll_cli\<close> and the echo: the 200 messages of a batch are packets of the sample server, and when they all come
  back at once, unchanged, the client has no message open any more, so the next batch can go out.
\<close>

theorem epoll_echo_clears:
  assumes batch: "epoll_batch 200 0 s seq {} = Inr (ms, seq1, pend)" "text_ok s" "is_cint seq" "seq + 200 \<le> INT_MAX"
    and ev: "ce_mask e \<noteq> 0" "length (ce_junk e) = 102400" "200 < n"
    and echo: "safe_tcp_recv_n 102400 (ce_recvs e) = Inr (int (length (concat ms)), concat ms, rest)"
  shows "list_all is_pkg ms \<and> pend = {seq + 1..seq + 200} \<and> epoll_events n [e] pend = Inr (Some {})"
proof -
  define xs where "xs = map (\<lambda>j. (int j, seq + 1 + int j)) [0..<200]"
  have "is_cint (seq + int 200)" using batch(3,4) by (simp add: is_cint_def)
  from epoll_batch_all[OF batch(3) this, of 0 s "{}"] batch(1) have b: "ms = map (\<lambda>(i, q). epoll_msg i s q) xs" "pend = {seq + 1..seq + 200}"
    by (auto simp: xs_def comp_def)
  have ok: "\<forall>(i, q)\<in>set xs. is_cint i \<and> i \<le> 1000 \<and> is_cint q" using batch(3,4) by (auto simp: xs_def is_cint_def)
  have pk: "list_all is_pkg ms" using ok epoll_msg_parts(3)[OF _ _ _ batch(2)] b(1) by (auto simp: list_all_iff)
  have len: "length (concat ms) = 200 * (length s + 19)" by (simp add: b(1) xs_def length_concat comp_def sum_list_triv)
  then have small: "length (concat ms) \<le> 102400" "0 < length (concat ms)" using batch(2) by (auto simp: text_ok_def)
  have seqs: "set (map snd xs) = {seq + 1..seq + 200}"
  proof -
    have "set (map snd xs) = (\<lambda>j. seq + 1 + int j) ` {0..<200}" by (simp add: xs_def image_image)
    also have "\<dots> = {seq + 1..seq + 200}"
    proof
      show "{seq + 1..seq + 200} \<subseteq> (\<lambda>j. seq + 1 + int j) ` {0..<200}"
      proof
        fix q assume "q \<in> {seq + 1..seq + 200}"
        then show "q \<in> (\<lambda>j. seq + 1 + int j) ` {0..<200}" by (intro image_eqI[of _ _ "nat (q - seq - 1)"]) auto
      qed
    qed auto
    finally show ?thesis .
  qed
  have "epoll_parse n (concat ms @ drop (length (concat ms)) (ce_junk e)) (int (length (concat ms))) 0 pend = Inr (pend - set (map snd xs))"
    by (rule epoll_parse_whole[OF ok batch(2), of _ "[]"]) (use b small ev(3) in \<open>auto simp: is_cint_def xs_def\<close>)
  then have "epoll_events n [e] pend = Inr (Some {})" using ev echo small seqs b(2) by (simp add: recv_into_def)
  then show ?thesis using pk b(2) by simp
qed

lemma epoll_echo_clears_witness:
  "\<exists>ms. epoll_batch 200 0 [104, 105] 0 {} = Inr (ms, 200, {1..200}) \<and> list_all is_pkg ms \<and>
     epoll_events 300 [\<lparr>ce_mask = 1, ce_recvs = [RData (concat ms), RErr EAGAIN], ce_junk = replicate 102400 0\<rparr>] {1..200} = Inr (Some {})"
proof -
  define ms where "ms = map (\<lambda>j. epoll_msg (0 + int j) [104, 105] (0 + 1 + int j)) [0..<200]"
  have b: "epoll_batch 200 0 [104, 105] 0 {} = Inr (ms, 200, {1..200})"
    using epoll_batch_all[of 0 200 0 "[104, 105]" "{}"] by (simp add: ms_def is_cint_def)
  have len: "length (concat ms) = 4200" by (simp add: ms_def length_concat comp_def sum_list_triv)
  let ?e = "\<lparr>ce_mask = 1, ce_recvs = [RData (concat ms), RErr EAGAIN], ce_junk = replicate 102400 0\<rparr> :: cli_event"
  have "concat ms \<noteq> []" using len by (metis list.size(3) zero_neq_numeral)
  then have "safe_tcp_recv_n 102400 (ce_recvs ?e) = Inr (int (length (concat ms)), concat ms, [])"
    using len by (simp add: safe_tcp_recv_n_def)
  from epoll_echo_clears[OF b _ _ _ _ _ _ this, of 300] b show ?thesis by (simp add: text_ok_def is_cint_def)
qed

section \<open>Where the clients go wrong\<close>

lemma ping_recv_never:
  assumes "int (length (ce_junk e)) = PING_NUM"
  shows "ping_recv e pend buf \<noteq> Inr (Some st)"
proof
  assume "ping_recv e pend buf = Inr (Some st)"
  then obtain r rb d where r: "recv_into (ce_junk e) 16384 (ce_recvs e) = Inr (r, rb)" "memcpy_src (drop 18 rb) (PING_NUM + 1) = Inr d"
    by (auto simp: ping_recv_def rbind_Inr_iff split: if_splits)
  have "length rb = length (ce_junk e)" using r(1) by (auto simp: recv_into_def rbind_Inr_iff split: if_splits)
  then show False using r(2) assms by (simp add: memcpy_src_def split: if_splits)
qed

lemma ping_events_keep:
  "\<forall>e\<in>set es. int (length (ce_junk e)) = PING_NUM \<Longrightarrow> ping_events es pend buf = Inr (Some st) \<Longrightarrow> st = (pend, buf)"
  by (induction es) (auto simp: rbind_Inr_iff ping_recv_never split: if_splits option.splits)

lemma ping_loop_waits:
  "\<forall>c\<in>set cs. \<forall>es. cr_wait c = Some es \<longrightarrow> (\<forall>e\<in>set es. int (length (ce_junk e)) = PING_NUM) \<Longrightarrow> pend \<noteq> {} \<Longrightarrow>
    ping_loop secs cs seq pend buf = Inr (r, out) \<Longrightarrow> out = []"
proof (induction cs)
  case (Cons c cs)
  show ?case
  proof (cases "cr_wait c")
    case (Some es)
    then obtain x where x: "ping_events es pend buf = Inr x"
      using Cons.prems(3) by (auto simp: rbind_Inr_iff)
    show ?thesis
    proof (cases x)
      case None
      then show ?thesis using Some x Cons.prems(3) by simp
    next
      case st: (Some st)
      have "st = (pend, buf)" by (rule ping_events_keep[of es]) (use Cons.prems(1) Some x st in auto)
      then show ?thesis using Some x st Cons by simp
    qed
  qed (use Cons.prems(3) in simp)
qed simp

text \<open>
  \<open>pingpong\<close> never gets past its first message. Its receive buffer has 16365 bytes, but an answer has 16384, and it copies
  more bytes out of the buffer than there are, whatever arrives: every run that ends without such an access has sent one message at most.
\<close>

theorem pingpong_one_message:
  assumes "\<forall>c\<in>set cs. \<forall>es. cr_wait c = Some es \<longrightarrow> (\<forall>e\<in>set es. int (length (ce_junk e)) = PING_NUM)"
    and "pingpong connected epfd_ok rands secs cs = Inr (r, out)"
  shows "length out \<le> 1"
proof -
  have "length out \<le> 1" if "ping_loop secs cs seq {} buf = Inr (r, out)" for seq buf
    using assms(1) that
  proof (induction cs arbitrary: seq buf)
    case (Cons c cs)
    show ?case
    proof (cases "cr_wait c")
      case (Some es)
      then obtain x where x: "ping_events es {} buf = Inr x"
        using Cons.prems(2) by (auto simp: rbind_Inr_iff)
      show ?thesis
      proof (cases x)
        case None
        then show ?thesis using Some x Cons.prems(2) by simp
      next
        case st: (Some st)
        have e: "st = ({}, buf)" by (rule ping_events_keep[of es]) (use Cons.prems(1) Some x st in auto)
        show ?thesis
        proof (cases "100000 \<le> seq")
          case True
          then show ?thesis using Some x st e Cons.prems(2) by (auto simp: rbind_Inr_iff)
        next
          case False
          then obtain q m out1 where "ping_loop secs cs q {q} buf = Inr (r, out1)" "out = m # out1"
            using Some x st e Cons.prems(2) by (auto simp: rbind_Inr_iff)
          then show ?thesis using ping_loop_waits[of cs "{q}"] Cons.prems(1) by auto
        qed
      qed
    qed (use Cons.prems(2) in simp)
  qed simp
  then show ?thesis using assms(2) by (auto simp: pingpong_def rbind_Inr_iff split: if_splits)
qed

text \<open>Nothing arrives in the first round, so a message is sent, and then waiting fails.\<close>

lemma pingpong_one_message_witness:
  "\<exists>out. pingpong True True (replicate 16365 0) 1 [\<lparr>cr_wait = Some [], cr_num = 0, cr_rands = []\<rparr>, \<lparr>cr_wait = None, cr_num = 0, cr_rands = []\<rparr>]
     = Inr (0, out) \<and> length out \<le> 1 \<and> out \<noteq> []"
proof -
  let ?cs = "[\<lparr>cr_wait = Some [], cr_num = 0, cr_rands = []\<rparr>, \<lparr>cr_wait = None, cr_num = 0, cr_rands = []\<rparr>]"
  define t :: "byte list" where "t = replicate 16365 97"
  have l: "length t = 16365" by (simp add: t_def)
  have g: "gen_str (replicate 16367 0) (replicate 16365 0) = Inr (t @ replicate 2 0)"
    by (simp add: gen_str_def store_def PING_NUM_def t_def)
  have "takeWhile (\<lambda>b. b \<noteq> 0) (t @ replicate 2 0) = t @ takeWhile (\<lambda>b. b \<noteq> 0) (replicate 2 0)"
    by (rule takeWhile_append2) (simp add: t_def)
  then have "c_bytes (t @ replicate 2 0) = Inr t" by (simp add: c_bytes_def takeWhile_replicate)
  then obtain m where "ping_msg 0 1 (t @ replicate 2 0) = Inr m" using l by (simp add: ping_msg_def)
  then have run: "pingpong True True (replicate 16365 0) 1 ?cs = Inr (0, [m])"
    by (simp add: pingpong_def g is_cint_def PING_NUM_def)
  have "length [m] \<le> 1" by (rule pingpong_one_message[OF _ run]) simp
  then show ?thesis using run by blast
qed

text \<open>
  The text of \<open>epoll_cli\<close> has 1 to 200 characters in an array of 200: with 200 there is no room for the terminator,
  and \<open>strlen\<close> reads behind the array; with less the text is one that \<open>epoll_echo_clears\<close> speaks of.
\<close>

theorem epoll_input_text:
  assumes "200 \<le> length rands"
  shows "if num mod 200 = 199 then epoll_input num rands = Inl OutOfBounds
    else \<exists>s. epoll_input num rands = Inr s \<and> text_ok s \<and> length s = num mod 200 + 1"
proof -
  define n where "n = num mod 200 + 1"
  define t where "t = map (\<lambda>r. of_nat (97 + r mod 26) :: byte) (take n rands)"
  have n: "n \<le> 200" "n \<le> length rands" using assms by (auto simp: n_def)
  have l: "length t = n" using n by (simp add: t_def)
  have nz: "(of_nat (97 + r mod 26) :: byte) \<noteq> 0" for r :: nat
  proof -
    have "r mod 26 < 26" by simp
    then have "97 + r mod 26 < 256" by linarith
    then have "unat (of_nat (97 + r mod 26) :: byte) = 97 + r mod 26" by (simp only: unat_of_nat) simp
    then show ?thesis by (metis add_is_0 unat_0 zero_neq_numeral)
  qed
  then have z: "0 \<notin> set t" by (auto simp: t_def)
  have "gen_str (replicate 200 0) (take n rands) = Inr (t @ replicate (200 - n) 0)"
    using n l by (simp add: gen_str_def store_def t_def)
  then have e: "epoll_input num rands = c_bytes (t @ replicate (200 - n) 0)" using n by (simp add: epoll_input_def n_def Let_def)
  show ?thesis
  proof (cases "num mod 200 = 199")
    case True
    then have "n = 200" by (simp add: n_def)
    then show ?thesis using True e z by (simp add: c_bytes_def)
  next
    case False
    then have lt: "n < 200" using n(1) by (auto simp: n_def)
    have "takeWhile (\<lambda>b. b \<noteq> 0) (t @ y) = t @ takeWhile (\<lambda>b. b \<noteq> 0) y" for y by (rule takeWhile_append2) (use z in auto)
    then have "c_bytes (t @ replicate (200 - n) 0) = Inr t" using lt by (simp add: c_bytes_def takeWhile_replicate)
    then show ?thesis using False e z l lt by (simp add: text_ok_def n_def)
  qed
qed

lemma epoll_input_text_witness:
  "epoll_input 199 (replicate 200 5) = Inl OutOfBounds \<and> (\<exists>s. epoll_input 1 (replicate 200 5) = Inr s \<and> text_ok s \<and> length s = 2)"
  using epoll_input_text[of "replicate 200 5" 199] epoll_input_text[of "replicate 200 5" 1] by (simp add: numeral_2_eq_2)

text \<open>A message that claims to have no bytes keeps \<open>epoll_cli\<close> in its loop for ever.\<close>

lemma epoll_parse_stuck:
  assumes "at_ptr (Some rb) off = Inr src" and "dec_proto src = Inr m" and "pkg_len m = 0" and "0 \<in> set (drop 18 src)"
    and "off < len" and "is_cint off"
  shows "epoll_parse n rb len off pend = Inl Exhausted"
  using assms by (induction n arbitrary: pend) (simp_all add: c_bytes_def)

end
