(* ===== verification/Server_Stream.thy ===== *)
theory Server_Stream
  imports Worker Master_Stream
begin

text \<open>
  From a server the worker is connected to, to the business library: \<open>do_proc_svr\<close> of \<^verbatim>\<open>work.c\<close> as the other
  instance of \<open>stream_reader\<close>.
\<close>

section \<open>The library's side\<close>

text \<open>
  What the library does with a message of a server, on the part of its state \<open>sv_st\<close> gives; \<open>sv_ok\<close> are the states in
  which it can take one.
\<close>

record ('x, 'w) serv_spec =
  sv_st :: "'w \<Rightarrow> 'x"
  sv_ok :: "'w \<Rightarrow> bool"
  sv_msg :: "'x \<Rightarrow> int \<Rightarrow> byte list \<Rightarrow> 'x"

text \<open>Reading does not affect it, and it leaves the connection table and what is still to be received alone.\<close>

definition serv_laws :: "('x, ('l, 'h) proc) serv_spec \<Rightarrow> ('l, 'h) proc serv_if \<Rightarrow> bool" where
  "serv_laws A S \<longleftrightarrow> (\<forall>p p1. only_conn p p1 \<longrightarrow> sv_st A p1 = sv_st A p \<and> sv_ok A p1 = sv_ok A p) \<and>
     (\<forall>p p1 fd src n. so_proc_serv_msg S fd src n p = Inr p1 \<longrightarrow> keeps_table p p1) \<and>
     (\<forall>p fd src n. sv_ok A p \<and> 0 < n \<and> n \<le> int (length src) \<longrightarrow> (\<exists>p1. so_proc_serv_msg S fd src n p = Inr p1 \<and>
        sv_ok A p1 \<and> sv_st A p1 = sv_msg A (sv_st A p) fd (take (nat n) src)))"

section \<open>The round of the worker\<close>

definition give :: "('l, 'h) proc serv_if \<times> ('x, ('l, 'h) proc) serv_spec \<times> 'x \<Rightarrow> int \<Rightarrow> byte list \<Rightarrow> ('l, 'h) proc \<Rightarrow>
    (bool \<times> ('l, 'h) proc) res" where
  "give c fd src p = rbind (fdw p fd) (\<lambda>w. rbind (so_proc_serv_msg (fst c) fd src (msglen (w_buff w)) p) (\<lambda>p1. Inr (True, p1)))"

definition given :: "('l, 'h) proc serv_if \<times> ('x, ('l, 'h) proc) serv_spec \<times> 'x \<Rightarrow> int \<Rightarrow> ('l, 'h) proc \<Rightarrow> byte list list \<Rightarrow> bool" where
  "given c fd p fs \<longleftrightarrow> (case c of (S, A, x) \<Rightarrow> serv_laws A S \<and> sv_ok A p \<and> sv_st A p = foldl (\<lambda>x d. sv_msg A x fd d) x fs)"

definition again :: "('l, 'h) proc serv_if \<times> ('x, ('l, 'h) proc) serv_spec \<times> 'x \<Rightarrow> nat \<Rightarrow> int \<Rightarrow> int \<Rightarrow> ('l, 'h) proc \<Rightarrow>
    (int option \<times> ('l, 'h) proc) res" where
  "again c n fd off p = rbind (proc_again (fst c) n fd off p) (\<lambda>(off2, p1). Inr (Some off2, p1))"

lemma again_round:
  "again c (Suc n) fd off p = rbind (frame_step (fst c) SERV_WORK (give c) fd off p) (\<lambda>(e, p1). case e of
      Cut_more o1 \<Rightarrow> again c n fd o1 p1 | Cut_rest o1 \<Rightarrow> Inr (Some o1, p1) | Cut_refused \<Rightarrow> Inr (None, p1))"
proof (cases "get_length (fst c) SERV_WORK fd off p")
  case (Inr p1)
  show ?thesis
  proof (cases "fdw p1 fd")
    case (Inr w)
    then show ?thesis using \<open>get_length (fst c) SERV_WORK fd off p = Inr p1\<close>
      by (simp add: frame_step_def again_def give_def rbind_assoc Let_def split_def if_distrib[of "\<lambda>m. rbind m f" for f]
          if_distrib[of "case_frame_end f g h" for f g h] cong: if_cong)
  qed (use Inr in \<open>simp add: frame_step_def again_def\<close>)
qed (simp add: frame_step_def again_def)

lemma give_ok:
  assumes "given c fd p fs" and "valid_fd p fd" and "0 < msglen (buff_of p fd)" "msglen (buff_of p fd) \<le> int (length src)"
  shows "\<exists>taken p'. give c fd src p = Inr (taken, p') \<and> keeps_table p p' \<and>
    given c fd p' (if taken then fs @ [take (nat (msglen (buff_of p fd))) src] else fs)"
proof -
  obtain S A x where c: "c = (S, A, x)" by (cases c)
  have g: "serv_laws A S" "sv_ok A p" "sv_st A p = foldl (\<lambda>x d. sv_msg A x fd d) x fs" using assms(1) c by (simp_all add: given_def)
  obtain p1 where p1: "so_proc_serv_msg S fd src (msglen (buff_of p fd)) p = Inr p1" "sv_ok A p1"
    "sv_st A p1 = sv_msg A (sv_st A p) fd (take (nat (msglen (buff_of p fd))) src)" "keeps_table p p1"
    using g(1,2) assms(3,4) unfolding serv_laws_def by blast
  have "give c fd src p = Inr (True, p1)" using p1(1) assms(2) c by (simp add: give_def)
  then show ?thesis using p1 g c by (intro exI[of _ True] exI[of _ p1]) (simp add: given_def)
qed

lemma given_conn: "given c fd p fs \<Longrightarrow> only_conn p p1 \<Longrightarrow> given c fd p1 fs"
  by (auto simp: given_def serv_laws_def)

lemma again_recvs:
  assumes "given c fd p fs" and "again c n fd off p = Inr (r, p')" shows "p_recvs p' = p_recvs p"
proof -
  obtain S A x where c: "c = (S, A, x)" by (cases c)
  have keep: "so_proc_serv_msg S fd src n p = Inr p1 \<Longrightarrow> p_recvs p1 = p_recvs p" for fd src n and p p1 :: "('a, 'b) proc"
    using assms(1) unfolding c given_def prod.case serv_laws_def keeps_table_def by blast
  have "proc_again S n fd off p = Inr (off2, p') \<Longrightarrow> p_recvs p' = p_recvs p" for off2
  proof (induction n arbitrary: off p)
    case (Suc n)
    have gl: "get_length S kind fd off p = Inr p1 \<Longrightarrow> p_recvs p1 = p_recvs p" for kind off and p p1 :: "('a, 'b) proc"
      by (auto simp: get_length_def upd_buff_def upd_fdw_def rbind_Inr_iff Let_def split: if_splits)
    have co: "consume fd off p = Inr (x, p1) \<Longrightarrow> p_recvs p1 = p_recvs p" for off x and p p1 :: "('a, 'b) proc"
      by (auto simp: consume_def upd_buff_def upd_fdw_def rbind_Inr_iff Let_def)
    show ?case using Suc.prems
      by (auto simp: rbind_Inr_iff Let_def split: if_splits dest!: gl keep co Suc.IH)
  qed simp
  then show ?thesis using assms(2) c by (auto simp: again_def rbind_Inr_iff)
qed

interpretation svr: stream_reader fst SERV_WORK give again given "\<lambda>c L. do_proc_svr L (fst c)"
proof unfold_locales
  fix c :: "('a, 'b) proc serv_if \<times> ('x, ('a, 'b) proc) serv_spec \<times> 'x" and L :: "'a nlist" and n fd and p :: "('a, 'b) proc"
  show "do_proc_svr L (fst c) n fd p = rbind (handle_read L fd p) (\<lambda>(r, p1). if r = - 1 then Inr (- 1, p1)
      else rbind (again c n fd 0 p1) (\<lambda>(off, p2). case off of None \<Rightarrow> Inr (- 1, p2)
        | Some k \<Rightarrow> rbind (keep_rest fd k p2) (\<lambda>p3. Inr (0, p3))))"
    by (simp add: do_proc_svr_def again_def rbind_assoc split_def cong: if_cong)
qed (rule again_round, erule give_ok, assumption+, erule given_conn, erule only_buff_conn, erule (1) given_conn, erule (1) again_recvs)

section \<open>The stream of a server\<close>

text \<open>
  C14: The bytes of a server the worker is connected to, in whatever pieces they arrive, reach the business library as
  exactly the messages into which its own lengths divide them, one call for each and in their order; what is left in the
  buffer is the unfinished rest. The library has to tell the length of a message, a positive one, from any of its first bytes, and its handler
  has to return, with the connections left alone and a state that follows from its own and the message (\<open>serv_laws\<close>).
\<close>

theorem server_stream:
  assumes run: "reads (do_proc_svr L S n fd) p us p'" and ok: "conn_ok L cap fd p" and lib: "serv_laws A S" "sv_ok A p"
    and fresh: "unread p fd = []" "msglen (buff_of p fd) = 0"
    and g: "msg_len_law S SERV_WORK fd g" "\<And>bs ds. bs \<noteq> [] \<Longrightarrow> g (bs @ ds) = g bs" and n: "cap < int n"
    and ct: "cut g 0 (concat us) = (fs, rest, k)"
  shows "sv_st A p' = foldl (\<lambda>x d. sv_msg A x fd d) (sv_st A p) fs \<and> unread p' fd = rest \<and> msglen (buff_of p' fd) = k"
proof -
  have "given (S, A, sv_st A p) fd p []" using lib by (simp add: given_def)
  from svr.reads_stream[OF _ ok this fresh _ g(2) n ct, simplified] run g(1) show ?thesis by (simp add: given_def)
qed

text \<open>A library that adds up the first bytes of its messages, which have 4 bytes each.\<close>

definition adding_serv :: "('l, 'h) proc serv_if" where
  "adding_serv = demo_serv\<lparr>so_proc_serv_msg := \<lambda>fd d n p. Inr (p\<lparr>p_seq := p_seq p + ucast (hd d)\<rparr>)\<rparr>"

definition adding_spec :: "(32 word, ('l, 'h) proc) serv_spec" where
  "adding_spec = \<lparr>sv_st = p_seq, sv_ok = \<lambda>_. True, sv_msg = \<lambda>x fd d. x + ucast (hd d)\<rparr>"

lemma adding_laws: "serv_laws adding_spec adding_serv"
  by (auto simp: serv_laws_def adding_spec_def adding_serv_def keeps_table_def only_conn_def)

lemma server_stream_witness:
  "\<exists>p'. reads (do_proc_svr demo_nlist adding_serv 17 1) (demo_cli []) [[1, 2, 3, 4, 5], [6, 7, 8, 9]] p'
     \<and> p_seq p' = 6 \<and> unread p' 1 = [9]"
proof -
  let ?u = "[RData [1, 2, 3, 4, 5], RErr EAGAIN]" and ?v = "[RData [6, 7, 8, 9], RErr EAGAIN]" and ?f = "do_proc_svr demo_nlist adding_serv 17 1"
  have "case ?f ((demo_cli [])\<lparr>p_recvs := ?u @ []\<rparr>) of Inl e \<Rightarrow> False | Inr (r, p1) \<Rightarrow> r = 0 \<and> p_recvs p1 = [] \<and>
     (case ?f (p1\<lparr>p_recvs := ?v @ []\<rparr>) of Inl e \<Rightarrow> False | Inr (r, p2) \<Rightarrow> r = 0 \<and> p_recvs p2 = [])" by code_simp
  from evaluated[OF this] obtain p1 where p: "?f ((demo_cli [])\<lparr>p_recvs := ?u @ []\<rparr>) = Inr (0, p1)" "p_recvs p1 = []"
    "case ?f (p1\<lparr>p_recvs := ?v @ []\<rparr>) of Inl e \<Rightarrow> False | Inr (r, p2) \<Rightarrow> r = 0 \<and> p_recvs p2 = []" by blast
  from evaluated[OF p(3)] obtain p2 where p2: "?f (p1\<lparr>p_recvs := ?v @ []\<rparr>) = Inr (0, p2)" "p_recvs p2 = []" by blast
  have run: "reads ?f (demo_cli []) [recv_bytes ?u, recv_bytes ?v] p2"
    by (rule one_call[where f = ?f and rest = "[]", OF p(1,2)], rule one_call[where f = ?f and rest = "[]", OF p2], rule no_call)
  have ok: "conn_ok demo_nlist 16 1 (demo_cli [])" using demo_cli_readable readable_conn by blast
  have fresh: "unread (demo_cli []) 1 = []" "msglen (buff_of (demo_cli []) 1) = 0" by (simp_all add: unread_def demo_cli_def demo_buff_def)
  have g: "msg_len_law adding_serv SERV_WORK 1 (\<lambda>_. 4)" using demo_serv_len by (simp add: adding_serv_def msg_len_law_def len_law_def)
  have ct: "cut (\<lambda>_. 4) 0 (concat [recv_bytes ?u, recv_bytes ?v]) = ([[1, 2, 3, 4], [5, 6, 7, 8]], [9], 4)" by (simp add: cut.simps)
  have ok2: "sv_ok adding_spec (demo_cli [])" by (simp add: adding_spec_def)
  have seq: "p_seq (demo_cli []) = 0" by (simp add: demo_cli_def demo_proc_def)
  from server_stream[OF run ok adding_laws ok2 fresh g _ _ ct]
  have "p_seq p2 = 6 + p_seq (demo_cli []) \<and> unread p2 1 = [9]" by (simp add: adding_spec_def)
  then show ?thesis using run by (intro exI[of _ p2]) (simp add: seq)
qed

end
