(* ===== verification/Master_Queues.thy ===== *)
theory Master_Queues
  imports Master_Shape Restart
begin

text \<open>
  The queues of all workers through the loop of the master: whatever clients and workers send, every queue keeps holding a
  list of whole messages.
\<close>

section \<open>Queues that keep holding whole messages\<close>

text \<open>The header of a block has 32 bits for the id and the descriptor.\<close>

definition int_head :: "mem_block \<Rightarrow> mem_block" where
  "int_head b = b\<lparr>blk_id := get32 (le32 (blk_id b)), blk_fd := get32 (le32 (blk_fd b))\<rparr>"

lemma le32_get32: "le32 (get32 (le32 i)) = le32 i"
proof -
  have m: "le32 j = le32 (j mod 4294967296)" for j
    using le_bytes_val[of "le_bytes 4 j"] by (simp add: le32_def le_val_bytes)
  have "get32 (le32 i) mod 4294967296 = i mod 4294967296"
    by (simp add: get32_def s32_def le32_def le_val_bytes mod_diff_right_eq)
  then show ?thesis using m[of i] m[of "get32 (le32 i)"] by simp
qed

lemma int_head_push:
  assumes "blk_len b - blk_head_len \<le> int (length d)"
  shows "mq_push q b d = mq_push q (int_head b) (take (nat (blk_len b - blk_head_len)) d)"
proof -
  have e: "enc_head (int_head b) = enc_head b" by (simp add: enc_head_def int_head_def le32_get32)
  have l: "blk_len (int_head b) = blk_len b" by (simp add: int_head_def)
  have "mq_push_loop n q b d = mq_push_loop n q (int_head b) d" for n q
  proof (induction n arbitrary: q)
    case (Suc n)
    show ?case by (simp only: mq_push_round write_blk_def Suc.IH e l)
  qed simp
  then have "mq_push q b d = mq_push q (int_head b) d" by (simp only: mq_push_def)
  then show ?thesis using mq_push_take[of "int_head b" d q] assms l by simp
qed

lemma write_blk_len: "write_blk q b d = Inr q1 \<Longrightarrow>
    blk_head_len \<le> blk_len b \<and> blk_len b - blk_head_len \<le> int (length d)"
  by (auto simp: write_blk_def rbind_Inr_iff memcpy_src_def split: if_splits)

lemma mq_push_kept:
  assumes r: "mq_rel q xs" and p: "mq_push q b d = Inr (r, q1)"
  shows "mq_rel q1 xs \<or> blk_head_len \<le> blk_len b \<and> blk_len b - blk_head_len \<le> int (length d) \<and> blk_len b \<le> MQ_MAX"
proof -
  note wf = mq_relD(1)[OF r]
  have two: "mq_push q b d = mq_push_loop (Suc (Suc 0)) q b d"
    using mq_relD(2)[OF r] by (simp add: mq_push_def numeral_2_eq_2)
  have small: "blk_len b \<le> MQ_MAX" if "mq_head q2 + blk_len b < mq_len q2 \<or> mq_head q2 + blk_len b < mq_tail q2" "mq_wf q2" for q2
    using that by (auto simp: mq_wf_def mem_head_len_def)
  note lens = write_blk_len small
  obtain m where m: "mark_align q = Inr m" by (rule mark_align_ok[OF wf])
  show ?thesis
  proof (cases "mq_tail q \<le> mq_head q \<and> mq_len q \<le> mq_head q + blk_len b \<and> mem_head_len \<noteq> mq_tail q")
    case True
    then have w: "mq_rel (m\<lparr>mq_head := mem_head_len\<rparr>) xs" "mq_tail m = mq_tail q" using wrap_head[OF r _ m] by auto
    have "mem_head_len \<le> mq_tail q" using wf by (simp add: mq_wf_def)
    then have "mq_push_loop (Suc 0) (m\<lparr>mq_head := mem_head_len\<rparr>) b d = Inr (r, q1)" "\<not> mq_tail q \<le> mem_head_len"
      using p True m w(2) unfolding two mq_push_round[of "Suc 0"] by (auto simp: rbind_Inr_iff cint_Inr_iff split: if_splits)
    then show ?thesis using w lens(1) lens(2)[OF _ mq_relD(1)[OF w(1)]]
      by (auto simp: mq_push_round rbind_Inr_iff cint_Inr_iff not_le split: if_splits)
  next
    case False
    then show ?thesis using p m r wrap_head[OF r _ m] lens(1) lens(2)[OF _ wf] unfolding two mq_push_round[of "Suc 0"]
      by (auto simp: rbind_Inr_iff cint_Inr_iff not_le split: if_splits)
  qed
qed

lemma mq_push_keeps:
  assumes r: "mq_rel q xs" and t: "blk_type b \<noteq> blk_code BLK_ALIGN" and p: "mq_push q b d = Inr (r, q1)"
  shows "\<exists>ys. mq_rel q1 ys"
proof (cases "mq_rel q1 xs")
  case False
  then have l: "blk_head_len \<le> blk_len b" "blk_len b - blk_head_len \<le> int (length d)" "blk_len b \<le> MQ_MAX"
    using mq_push_kept[OF r p] by auto
  have "is_cint (blk_len b)" using l by (simp add: is_cint_def MQ_MAX_def blk_head_len_def)
  then have "valid_msg (int_head b, take (nat (blk_len b - blk_head_len)) d)"
    using l t by (simp add: valid_msg_def cint_head_def int_head_def get32_cint)
  then show ?thesis using mq_push_pushed[OF r] p int_head_push[OF l(2), of q] by (fastforce simp: pushed_def)
qed blast

section \<open>The queues of all workers\<close>

definition holds_msgs :: "mem_queue \<Rightarrow> bool" where
  "holds_msgs q \<longleftrightarrow> (\<exists>xs. mq_rel q xs)"

text \<open>The receive queues hold messages, and the send queues are \<open>sqs\<close>.\<close>

definition rqs_hold :: "mem_queue list \<Rightarrow> ('l, 'h) proc \<Rightarrow> bool" where
  "rqs_hold sqs p \<longleftrightarrow> map wk_sq (p_works p) = sqs \<and> (\<forall>k\<in>set (p_works p). holds_msgs (wk_rq k)) \<and>
     mem_head_len < mem_queue_len (p_setting p) \<and> mem_queue_len (p_setting p) \<le> MQ_MAX"

definition queues_hold :: "('l, 'h) proc \<Rightarrow> bool" where
  "queues_hold p \<longleftrightarrow> (\<forall>k\<in>set (p_works p). holds_msgs (wk_rq k) \<and> holds_msgs (wk_sq k)) \<and>
     mem_head_len < mem_queue_len (p_setting p) \<and> mem_queue_len (p_setting p) \<le> MQ_MAX"

lemma queues_hold_rqs: "queues_hold p \<longleftrightarrow> (\<exists>sqs. rqs_hold sqs p \<and> (\<forall>q\<in>set sqs. holds_msgs q))"
  by (auto simp: queues_hold_def rqs_hold_def)

lemma rqs_hold_upd:
  assumes "rqs_hold sqs p"
  shows "rqs_hold sqs (p\<lparr>p_recvs := rs\<rparr>)" "rqs_hold sqs (p\<lparr>p_sends := ss\<rparr>)" "rqs_hold sqs (p\<lparr>p_ctls := cs\<rparr>)"
    "rqs_hold sqs (p\<lparr>p_allocs := al\<rparr>)" "rqs_hold sqs (eff e p)" "rqs_hold sqs (p\<lparr>p_count := c\<rparr>)"
    "rqs_hold sqs (p\<lparr>p_maxfd := mx\<rparr>)" "rqs_hold sqs (p\<lparr>p_accepts := ac\<rparr>)" "rqs_hold sqs (p\<lparr>p_links := l\<rparr>)"
    "rqs_hold sqs (p\<lparr>p_stop := st\<rparr>)" "rqs_hold sqs (p\<lparr>p_seq := sq\<rparr>)" "rqs_hold sqs (p\<lparr>p_fds := fs\<rparr>)"
    "rqs_hold sqs (p\<lparr>p_chl_pids := ch\<rparr>)"
  using assms by (simp_all add: rqs_hold_def eff_def)

lemma upd_all: "\<forall>x\<in>set xs. P x \<Longrightarrow> P y \<Longrightarrow> \<forall>x\<in>set (xs[n := y]). P x"
  using set_update_subset_insert[of xs n y] by blast

lemma set_rq_hold:
  assumes "rqs_hold sqs p" and "holds_msgs q" shows "sat (rqs_hold sqs) (upd_work i (\<lambda>k. k\<lparr>wk_rq := q\<rparr>) p)"
proof -
  have "map wk_sq ((p_works p)[nat i := k\<lparr>wk_rq := q\<rparr>]) = map wk_sq (p_works p)" if "k = p_works p ! nat i" for k
    using that by (cases "nat i < length (p_works p)") (auto simp: list_eq_iff_nth_eq nth_list_update)
  moreover have "\<forall>k\<in>set ((p_works p)[nat i := (p_works p ! nat i)\<lparr>wk_rq := q\<rparr>]). holds_msgs (wk_rq k)"
    by (rule upd_all) (use assms in \<open>simp_all add: rqs_hold_def\<close>)
  ultimately show ?thesis using assms(1) by (simp add: upd_work_def get_work_def rqs_hold_def)
qed

lemma set_sq_hold: "rqs_hold sqs p \<Longrightarrow> sat (rqs_hold (sqs[nat i := q])) (upd_work i (\<lambda>k. k\<lparr>wk_sq := q\<rparr>) p)"
proof (cases "0 \<le> i \<and> i < int (length (p_works p))")
  case True
  assume I: "rqs_hold sqs p"
  then have "\<forall>k\<in>set ((p_works p)[nat i := (p_works p ! nat i)\<lparr>wk_sq := q\<rparr>]). holds_msgs (wk_rq k)"
    using True by (intro upd_all) (auto simp: rqs_hold_def)
  then show ?thesis using I True by (auto simp: rqs_hold_def map_update)
qed (auto simp: upd_work_def get_work_def)

lemma get_work_rq: "rqs_hold sqs p \<Longrightarrow> get_work p i = Inr k \<Longrightarrow> holds_msgs (wk_rq k) \<and> wk_sq k = sqs ! nat i \<and> nat i < length sqs"
  by (auto simp: get_work_def rqs_hold_def split: if_splits)

lemma push_rqs: "rqs_hold sqs p \<Longrightarrow> blk_type b \<noteq> blk_code BLK_ALIGN \<Longrightarrow> sat (\<lambda>(r, p1). rqs_hold sqs p1) (push_rq i b d p)"
  unfolding push_rq_def
proof (rule sat_bind_any, rule sat_bind_any, rule sat_prod, rule sat_bind[OF set_rq_hold])
  fix k x r q
  assume I: "rqs_hold sqs p" "blk_type b \<noteq> blk_code BLK_ALIGN" "get_work p i = Inr k" "mq_push (wk_rq k) b d = Inr x" "x = (r, q)"
  show "holds_msgs q" using get_work_rq[OF I(1,3)] mq_push_keeps[OF _ I(2)] I(4,5) by (auto simp: holds_msgs_def)
qed simp_all

interpretation rqs: master_ops L S "rqs_hold sqs" for L S sqs
  by (unfold_locales, unfold_locales) (auto simp: rqs_hold_upd do_add_to_readlist_def do_del_from_readlist_def
      do_del_from_closelist_def fdw_Inr_iff intro!: push_rqs sat_bind_any rqs_hold_upd)

lemma push_queues: "queues_hold p \<Longrightarrow> blk_type b \<noteq> blk_code BLK_ALIGN \<Longrightarrow> sat (\<lambda>(r, p1). queues_hold p1) (push_rq i b d p)"
  using satD[OF push_rqs] unfolding queues_hold_rqs sat_def by fastforce

interpretation queues: master_ops L S queues_hold for L S
proof (unfold_locales, unfold_locales)
  fix p :: "('a, 'b) proc" and i b d
  show "queues_hold p \<Longrightarrow> blk_type b \<noteq> blk_code BLK_ALIGN \<Longrightarrow> sat (\<lambda>(r, p1). queues_hold p1) (push_rq i b d p)" by (rule push_queues)
qed (auto simp: queues_hold_def eff_def do_add_to_readlist_def do_del_from_readlist_def do_del_from_closelist_def fdw_Inr_iff
    intro!: sat_bind_any)

lemma set_sq_queues:
  assumes "queues_hold p" and "holds_msgs q"
  shows "sat (\<lambda>p1. queues_hold p1 \<and> wk_sq (p_works p1 ! nat i) = q) (set_sq i q p)"
proof (cases "0 \<le> i \<and> i < int (length (p_works p))")
  case True
  have "\<forall>k\<in>set ((p_works p)[nat i := (p_works p ! nat i)\<lparr>wk_sq := q\<rparr>]). holds_msgs (wk_rq k) \<and> holds_msgs (wk_sq k)"
    by (rule upd_all) (use assms True in \<open>auto simp: queues_hold_def\<close>)
  then show ?thesis using assms(1) True by (auto simp: set_sq_def queues_hold_def)
qed (auto simp: set_sq_def upd_work_def get_work_def)

lemma send_queue_queues:
  fixes p :: "('l, 'h) proc"
  shows "queues_hold p \<Longrightarrow> sat queues_hold (send_queue L S n i p)"
proof (induction n arbitrary: p)
  case (Suc n)
  show ?case
    unfolding send_queue.simps
  proof (rule sat_bind_any, rule sat_bind_any, rule sat_prod)
    fix k y blk q1
    assume k: "get_work p i = Inr k" and g: "mq_get (wk_sq k) = Inr y" "y = (blk, q1)"
    have "holds_msgs (wk_sq k)" using k Suc.prems by (auto simp: get_work_def queues_hold_def split: if_splits)
    then obtain xs where xs: "mq_rel (wk_sq k) xs" by (auto simp: holds_msgs_def)
    show "sat queues_hold (rbind (set_sq i q1 p) (\<lambda>p1. case blk of None \<Rightarrow> Inr p1 | Some a \<Rightarrow>
         rbind (read_head q1 a) (\<lambda>b. rbind (at_ptr (Some (mq_shm q1)) (a + blk_head_len)) (\<lambda>d.
         rbind (do_blk_send L S b d p1) (\<lambda>(_, p2). rbind (get_work p2 i) (\<lambda>k2. rbind (mq_pop (wk_sq k2)) (\<lambda>q2.
         rbind (set_sq i q2 p2) (\<lambda>p3. send_queue L S n i p3))))))))"
    proof (cases xs)
      case Nil
      then have "blk = None" "holds_msgs q1" using mq.get_nil[of "wk_sq k"] xs g by (auto simp: holds_msgs_def)
      then show ?thesis by (auto intro: sat_bind[OF set_sq_queues[OF Suc.prems]])
    next
      case (Cons x ys)
      then obtain a where a: "blk = Some a" "mq_front q1 x ys" using mq.get_cons[of "wk_sq k" x ys] xs g by auto
      then have q1: "holds_msgs q1" by (auto simp: holds_msgs_def mq_front_def)
      show ?thesis
        unfolding a(1) option.case
      proof (rule sat_bind[OF set_sq_queues[OF Suc.prems q1, of i]], rule sat_bind_any, rule sat_bind_any)
        fix p1 :: "('l, 'h) proc" and b d assume p1: "queues_hold p1 \<and> wk_sq (p_works p1 ! nat i) = q1"
        let ?sqs = "map wk_sq (p_works p1)"
        have I: "rqs_hold ?sqs p1" using p1 by (auto simp: queues_hold_def rqs_hold_def)
        show "sat queues_hold (rbind (do_blk_send L S b d p1) (\<lambda>(_, p2). rbind (get_work p2 i) (\<lambda>k2. rbind (mq_pop (wk_sq k2)) (\<lambda>q2.
            rbind (set_sq i q2 p2) (\<lambda>p3. send_queue L S n i p3)))))"
        proof (rule sat_bind[OF rqs.blk_send_inv[OF I]], rule sat_prod, rule sat_bind_any, rule sat_bind_any)
          fix z r and p2 :: "('l, 'h) proc" and k2 q2
          assume h: "case z of (r, x) \<Rightarrow> rqs_hold ?sqs x" "z = (r, p2)" "get_work p2 i = Inr k2" "mq_pop (wk_sq k2) = Inr q2"
          have "rqs_hold ?sqs p2" using h by simp
          note w = get_work_rq[OF this h(3)]
          have "wk_sq k2 = q1" using w p1 by simp
          then have q2: "holds_msgs q2" using mq.pop_front[OF a(2)] h(4) by (auto simp: holds_msgs_def)
          have "queues_hold p2" unfolding queues_hold_rqs
            using \<open>rqs_hold ?sqs p2\<close> p1 by (auto simp: queues_hold_def intro!: exI[of _ ?sqs])
          from sat_mono[OF set_sq_queues[OF this q2]] show "sat queues_hold (rbind (set_sq i q2 p2) (\<lambda>p3. send_queue L S n i p3))"
            by (rule sat_bind) (auto intro: Suc.IH)
        qed
      qed
    qed
  qed
qed simp

section \<open>Restarts\<close>

text \<open>While a worker is restarted its own queues hold nothing.\<close>

definition others_hold :: "int \<Rightarrow> ('l, 'h) proc \<Rightarrow> bool" where
  "others_hold i p \<longleftrightarrow> (\<forall>j<length (p_works p). j \<noteq> nat i \<longrightarrow> holds_msgs (wk_rq (p_works p ! j)) \<and> holds_msgs (wk_sq (p_works p ! j))) \<and>
     mem_head_len < mem_queue_len (p_setting p) \<and> mem_queue_len (p_setting p) \<le> MQ_MAX"

lemma others_hold_upd: "others_hold i p \<Longrightarrow> sat (others_hold i) (upd_work i f p)"
  by (auto simp: upd_work_def get_work_def others_hold_def)

lemma fini_others: "queues_hold p \<Longrightarrow> sat (others_hold i) (fini_queues [i] p)"
  unfolding fini_queues.simps Let_def
  by (rule sat_bind_any, rule sat_bind[OF others_hold_upd[where i = i]]) (auto simp: queues_hold_def others_hold_def)

lemma mq_create_queues:
  assumes o: "others_hold i p" and m: "snd a1" "snd a2"
  shows "sat (\<lambda>(r, p1). queues_hold p1) (master_mq_create a1 a2 i p)"
proof (cases "get_work p i")
  case (Inr k)
  then have i: "0 \<le> i" "i < int (length (p_works p))" by (auto simp: get_work_def split: if_splits)
  have sz: "mem_head_len < mem_queue_len (p_setting p)" "mem_queue_len (p_setting p) \<le> MQ_MAX" using o by (simp_all add: others_hold_def)
  obtain q1 where q1: "mq_init (wk_rq k) (mem_queue_len (p_setting p)) MEM_TYPE_RECV (fst a1) True = Inr (0, q1)" "mq_rel q1 []"
    using mq_init_rel[OF sz] by blast
  obtain q2 where q2: "mq_init (wk_sq k) (mem_queue_len (p_setting p)) MEM_TYPE_SEND (fst a2) True = Inr (0, q2)" "mq_rel q2 []"
    using mq_init_rel[OF sz] by blast
  have "queues_hold (p\<lparr>p_works := (p_works p)[nat i := k1]\<rparr>)" if "holds_msgs (wk_rq k1)" "holds_msgs (wk_sq k1)" for k1
    using o that i by (auto simp: queues_hold_def others_hold_def in_set_conv_nth nth_list_update)
  from this[of "(p_works p ! nat i)\<lparr>wk_rq := q1, wk_sq := q2\<rparr>"] show ?thesis
    using Inr i m q1 q2 by (auto simp: master_mq_create_def Let_def holds_msgs_def)
qed (simp add: master_mq_create_def Let_def)

text \<open>The answers for a restart with both mappings made.\<close>

definition maps_made :: "fork_ans \<Rightarrow> bool" where
  "maps_made a \<longleftrightarrow> snd (fa_rq a) \<and> snd (fa_sq a)"

lemma start_work_queues: "queues_hold p \<Longrightarrow> maps_made a \<Longrightarrow> sat (\<lambda>(c, p1). queues_hold p1) (start_work inet_pton inet_addr a idx p)"
  unfolding start_work_def maps_made_def
  by (rule sat_bind[OF queues.close_fds_inv], assumption, rule sat_bind[OF fini_others], assumption, rule sat_bind_any, rule sat_let,
      rule sat_bind[OF mq_create_queues], simp add: others_hold_def eff_def, simp, simp, rule sat_prod, rule sat_if, simp, rule sat_if, simp,
      rule sat_if, simp, rule sat_bind[OF queues.master_listen_inv], simp, rule sat_prod) (auto simp: queues.keep_state)

interpretation queues_loop: master_inv L S queues_hold inet_pton inet_addr maps_made for L S inet_pton inet_addr
  by unfold_locales (auto intro: send_queue_queues start_work_queues)

text \<open>
  C12: Through any run of the loop of the master in which the new queues of every restarted worker can be mapped, whatever arrives from clients and
  workers and whatever the business library says of the lengths of messages, every queue between the master and its workers keeps holding
  a list of whole messages. A restart whose mapping fails is \<open>failed_mapping_faults\<close>.
\<close>

theorem master_dispatch_keeps_queues:
  assumes "queues_hold p" and "list_all (good_ans maps_made) as"
  shows "sat (\<lambda>(_, _, p1). queues_hold p1) (master_dispatch inet_pton inet_addr pid L S n as p)"
  using assms by (rule queues_loop.dispatch_inv)

text \<open>A client's bytes are queued, the worker is restarted, the server is told to stop.\<close>

lemma master_dispatch_keeps_queues_witness:
  "\<exists>r as p1. master_dispatch (\<lambda>_. None) (\<lambda>_. 0) 1 demo_nlist demo_serv 9 [EpEvents [(1, EPOLLIN)], EpChld [(100, demo_fork)], EpTerm 15]
     ((demo_reader [RData [1, 2, 3], RErr EAGAIN])\<lparr>p_ctls := [True, True, True]\<rparr>) = Inr (r, as, p1) \<and> queues_hold p1"
proof -
  let ?p = "(demo_reader [RData [1, 2, 3], RErr EAGAIN])\<lparr>p_ctls := [True, True, True]\<rparr>"
  let ?as = "[EpEvents [(1, EPOLLIN)], EpChld [(100, demo_fork)], EpTerm 15]"
  have "case master_dispatch (\<lambda>_. None) (\<lambda>_. 0) 1 demo_nlist demo_serv 9 ?as ?p of Inl e \<Rightarrow> False | Inr x \<Rightarrow> True" by code_simp
  then obtain r as p1 where p1: "master_dispatch (\<lambda>_. None) (\<lambda>_. 0) 1 demo_nlist demo_serv 9 ?as ?p = Inr (r, as, p1)"
    by (auto split: sum.splits)
  have "queues_hold ?p" using demo_queue_rel
    by (auto simp: queues_hold_def demo_reader_def demo_work_def demo_setting_def holds_msgs_def mem_head_len_def MQ_MAX_def)
  moreover have "list_all (good_ans maps_made) ?as" by (simp add: good_ans_def maps_made_def demo_fork_def)
  ultimately show ?thesis using satD[OF master_dispatch_keeps_queues p1] p1 by auto
qed

text \<open>
  C33: If the memory for the new queues of a restarted worker cannot be mapped, \<open>start_work\<close> just returns. The old
  queues are gone by then, and the master goes on: when it comes to the send queue of this worker in its next round, it
  reads through the pointer of the removed mapping.
\<close>

theorem failed_mapping_faults:
  assumes w: "start_work inet_pton inet_addr a idx p = Inr (c, p1)" and a: "\<not> snd (fa_rq a)" and len: "0 < mem_queue_len (p_setting p)"
  shows "\<not> c \<and> send_queue L S (Suc n) idx p1 = Inl OutOfBounds"
proof -
  obtain q1 q2 k r where q: "close_fds idx 0 (nat (p_maxfd p + 1)) p = Inr q1" "fini_queues [idx] q1 = Inr q2" "get_work q2 idx = Inr k"
    "master_mq_create (fa_rq a) (fa_sq a) idx (eff (EClose (snd (mq_pipefd (wk_rq k)))) q2) = Inr (r, p1)" "r = - 1" "\<not> c"
    using w a by (auto simp: start_work_def master_mq_create_def mq_init_def Let_def rbind_Inr_iff split: if_splits)
  have i: "0 \<le> idx" "idx < int (length (p_works q2))" and k: "k = p_works q2 ! nat idx" using q(3) by (auto simp: get_work_def split: if_splits)
  have "same_shape p q1" using satD[OF shape.close_fds_inv[OF same_shape_refl] q(1)] .
  then have "0 < mem_queue_len (p_setting q1)" using len by (simp add: same_shape_def)
  then have "mq_shm (wk_sq (p_works q2 ! nat idx)) = []"
    using q(2) i by (auto simp: upd_work_def get_work_def rbind_Inr_iff Let_def mq_fini_def split: if_splits)
  then have "mq_shm (wk_sq (p_works p1 ! nat idx)) = []" "idx < int (length (p_works p1))"
    using q(4) a i by (auto simp: master_mq_create_def mq_init_def Let_def rbind_Inr_iff eff_def)
  then show ?thesis using q(6) i by (simp add: mq_get_def mapped_def mem_head_len_def)
qed

lemma failed_mapping_faults_witness:
  "\<exists>p1. start_work (\<lambda>_. None) (\<lambda>_. 0) (demo_fork\<lparr>fa_rq := ((10, 11), False)\<rparr>) 0 demo_restart = Inr (False, p1)
     \<and> send_queue demo_nlist demo_serv 5 0 p1 = Inl OutOfBounds"
proof -
  let ?a = "demo_fork\<lparr>fa_rq := ((10, 11), False)\<rparr>"
  have "case start_work (\<lambda>_. None) (\<lambda>_. 0) ?a 0 demo_restart of Inl e \<Rightarrow> False | Inr (c, p1) \<Rightarrow> \<not> c" by code_simp
  then obtain p1 where p1: "start_work (\<lambda>_. None) (\<lambda>_. 0) ?a 0 demo_restart = Inr (False, p1)"
    by (auto split: sum.splits)
  have "(5 :: nat) = Suc 4" by simp
  then show ?thesis using p1 failed_mapping_faults[OF p1, of demo_nlist demo_serv 4]
    by (simp add: demo_restart_def demo_proc_def demo_setting_def del: send_queue.simps)
qed

end
