(* ===== verification/Worker_Loop.thy ===== *)
theory Worker_Loop
  imports Master_Queues Sample_Lib
begin

text \<open>
  How a predicate on the state of a worker is followed through its loop: the interface \<open>work_inv\<close>, with what it needs of the
  business library, and what it gives for the queues to the master and for the settings.
\<close>

section \<open>What a predicate needs\<close>

text \<open>The functions of the business library, and those behind a multicast message, keep \<open>I\<close>.\<close>

definition lib_keeps :: "(('l, 'h) proc \<Rightarrow> bool) \<Rightarrow> ('l, 'h, 's, 'a) work_env \<Rightarrow> bool" where
  "lib_keeps I W \<longleftrightarrow> (\<forall>p. I p \<longrightarrow>
     (\<forall>d n s. sat (\<lambda>(r, p1). I p1) (so_proc_cli_msg (we_so W) d n s p)) \<and>
     (\<forall>fd d n. sat I (so_proc_serv_msg (we_so W) fd d n p)) \<and>
     (\<forall>fd. sat I (so_on_cli_closed (we_so W) fd p)) \<and>
     (\<forall>f fd. so_on_serv_closed (we_so W) = Some f \<longrightarrow> sat I (f fd p)) \<and>
     (\<forall>f. so_handle_timer (we_so W) = Some f \<longrightarrow> sat I (f p)) \<and>
     sat I (me_reload_logic (we_mc W) p) \<and> (\<forall>b. sat I (me_proc_mcast_msg (we_mc W) b p)))"

text \<open>
  Besides the interface of the entries: the predicate does not depend on the sessions, the receive queues and the time of the
  next announcement, and a block pushed to a send queue keeps it.
\<close>

locale work_inv = master_ops "we_nlist W" "we_so W" I
  for W :: "('l, 'h, 's, 'a) work_env" and I :: "('l, 'h) proc \<Rightarrow> bool" +
  assumes keep_sess: "I p \<Longrightarrow> I (p\<lparr>p_sess := h\<rparr>)"
    and keep_rq: "I p \<Longrightarrow> sat I (set_rq i q p)"
    and keep_sq: "I p \<Longrightarrow> blk_type b \<noteq> blk_code BLK_ALIGN \<Longrightarrow> sat (\<lambda>(r, p1). I p1) (push_sq i b d p)"
    and keep_syn: "I p \<Longrightarrow> sat I (upd_work i (\<lambda>k. k\<lparr>next_syn_addr := t\<rparr>) p)"
    and keep_lib: "lib_keeps I W"
begin

lemmas read_inv = entry_inv.read_inv[OF entry _ TrueI]
lemmas get_length_inv = entry_inv.get_length_inv[OF entry]
lemmas consume_inv = entry_inv.consume_inv[OF entry]
lemmas keep_rest_inv = entry_inv.keep_rest_inv[OF entry]
lemmas mod_fd_inv = entry_inv.mod_fd_inv[OF entry]

lemma lib_inv:
  assumes "I p"
  shows "sat (\<lambda>(r, p1). I p1) (so_proc_cli_msg (we_so W) d n s p)" "sat I (so_proc_serv_msg (we_so W) fd d n p)"
    "sat I (so_on_cli_closed (we_so W) fd p)" "so_on_serv_closed (we_so W) = Some f \<Longrightarrow> sat I (f fd p)"
    "so_handle_timer (we_so W) = Some g \<Longrightarrow> sat I (g p)" "sat I (me_reload_logic (we_mc W) p)" "sat I (me_proc_mcast_msg (we_mc W) b p)"
  using keep_lib assms by (simp_all add: lib_keeps_def)

lemma close_serv_inv: "I p \<Longrightarrow> sat (\<lambda>(r, p1). I p1) (do_fd_close (we_nlist W) (we_so W) fd 0 p)"
  by (rule entry_inv.close_any_inv[OF entry]) (auto intro: lib_inv)

lemma close_failed_inv:
  assumes "sat (\<lambda>(r, p1). I p1) op"
  shows "sat I (rbind op (\<lambda>(r, p1). if r = - 1 then rbind (do_fd_close (we_nlist W) (we_so W) fd 0 p1) (\<lambda>(_, p2). Inr p2) else Inr p1))"
  by (rule sat_bind[OF assms], rule sat_prod, rule sat_if, rule sat_bind[OF close_serv_inv]) auto

end

section \<open>Servers the worker is connected to\<close>

context work_inv
begin

lemma proc_again_inv: "I p \<Longrightarrow> sat (\<lambda>(r, p1). I p1) (proc_again (we_so W) n fd off p)"
proof (induction n arbitrary: off p)
  case (Suc n)
  show ?case
    unfolding proc_again.simps
    by (rule sat_bind[OF get_length_inv[OF Suc.prems]], rule sat_bind_any, rule sat_let, rule sat_if, rule sat_bind_any,
        rule sat_bind[OF lib_inv(2)], assumption, rule sat_bind[OF consume_inv], assumption, rule sat_prod, rule sat_bind_any,
        rule sat_if) (auto intro: Suc.IH)
qed simp

lemma svr_inv: "I p \<Longrightarrow> sat (\<lambda>(r, p1). I p1) (do_proc_svr (we_nlist W) (we_so W) n fd p)"
  unfolding do_proc_svr_def
  by (rule sat_bind[OF read_inv], assumption, rule sat_prod, rule sat_if, simp, rule sat_bind[OF proc_again_inv], simp,
      rule sat_prod, rule sat_bind[OF keep_rest_inv]) simp_all

lemma close_each_serv_inv: "I p \<Longrightarrow> sat I (close_each (we_nlist W) (we_so W) 0 ns p)"
proof (induction ns arbitrary: p)
  case (Cons x ns)
  have flush: "sat I (if slen (w_buff w) > 0 then rbind (do_fd_write (w_fd w) p) (\<lambda>(r, p1).
      if r = - 1 then upd_buff k (\<lambda>b. b\<lparr>slen := 0\<rparr>) p1 else Inr p1) else Inr p)" for w k
    by (rule sat_if, rule sat_bind[OF write_inv[OF Cons.prems]], rule sat_prod, rule sat_if, rule upd_buffer)
      (use Cons.prems in simp_all)
  show ?case
  proof (cases x)
    case (Node k)
    show ?thesis
      unfolding Node close_each.simps Let_def
      by (rule sat_bind_any, rule sat_bind[OF flush], rule sat_bind[OF close_serv_inv], assumption, rule sat_prod) (use Cons.IH in auto)
  qed (use Cons in simp_all)
qed simp

lemma read_each_serv_inv: "I p \<Longrightarrow> sat I (read_each (we_nlist W) (we_so W) n 0 ns p)"
proof (induction ns arbitrary: p)
  case (Cons x ns)
  show ?case
  proof (cases x)
    case (Node k)
    show ?thesis
      unfolding Node read_each.simps Let_def
      by (rule sat_bind_any, rule sat_if, rule sat_bind[OF open_while_inv[OF Cons.prems]], rule Cons.IH, assumption, simp,
          rule sat_bind[OF svr_inv[OF Cons.prems]], rule sat_prod, rule sat_bind[where Q = "I"], rule sat_if,
          rule sat_bind[OF close_serv_inv]) (use Cons.IH in auto)
  qed (use Cons in simp_all)
qed simp

lemma write_serv_inv: "I p \<Longrightarrow> sat I (write_event (we_nlist W) (we_so W) 0 fd p)"
  unfolding write_event_def
  by (rule sat_bind_any, rule sat_bind[where Q = I], rule sat_if, rule close_failed_inv, rule write_inv, assumption, simp,
      rule sat_bind_any) (auto intro: mod_fd_inv)

end

section \<open>Multicast\<close>

context work_inv
begin

lemma other_req_inv: "I p \<Longrightarrow> sat (\<lambda>(r, p1, m1). I p1) (do_mcast_other_req (we_mc W) p m)"
  unfolding do_mcast_other_req_def
  by (rule sat_if, rule sat_bind_any, rule sat_bind[OF lib_inv(7)]) simp_all

lemma reload_inv: "I p \<Longrightarrow> sat (\<lambda>(r, p1, m1). I p1) (do_mcast_realod_so (we_mc W) p m)"
  unfolding do_mcast_realod_so_def
  by (rule sat_let, rule sat_bind_any, rule sat_if, simp, rule sat_bind_any, rule sat_if, simp, rule sat_bind_any, rule sat_if, simp,
      rule sat_prod, rule sat_if, simp, rule sat_if, rule sat_bind_any, rule sat_bind[OF lib_inv(6)]) simp_all

lemma recv_pkg_inv: "I p \<Longrightarrow> sat (\<lambda>(p1, m1). I p1) (recv_pkg S A (we_mc W) d p m)"
  unfolding recv_pkg_def
  by (rule sat_let, rule sat_let, rule sat_if, rule sat_bind_any, simp add: case_prod_beta, rule sat_if, rule sat_bind[OF reload_inv],
      assumption, simp add: case_prod_beta, rule sat_if; rule sat_bind[OF other_req_inv], assumption, simp add: case_prod_beta)

lemma proc_mcast_inv: "I p \<Longrightarrow> sat (\<lambda>(r, p1, m1). I p1) (do_proc_mcast S A (we_mc W) n p m)"
proof (induction n arbitrary: p m)
  case (Suc n)
  have step: "sat (\<lambda>(r, p1, m1). I p1) (rbind (recv_pkg S A (we_mc W) d (p\<lparr>p_recvs := rs\<rparr>) m) (\<lambda>(p1, m1). do_proc_mcast S A (we_mc W) n p1 m1))"
    for d rs
    by (rule sat_bind[OF recv_pkg_inv], rule keeps, rule Suc.prems, rule sat_prod, rule Suc.IH) simp
  show ?case using Suc.prems step by (auto split: list.splits recv_ans.splits intro: keeps)
qed simp

end

section \<open>Blocks from the master\<close>

context work_inv
begin

lemma blk_close_inv: "I p \<Longrightarrow> sat (\<lambda>(r, p1). I p1) (do_blk_close G (we_so W) b p)"
  unfolding do_blk_close_def
  by (rule sat_option, simp, rule sat_bind[OF lib_inv(3)]) (auto simp: remove_fd_def intro: keep_sess)

lemma close_cli_inv: "I p \<Longrightarrow> sat I (close_cli G (we_so W) fd p)"
  unfolding close_cli_def
  by (rule sat_option, simp, rule sat_let, rule sat_bind[OF keep_sq], assumption, simp, rule sat_prod, rule sat_bind[OF blk_close_inv]) auto

lemma blk_msg_inv: "I p \<Longrightarrow> sat (\<lambda>(r, p1). I p1) (do_blk_msg G (we_so W) b data p)"
  unfolding do_blk_msg_def
  by (rule sat_if, simp, rule sat_option, simp, rule sat_bind_any, rule sat_bind[OF lib_inv(1)], assumption, rule sat_prod, rule sat_if,
      rule sat_bind[OF close_cli_inv]) simp_all

lemma blk_open_inv: "I p \<Longrightarrow> sat (\<lambda>(r, p1). I p1) (do_blk_open G b data p)"
  unfolding do_blk_open_def save_fd_def
  by (rule sat_if, simp, rule sat_bind_any, rule sat_let, rule sat_bind[where Q = I], rule sat_if) (auto intro: keep_sess)

lemma blk_inv: "I p \<Longrightarrow> sat I (do_blk G (we_so W) i a p)"
  unfolding do_blk_def Let_def
  by (rule sat_bind_any, rule sat_bind_any, rule sat_if, rule sat_bind[OF blk_msg_inv], assumption, rule sat_prod, simp, rule sat_if,
      rule sat_bind[OF blk_open_inv], assumption, rule sat_prod, rule sat_if, rule sat_bind_any, rule sat_bind[OF keep_rq], simp,
      rule sat_bind[OF keep_sq], assumption, simp, rule sat_prod, simp, simp, rule sat_if, rule sat_bind[OF blk_close_inv]) auto

lemma mq_recv_inv: "I p \<Longrightarrow> sat (\<lambda>(r, p1). I p1) (handle_mq_recv G (we_so W) n i p)"
proof (induction n arbitrary: p)
  case (Suc n)
  show ?case
    unfolding handle_mq_recv.simps
    by (rule sat_bind_any, rule sat_bind_any, rule sat_prod, rule sat_bind[OF keep_rq[OF Suc.prems]], rule sat_option, simp,
        rule sat_bind[OF blk_inv], assumption, rule sat_bind_any, rule sat_bind_any, rule sat_bind[OF keep_rq], assumption, rule Suc.IH)
qed simp

end

section \<open>The loop\<close>

context work_inv
begin

lemma work_event_inv: "I (fst pm) \<Longrightarrow> sat (\<lambda>pm1. I (fst pm1)) (work_event W e pm)"
proof (cases e, cases pm)
  fix fd ev p m assume e: "e = (fd, ev)" "pm = (p, m)" and "I (fst pm)"
  then have I: "I p" by simp
  have pipe: "sat (\<lambda>pm1. I (fst pm1)) (rbind (do_proc_pipe fd p) (\<lambda>(_, p1). Inr (p1, m)))"
    unfolding do_proc_pipe_def rbind_assoc by (rule sat_bind_any) (simp add: keeps I)
  have svr: "sat (\<lambda>pm1. I (fst pm1)) (rbind (do_proc_svr (we_nlist W) (we_so W) (we_fuel W) fd p) (\<lambda>(r, p1).
      if r = - 1 then rbind (do_fd_close (we_nlist W) (we_so W) fd 0 p1) (\<lambda>(_, p2). Inr (p2, m)) else Inr (p1, m)))"
    by (rule sat_bind[OF svr_inv[OF I]], rule sat_prod, rule sat_if, rule sat_bind[OF close_serv_inv]) auto
  have mcast: "sat (\<lambda>pm1. I (fst pm1)) (rbind (do_proc_mcast (we_servs W) (we_addrs W) (we_mc W) (we_fuel W) p m) (\<lambda>(_, p1, m1). Inr (p1, m1)))"
    by (rule sat_bind[OF proc_mcast_inv[OF I]]) auto
  have out: "sat (\<lambda>pm1. I (fst pm1)) (rbind (write_event (we_nlist W) (we_so W) 0 fd p) (\<lambda>p1. Inr (p1, m)))"
    by (rule sat_bind[OF write_serv_inv[OF I]]) simp
  show ?thesis
    unfolding work_event_def e prod.case
  proof (rule sat_if, rule sat_bind_any)
    fix w show "sat (\<lambda>pm1. I (fst pm1)) (case w_type w of
         fd_type_pipe \<Rightarrow> rbind (do_proc_pipe fd p) (\<lambda>(_, p1). Inr (p1, m))
       | fd_type_svr \<Rightarrow> rbind (do_proc_svr (we_nlist W) (we_so W) (we_fuel W) fd p) (\<lambda>(r, p1).
           if r = - 1 then rbind (do_fd_close (we_nlist W) (we_so W) fd 0 p1) (\<lambda>(_, p2). Inr (p2, m)) else Inr (p1, m))
       | fd_type_mcast \<Rightarrow> rbind (do_proc_mcast (we_servs W) (we_addrs W) (we_mc W) (we_fuel W) p m) (\<lambda>(_, p1, m1). Inr (p1, m1))
       | _ \<Rightarrow> Inr (p, m))"
      using pipe svr mcast I by (cases "w_type w") simp_all
  qed (use out I in simp)
qed

lemma work_events_inv: "I (fst pm) \<Longrightarrow> sat (\<lambda>pm1. I (fst pm1)) (each_event (work_event W) es pm)"
proof (induction es arbitrary: pm)
  case (Cons e es)
  show ?case by (simp, rule sat_bind[OF work_event_inv[OF Cons.prems]], rule Cons.IH)
qed simp

lemma work_wait_inv: "I (fst pm) \<Longrightarrow> sat (\<lambda>(g, p1, m1). I p1) (work_wait W pid a pm)"
  unfolding work_wait_def
  by (cases a) (auto simp: case_prod_beta intro!: sat_bind[OF work_events_inv] sat_bind[OF handle_term_inv])

lemma timers_inv: "I p \<Longrightarrow> sat I (work_timers W i a p)"
proof -
  assume I: "I p"
  have timer: "sat I (case so_handle_timer (we_so W) of None \<Rightarrow> Inr p | Some f \<Rightarrow> f p)"
    by (rule sat_option) (use I in \<open>auto intro: lib_inv\<close>)
  have syn: "sat (\<lambda>(c, p2). I p2) (do_syn_serv_addr (we_inet_addr W) b t u p1)" if "I p1" for b t u p1
    unfolding do_syn_serv_addr_def Let_def
    by (rule sat_bind_any, rule sat_bind_any, rule sat_prod, rule sat_bind[OF keep_syn[OF that]]) simp
  show ?thesis
    unfolding work_timers_def do_del_expired_addr_def if_cancel
    by (rule sat_bind[OF timer], rule sat_bind_any, rule sat_bind[where Q = I], rule sat_if, rule sat_bind[OF syn], assumption, rule sat_prod)
      (auto intro: sat_bind_any)
qed

lemma work_loop_inv: "I (fst pm) \<Longrightarrow> sat (\<lambda>(r, as1, p1, m1). I p1) (work_loop W pid i as pm)"
proof (induction as arbitrary: pm)
  case Nil
  then show ?case by (auto simp: case_prod_beta)
next
  case (Cons a as)
  show ?case
    unfolding work_loop.simps
    by (rule sat_if, use Cons.prems in \<open>simp add: case_prod_beta\<close>, rule sat_bind[OF work_wait_inv[OF Cons.prems]], rule sat_prod,
        rule sat_prod, rule sat_if, simp, rule sat_bind[OF mq_recv_inv], simp, rule sat_prod, rule sat_bind[OF timers_inv], simp, rule Cons.IH) simp
qed

lemma work_dispatch_inv: "I p \<Longrightarrow> sat (\<lambda>(r, as1, p1, m1). I p1) (work_dispatch W pid i as p m)"
  unfolding work_dispatch_def handle_closelist_def handle_readlist_def rbind_assoc rbind_simps prod.case
  by (rule sat_bind[OF close_each_serv_inv], assumption, rule sat_bind[OF read_each_serv_inv], assumption, rule work_loop_inv)
    (simp add: keeps)

end

end
