(* ===== verification/Worker_Queues.thy ===== *)
theory Worker_Queues
  imports Worker_Loop Mcast_Discovery
begin

text \<open>
  What a worker sends and how it is set up, through any run of its loop: the interface of the loop interpreted for the send queues
  and for the shape of the state, and the sample library as one that keeps both.
\<close>

section \<open>Send queues\<close>

text \<open>A worker has unmapped the queues of the others, which cannot be pushed to any more.\<close>

definition sqs_hold :: "('l, 'h) proc \<Rightarrow> bool" where
  "sqs_hold p \<longleftrightarrow> (\<forall>k\<in>set (p_works p). mapped (wk_sq k) \<longrightarrow> holds_msgs (wk_sq k))"

lemma sqs_hold_upd:
  "sqs_hold (p\<lparr>p_recvs := rs\<rparr>) = sqs_hold p" "sqs_hold (p\<lparr>p_sends := ss\<rparr>) = sqs_hold p" "sqs_hold (p\<lparr>p_ctls := cs\<rparr>) = sqs_hold p"
  "sqs_hold (p\<lparr>p_allocs := al\<rparr>) = sqs_hold p" "sqs_hold (eff e p) = sqs_hold p" "sqs_hold (p\<lparr>p_count := c\<rparr>) = sqs_hold p"
  "sqs_hold (p\<lparr>p_maxfd := mx\<rparr>) = sqs_hold p" "sqs_hold (p\<lparr>p_accepts := ac\<rparr>) = sqs_hold p" "sqs_hold (p\<lparr>p_links := l\<rparr>) = sqs_hold p"
  "sqs_hold (p\<lparr>p_stop := st\<rparr>) = sqs_hold p" "sqs_hold (p\<lparr>p_seq := sq\<rparr>) = sqs_hold p" "sqs_hold (p\<lparr>p_fds := fs\<rparr>) = sqs_hold p"
  "sqs_hold (p\<lparr>p_chl_pids := ch\<rparr>) = sqs_hold p" "sqs_hold (p\<lparr>p_sess := h\<rparr>) = sqs_hold p"
  by (simp_all add: sqs_hold_def eff_def)

lemma sqs_hold_work:
  assumes "sqs_hold p" and "\<And>k. mapped (wk_sq k) \<longrightarrow> holds_msgs (wk_sq k) \<Longrightarrow> mapped (wk_sq (f k)) \<longrightarrow> holds_msgs (wk_sq (f k))"
  shows "sat sqs_hold (upd_work i f p)"
  unfolding upd_work_def
proof (rule sat_bind_any)
  fix k assume "get_work p i = Inr k"
  then have "k \<in> set (p_works p)" by (auto simp: get_work_def split: if_splits)
  then have "\<forall>x\<in>set ((p_works p)[nat i := f k]). mapped (wk_sq x) \<longrightarrow> holds_msgs (wk_sq x)"
    using assms by (intro upd_all) (auto simp: sqs_hold_def)
  then show "sat sqs_hold (Inr (p\<lparr>p_works := (p_works p)[nat i := f k]\<rparr>))" by (simp add: sqs_hold_def)
qed

lemma push_rq_sqs: "sqs_hold p \<Longrightarrow> sat (\<lambda>(r, p1). sqs_hold p1) (push_rq i b d p)"
  unfolding push_rq_def
  by (rule sat_bind_any, rule sat_bind_any, rule sat_prod, rule sat_bind[OF sqs_hold_work]) simp_all

lemma push_sq_sqs: "sqs_hold p \<Longrightarrow> blk_type b \<noteq> blk_code BLK_ALIGN \<Longrightarrow> sat (\<lambda>(r, p1). sqs_hold p1) (push_sq i b d p)"
  unfolding push_sq_def
proof (rule sat_bind_any, rule sat_bind_any, rule sat_prod, rule sat_bind[where Q = sqs_hold])
  fix k x r q
  assume p: "sqs_hold p" "blk_type b \<noteq> blk_code BLK_ALIGN" and k: "get_work p i = Inr k"
    and x: "mq_push (wk_sq k) b d = Inr x" "x = (r, q)"
  have "k \<in> set (p_works p)" using k by (auto simp: get_work_def split: if_splits)
  moreover have "mapped (wk_sq k)" using x by (simp add: mq_push_def split: if_splits)
  ultimately obtain xs where "mq_rel (wk_sq k) xs" using p(1) by (auto simp: sqs_hold_def holds_msgs_def)
  then have "holds_msgs q" using mq_push_keeps[OF _ p(2)] x by (auto simp: holds_msgs_def)
  then show "sat sqs_hold (upd_work i (\<lambda>k. k\<lparr>wk_sq := q\<rparr>) p)" by (intro sqs_hold_work p) simp
qed simp

lemma sqs_ops: "master_ops L sqs_hold"
  by (unfold_locales, unfold_locales) (auto simp: sqs_hold_upd do_add_to_readlist_def do_del_from_readlist_def
      do_del_from_closelist_def fdw_Inr_iff intro!: push_rq_sqs sat_bind_any)

lemma sqs_work_inv: "lib_keeps sqs_hold W \<Longrightarrow> work_inv W sqs_hold"
  unfolding work_inv_def work_inv_axioms_def set_rq_def
  by (auto simp: sqs_hold_upd intro!: sqs_ops sqs_hold_work push_sq_sqs)

section \<open>Settings and sizes\<close>

text \<open>The settings, the size of the connection table, the number of workers and the epoll descriptor, with the same interface.\<close>

lemma push_sq_shape: "same_shape z p \<Longrightarrow> sat (\<lambda>(r, p1). same_shape z p1) (push_sq i b d p)"
  unfolding push_sq_def
  by (rule sat_bind_any, rule sat_bind_any, rule sat_prod, rule sat_bind[OF upd_work_shape]) simp_all

lemma shape_work_inv: "lib_keeps (same_shape z) W \<Longrightarrow> work_inv W (same_shape z)"
  unfolding work_inv_def work_inv_axioms_def set_rq_def
  by (intro conjI allI impI shape.master_ops_axioms upd_work_shape push_sq_shape) (simp_all add: same_shape_def)

section \<open>The sample library\<close>

lemma send_to_cli_sat:
  assumes "\<And>i b. blk_type b \<noteq> blk_code BLK_ALIGN \<Longrightarrow> sat (\<lambda>(r, p1). I p1) (push_sq i b msg p)"
  shows "sat (\<lambda>(r, p1). I p1) (send_to_cli sess msg n p)"
  unfolding send_to_cli_def by (rule sat_bind_any, rule sat_bind[OF assms]) (auto split: prod.splits)

text \<open>The server's environment with the sample library; the timers of libnanc are a parameter.\<close>

definition sample_env :: "'l nlist \<Rightarrow> (('l, 'h) proc \<Rightarrow> ('l, 'h) proc res) \<Rightarrow> ('l, 'h, 's, 'a) work_env \<Rightarrow> ('l, 'h, 's, 'a) work_env" where
  "sample_env L timer_handle W = W\<lparr>we_nlist := L, we_so := sample_serv (we_sess W) timer_handle,
     we_mc := (we_mc W)\<lparr>me_reload_logic := (\<lambda>p. rbind (reload_logic p) (\<lambda>(_, p1). Inr p1)),
       me_proc_mcast_msg := (\<lambda>d p. rbind (proc_mcast_msg d p) (\<lambda>(_, p1). Inr p1))\<rparr>\<rparr>"

lemma sample_keeps:
  assumes sq: "\<And>p i b d. I p \<Longrightarrow> blk_type b \<noteq> blk_code BLK_ALIGN \<Longrightarrow> sat (\<lambda>(r, p1). I p1) (push_sq i b d p)"
    and th: "\<And>p. I p \<Longrightarrow> sat I (timer_handle p)"
  shows "lib_keeps I (sample_env L timer_handle W)"
proof -
  have "sat (\<lambda>(r, p1). I p1) (proc_cli_msg d n s p)" if "I p" for d n s p
    unfolding proc_cli_msg_def by (rule sat_bind_any, rule sat_bind_any, rule send_to_cli_sat, rule sq[OF that])
  moreover have "sat I (rbind (proc_serv_msg G f fd d n p) (\<lambda>(_, p1). Inr p1))" if "I p" for G f fd d n p
  proof -
    have "sat (\<lambda>(r, p1). I p1) (handle_switch G fd d n p)"
      unfolding handle_switch_def
      by (rule sat_bind_any, rule sat_bind_any, rule sat_option, simp, rule send_to_cli_sat, rule sq[OF that])
    then show ?thesis unfolding proc_serv_msg_def
      by (intro sat_bind[where Q = "\<lambda>(r, p1). I p1"] sat_if) (use that in \<open>auto intro: sat_bind\<close>)
  qed
  ultimately show ?thesis using th
    by (auto simp: lib_keeps_def sample_env_def sample_serv_def handle_timer_def on_cli_closed_def reload_logic_def proc_mcast_msg_def)
qed

interpretation sample_sqs: work_inv "sample_env L Inr W" sqs_hold for L W
  by (rule sqs_work_inv, rule sample_keeps, rule push_sq_sqs) simp_all

interpretation sample_shape: work_inv "sample_env L Inr W" "same_shape z" for L W z
  by (rule shape_work_inv, rule sample_keeps, rule push_sq_shape) simp_all

section \<open>Through the loop\<close>

lemma sample_dispatch_shape:
  "sat (\<lambda>(_, _, p1, _). same_shape p p1) (work_dispatch (sample_env L Inr W) pid i as p m)"
  by (rule sample_shape.work_dispatch_inv[OF same_shape_refl])

text \<open>
  C13: Whatever the master and the network send to a worker, through any run of its loop every send queue it has mapped keeps holding
  a list of whole messages, if the functions of the business library keep that; those of the sample library do. It holds even
  when the receive queue has been left in the middle of a block.
\<close>

theorem work_dispatch_keeps_sending:
  assumes "lib_keeps sqs_hold W" and "sqs_hold p"
  shows "sat (\<lambda>(_, _, p1, _). sqs_hold p1) (work_dispatch W pid i as p m)"
  using work_inv.work_dispatch_inv[OF sqs_work_inv[OF assms(1)] assms(2)] .

text \<open>
  The worker of \<open>demo_work\<close> with a client and a packet of 18 bytes in its receive queue: after the notice in the pipe the
  answer is in the send queue; then it is told to stop.
\<close>

definition demo_work_env :: "(lnode \<Rightarrow> lnode list, int \<rightharpoonup> fdsess, string \<rightharpoonup> (32 word \<rightharpoonup> addrcach) servcach, 32 word \<rightharpoonup> addrcach) work_env" where
  "demo_work_env = sample_env demo_nlist Inr \<lparr>we_nlist = demo_nlist, we_so = demo_serv, we_sess = demo_ghash, we_servs = demo_ghash,
     we_addrs = demo_ghash, we_mc = demo_env, we_inet_addr = (\<lambda>_. 0), we_fuel = 9\<rparr>"

definition demo_rounds :: "round_ans list" where
  "demo_rounds = [\<lparr>wr_ep = EpEvents [(0, EPOLLIN)], wr_now = 0, wr_mcast = demo_sent, wr_rnd = 1\<rparr>,
     \<lparr>wr_ep = EpTerm 15, wr_now = 0, wr_mcast = demo_sent, wr_rnd = 1\<rparr>]"

definition demo_busy :: "(lnode \<Rightarrow> lnode list, int \<rightharpoonup> fdsess) proc" where
  "demo_busy = (demo_proc [demo_wrap fd_type_pipe 0 demo_buff])\<lparr>p_recvs := [RData [1]],
     p_sess := [7 \<mapsto> \<lparr>fs_fd = 7, fs_id = 0, fs_ip = 0, fs_port = 0\<rparr>],
     p_works := [demo_work\<lparr>wk_rq := (case mq_push demo_queue \<lparr>blk_id = 0, blk_fd = 7, blk_type = blk_code BLK_DATA, blk_len = 31\<rparr>
       (le32 18 @ replicate 14 0) of Inl e \<Rightarrow> demo_queue | Inr (r, q) \<Rightarrow> q)\<rparr>]\<rparr>"

lemma work_dispatch_keeps_sending_witness:
  "\<exists>r as p1 m1. work_dispatch demo_work_env 1 0 demo_rounds demo_busy demo_mc = Inr (r, as, p1, m1) \<and> sqs_hold p1
     \<and> map (mq_blk_cnt \<circ> wk_sq) (p_works p1) = [1]"
proof -
  have "case work_dispatch demo_work_env 1 0 demo_rounds demo_busy demo_mc of Inl e \<Rightarrow> False
      | Inr (r, as, p1, m1) \<Rightarrow> map (mq_blk_cnt \<circ> wk_sq) (p_works p1) = [1]" by code_simp
  then obtain r as p1 m1 where run: "work_dispatch demo_work_env 1 0 demo_rounds demo_busy demo_mc = Inr (r, as, p1, m1)"
    and n: "map (mq_blk_cnt \<circ> wk_sq) (p_works p1) = [1]" by (auto split: sum.splits)
  have lib: "lib_keeps sqs_hold demo_work_env"
    unfolding demo_work_env_def by (rule sample_keeps, rule push_sq_sqs) simp_all
  have "sqs_hold demo_busy" using demo_queue_rel by (auto simp: sqs_hold_def demo_busy_def demo_work_def holds_msgs_def)
  from satD[OF work_dispatch_keeps_sending[OF lib this] run] show ?thesis using run n by auto
qed

end
