(* ===== verification/Housekeeping.thy ===== *)
theory Housekeeping
  imports Server Conf_Load
begin

text \<open>
  What is left of \<^verbatim>\<open>util.c\<close>, \<^verbatim>\<open>conf.c\<close> and \<^verbatim>\<open>master.c\<close>: the signals the server takes, the limit for core files, what is printed
  of the configuration and of the process, and the functions that free what was loaded.
\<close>

section \<open>Signals\<close>

text \<open>The handlers of a process and the signals it has blocked; the numbers are those of Linux.\<close>

datatype sig_fun = Sig_epipe | Sig_term | Sig_chld

record sig_state =
  sg_fun :: "int \<rightharpoonup> sig_fun"
  sg_blocked :: "int set"

definition handle_signal :: "sig_state \<Rightarrow> int \<times> sig_state" where
  "handle_signal g = (0, \<lparr>sg_fun = (sg_fun g)(13 \<mapsto> Sig_epipe, 2 \<mapsto> Sig_term, 15 \<mapsto> Sig_term, 3 \<mapsto> Sig_term, 17 \<mapsto> Sig_chld),
     sg_blocked = sg_blocked g - {11, 7, 6, 4, 17, 8}\<rparr>)"

text \<open>\<open>handle_epipe\<close> only writes to the log.\<close>

definition handle_epipe :: "int \<Rightarrow> 'p \<Rightarrow> 'p" where
  "handle_epipe signo p = p"

text \<open>
  A signal that interrupts \<open>epoll_wait\<close> in the master; \<open>cs\<close> are the children that have stopped. \<open>None\<close>: the default
  action, or the signal is blocked.
\<close>

definition take_signal ::
  "(string \<Rightarrow> 32 word option) \<Rightarrow> (string \<Rightarrow> 32 word) \<Rightarrow> sig_state \<Rightarrow> int \<Rightarrow> int \<Rightarrow> (int \<times> fork_ans) list \<Rightarrow> ('l, 'h) proc \<Rightarrow>
     (int option \<times> ('l, 'h) proc) res option" where
  "take_signal inet_pton inet_addr g pid signo cs p = (if signo \<in> sg_blocked g then None else case sg_fun g signo of
       None \<Rightarrow> None
     | Some Sig_epipe \<Rightarrow> Some (Inr (None, handle_epipe signo p))
     | Some Sig_term \<Rightarrow> Some (rbind (handle_term pid signo p) (\<lambda>p1. Inr (None, p1)))
     | Some Sig_chld \<Rightarrow> Some (handle_sigchld inet_pton inet_addr cs p))"

text \<open>After \<open>handle_signal\<close> the signals of the master's loop do what \<open>wait_step\<close> does for them.\<close>

lemma term_signal_taken:
  assumes "signo \<in> {2, 3, 15}" and "signo \<notin> sg_blocked g"
  shows "wait_step inet_pton inet_addr pid c r ev (EpTerm signo) p =
    rbind (the (take_signal inet_pton inet_addr (snd (handle_signal g)) pid signo cs p)) (\<lambda>(_, p1). Inr (None, p1))"
  using assms by (auto simp: take_signal_def handle_signal_def wait_step_def rbind_assoc)

lemma chld_signal_taken:
  "wait_step inet_pton inet_addr pid c r ev (EpChld cs) p =
    rbind (the (take_signal inet_pton inet_addr (snd (handle_signal g)) pid 17 cs p)) (\<lambda>(child, p1). Inr (map_option (\<lambda>i. (0, Some i)) child, p1))"
  by (simp add: take_signal_def handle_signal_def wait_step_def)

lemma sigpipe_survived: "13 \<notin> sg_blocked g \<Longrightarrow> take_signal inet_pton inet_addr (snd (handle_signal g)) pid 13 cs p = Some (Inr (None, p))"
  by (simp add: take_signal_def handle_signal_def handle_epipe_def)

section \<open>Limits\<close>

text \<open>The soft and the hard limit for core files, \<open>None\<close> for infinity; that \<open>setrlimit\<close> may refuse is not looked at.\<close>

definition init_rlimit :: "bool \<Rightarrow> int option \<times> int option \<Rightarrow> int \<times> int option \<times> int option" where
  "init_rlimit allowed lim = (0, if allowed then (None, None) else lim)"

section \<open>What is printed\<close>

text \<open>The lines printed; the items of the table come in the order of GLib's \<open>g_hash_table_foreach\<close>.\<close>

definition print_simple_conf :: "('h \<Rightarrow> (string \<times> string) list) \<Rightarrow> 'h \<Rightarrow> string list" where
  "print_simple_conf items h = map (\<lambda>(k, v). k @ ''-'' @ v) (items h)"

definition dec_int :: "int \<Rightarrow> string" where
  "dec_int i = (if i < 0 then CHR ''-'' # dec (nat (- i)) else dec (nat i))"

fun print_works :: "work list \<Rightarrow> nat \<Rightarrow> nat \<Rightarrow> string list res" where
  "print_works ws i 0 = Inr []"
| "print_works ws i (Suc k) = (if i < length ws then
     rbind (print_works ws (Suc i) k) (\<lambda>ls. Inr ((''id='' @ dec_int (s32 (uint (wk_id (ws ! i)))) @ '', ip='' @ wk_ip (ws ! i) @ '', port='' @ dec_int (uint (wk_port (ws ! i)))) # ls))
   else Inl OutOfBounds)"

definition print_work_conf :: "work_mgr \<Rightarrow> string list res" where
  "print_work_conf m = print_works (wm_works m) 0 (nat (wm_nr_used m))"

definition print_args :: "args \<Rightarrow> string list" where
  "print_args a = g_argv a"

definition print_env :: "args \<Rightarrow> string list" where
  "print_env a = ar_environ a @ [''-----------------------'']"

section \<open>Freeing\<close>

text \<open>
  The blocks of memory that are allocated. Freeing one that is not is an error of the program.
\<close>

datatype heap_blk = Blk_argv | Blk_arg nat | Blk_env | Blk_sim | Blk_works

definition free_blk :: "heap_blk \<Rightarrow> heap_blk set \<Rightarrow> heap_blk set res" where
  "free_blk b H = (if b \<in> H then Inr (H - {b}) else Inl BadFree)"

definition save_args_blks :: "nat \<Rightarrow> bool \<Rightarrow> heap_blk set" where
  "save_args_blks argc alloc_ok = insert Blk_argv (Blk_arg ` {..<argc}) \<union> (if alloc_ok then {Blk_env} else {})"

fun free_arg_strs :: "nat \<Rightarrow> nat \<Rightarrow> heap_blk set \<Rightarrow> heap_blk set res" where
  "free_arg_strs i 0 H = Inr H"
| "free_arg_strs i (Suc k) H = rbind (free_blk (Blk_arg i) H) (free_arg_strs (Suc i) k)"

definition free_args :: "nat \<Rightarrow> heap_blk set \<Rightarrow> heap_blk set res" where
  "free_args argc H = rbind (free_arg_strs 0 argc H) (free_blk Blk_argv)"

definition free_sim_data :: "heap_blk set \<Rightarrow> heap_blk set res" where "free_sim_data = free_blk Blk_sim"
definition free_work_data :: "heap_blk set \<Rightarrow> heap_blk set res" where "free_work_data = free_blk Blk_works"

definition free_conf :: "heap_blk set \<Rightarrow> heap_blk set res" where
  "free_conf H = rbind (free_sim_data H) free_work_data"

lemma free_arg_strs_ok: "Blk_arg ` {i..<i + k} \<subseteq> H \<Longrightarrow> free_arg_strs i k H = Inr (H - Blk_arg ` {i..<i + k})"
proof (induction k arbitrary: i H)
  case (Suc k)
  have e: "{i..<i + Suc k} = insert i {Suc i..<Suc i + k}" by auto
  have "Blk_arg ` {Suc i..<Suc i + k} \<subseteq> H - {Blk_arg i}" using Suc.prems by auto
  from Suc.IH[OF this] Suc.prems show ?case unfolding e by (simp add: free_blk_def Diff_insert2[symmetric] insert_commute)
qed simp

text \<open>\<open>free_args\<close> leaves the copy of the environment, and cannot be called again.\<close>

lemma free_args_leaves:
  "free_args argc (save_args_blks argc alloc_ok) = Inr (if alloc_ok then {Blk_env} else {})"
  "free_args argc (if alloc_ok then {Blk_env} else {}) = Inl BadFree"
proof -
  have "free_arg_strs 0 argc (save_args_blks argc alloc_ok) = Inr (insert Blk_argv (if alloc_ok then {Blk_env} else {}))"
  proof -
    have "Blk_arg ` {0..<0 + argc} \<subseteq> save_args_blks argc alloc_ok" by (auto simp: save_args_blks_def)
    moreover have "save_args_blks argc alloc_ok - Blk_arg ` {0..<0 + argc} = insert Blk_argv (if alloc_ok then {Blk_env} else {})"
      by (auto simp: save_args_blks_def)
    ultimately show ?thesis using free_arg_strs_ok by metis
  qed
  then show "free_args argc (save_args_blks argc alloc_ok) = Inr (if alloc_ok then {Blk_env} else {})"
    by (auto simp: free_args_def free_blk_def)
  show "free_args argc (if alloc_ok then {Blk_env} else {}) = Inl BadFree"
    by (cases argc) (auto simp: free_args_def free_blk_def)
qed

end
