(* ===== verification/System.thy ===== *)
theory System
  imports Master_Stream Worker_Sessions Master_End
begin

text \<open>
  Master and worker as two processes at one receive queue: a step relation in which their calls of the queue's functions
  interleave in any order, and that the handlers \<open>handle_cli\<close> and \<open>handle_mq_recv\<close> are sequences of its steps.
\<close>

section \<open>The two processes\<close>

text \<open>
  The master is between two calls of \<open>handle_cli\<close> (\<open>None\<close>) or in one, for a connection and at an offset of its buffer. The worker
  waits, has got the block at an offset, or has worked on it and not popped it. \<open>sy_read\<close> records what has been read from the client
  that has a descriptor, or had it last, \<open>sy_past\<close> what was read from those before, \<open>sy_done\<close> the blocks worked on. \<open>sy_live\<close> are the
  descriptors of connected clients, \<open>sy_new\<close> those that \<open>accept\<close> can give to a client, \<open>sy_lis\<close> is the descriptor the worker's clients
  are accepted from.
\<close>

datatype work_at = W_idle | W_got int | W_pop int

record ('l, 'h) sys =
  sy_m :: "('l, 'h) proc"
  sy_cut :: "(int \<times> int) option"
  sy_w :: "('l, 'h) proc"
  sy_at :: work_at
  sy_read :: "int \<Rightarrow> byte list"
  sy_past :: "int \<Rightarrow> byte list list"
  sy_done :: "msg list"
  sy_live :: "int set"
  sy_new :: "int set"
  sy_lis :: int

text \<open>The queue is in memory both processes map: what one of them does to it is there for the other.\<close>

definition share :: "int \<Rightarrow> ('l, 'h) proc \<Rightarrow> ('l, 'h) proc \<Rightarrow> ('l, 'h) proc res" where
  "share i from to = rbind (get_work from i) (\<lambda>k. set_rq i (wk_rq k) to)"

text \<open>What the rest of the master's work does to the connections that are read from: nothing.\<close>

definition same_conns :: "'l nlist \<Rightarrow> int \<Rightarrow> int set \<Rightarrow> ('l, 'h) proc \<Rightarrow> ('l, 'h) proc \<Rightarrow> bool" where
  "same_conns L i F m m1 \<longleftrightarrow> lists_ok L m1 \<and> p_setting m1 = p_setting m \<and> length (p_works m1) = length (p_works m) \<and>
     wk_rq (p_works m1 ! nat i) = wk_rq (p_works m ! nat i) \<and>
     (\<forall>fd\<in>F. valid_fd m1 fd = valid_fd m fd \<and> w_idx (wrap_of m1 fd) = w_idx (wrap_of m fd) \<and> w_type (wrap_of m1 fd) = w_type (wrap_of m fd) \<and>
        rbf (buff_of m1 fd) = rbf (buff_of m fd) \<and> rlen (buff_of m1 fd) = rlen (buff_of m fd) \<and> msglen (buff_of m1 fd) = msglen (buff_of m fd))"

text \<open>
  When a connection ends, \<open>accept\<close> can give its descriptor to the next client. The master queues a block that closes it; was there room
  for the block, then the descriptor is free, and the bytes of the client go to the past. Was there none, the worker keeps the session, and
  what it then takes the next client for is another matter (\<open>refused_open_desync\<close> in \<open>Worker_Sessions\<close>): here the descriptor stays unused.
\<close>

definition queued :: "int \<Rightarrow> ('l, 'h) proc \<Rightarrow> ('l, 'h) proc \<Rightarrow> bool" where
  "queued i m m1 \<longleftrightarrow> mq_blk_cnt (wk_rq (p_works m1 ! nat i)) = mq_blk_cnt (wk_rq (p_works m ! nat i)) + 1"

definition left_by :: "bool \<Rightarrow> int \<Rightarrow> ('l, 'h) sys \<Rightarrow> ('l, 'h) sys" where
  "left_by told fd s = (if told then s\<lparr>sy_live := sy_live s - {fd}, sy_new := insert fd (sy_new s),
       sy_past := (sy_past s)(fd := sy_past s fd @ [sy_read s fd]), sy_read := (sy_read s)(fd := [])\<rparr>
     else s\<lparr>sy_live := sy_live s - {fd}\<rparr>)"

text \<open>
  The steps of the master: reading from a client; one round of the loop of \<open>handle_cli\<close>, with a message left, without, or with one that
  is refused, when the client is closed; a failed read, when it is closed, too; closing for any other reason; a new client, with a
  descriptor \<open>fd\<close>, from the listening descriptor; anything else.
  The steps of the worker: \<open>mq_get\<close>, the block, \<open>mq_pop\<close>. The master also takes answers from the send queue (\<open>answered\<close>).
\<close>

inductive sys_step :: "'l nlist \<Rightarrow> ('l, 'h) proc serv_if \<Rightarrow> ('h, int, fdsess) ghash \<Rightarrow> int \<Rightarrow> ('l, 'h) sys \<Rightarrow> ('l, 'h) sys \<Rightarrow> bool"
  for L S G i where
  read: "sy_cut s = None \<Longrightarrow> fd \<in> sy_live s \<Longrightarrow> handle_read L fd ((sy_m s)\<lparr>p_recvs := used @ rest\<rparr>) = Inr (r, m1) \<Longrightarrow> r \<noteq> - 1 \<Longrightarrow>
    p_recvs m1 = rest \<Longrightarrow>
    sys_step L S G i s (s\<lparr>sy_m := m1, sy_cut := Some (fd, 0), sy_read := (sy_read s)(fd := sy_read s fd @ recv_bytes used)\<rparr>)"
| gone: "sy_cut s = None \<Longrightarrow> fd \<in> sy_live s \<Longrightarrow> handle_read L fd ((sy_m s)\<lparr>p_recvs := rs\<rparr>) = Inr (- 1, m1) \<Longrightarrow>
    do_fd_close L S fd 1 m1 = Inr (r, m2) \<Longrightarrow> share i m2 (sy_w s) = Inr w1 \<Longrightarrow>
    sys_step L S G i s (left_by (queued i m1 m2) fd (s\<lparr>sy_m := m2, sy_w := w1\<rparr>))"
| shut: "sy_cut s = None \<Longrightarrow> fd \<in> sy_live s \<Longrightarrow> do_fd_close L S fd 1 (sy_m s) = Inr (r, m1) \<Longrightarrow> share i m1 (sy_w s) = Inr w1 \<Longrightarrow>
    sys_step L S G i s (left_by (queued i (sy_m s) m1) fd (s\<lparr>sy_m := m1, sy_w := w1\<rparr>))"
| more: "sy_cut s = Some (fd, off) \<Longrightarrow> frame_step S SERV_MASTER (push_data (S, i, [])) fd off (sy_m s) = Inr (Cut_more o1, m1) \<Longrightarrow>
    share i m1 (sy_w s) = Inr w1 \<Longrightarrow>
    sys_step L S G i s (s\<lparr>sy_m := m1, sy_w := w1, sy_cut := Some (fd, o1)\<rparr>)"
| rest: "sy_cut s = Some (fd, off) \<Longrightarrow> frame_step S SERV_MASTER (push_data (S, i, [])) fd off (sy_m s) = Inr (Cut_rest o1, m1) \<Longrightarrow>
    keep_rest fd o1 m1 = Inr m2 \<Longrightarrow> share i m2 (sy_w s) = Inr w1 \<Longrightarrow>
    sys_step L S G i s (s\<lparr>sy_m := m2, sy_w := w1, sy_cut := None\<rparr>)"
| refused: "sy_cut s = Some (fd, off) \<Longrightarrow> frame_step S SERV_MASTER (push_data (S, i, [])) fd off (sy_m s) = Inr (Cut_refused, m1) \<Longrightarrow>
    do_fd_close L S fd 1 m1 = Inr (r, m2) \<Longrightarrow> share i m2 (sy_w s) = Inr w1 \<Longrightarrow>
    sys_step L S G i s (left_by (queued i m1 m2) fd (s\<lparr>sy_m := m2, sy_w := w1, sy_cut := None\<rparr>))"
| opened: "sy_cut s = None \<Longrightarrow> open_fd (sy_m s) (sy_lis s) \<Longrightarrow> w_type (wrap_of (sy_m s) (sy_lis s)) = fd_type_listen \<Longrightarrow>
    w_idx (wrap_of (sy_m s) (sy_lis s)) = i \<Longrightarrow> is_cint (sy_lis s) \<Longrightarrow>
    do_fd_open L S (sy_lis s) ((sy_m s)\<lparr>p_accepts := as, p_ctls := cs\<rparr>) = Inr (fd, m1) \<Longrightarrow> 0 < fd \<Longrightarrow> fd \<in> sy_new s \<Longrightarrow>
    share i m1 (sy_w s) = Inr w1 \<Longrightarrow>
    sys_step L S G i s (s\<lparr>sy_m := m1, sy_w := w1, sy_live := insert fd (sy_live s), sy_new := sy_new s - {fd}\<rparr>)"
| other: "sy_cut s = None \<Longrightarrow> same_conns L i (sy_live s) (sy_m s) m1 \<Longrightarrow> sys_step L S G i s (s\<lparr>sy_m := m1\<rparr>)"
| empty: "sy_at s = W_idle \<Longrightarrow> get_work (sy_w s) i = Inr k \<Longrightarrow> mq_get (wk_rq k) = Inr (None, q) \<Longrightarrow>
    set_rq i q (sy_w s) = Inr w1 \<Longrightarrow> share i w1 (sy_m s) = Inr m1 \<Longrightarrow> sys_step L S G i s (s\<lparr>sy_m := m1, sy_w := w1\<rparr>)"
| got: "sy_at s = W_idle \<Longrightarrow> get_work (sy_w s) i = Inr k \<Longrightarrow> mq_get (wk_rq k) = Inr (Some a, q) \<Longrightarrow>
    set_rq i q (sy_w s) = Inr w1 \<Longrightarrow> share i w1 (sy_m s) = Inr m1 \<Longrightarrow>
    sys_step L S G i s (s\<lparr>sy_m := m1, sy_w := w1, sy_at := W_got a\<rparr>)"
| block: "sy_at s = W_got a \<Longrightarrow> get_work (sy_w s) i = Inr k \<Longrightarrow> read_msg (wk_rq k) a = Inr x \<Longrightarrow> do_blk G S i a (sy_w s) = Inr w1 \<Longrightarrow>
    share i w1 (sy_m s) = Inr m1 \<Longrightarrow>
    sys_step L S G i s (s\<lparr>sy_m := m1, sy_w := w1, sy_at := W_pop a, sy_done := sy_done s @ [x]\<rparr>)"
| popped: "sy_at s = W_pop a \<Longrightarrow> get_work (sy_w s) i = Inr k \<Longrightarrow> mq_pop (wk_rq k) = Inr q \<Longrightarrow>
    set_rq i q (sy_w s) = Inr w1 \<Longrightarrow> share i w1 (sy_m s) = Inr m1 \<Longrightarrow>
    sys_step L S G i s (s\<lparr>sy_m := m1, sy_w := w1, sy_at := W_idle\<rparr>)"
| answered: "sq_holds w1 i ys \<Longrightarrow> upd_work i (\<lambda>k. k\<lparr>wk_sq := q\<rparr>) (sy_w s) = Inr w1 \<Longrightarrow> sys_step L S G i s (s\<lparr>sy_w := w1\<rparr>)"

abbreviation sys_run :: "'l nlist \<Rightarrow> ('l, 'h) proc serv_if \<Rightarrow> ('h, int, fdsess) ghash \<Rightarrow> int \<Rightarrow> ('l, 'h) sys \<Rightarrow> ('l, 'h) sys \<Rightarrow> bool" where
  "sys_run L S G i \<equiv> (sys_step L S G i)\<^sup>*\<^sup>*"

lemma share_ok:
  assumes "0 \<le> i" "i < int (length (p_works p))" "i < int (length (p_works q))"
  shows "share i p q = Inr (q\<lparr>p_works := (p_works q)[nat i := (p_works q ! nat i)\<lparr>wk_rq := wk_rq (p_works p ! nat i)\<rparr>]\<rparr>)"
  using assms by (simp add: share_def set_rq_def)

lemma left_by_simps [simp]:
  "sy_m (left_by t fd s) = sy_m s" "sy_w (left_by t fd s) = sy_w s" "sy_cut (left_by t fd s) = sy_cut s" "sy_at (left_by t fd s) = sy_at s"
  "sy_done (left_by t fd s) = sy_done s" "sy_lis (left_by t fd s) = sy_lis s" "sy_live (left_by t fd s) = sy_live s - {fd}"
  "sy_new (left_by t fd s) = (if t then insert fd (sy_new s) else sy_new s)"
  "sy_read (left_by t fd s) = (if t then (sy_read s)(fd := []) else sy_read s)"
  "sy_past (left_by t fd s) = (if t then (sy_past s)(fd := sy_past s fd @ [sy_read s fd]) else sy_past s)"
  by (simp_all add: left_by_def)

lemma push_data_any: "push_data c = push_data c'"
  by (simp add: push_data_def fun_eq_iff)

section \<open>Pushing while the worker is at a block\<close>

text \<open>\<open>h\<close>: the block the worker has; \<open>acc\<close> and \<open>del\<close>: the messages the queue has accepted and given up so far.\<close>

definition q_holds :: "('l, 'h) proc \<Rightarrow> int \<Rightarrow> int option \<Rightarrow> msg list \<Rightarrow> msg list \<Rightarrow> bool" where
  "q_holds p i h acc del \<longleftrightarrow> 0 \<le> i \<and> i < int (length (p_works p)) \<and> mq.holds (wk_rq (p_works p ! nat i)) h acc del"

lemma q_holds_works: "p_works p' = p_works p \<Longrightarrow> q_holds p' = q_holds p"
  by (simp add: q_holds_def fun_eq_iff)

lemma push_rq_holds:
  assumes h: "q_holds p i h acc del" and v: "valid_msg (b, d)"
  shows "\<exists>r ws. push_rq i b d p = Inr (r, p\<lparr>p_works := ws\<rparr>) \<and> (r = 0 \<or> r = - 1) \<and>
    q_holds (p\<lparr>p_works := ws\<rparr>) i h (after_push r (b, d) acc) del"
proof -
  have i: "0 \<le> i" "i < int (length (p_works p))" and q: "mq.holds (wk_rq (p_works p ! nat i)) h acc del"
    using h by (auto simp: q_holds_def)
  let ?q = "wk_rq (p_works p ! nat i)"
  have "\<exists>xs. mq_rel ?q xs"
    using q mq.front_rel[of ?q] by (cases h) (auto simp: mq.holds_def simp del: split_paired_Ex)
  then obtain xs where "mq_rel ?q xs" ..
  from mq.push_rel[OF this v] obtain r q1 where p: "mq_push ?q b d = Inr (r, q1)" "r = 0 \<or> r = - 1" by auto
  have n: "nat i < length (p_works p)" using i by simp
  have "push_rq i b d p = Inr (r, p\<lparr>p_works := (p_works p)[nat i := (p_works p ! nat i)\<lparr>wk_rq := q1\<rparr>]\<rparr>)"
    using i p(1) by (simp add: push_rq_def)
  moreover have "mq.holds q1 h (after_push r (b, d) acc) del"
    using mq.holds_push[OF q v, of r q1] p by (auto simp: after_push_def)
  ultimately show ?thesis using p(2) i n by (fastforce simp: q_holds_def)
qed

text \<open>The loop of \<open>handle_cli\<close> once more, as an instance of the loop both readers share, for a queue in this state.\<close>

definition holding :: "('l, 'h) proc serv_if \<times> int \<times> int option \<times> msg list \<times> msg list \<Rightarrow> int \<Rightarrow> ('l, 'h) proc \<Rightarrow> byte list list \<Rightarrow> bool" where
  "holding c fd p fs \<longleftrightarrow> (case c of (S, i, h, acc, del) \<Rightarrow> w_idx (wrap_of p fd) = i \<and> is_cint i \<and> is_cint fd \<and>
     q_holds p i h (acc @ map (data_msg i fd) fs) del)"

lemma push_data_holding:
  assumes q: "holding c fd p fs" and v: "valid_fd p fd" and m: "0 < msglen (buff_of p fd)" "msglen (buff_of p fd) \<le> MSG_MAX"
    "msglen (buff_of p fd) \<le> int (length src)"
  shows "\<exists>taken p'. push_data c' fd src p = Inr (taken, p') \<and> keeps_table p p' \<and>
    holding c fd p' (if taken then fs @ [take (nat (msglen (buff_of p fd))) src] else fs)"
proof -
  obtain S i h acc del where c: "c = (S, i, h, acc, del)" by (cases c)
  let ?m = "msglen (buff_of p fd)" and ?d = "take (nat (msglen (buff_of p fd))) src"
  have i: "w_idx (wrap_of p fd) = i" "is_cint i" "is_cint fd" "q_holds p i h (acc @ map (data_msg i fd) fs) del"
    using q c by (auto simp: holding_def)
  let ?b = "fst (data_msg i fd ?d)"
  have ld: "int (length ?d) = ?m" using m by simp
  have "is_cint (?m + blk_head_len)" using m by (simp add: is_cint_def MSG_MAX_def MQ_MAX_def blk_head_len_def)
  then have raw: "raw2blk fd p = Inr ?b" using v ld i(1) by (simp add: raw2blk_def data_msg_def)
  have take: "push_rq i ?b src p = push_rq i ?b ?d p"
    using push_rq_take[of ?b src i p] ld m(3) by (simp add: data_msg_def)
  have bd: "(?b, ?d) = data_msg i fd ?d" by (simp add: data_msg_def)
  have vm: "valid_msg (?b, ?d)" unfolding bd using data_msg_valid[OF i(2,3), of ?d] ld m by simp
  obtain r ws where p: "push_rq i ?b ?d p = Inr (r, p\<lparr>p_works := ws\<rparr>)" "r = 0 \<or> r = - 1"
    "q_holds (p\<lparr>p_works := ws\<rparr>) i h (after_push r (data_msg i fd ?d) (acc @ map (data_msg i fd) fs)) del"
    using push_rq_holds[OF i(4) vm] unfolding bd by blast
  have "holding c fd (p\<lparr>p_works := ws\<rparr>) (if r = 0 then fs @ [?d] else fs)"
    using i p c by (cases "r = 0") (simp_all add: holding_def after_push_def)
  then show ?thesis using p(1) take raw v i(1) by (simp add: push_data_def keeps_table_def)
qed

lemma holding_buff: "holding c fd p fs \<Longrightarrow> valid_fd p fd \<Longrightarrow> only_buff fd p p' \<Longrightarrow> holding c fd p' fs"
  using valid_fd_nat[of p fd] by (auto simp: holding_def only_buff_def q_holds_def)

interpretation cutting: frame_loop fst SERV_MASTER "\<lambda>c. push_data (fst c, 0, [])" "\<lambda>c. push_again (fst c)" holding
proof unfold_locales
  fix c :: "('a, 'b) proc serv_if \<times> int \<times> int option \<times> msg list \<times> msg list" and n fd off and p :: "('a, 'b) proc"
  show "push_again (fst c) (Suc n) fd off p = rbind (frame_step (fst c) SERV_MASTER (push_data (fst c, 0, [])) fd off p) (\<lambda>(e, p1). case e of
      Cut_more o1 \<Rightarrow> push_again (fst c) n fd o1 p1 | Cut_rest o1 \<Rightarrow> Inr (Some o1, p1) | Cut_refused \<Rightarrow> Inr (None, p1))"
    by (rule push_again_round[of "(fst c, 0, [])", unfolded fst_conv])
qed (erule (4) push_data_holding, erule (2) holding_buff)

section \<open>The handlers as sequences of steps\<close>

lemma push_data_works: "push_data c fd src p = Inr (t, p1) \<Longrightarrow> length (p_works p1) = length (p_works p)"
  by (auto simp: push_data_def push_rq_def upd_work_def rbind_Inr_iff)

lemma upd_buff_works: "upd_buff fd f p = Inr p1 \<Longrightarrow> p_works p1 = p_works p \<and> p_recvs p1 = p_recvs p"
  by (auto simp: upd_buff_def upd_fdw_def rbind_Inr_iff)

lemma frame_step_works: "frame_step S k (push_data c) fd off p = Inr (e, p1) \<Longrightarrow> length (p_works p1) = length (p_works p)"
  by (auto simp: frame_step_def get_length_def consume_def rbind_Inr_iff Let_def split: if_splits
      dest!: push_data_works upd_buff_works)

lemma keep_rest_works: "keep_rest fd off p = Inr p1 \<Longrightarrow> p_works p1 = p_works p \<and> p_recvs p1 = p_recvs p"
  by (auto simp: keep_rest_def rbind_Inr_iff Let_def split: if_splits dest!: upd_buff_works)

lemma share_again: "share i p q = Inr q1 \<Longrightarrow> share i p' q1 = share i p' q"
  by (cases "get_work p' i") (auto simp: share_def set_rq_def upd_work_def get_work_def rbind_Inr_iff nth_list_update split: if_splits)

text \<open>A run of the loop of \<open>handle_cli\<close> that takes all messages, and a call of \<open>handle_cli\<close> that returns 0.\<close>

lemma push_again_steps:
  assumes "push_again S n fd off (sy_m s) = Inr (Some o1, m1)" and "sy_cut s = Some (fd, off)" and "keep_rest fd o1 m1 = Inr m2"
    and "0 \<le> i" "i < int (length (p_works (sy_m s)))" "i < int (length (p_works (sy_w s)))"
  shows "\<exists>w1. share i m2 (sy_w s) = Inr w1 \<and> sys_run L S G i s (s\<lparr>sy_m := m2, sy_w := w1, sy_cut := None\<rparr>)"
  using assms
proof (induction n arbitrary: off s)
  case (Suc n)
  obtain e p1 where f: "frame_step S SERV_MASTER (push_data (S, i, [])) fd off (sy_m s) = Inr (e, p1)"
    and e: "(case e of Cut_more o1 \<Rightarrow> push_again S n fd o1 p1 | Cut_rest o1 \<Rightarrow> Inr (Some o1, p1) | Cut_refused \<Rightarrow> Inr (None, p1)) = Inr (Some o1, m1)"
    using Suc.prems(1) push_again_round[of "(S, i, [])", unfolded fst_conv] by (auto simp: rbind_Inr_iff simp del: push_again.simps)
  have len: "i < int (length (p_works p1))" using frame_step_works[OF f] Suc.prems(5) by simp
  obtain w1 where w1: "share i p1 (sy_w s) = Inr w1" "length (p_works w1) = length (p_works (sy_w s))"
    using share_ok[OF Suc.prems(4) len Suc.prems(6)] by auto
  show ?case
  proof (cases e)
    case (Cut_more o2)
    let ?s = "s\<lparr>sy_m := p1, sy_w := w1, sy_cut := Some (fd, o2)\<rparr>"
    obtain w2 where w2: "share i m2 w1 = Inr w2" "sys_run L S G i ?s (?s\<lparr>sy_m := m2, sy_w := w2, sy_cut := None\<rparr>)"
      using Suc.IH[of o2 ?s] e Cut_more Suc.prems(3,4) len w1(2) Suc.prems(6) by auto
    have "sys_step L S G i s ?s" using sys_step.more[OF Suc.prems(2) _ w1(1)] f Cut_more by simp
    then show ?thesis using w2 share_again[OF w1(1), of m2] converse_rtranclp_into_rtranclp by fastforce
  next
    case (Cut_rest o2)
    then have r: "o2 = o1" "p1 = m1" using e by auto
    have "i < int (length (p_works m2))" using len r keep_rest_works[OF Suc.prems(3)] by simp
    then obtain w2 where "share i m2 (sy_w s) = Inr w2" using share_ok[OF Suc.prems(4) _ Suc.prems(6)] by blast
    then show ?thesis using sys_step.rest[OF Suc.prems(2) _ Suc.prems(3)] f Cut_rest r by blast
  qed (use e in simp)
qed simp

lemma handle_cli_steps:
  assumes run: "handle_cli L S n fd ((sy_m s)\<lparr>p_recvs := used @ rest\<rparr>) = Inr (0, m2)" "p_recvs m2 = rest"
    and s: "sy_cut s = None" "fd \<in> sy_live s"
    and i: "0 \<le> i" "i < int (length (p_works (sy_m s)))" "i < int (length (p_works (sy_w s)))"
  shows "\<exists>w1. share i m2 (sy_w s) = Inr w1 \<and>
    sys_run L S G i s (s\<lparr>sy_m := m2, sy_w := w1, sy_read := (sy_read s)(fd := sy_read s fd @ recv_bytes used)\<rparr>)"
proof -
  obtain r m0 o1 m1 where rd: "handle_read L fd ((sy_m s)\<lparr>p_recvs := used @ rest\<rparr>) = Inr (r, m0)" "r \<noteq> - 1"
    and cut: "push_again S n fd 0 m0 = Inr (Some o1, m1)" and kr: "keep_rest fd o1 m1 = Inr m2"
    using run(1) by (auto simp: handle_cli_def rbind_Inr_iff split: if_splits option.splits)
  have "p_recvs m0 = rest" using push_again_recvs[OF cut] keep_rest_works[OF kr] run(2) by simp
  let ?s = "s\<lparr>sy_m := m0, sy_cut := Some (fd, 0), sy_read := (sy_read s)(fd := sy_read s fd @ recv_bytes used)\<rparr>"
  have st: "sys_step L S G i s ?s" using sys_step.read[OF s rd \<open>p_recvs m0 = rest\<close>] by simp
  have "p_works m0 = p_works (sy_m s)" using handle_read_conn[OF rd(1)] by (simp add: only_conn_def)
  then obtain w1 where w1: "share i m2 (sy_w s) = Inr w1" "sys_run L S G i ?s (?s\<lparr>sy_m := m2, sy_w := w1, sy_cut := None\<rparr>)"
    using push_again_steps[of S n fd 0 ?s o1 m1 m2 i L G] cut kr i by auto
  have "?s\<lparr>sy_m := m2, sy_w := w1, sy_cut := None\<rparr> =
      s\<lparr>sy_m := m2, sy_w := w1, sy_read := (sy_read s)(fd := sy_read s fd @ recv_bytes used)\<rparr>" using s(1) by simp
  then show ?thesis using converse_rtranclp_into_rtranclp[of "sys_step L S G i", OF st w1(2)] w1(1) by auto
qed

end
