(* ===== verification/System_Inv.thy ===== *)
theory System_Inv
  imports System
begin

text \<open>
  What the invariant of master and worker at one queue says of one client, and what the operations of the master (reading, a round of
  cutting, closing, accepting) do to it.
\<close>

section \<open>What is relied on\<close>

definition sys_laws :: "'l nlist \<Rightarrow> ('l, 'h) proc serv_if \<Rightarrow> ('h, int, fdsess) ghash \<Rightarrow> int \<Rightarrow> ('x, ('l, 'h) proc) lib_spec \<Rightarrow>
    (byte list \<Rightarrow> int) \<Rightarrow> int \<Rightarrow> bool" where
  "sys_laws L S G i A g cap \<longleftrightarrow> nlist_laws L \<and> ghash_laws G \<and> lib_laws i A S \<and> is_cint i \<and> 0 < cap \<and> cap \<le> MSG_MAX \<and>
     (\<forall>fd. msg_len_law S SERV_MASTER fd g) \<and> (\<forall>bs ds. bs \<noteq> [] \<longrightarrow> g (bs @ ds) = g bs)"

abbreviation some_bytes :: "byte list \<Rightarrow> bool" where "some_bytes bs \<equiv> bs \<noteq> []"

lemma sys_lawsD:
  assumes "sys_laws L S G i A g cap"
  shows "nlist_laws L" "ghash_laws G" "lib_laws i A S" "is_cint i" "0 < cap" "cap \<le> MSG_MAX"
    "len_law some_bytes S SERV_MASTER fd g" "asks some_bytes g c bs" "some_bytes bs \<Longrightarrow> g (bs @ ds) = g bs"
proof -
  have g: "msg_len_law S SERV_MASTER fd g" for fd using assms by (simp add: sys_laws_def)
  show "asks some_bytes g c bs" using msg_len_pos[OF g] by (intro asks_any) auto
  show "len_law some_bytes S SERV_MASTER fd g" using g[of fd] by (auto simp: msg_len_law_def len_law_def)
qed (use assms in \<open>auto simp: sys_laws_def\<close>)

section \<open>A client\<close>

text \<open>
  The messages among the blocks of the queue for the clients that had the descriptor \<open>fd\<close>: up to each block that closes it those of one
  client, and after the last of these blocks those of the client that has it now.
\<close>

fun conn_add :: "int \<Rightarrow> byte list list list \<times> byte list list \<Rightarrow> msg \<Rightarrow> byte list list list \<times> byte list list" where
  "conn_add fd (past, cur) (b, d) =
     (if blk_fd b = fd \<and> blk_type b = blk_code BLK_DATA then (past, cur @ [d])
      else if blk_fd b = fd \<and> blk_type b = blk_code BLK_CLOSE then (past @ [cur], [])
      else (past, cur))"

definition conns_of :: "int \<Rightarrow> msg list \<Rightarrow> byte list list list \<times> byte list list" where
  "conns_of fd xs = foldl (conn_add fd) ([], []) xs"

definition past_of :: "int \<Rightarrow> msg list \<Rightarrow> byte list list list" where
  "past_of fd xs = fst (conns_of fd xs)"

definition data_of :: "int \<Rightarrow> msg list \<Rightarrow> byte list list" where
  "data_of fd xs = snd (conns_of fd xs)"

lemma conns_of_snoc: "conns_of fd (xs @ [x]) = conn_add fd (past_of fd xs, data_of fd xs) x"
  by (simp add: conns_of_def past_of_def data_of_def)

lemma conns_of_Nil [simp]: "past_of fd [] = []" "data_of fd [] = []"
  by (simp_all add: conns_of_def past_of_def data_of_def)

lemma conns_of_data [simp]:
  "past_of fd (xs @ [data_msg i fd' d]) = past_of fd xs"
  "data_of fd (xs @ [data_msg i fd' d]) = (if fd' = fd then data_of fd xs @ [d] else data_of fd xs)"
  by (simp_all add: past_of_def[of fd "_ @ _"] data_of_def[of fd "_ @ _"] conns_of_snoc data_msg_def)

lemma conns_of_close [simp]:
  "past_of fd (xs @ [close_msg i fd']) = (if fd' = fd then past_of fd xs @ [data_of fd xs] else past_of fd xs)"
  "data_of fd (xs @ [close_msg i fd']) = (if fd' = fd then [] else data_of fd xs)"
  by (simp_all add: past_of_def[of fd "_ @ _"] data_of_def[of fd "_ @ _"] conns_of_snoc close_msg_def)

lemma conns_of_open [simp]:
  "past_of fd (xs @ [open_msg i fd' ip port]) = past_of fd xs" "data_of fd (xs @ [open_msg i fd' ip port]) = data_of fd xs"
  by (simp_all add: past_of_def[of fd "_ @ _"] data_of_def[of fd "_ @ _"] conns_of_snoc open_msg_def)

lemma conns_of_msgs [simp]:
  "past_of fd (xs @ map (data_msg i fd') ds) = past_of fd xs"
  "data_of fd (xs @ map (data_msg i fd') ds) = (if fd' = fd then data_of fd xs @ ds else data_of fd xs)"
  by (cases "fd' = fd"; induction ds rule: rev_induct; simp flip: append_assoc)+

text \<open>All of them in order, the last one with what there is of it so far: a longer queue has more of these, or a longer last one.\<close>

definition segs :: "int \<Rightarrow> msg list \<Rightarrow> byte list list list" where
  "segs fd xs = past_of fd xs @ [data_of fd xs]"

definition grown :: "byte list list list \<Rightarrow> byte list list list \<Rightarrow> bool" where
  "grown xs ys \<longleftrightarrow> length xs \<le> length ys \<and> (\<forall>k<length xs. \<exists>zs. ys ! k = xs ! k @ zs)"

lemma grown_trans: "grown xs ys \<Longrightarrow> grown ys zs \<Longrightarrow> grown xs zs"
  unfolding grown_def by (metis append_assoc order.trans order_less_le_trans)

lemma segs_snoc: "grown (segs fd xs) (segs fd (xs @ [x]))"
  by (cases x) (auto simp: grown_def segs_def past_of_def[of fd "xs @ _"] data_of_def[of fd "xs @ _"] conns_of_snoc nth_append less_Suc_eq)

lemma segs_mono: "grown (segs fd xs) (segs fd (xs @ zs))"
proof (induction zs rule: rev_induct)
  case (snoc z zs)
  then show ?case using grown_trans segs_snoc[of fd "xs @ zs" z] by (metis append_assoc)
qed (simp add: grown_def)

text \<open>
  A connection of worker \<open>i\<close> that can be read from. Between two calls of \<open>handle_cli\<close> the bytes \<open>bs\<close> read so far are the
  messages \<open>xs\<close> and the rest in the buffer; in a call, there may be more messages in the part of the buffer still to be cut.
\<close>

definition client_ok :: "'l nlist \<Rightarrow> int \<Rightarrow> int \<Rightarrow> ('l, 'h) proc \<Rightarrow> int \<Rightarrow> bool" where
  "client_ok L i cap m fd \<longleftrightarrow> conn_ok L cap fd m \<and> w_idx (wrap_of m fd) = i \<and> is_cint fd \<and> w_type (wrap_of m fd) = fd_type_cli \<and>
     (rbf (buff_of m fd) = None \<longrightarrow> msglen (buff_of m fd) = 0)"

definition idle_ok :: "(byte list \<Rightarrow> int) \<Rightarrow> ('l, 'h) proc \<Rightarrow> int \<Rightarrow> byte list list \<Rightarrow> byte list \<Rightarrow> bool" where
  "idle_ok g m fd xs bs \<longleftrightarrow> cut g 0 bs = (xs, unread m fd, msglen (buff_of m fd))"

definition cut_ok :: "(byte list \<Rightarrow> int) \<Rightarrow> ('l, 'h) proc \<Rightarrow> int \<Rightarrow> int \<Rightarrow> byte list list \<Rightarrow> byte list \<Rightarrow> bool" where
  "cut_ok g m fd off xs bs \<longleftrightarrow> window_ok m fd off \<and> 0 < rlen (buff_of m fd) \<and>
     cut g 0 bs = (case cut g (msglen (buff_of m fd)) (window m fd off) of (fs, r, k) \<Rightarrow> (xs @ fs, r, k))"

text \<open>What an operation on another connection leaves of it.\<close>

lemma wrap_kept:
  assumes "others_kept fd m m1" and "valid_fd m fd" "valid_fd m j" "j \<noteq> fd"
  shows "wrap_of m1 j = wrap_of m j" "valid_fd m1 j"
  using assms by (auto simp: others_kept_def valid_fd_def nat_eq_iff)

lemma client_kept:
  assumes c: "client_ok L i cap m j" and o: "others_kept fd m m1" and v: "valid_fd m fd" "j \<noteq> fd"
    and f: "cache_ok L m1" "p_setting m1 = p_setting m"
  shows "client_ok L i cap m1 j" "idle_ok g m1 j xs bs = idle_ok g m j xs bs"
proof -
  have j: "valid_fd m j" using c by (simp add: client_ok_def conn_ok_def)
  note w = wrap_kept[OF o v(1) j v(2)]
  show "client_ok L i cap m1 j" using c w f by (simp add: client_ok_def conn_ok_def)
  show "idle_ok g m1 j xs bs = idle_ok g m j xs bs" using w(1) unread_cong[of m1 j m] by (simp add: idle_ok_def)
qed

section \<open>What the master does to a client\<close>

lemma client_valid: "client_ok L i cap m fd \<Longrightarrow> valid_fd m fd \<and> cache_ok L m"
  by (simp add: client_ok_def conn_ok_def)

lemma read_client:
  assumes E: "sys_laws L S G i A g cap" and c: "client_ok L i cap m fd" and i: "idle_ok g m fd xs bs"
    and rd: "handle_read L fd (m\<lparr>p_recvs := used @ rest\<rparr>) = Inr (r, m1)" "r \<noteq> - 1" "p_recvs m1 = rest"
  shows "client_ok L i cap m1 fd" "cut_ok g m1 fd 0 xs (bs @ recv_bytes used)" "others_kept fd m m1" "cache_ok L m1"
    "p_setting m1 = p_setting m" "p_works m1 = p_works m"
proof -
  let ?m = "m\<lparr>p_recvs := used @ rest\<rparr>"
  have ok: "conn_ok L cap fd ?m" using c by (simp add: client_ok_def conn_ok_recvs)
  obtain rb where h: "window_ok m1 fd 0" "window m1 fd 0 = unread m1 fd" "0 < rlen (buff_of m1 fd)" "rlen (buff_of m1 fd) \<le> cap"
    "others_kept fd ?m m1" "cache_ok L m1" "p_setting m1 = p_setting ?m" "w_idx (wrap_of m1 fd) = w_idx (wrap_of ?m fd)"
    and rb: "rbf (buff_of m1 fd) = Some rb" "int (length rb) = cap"
    using read_bytes_ready[OF ok rd(1,2)] by blast
  have a: "nlist_laws L" "cache_ok L ?m" "valid_fd ?m fd" "max_buf_len (p_setting ?m) = cap" "0 < cap" "is_cint cap"
    "rbuff_ok cap (buff_of ?m fd)" using ok by (auto simp: conn_ok_def is_cint_def MSG_MAX_def MQ_MAX_def)
  obtain u where u: "p_recvs ?m = u @ p_recvs m1" "unread m1 fd = unread ?m fd @ recv_bytes u" "w_type (wrap_of m1 fd) = w_type (wrap_of ?m fd)"
    "msglen (buff_of m1 fd) = (if rbf (buff_of ?m fd) = None then 0 else msglen (buff_of ?m fd))"
    using handle_read_ok[OF a rd(1,2)] by auto
  have e: "u = used" "unread ?m fd = unread m fd" "msglen (buff_of m1 fd) = msglen (buff_of m fd)"
    using u(1,4) rd(3) c by (auto simp: client_ok_def intro: unread_cong)
  show o: "others_kept fd m m1" "cache_ok L m1" "p_setting m1 = p_setting m" using h by (simp_all add: others_kept_def)
  show "p_works m1 = p_works m" using handle_read_conn[OF rd(1)] by (simp add: only_conn_def)
  show "client_ok L i cap m1 fd" using c h rb u(3) others_kept_valid[OF o(1)]
    by (auto simp: client_ok_def conn_ok_def rbuff_ok_def window_ok_def)
  have "cut g 0 (bs @ recv_bytes used) =
      (case cut g (msglen (buff_of m fd)) (unread m fd @ recv_bytes used) of (gs, r', k') \<Rightarrow> (xs @ gs, r', k'))"
    by (rule cut_append[where P = some_bytes, OF sys_lawsD(9)[OF E] sys_lawsD(8)[OF E]]) (use i in \<open>simp_all add: idle_ok_def\<close>)
  then show "cut_ok g m1 fd 0 xs (bs @ recv_bytes used)" using h e u(2) by (simp add: cut_ok_def)
qed

lemma client_cut:
  assumes c: "client_ok L i cap m fd" and f: "cut_frame fd m m1" and w: "window_ok m1 fd o1" and i: "w_idx (wrap_of m1 fd) = i"
    and r: "rbf (buff_of m fd) \<noteq> None"
  shows "client_ok L i cap m1 fd"
proof -
  have "cache_ok L m1" using c f cache_ok_cong(1)[of m1 m L] by (simp add: client_ok_def conn_ok_def cut_frame_def)
  then show ?thesis using c f w i r by (auto simp: client_ok_def conn_ok_def cut_frame_def window_ok_def rbuff_ok_def)
qed

text \<open>A round of cutting, in its three outcomes.\<close>

lemma cut_client:
  assumes E: "sys_laws L S G i A g cap" and c: "client_ok L i cap m fd" and w: "cut_ok g m fd off xs bs" and q: "q_holds m i h sent del"
  obtains (more) o1 m1 d where "frame_step S SERV_MASTER (push_data (S, i, [])) fd off m = Inr (Cut_more o1, m1)" "cut_frame fd m m1"
      "q_holds m1 i h (sent @ [data_msg i fd d]) del" "valid_msg (data_msg i fd d)" "cut_ok g m1 fd o1 (xs @ [d]) bs" "client_ok L i cap m1 fd"
      "rlen (buff_of m1 fd) < rlen (buff_of m fd)"
  | (rest) o1 m1 ds where "frame_step S SERV_MASTER (push_data (S, i, [])) fd off m = Inr (Cut_rest o1, m1)" "cut_frame fd m m1"
      "q_holds m1 i h (sent @ map (data_msg i fd) ds) del" "list_all valid_msg (map (data_msg i fd) ds)" "window_ok m1 fd o1"
      "cut g 0 bs = (xs @ ds, window m1 fd o1, msglen (buff_of m1 fd))" "client_ok L i cap m1 fd"
  | (refused) m1 where "frame_step S SERV_MASTER (push_data (S, i, [])) fd off m = Inr (Cut_refused, m1)" "cut_frame fd m m1"
      "q_holds m1 i h sent del" "w_idx (wrap_of m1 fd) = i"
proof -
  let ?w = "window m fd off" and ?c = "msglen (buff_of m fd)" and ?k = "(S, i, h, sent, del)"
  define l where "l = (if ?c = 0 then g ?w else ?c)"
  have wo: "window_ok m fd off" "0 < rlen (buff_of m fd)" using w by (simp_all add: cut_ok_def)
  have wn: "?w \<noteq> []" "int (length ?w) = rlen (buff_of m fd)" using length_window[OF wo(1)] wo(2) by auto
  have le: "rlen (buff_of m fd) \<le> MSG_MAX" "rbf (buff_of m fd) \<noteq> None"
    using c wo(1) sys_lawsD(6)[OF E] by (auto simp: client_ok_def conn_ok_def rbuff_ok_def window_ok_def)
  have hold: "holding ?k fd m []" using c q sys_lawsD(4)[OF E] by (simp add: holding_def client_ok_def)
  have hq: "w_idx (wrap_of m1 fd) = i \<and> q_holds m1 i h (sent @ map (data_msg i fd) ds) del" if "holding ?k fd m1 ds" for m1 ds
    using that by (simp add: holding_def)
  have vm: "valid_msg (data_msg i fd (take n ?w))" for n
    using data_msg_valid[OF sys_lawsD(4)[OF E], of fd "take n ?w"] c wn(2) le(1) by (simp add: client_ok_def min_def)
  note ct = cutting.cut_round[of l ?c g ?w, OF l_def wn(1), unfolded wn(2)]
  have step: "frame_step (fst ?k) SERV_MASTER (push_data (fst ?k, 0, [])) fd off m = frame_step S SERV_MASTER (push_data (S, i, [])) fd off m"
    using push_data_any[of "(S, 0, [])" "(S, i, [])"] by simp
  have lw: "len_law some_bytes (fst ?k) SERV_MASTER fd g" using sys_lawsD(7)[OF E] by simp
  have P: "?c = 0 \<longrightarrow> some_bytes ?w" using wn(1) by simp
  show thesis
  proof (rule cutting.frame_round[of some_bytes ?k fd g m off "[]" l, OF lw wo le(1) hold P l_def, unfolded step], goal_cases)
    case (1 m1)
    have "client_ok L i cap m1 fd" using client_cut[OF c 1(4,5) _ le(2)] hq[OF 1(8)] by simp
    moreover have "cut g 0 bs = (xs @ [], window m1 fd off, msglen (buff_of m1 fd))" using w ct 1 by (simp add: cut_ok_def)
    ultimately show ?case using rest[of off m1 "[]"] 1 hq[OF 1(8)] by simp
  next
    case (2 m1)
    then show ?case using refused[of m1] hq[OF 2(5)] by simp
  next
    case (3 m1)
    let ?d = "take (nat l) ?w"
    have h: "w_idx (wrap_of m1 fd) = i" "q_holds m1 i h (sent @ [data_msg i fd ?d]) del" using hq[OF 3(9)] by simp_all
    have c1: "client_ok L i cap m1 fd" by (rule client_cut[OF c 3(4,5) h(1) le(2)])
    show ?case
    proof (cases "l < rlen (buff_of m fd)")
      case True
      have "cut_ok g m1 fd (off + l) (xs @ [?d]) bs"
        using w ct 3 True by (simp add: cut_ok_def split: prod.splits)
      then show ?thesis using more[of "off + l" m1 ?d] 3 True h c1 vm by simp
    next
      case False
      then have "cut g 0 bs = (xs @ [?d], window m1 fd (off + l), msglen (buff_of m1 fd))" using w ct 3 wn(2) by (simp add: cut_ok_def)
      then show ?thesis using rest[of "off + l" m1 "[?d]"] 3 False h c1 vm by simp
    qed
  qed
qed

text \<open>A read that fails changes nothing but the buffer of its connection, and closing tells the worker, if there is room.\<close>

definition own_buffer :: "'l nlist \<Rightarrow> int \<Rightarrow> ('l, 'h) proc \<Rightarrow> ('l, 'h) proc \<Rightarrow> bool" where
  "own_buffer L fd z p \<longleftrightarrow> others_kept fd z p \<and> cache_ok L p \<and> valid_fd p fd \<and>
     w_type (wrap_of p fd) = w_type (wrap_of z fd) \<and> w_idx (wrap_of p fd) = w_idx (wrap_of z fd)"

lemma own_buffer_io: "own_buffer L fd z p \<Longrightarrow> p_fds q = p_fds p \<Longrightarrow> p_links q = p_links p \<Longrightarrow> own_buffer L fd z q"
  using cache_ok_cong(1)[of q p L] by (simp add: own_buffer_def others_kept_def valid_fd_def)

lemma own_buffer_upd: "own_buffer L fd z p \<Longrightarrow> sat (own_buffer L fd z) (upd_buff fd f p)"
proof -
  assume a: "own_buffer L fd z p"
  then have v: "valid_fd p fd" by (simp add: own_buffer_def)
  let ?q = "p\<lparr>p_fds := (p_fds p)[nat fd := (wrap_of p fd)\<lparr>w_buff := f (buff_of p fd)\<rparr>]\<rparr>"
  have "cache_ok L ?q" using a cache_ok_cong(1)[of ?q p L] by (simp add: own_buffer_def flag_update)
  then show ?thesis using a v valid_fd_nat[OF v] by (auto simp: own_buffer_def others_kept_def)
qed

lemma own_buffer_lists:
  assumes "nlist_laws L" and a: "own_buffer L fd z p"
  shows "sat (own_buffer L fd z) (do_add_to_readlist L fd p)" "sat (own_buffer L fd z) (do_del_from_readlist L fd p)"
proof -
  have v: "valid_fd p fd" "cache_ok L p" using a by (simp_all add: own_buffer_def)
  have "sat (own_buffer L fd z) r" if "\<exists>q. r = Inr q \<and> cache_ok L q \<and> same_but_flag fd p q" for r
    using that a valid_fd_nat[OF v(1)] by (auto simp: same_but_flag_def own_buffer_def others_kept_def)
  then show "sat (own_buffer L fd z) (do_add_to_readlist L fd p)" "sat (own_buffer L fd z) (do_del_from_readlist L fd p)"
    using add_read.upd_law[OF assms(1) v(2,1)] del_read.upd_law[OF assms(1) v(2,1)] by blast+
qed

lemma own_buffer_read:
  assumes L: "nlist_laws L" and a: "own_buffer L fd z p"
  shows "sat (\<lambda>(r, p1). own_buffer L fd z p1) (handle_read L fd p)"
proof -
  note up = own_buffer_upd[where L = L and fd = fd and z = z]
  have map: "sat (\<lambda>(r, p1). own_buffer L fd z p1) (map_rbf n fd p)" for n
    unfolding map_rbf_def next_alloc_def
    by (rule sat_bind_any, rule sat_if, rule sat_bind_any, rule sat_prod, rule sat_bind[OF up])
      (use a in \<open>auto split: list.splits intro: own_buffer_io\<close>)
  have more: "sat (\<lambda>(r, p1). own_buffer L fd z p1) (recv_more L cap fd p)" if p: "own_buffer L fd z p" for cap p
    unfolding recv_more_def
    by (rule sat_bind_any, rule sat_let, rule sat_if, simp add: p, rule sat_bind_any, rule sat_prod, rule sat_prod, rule sat_bind_any,
        rule sat_bind[OF up], rule own_buffer_io[OF p], simp, simp, rule sat_if, simp, rule sat_bind_any, rule sat_bind[OF up], assumption,
        rule sat_bind[where Q = "own_buffer L fd z"]) (auto intro: own_buffer_lists[OF L])
  show ?thesis unfolding handle_read_def by (rule sat_bind[OF map], rule sat_prod, rule sat_if) (auto intro: more)
qed

lemma read_fails_client:
  assumes E: "sys_laws L S G i A g cap" and c: "client_ok L i cap m fd" and rd: "handle_read L fd (m\<lparr>p_recvs := rs\<rparr>) = Inr (r, m1)"
  shows "own_buffer L fd m m1" "p_setting m1 = p_setting m" "p_works m1 = p_works m"
proof -
  have "own_buffer L fd m m" using client_valid[OF c] by (simp add: own_buffer_def others_kept_def)
  then have "own_buffer L fd m (m\<lparr>p_recvs := rs\<rparr>)" by (rule own_buffer_io) simp_all
  from own_buffer_read[OF sys_lawsD(1)[OF E] this] rd show "own_buffer L fd m m1" by (auto dest: satD)
  show "p_setting m1 = p_setting m" "p_works m1 = p_works m" using handle_read_conn[OF rd] by (simp_all add: only_conn_def)
qed

lemma held_count: "mq.holds q h acc del \<Longrightarrow> mq_blk_cnt q = int (length acc) - int (length del)"
  using mq.front_rel[of q] mq_relD(3)[of q] by (cases h) (fastforce simp: mq.holds_def)+

lemma close_client:
  assumes E: "sys_laws L S G i A g cap" and m: "valid_fd m fd" "cache_ok L m" "w_type (wrap_of m fd) \<noteq> fd_type_null" "w_idx (wrap_of m fd) = i"
    "is_cint fd" and q: "q_holds m i h sent del"
  obtains r m1 where "do_fd_close L S fd 1 m = Inr (0, m1)" "q_holds m1 i h (after_push r (close_msg i fd) sent) del"
    "others_kept fd m m1" "cache_ok L m1" "p_setting m1 = p_setting m" "valid_msg (close_msg i fd)"
    "queued i m m1 \<longleftrightarrow> r = 0"
proof -
  have v: "valid_msg (fst (close_msg i fd), [])" using close_msg_valid[OF sys_lawsD(4)[OF E] m(5)] by (simp add: close_msg_def)
  obtain r ws where w: "push_rq i (fst (close_msg i fd)) [] m = Inr (r, m\<lparr>p_works := ws\<rparr>)"
    "q_holds (m\<lparr>p_works := ws\<rparr>) i h (after_push r (fst (close_msg i fd), []) sent) del"
    using push_rq_holds[OF q v] by blast
  have c: "cache_ok L (m\<lparr>p_works := ws\<rparr>)" "valid_fd (m\<lparr>p_works := ws\<rparr>) fd"
    using m cache_ok_cong(1)[of "m\<lparr>p_works := ws\<rparr>" m L] by (simp_all add: valid_fd_def)
  obtain m1 where m1: "do_fd_close L S fd 1 m = Inr (0, m1)" "closed fd (m\<lparr>p_works := ws\<rparr>) m1" "cache_ok L m1"
    using do_fd_close_after[OF sys_lawsD(1)[OF E] c(1) m(1) c(2) m(3), of 1 S] w(1) m(4) by (auto simp: close_msg_def)
  have "q_holds m1 = q_holds (m\<lparr>p_works := ws\<rparr>)" using m1(2) by (intro q_holds_works) (simp add: closed_def)
  then have h1: "q_holds m1 i h (after_push r (close_msg i fd) sent) del" using w(2) by (simp add: close_msg_def)
  have "queued i m m1 \<longleftrightarrow> r = 0"
    using q h1 held_count[of _ h sent del] held_count[of _ h "after_push r (close_msg i fd) sent" del]
    by (cases "r = 0") (auto simp: queued_def q_holds_def after_push_def)
  then show thesis using that[OF m1(1) h1] m1(2,3) v by (simp add: closed_def close_msg_def others_kept_def)
qed

section \<open>A new client\<close>

text \<open>
  What \<open>do_fd_open\<close> leaves, when it returns a descriptor: a client without bytes, whose opening is queued; or, when the queue is full, one the
  worker is not told of, and the listening descriptor is closed, which the queue may have room for.
\<close>

lemma close_mode: "k \<noteq> 0 \<Longrightarrow> do_fd_close L S fd k p = do_fd_close L S fd 1 p"
  unfolding do_fd_close_def by (simp only: if_True not_False_eq_True one_neq_zero)

lemma next_ctl_works: "next_ctl p = Inr (r, p1) \<Longrightarrow> p_works p1 = p_works p \<and> p_setting p1 = p_setting p"
  by (auto simp: next_ctl_def split: list.splits)

lemma fold_close_works: "p_works (fold (\<lambda>c. eff (EClose c)) cs p) = p_works p \<and> p_setting (fold (\<lambda>c. eff (EClose c)) cs p) = p_setting p"
  by (induction cs arbitrary: p) simp_all

lemma add_cli_effect:
  assumes "add_fdinfo_to_epinfo fd idx fd_type_cli ip port p = Inr (r, p1)" and "r \<noteq> - 1"
  shows "valid_fd p fd" "p_works p1 = p_works p" "p_setting p1 = p_setting p" "others_kept fd p p1"
    "w_type (wrap_of p1 fd) = fd_type_cli" "w_idx (wrap_of p1 fd) = idx" "w_addr (wrap_of p1 fd) = \<lparr>addr_ip = ip, addr_port = port\<rparr>"
    "buff_of p1 fd = empty_buff"
proof -
  let ?w = "\<lambda>w. w\<lparr>w_type := fd_type_cli, w_idx := idx, w_fd := fd, w_addr := \<lparr>addr_ip = ip, addr_port = port\<rparr>, w_flag := 0, w_buff := empty_buff\<rparr>"
  obtain b p0 where p0: "next_ctl (eff (ECtlAdd fd (reg_events fd_type_cli)) (eff (ENonblock fd) p)) = Inr (b, p0)" "valid_fd p0 fd"
    and p1: "p1 = (p0\<lparr>p_fds := (p_fds p0)[nat fd := ?w (wrap_of p0 fd)]\<rparr>)\<lparr>p_seq := p_seq p0 + 1, p_maxfd := (if p_maxfd p0 < fd then fd else p_maxfd p0)\<rparr>"
    using assms by (auto simp: add_fdinfo_to_epinfo_def rbind_Inr_iff upd_fdw_def fdw_Inr_iff split: if_splits)
  have e: "p_fds p0 = p_fds p" "p_works p0 = p_works p" "p_setting p0 = p_setting p"
    using next_ctl_io[OF p0(1)] next_ctl_works[OF p0(1)] by simp_all
  note n = valid_fd_nat[OF p0(2)]
  show "valid_fd p fd" using p0(2) e(1) by (simp add: valid_fd_def)
  show "p_works p1 = p_works p" "p_setting p1 = p_setting p" "others_kept fd p p1"
    "w_type (wrap_of p1 fd) = fd_type_cli" "w_idx (wrap_of p1 fd) = idx" "w_addr (wrap_of p1 fd) = \<lparr>addr_ip = ip, addr_port = port\<rparr>"
    "buff_of p1 fd = empty_buff" using e n by (simp_all add: p1 others_kept_def)
qed

text \<open>Up to the push of the opening.\<close>

lemma open_told:
  assumes E: "sys_laws L S G i A g cap" and l: "open_fd m l" "w_idx (wrap_of m l) = i" and lo: "lists_ok L m" and q: "q_holds m i h sent del"
    and op: "do_fd_open L S l m = Inr (fd, m1)" and fd: "0 < fd" "is_cint fd"
  obtains pr ip port p3 where "pr = 0 \<or> pr = - 1" "q_holds p3 i h (after_push pr (open_msg i fd ip port) sent) del" "lists_ok L p3"
    "p_setting p3 = p_setting m" "others_kept fd m p3" "valid_fd m fd" "w_type (wrap_of p3 fd) = fd_type_cli" "w_idx (wrap_of p3 fd) = i"
    "buff_of p3 fd = empty_buff" "fd \<noteq> l" "if pr = - 1 then \<exists>z. do_fd_close L S l 2 p3 = Inr (z, m1) else m1 = p3"
proof -
  obtain nb p0 ip port cl as r p2 pr p3 where n0: "next_ctl m = Inr (nb, p0)"
    and no: "\<not> open_fd (fold (\<lambda>c. eff (EClose c)) cl (p0\<lparr>p_accepts := as\<rparr>)) fd"
    and add: "add_fdinfo_to_epinfo fd (w_idx (wrap_of (fold (\<lambda>c. eff (EClose c)) cl (p0\<lparr>p_accepts := as\<rparr>)) l)) fd_type_cli ip port
      (fold (\<lambda>c. eff (EClose c)) cl (p0\<lparr>p_accepts := as\<rparr>)) = Inr (r, p2)" "r \<noteq> - 1"
    and push: "push_rq (w_idx (wrap_of p2 fd)) \<lparr>blk_id = w_idx (wrap_of p2 fd), blk_fd = fd, blk_type = blk_code BLK_OPEN,
      blk_len = blk_head_len + fd_addr_len\<rparr> (enc_addr (w_addr (wrap_of p2 fd))) p2 = Inr (pr, p3)"
    and cl: "if pr = - 1 then \<exists>z. do_fd_close L S l 2 p3 = Inr (z, m1) else m1 = p3"
    using op fd(1) by (auto simp: do_fd_open_def rbind_Inr_iff fdw_Inr_iff Let_def split: if_splits)
  define p1 where "p1 = fold (\<lambda>c. eff (EClose c)) cl (p0\<lparr>p_accepts := as\<rparr>)"
  have e1: "p_fds p1 = p_fds m" "p_links p1 = p_links m" "p_works p1 = p_works m" "p_setting p1 = p_setting m"
    using fold_close_io[of cl "p0\<lparr>p_accepts := as\<rparr>"] fold_close_works[of cl "p0\<lparr>p_accepts := as\<rparr>"] next_ctl_io[OF n0] next_ctl_works[OF n0]
    by (simp_all add: p1_def)
  note p2 = add_cli_effect[OF add(1)[folded p1_def] add(2)]
  have "lists_ok L p2" using satD[OF add_cli_step[OF lists_ok_io[OF lo e1(1,2)]] add(1)[folded p1_def]] no by (simp add: p1_def lists_step_def)
  moreover have i2: "w_idx (wrap_of p2 fd) = i" using p2(6) e1(1) l(2) by simp
  moreover have "q_holds p2 i h sent del" using q p2(2) e1(3) by (simp add: q_holds_def)
  then obtain ws where w: "p3 = p2\<lparr>p_works := ws\<rparr>" "pr = 0 \<or> pr = - 1" "q_holds p3 i h (after_push pr (open_msg i fd ip port) sent) del"
    using push_rq_holds[of p2 i h sent del "fst (open_msg i fd ip port)" "snd (open_msg i fd ip port)"] push i2 p2(7)
      open_msg_valid[OF sys_lawsD(4)[OF E] fd(2), of ip port] by (auto simp: open_msg_def)
  ultimately have "lists_ok L p3" using lists_ok_io[of L p2 p3] by simp
  moreover have "fd \<noteq> l" using no l(1) e1(1) by (auto simp: open_fd_def valid_fd_def p1_def)
  moreover have "others_kept fd m p3" "valid_fd m fd" using p2(1,4) w(1) e1(1) by (simp_all add: others_kept_def valid_fd_def)
  ultimately show thesis using that[of pr p3 ip port] w p2(3,5,8) i2 e1(4) cl by simp
qed

lemma open_client:
  assumes E: "sys_laws L S G i A g cap" and l: "open_fd m l" "w_type (wrap_of m l) = fd_type_listen" "w_idx (wrap_of m l) = i" "is_cint l"
    and lo: "lists_ok L m" and st: "max_buf_len (p_setting m) = cap" and q: "q_holds m i h sent del"
    and op: "do_fd_open L S l m = Inr (fd, m1)" and fd: "0 < fd" "is_cint fd"
  obtains ms where "q_holds m1 i h (sent @ ms) del" "client_ok L i cap m1 fd" "unread m1 fd = []" "msglen (buff_of m1 fd) = 0"
    "p_setting m1 = p_setting m" "\<And>j. valid_fd m j \<Longrightarrow> j \<noteq> fd \<Longrightarrow> j \<noteq> l \<Longrightarrow> wrap_of m1 j = wrap_of m j \<and> valid_fd m1 j"
    "list_all valid_msg ms" "(\<exists>ip port. ms = [open_msg i fd ip port]) \<or> ms = [] \<or> ms = [close_msg i l]"
proof -
  obtain pr ip port p3 where p3: "pr = 0 \<or> pr = - 1" "q_holds p3 i h (after_push pr (open_msg i fd ip port) sent) del" "lists_ok L p3"
    "p_setting p3 = p_setting m" "others_kept fd m p3" "valid_fd m fd" "w_type (wrap_of p3 fd) = fd_type_cli" "w_idx (wrap_of p3 fd) = i"
    "buff_of p3 fd = empty_buff" "fd \<noteq> l" "if pr = - 1 then \<exists>z. do_fd_close L S l 2 p3 = Inr (z, m1) else m1 = p3"
    by (rule open_told[OF E l(1,3) lo q op fd])
  have lo1: "lists_ok L m1" using satD[OF open_step[OF lo] op] by (simp add: lists_step_def)
  have v3: "valid_fd p3 fd" using p3(5,6) by (simp add: others_kept_def valid_fd_def)
  note k3 = wrap_kept[OF p3(5,6)]
  have new: "client_ok L i cap m1 fd \<and> unread m1 fd = [] \<and> msglen (buff_of m1 fd) = 0"
    if "wrap_of m1 fd = wrap_of p3 fd" "valid_fd m1 fd" "p_setting m1 = p_setting m"
    using that p3(7-9) lo1 sys_lawsD(1,5,6)[OF E] st fd(2)
    by (simp add: client_ok_def conn_ok_def lists_ok_def unread_def rbuff_ok_def empty_buff_def)
  show thesis
  proof (cases "pr = - 1")
    case False
    then have m1: "m1 = p3" using p3(11) by simp
    then show thesis using that[of "[open_msg i fd ip port]"] new v3 p3(1,2,4) False k3 open_msg_valid[OF sys_lawsD(4)[OF E] fd(2)]
      by (auto simp: after_push_def)
  next
    case True
    have h3: "q_holds p3 i h sent del" and c3: "cache_ok L p3" using p3(2,3) True by (simp_all add: after_push_def lists_ok_def)
    have vl: "valid_fd p3 l" "wrap_of p3 l = wrap_of m l" using k3[of l] l(1) p3(10) by (simp_all add: open_fd_def)
    obtain r4 m4 where m4: "do_fd_close L S l 1 p3 = Inr (0, m4)" "q_holds m4 i h (after_push r4 (close_msg i l) sent) del"
      "others_kept l p3 m4" "p_setting m4 = p_setting p3" "valid_msg (close_msg i l)"
      by (rule close_client[OF E vl(1) c3 _ _ l(4) h3]) (use vl(2) l(2,3) in auto)
    have m1: "m1 = m4" using p3(11) True m4(1) close_mode[of 2 L S l p3] by simp
    note k4 = wrap_kept[OF m4(3) vl(1), folded m1]
    define ms where "ms = (if r4 = 0 then [close_msg i l] else [])"
    have "q_holds m1 i h (sent @ ms) del" using m4(2) m1 by (cases "r4 = 0") (simp_all add: after_push_def ms_def)
    then show thesis using that[of ms] new k4[OF v3 p3(10)] m4(4,5) p3(4) m1 k3 k4 by (simp add: ms_def)
  qed
qed

end
