(* ===== verification/System_Refine.thy ===== *)
theory System_Refine
  imports System_Inv
begin

text \<open>
  Master and worker together: the invariant of the whole, with what each client, the queue and the worker contribute, and that the steps of
  the master keep it.
\<close>

section \<open>The invariant\<close>

fun at_of :: "work_at \<Rightarrow> int option" where
  "at_of W_idle = None" | "at_of (W_got a) = Some a" | "at_of (W_pop a) = Some a"

text \<open>The blocks the queue has given up: the one worked on last is still in it until it is popped.\<close>

fun gone_of :: "work_at \<Rightarrow> msg list \<Rightarrow> msg list" where
  "gone_of (W_pop a) xs = butlast xs" | "gone_of _ xs = xs"

text \<open>Of a client that is gone the blocks are the first messages its bytes are cut into.\<close>

definition past_ok :: "(byte list \<Rightarrow> int) \<Rightarrow> byte list list \<Rightarrow> byte list list list \<Rightarrow> bool" where
  "past_ok g = list_all2 (\<lambda>bs ds. \<exists>ys. fst (cut g 0 bs) = ds @ ys)"

lemma past_ok_snoc: "past_ok g bss dss \<Longrightarrow> fst (cut g 0 bs) = ds @ ys \<Longrightarrow> past_ok g (bss @ [bs]) (dss @ [ds])"
  by (auto simp: past_ok_def intro: list_all2_appendI)

definition client_inv :: "'l nlist \<Rightarrow> int \<Rightarrow> (byte list \<Rightarrow> int) \<Rightarrow> int \<Rightarrow> ('l, 'h) sys \<Rightarrow> msg list \<Rightarrow> int \<Rightarrow> bool" where
  "client_inv L i g cap s sent fd \<longleftrightarrow> past_ok g (sy_past s fd) (past_of fd sent) \<and>
     (if fd \<in> sy_live s then client_ok L i cap (sy_m s) fd \<and>
        (if \<exists>off. sy_cut s = Some (fd, off) then cut_ok g (sy_m s) fd (snd (the (sy_cut s))) (data_of fd sent) (sy_read s fd)
         else idle_ok g (sy_m s) fd (data_of fd sent) (sy_read s fd))
      else (\<exists>ys. fst (cut g 0 (sy_read s fd)) = data_of fd sent @ ys) \<and> (fd \<in> sy_new s \<longrightarrow> sy_read s fd = [] \<and> data_of fd sent = []))"

definition clients_inv :: "'l nlist \<Rightarrow> int \<Rightarrow> (byte list \<Rightarrow> int) \<Rightarrow> int \<Rightarrow> int set \<Rightarrow> ('l, 'h) sys \<Rightarrow> msg list \<Rightarrow> bool" where
  "clients_inv L i g cap F s sent \<longleftrightarrow> max_buf_len (p_setting (sy_m s)) = cap \<and> sy_lis s \<notin> F \<and> sy_live s \<subseteq> F \<and> sy_new s \<subseteq> F - sy_live s \<and> (\<forall>fd off. sy_cut s = Some (fd, off) \<longrightarrow> fd \<in> sy_live s) \<and>
     (\<forall>fd\<in>F. client_inv L i g cap s sent fd)"

definition queue_inv :: "int \<Rightarrow> ('l, 'h) sys \<Rightarrow> msg list \<Rightarrow> bool" where
  "queue_inv i s sent \<longleftrightarrow> q_holds (sy_m s) i (at_of (sy_at s)) sent (gone_of (sy_at s) (sy_done s)) \<and>
     i < int (length (p_works (sy_w s))) \<and> wk_rq (p_works (sy_w s) ! nat i) = wk_rq (p_works (sy_m s) ! nat i) \<and>
     (\<exists>pend. sent = sy_done s @ pend) \<and> (\<forall>a. sy_at s = W_pop a \<longrightarrow> sy_done s \<noteq> [])"

definition worker_inv :: "('h, int, fdsess) ghash \<Rightarrow> ('x, ('l, 'h) proc) lib_spec \<Rightarrow> int \<Rightarrow> (int \<rightharpoonup> fdsess) \<times> 'x \<Rightarrow>
    ('l, 'h) sys \<Rightarrow> msg list \<Rightarrow> bool" where
  "worker_inv G A i fx s sent \<longleftrightarrow> list_all valid_msg sent \<and> orderly i A fx sent \<and> sq_ready i (sy_w s) \<and>
     sess_ids i (sess_map G (sy_w s)) \<and> (sess_map G (sy_w s), lib_st A (sy_w s)) = foldl (serve A) fx (sy_done s) \<and>
     (\<forall>fd\<in>sy_new s. is_cint fd \<and> fst (foldl (serve A) fx sent) fd = None)"

text \<open>\<open>core_inv\<close> is about what the two processes share, \<open>sys_inv\<close> adds that the lists of the master are sound.\<close>

definition core_inv where
  "core_inv L G i A g cap F fx s \<longleftrightarrow> (\<exists>sent. clients_inv L i g cap F s sent \<and> queue_inv i s sent \<and> worker_inv G A i fx s sent)"

definition sys_inv where
  "sys_inv L G i A g cap F fx s \<longleftrightarrow> core_inv L G i A g cap F fx s \<and> lists_ok L (sy_m s)"

section \<open>Messages that open no client\<close>

abbreviation no_open :: "msg list \<Rightarrow> bool" where
  "no_open \<equiv> list_all (\<lambda>x. blk_type (fst x) \<noteq> blk_code BLK_OPEN)"

lemma orderly_append: "orderly i A fx (xs @ ys) \<longleftrightarrow> orderly i A fx xs \<and> orderly i A (foldl (serve A) fx xs) ys"
  by (induction i A fx xs rule: orderly.induct) auto

lemma orderly_no_open: "no_open xs \<Longrightarrow> orderly i A fx xs"
  by (induction i A fx xs rule: orderly.induct) auto

lemma serve_no_open: "no_open xs \<Longrightarrow> fst fx fd = None \<Longrightarrow> fst (foldl (serve A) fx xs) fd = None"
proof (induction xs arbitrary: fx)
  case (Cons x xs)
  obtain b d fm st where x: "x = (b, d)" "fx = (fm, st)" by (cases x, cases fx)
  have "fst (serve A fx x) fd = None" using Cons.prems x by (auto split: option.splits prod.splits)
  then show ?case using Cons by simp
qed simp

text \<open>A block that closes a client leaves no session of it.\<close>

lemma serve_closed: "fst (serve A fx (close_msg i fd)) fd = None"
  by (cases fx) (auto simp: close_msg_def split: option.splits)

lemma no_open_msgs: "no_open (map (data_msg i fd) ds)" "no_open [data_msg i fd d]" "no_open [close_msg i fd]"
  by (simp_all add: data_msg_def close_msg_def list_all_iff)

section \<open>Steps of the master\<close>

text \<open>What the worker sees of the master's steps: more in the queue.\<close>

lemma works_shared:
  assumes "share i p q = Inr q1" and "0 \<le> i"
  shows "\<exists>ws. q1 = q\<lparr>p_works := ws\<rparr> \<and> length ws = length (p_works q) \<and> i < int (length (p_works p)) \<and> i < int (length (p_works q)) \<and>
    wk_rq (ws ! nat i) = wk_rq (p_works p ! nat i) \<and> wk_sq (ws ! nat i) = wk_sq (p_works q ! nat i)"
proof -
  have i: "i < int (length (p_works p))" "i < int (length (p_works q))"
    using assms by (auto simp: share_def set_rq_def upd_work_def get_work_def rbind_Inr_iff split: if_splits)
  have n: "nat i < length (p_works q)" using i(2) assms(2) by simp
  show ?thesis using share_ok[OF assms(2) i] assms(1) i n
    by (intro exI[of _ "(p_works q)[nat i := (p_works q ! nat i)\<lparr>wk_rq := wk_rq (p_works p ! nat i)\<rparr>]"]) simp
qed

lemma master_step:
  assumes E: "sys_laws L S G i A g cap" and q: "queue_inv i s sent" and w: "worker_inv G A i fx s sent"
    and c: "clients_inv L i g cap F s' (sent @ ms)" and h: "q_holds (sy_m s') i (at_of (sy_at s)) (sent @ ms) (gone_of (sy_at s) (sy_done s))"
    and ms: "list_all valid_msg ms" "no_open ms" and sh: "share i (sy_m s') (sy_w s) = Inr (sy_w s')"
    and same: "sy_at s' = sy_at s" "sy_done s' = sy_done s"
    and new: "\<And>fd. fd \<in> sy_new s' \<Longrightarrow> fd \<in> sy_new s \<or> is_cint fd \<and> fst (foldl (serve A) fx (sent @ ms)) fd = None"
  shows "core_inv L G i A g cap F fx s'"
proof -
  have i: "0 \<le> i" using q by (auto simp: queue_inv_def q_holds_def)
  obtain ws where ws: "sy_w s' = (sy_w s)\<lparr>p_works := ws\<rparr>" "length ws = length (p_works (sy_w s))"
    "wk_rq (ws ! nat i) = wk_rq (p_works (sy_m s') ! nat i)" "wk_sq (ws ! nat i) = wk_sq (p_works (sy_w s) ! nat i)"
    using works_shared[OF sh i] by blast
  have "queue_inv i s' (sent @ ms)" using q h ws same by (auto simp: queue_inv_def)
  moreover have "worker_inv G A i fx s' (sent @ ms)"
  proof -
    have "lib_st A (sy_w s') = lib_st A (sy_w s)" using sys_lawsD(3)[OF E] ws(1) by (simp add: lib_laws_def)
    moreover have "sq_ready i (sy_w s') = sq_ready i (sy_w s)" using ws by (simp add: sq_ready_def sq_holds_def)
    moreover have "is_cint fd \<and> fst (foldl (serve A) fx (sent @ ms)) fd = None" if "fd \<in> sy_new s'" for fd
      using new[OF that] w serve_no_open[OF ms(2), of "foldl (serve A) fx sent" fd] by (auto simp: worker_inv_def)
    ultimately show ?thesis using w ws(1) ms same orderly_no_open[OF ms(2)]
      by (simp add: worker_inv_def sess_map_def orderly_append)
  qed
  ultimately show ?thesis using c unfolding core_inv_def by blast
qed

text \<open>The other clients through a step for one of them.\<close>

lemma others_inv:
  assumes c: "clients_inv L i g cap F s sent" and fd: "fd \<in> sy_live s" and o: "others_kept fd (sy_m s) (sy_m s')"
    and f: "cache_ok L (sy_m s')" "p_setting (sy_m s') = p_setting (sy_m s)"
    and cut: "\<And>j off. j \<noteq> fd \<Longrightarrow> sy_cut s = Some (j, off) \<or> sy_cut s' = Some (j, off) \<Longrightarrow> False"
    and s': "sy_live s' - {fd} = sy_live s - {fd}" "sy_new s' - {fd} = sy_new s - {fd}" "sy_lis s' = sy_lis s"
    "\<And>j. j \<noteq> fd \<Longrightarrow> sy_read s' j = sy_read s j \<and> sy_past s' j = sy_past s j"
    "\<And>j. j \<noteq> fd \<Longrightarrow> data_of j sent' = data_of j sent \<and> past_of j sent' = past_of j sent" and new: "fd \<in> sy_new s' \<Longrightarrow> fd \<notin> sy_live s'"
    and own: "fd \<in> F \<Longrightarrow> client_inv L i g cap s' sent' fd" and live: "\<And>off. sy_cut s' = Some (fd, off) \<Longrightarrow> fd \<in> sy_live s'"
  shows "clients_inv L i g cap F s' sent'"
proof -
  have F: "sy_live s \<subseteq> F" using c by (simp add: clients_inv_def)
  have v: "valid_fd (sy_m s) fd" using c fd F client_valid[of L i cap "sy_m s" fd] by (auto simp: clients_inv_def client_inv_def)
  have "client_inv L i g cap s' sent' j" if j: "j \<in> F" "j \<noteq> fd" for j
  proof -
    have cj: "client_inv L i g cap s sent j" using c j by (simp add: clients_inv_def)
    have l: "j \<in> sy_live s' \<longleftrightarrow> j \<in> sy_live s" "j \<in> sy_new s' \<longleftrightarrow> j \<in> sy_new s" using s'(1,2) j(2) by blast+
    have nc: "\<not> (\<exists>off. sy_cut s = Some (j, off))" "\<not> (\<exists>off. sy_cut s' = Some (j, off))" using cut[OF j(2)] by auto
    show ?thesis
    proof (cases "j \<in> sy_live s")
      case True
      then have "client_ok L i cap (sy_m s) j" using cj by (simp add: client_inv_def)
      from client_kept[OF this o v j(2) f] cj True nc l s'(4,5)[OF j(2)] show ?thesis by (simp add: client_inv_def)
    qed (use cj l s'(4,5)[OF j(2)] in \<open>simp add: client_inv_def\<close>)
  qed
  moreover have "sy_live s' \<subseteq> F" using s'(1) F fd by blast
  moreover have "max_buf_len (p_setting (sy_m s')) = cap" using f(2) c by (simp add: clients_inv_def)
  moreover have "sy_new s' \<subseteq> F - sy_live s'"
  proof
    fix j
    assume j: "j \<in> sy_new s'"
    show "j \<in> F - sy_live s'"
    proof (cases "j = fd")
      case False
      then have "j \<in> sy_new s" "j \<in> sy_live s' \<longleftrightarrow> j \<in> sy_live s" using j s'(1,2) by blast+
      then show ?thesis using c by (auto simp: clients_inv_def)
    qed (use new j fd F in blast)
  qed
  moreover have "j \<in> sy_live s'" if "sy_cut s' = Some (j, off)" for j off using cut[of j off] live that by (cases "j = fd") auto
  moreover have "sy_lis s' \<notin> F" using s'(3) c by (simp add: clients_inv_def)
  ultimately show ?thesis using own by (auto simp: clients_inv_def)
qed

lemma live_prefix: "client_inv L i g cap s sent fd \<Longrightarrow> \<exists>ys. fst (cut g 0 (sy_read s fd)) = data_of fd sent @ ys"
  by (auto simp: client_inv_def cut_ok_def idle_ok_def split: if_splits prod.splits)

lemma live_client: "clients_inv L i g cap F s sent \<Longrightarrow> fd \<in> sy_live s \<Longrightarrow> client_inv L i g cap s sent fd \<and> client_ok L i cap (sy_m s) fd"
proof -
  assume c: "clients_inv L i g cap F s sent" and fd: "fd \<in> sy_live s"
  then have "client_inv L i g cap s sent fd" by (auto simp: clients_inv_def)
  then show ?thesis using fd by (simp add: client_inv_def)
qed

lemma live_past: "clients_inv L i g cap F s sent \<Longrightarrow> fd \<in> sy_live s \<Longrightarrow> fd \<notin> sy_new s \<and> past_ok g (sy_past s fd) (past_of fd sent)"
  by (auto simp: clients_inv_def client_inv_def)

text \<open>Closing, whatever the reason: \<open>m0\<close> is the state before it, which may differ from the last one in what belongs to the connection.\<close>

lemma closing_step:
  assumes E: "sys_laws L S G i A g cap" and inv: "clients_inv L i g cap F s sent" "queue_inv i s sent" "worker_inv G A i fx s sent"
    and fd: "fd \<in> sy_live s" and cut: "\<And>j off. sy_cut s = Some (j, off) \<Longrightarrow> j = fd"
    and o: "others_kept fd (sy_m s) m0" and c: "cache_ok L m0" "w_type (wrap_of m0 fd) \<noteq> fd_type_null" "w_idx (wrap_of m0 fd) = i"
    "p_setting m0 = p_setting (sy_m s)" and h: "q_holds m0 i (at_of (sy_at s)) sent (gone_of (sy_at s) (sy_done s))"
    and cl: "do_fd_close L S fd 1 m0 = Inr (r, m1)" and sh: "share i m1 (sy_w s) = Inr w1"
  shows "core_inv L G i A g cap F fx (left_by (queued i m0 m1) fd (s\<lparr>sy_m := m1, sy_w := w1, sy_cut := None\<rparr>))"
proof -
  note own = live_client[OF inv(1) fd]
  have v: "valid_fd m0 fd" "is_cint fd" using own client_valid[OF conjunct2[OF own]] others_kept_valid[OF o] by (auto simp: client_ok_def)
  obtain r' m1' where m1': "do_fd_close L S fd 1 m0 = Inr (0, m1')"
    "q_holds m1' i (at_of (sy_at s)) (after_push r' (close_msg i fd) sent) (gone_of (sy_at s) (sy_done s))"
    "others_kept fd m0 m1'" "cache_ok L m1'" "p_setting m1' = p_setting m0" "valid_msg (close_msg i fd)" "queued i m0 m1' \<longleftrightarrow> r' = 0"
    by (rule close_client[OF E v(1) c(1,2,3) v(2) h])
  define ms where "ms = (if r' = 0 then [close_msg i fd] else [])"
  have ms: "after_push r' (close_msg i fd) sent = sent @ ms" by (simp add: ms_def after_push_def)
  have m: "m1' = m1" using m1'(1) cl by simp
  define s1 where "s1 = left_by (queued i m0 m1) fd (s\<lparr>sy_m := m1, sy_w := w1, sy_cut := None\<rparr>)"
  have new: "fd \<notin> sy_new s" using inv(1) fd by (auto simp: clients_inv_def)
  obtain ys where pre: "fst (cut g 0 (sy_read s fd)) = data_of fd sent @ ys" using live_prefix[OF conjunct1[OF own]] by blast
  have past: "past_ok g (sy_past s fd) (past_of fd sent)" using own by (simp add: client_inv_def)
  have "client_inv L i g cap s1 (sent @ ms) fd"
    using past_ok_snoc[OF past pre] past pre new m1'(7) m by (cases "r' = 0") (simp_all add: client_inv_def s1_def ms_def cut.simps)
  then have "clients_inv L i g cap F s1 (sent @ ms)"
    by (intro others_inv[OF inv(1) fd]) (use others_kept_trans[OF o m1'(3)] m1'(4,5) c(4) m cut new in \<open>auto simp: s1_def ms_def\<close>)
  moreover have "no_open ms" "list_all valid_msg ms" using m1'(6) no_open_msgs(3)[of i fd] by (simp_all add: ms_def)
  moreover have "fst (foldl (serve A) fx (sent @ [close_msg i fd])) fd = None" by (simp add: serve_closed)
  then have "j \<in> sy_new s \<or> is_cint j \<and> fst (foldl (serve A) fx (sent @ ms)) j = None" if "j \<in> sy_new s1" for j
    using that v(2) m1'(7) m by (auto simp: s1_def ms_def split: if_splits)
  ultimately have "core_inv L G i A g cap F fx s1"
    by (intro master_step[OF E inv(2,3), of F s1 ms]) (use m1'(2) ms m sh in \<open>simp_all add: s1_def\<close>)
  then show ?thesis by (simp add: s1_def)
qed

lemma read_step:
  assumes E: "sys_laws L S G i A g cap" and inv: "clients_inv L i g cap F s sent" "queue_inv i s sent" "worker_inv G A i fx s sent"
    and fd: "fd \<in> sy_live s" and cut: "sy_cut s = None"
    and rd: "handle_read L fd ((sy_m s)\<lparr>p_recvs := used @ rest\<rparr>) = Inr (r, m1)" "r \<noteq> - 1" "p_recvs m1 = rest"
  shows "core_inv L G i A g cap F fx (s\<lparr>sy_m := m1, sy_cut := Some (fd, 0), sy_read := (sy_read s)(fd := sy_read s fd @ recv_bytes used)\<rparr>)"
    (is "core_inv L G i A g cap F fx ?s")
proof -
  note own = live_client[OF inv(1) fd]
  have "idle_ok g (sy_m s) fd (data_of fd sent) (sy_read s fd)" using own fd cut by (simp add: client_inv_def)
  note m1 = read_client[OF E conjunct2[OF own] this rd]
  have "clients_inv L i g cap F ?s sent"
    by (rule others_inv[OF inv(1) fd]) (use m1 fd cut live_past[OF inv(1) fd] in \<open>auto simp: client_inv_def\<close>)
  moreover have "queue_inv i ?s sent" using inv(2) m1(6) q_holds_works[of m1 "sy_m s"] by (simp add: queue_inv_def)
  moreover have "worker_inv G A i fx ?s sent" using inv(3) by (simp add: worker_inv_def)
  ultimately show ?thesis unfolding core_inv_def by blast
qed

text \<open>A round of cutting: its outcome for the whole, and that it has one.\<close>

lemma cut_frame_others: "cut_frame fd m m1 \<Longrightarrow> cache_ok L m \<Longrightarrow> others_kept fd m m1 \<and> cache_ok L m1 \<and> p_setting m1 = p_setting m"
  using cache_ok_cong(1)[of m1 m L] by (simp add: cut_frame_def)

lemma more_step:
  assumes E: "sys_laws L S G i A g cap" and inv: "clients_inv L i g cap F s sent" "queue_inv i s sent" "worker_inv G A i fx s sent"
    and cut: "sy_cut s = Some (fd, off)" and f: "frame_step S SERV_MASTER (push_data (S, i, [])) fd off (sy_m s) = Inr (Cut_more o1, m1)"
    and sh: "share i m1 (sy_w s) = Inr w1"
  shows "core_inv L G i A g cap F fx (s\<lparr>sy_m := m1, sy_w := w1, sy_cut := Some (fd, o1)\<rparr>)" (is "core_inv L G i A g cap F fx ?s")
proof -
  have fd: "fd \<in> sy_live s" using inv(1) cut by (auto simp: clients_inv_def)
  note own = live_client[OF inv(1) fd]
  have co: "cut_ok g (sy_m s) fd off (data_of fd sent) (sy_read s fd)" using own fd cut by (simp add: client_inv_def)
  have h: "q_holds (sy_m s) i (at_of (sy_at s)) sent (gone_of (sy_at s) (sy_done s))" using inv(2) by (simp add: queue_inv_def)
  obtain d where d: "cut_frame fd (sy_m s) m1" "q_holds m1 i (at_of (sy_at s)) (sent @ [data_msg i fd d]) (gone_of (sy_at s) (sy_done s))"
    "valid_msg (data_msg i fd d)" "cut_ok g m1 fd o1 (data_of fd sent @ [d]) (sy_read s fd)" "client_ok L i cap m1 fd"
    by (rule cut_client[OF E conjunct2[OF own] co h]) (use f in auto)
  note o = cut_frame_others[OF d(1) conjunct2[OF client_valid[OF conjunct2[OF own]]]]
  have "clients_inv L i g cap F ?s (sent @ [data_msg i fd d])"
    by (rule others_inv[OF inv(1) fd]) (use d fd cut o live_past[OF inv(1) fd] in \<open>auto simp: client_inv_def\<close>)
  then show ?thesis
    by (rule master_step[OF E inv(2,3) _ _ _ no_open_msgs(2)[of i fd d]]) (use d(2,3) sh in simp_all)
qed

lemma rest_step:
  assumes E: "sys_laws L S G i A g cap" and inv: "clients_inv L i g cap F s sent" "queue_inv i s sent" "worker_inv G A i fx s sent"
    and cut: "sy_cut s = Some (fd, off)" and f: "frame_step S SERV_MASTER (push_data (S, i, [])) fd off (sy_m s) = Inr (Cut_rest o1, m1)"
  shows "\<exists>m2. keep_rest fd o1 m1 = Inr m2 \<and> i < int (length (p_works m2)) \<and> (\<forall>w1. share i m2 (sy_w s) = Inr w1 \<longrightarrow>
    core_inv L G i A g cap F fx (s\<lparr>sy_m := m2, sy_w := w1, sy_cut := None\<rparr>))"
proof -
  have fd: "fd \<in> sy_live s" using inv(1) cut by (auto simp: clients_inv_def)
  note own = live_client[OF inv(1) fd]
  have co: "cut_ok g (sy_m s) fd off (data_of fd sent) (sy_read s fd)" using own fd cut by (simp add: client_inv_def)
  have h: "q_holds (sy_m s) i (at_of (sy_at s)) sent (gone_of (sy_at s) (sy_done s))" using inv(2) by (simp add: queue_inv_def)
  obtain ds where d: "cut_frame fd (sy_m s) m1" "q_holds m1 i (at_of (sy_at s)) (sent @ map (data_msg i fd) ds) (gone_of (sy_at s) (sy_done s))"
    "list_all valid_msg (map (data_msg i fd) ds)" "window_ok m1 fd o1"
    "cut g 0 (sy_read s fd) = (data_of fd sent @ ds, window m1 fd o1, msglen (buff_of m1 fd))" "client_ok L i cap m1 fd"
    by (rule cut_client[OF E conjunct2[OF own] co h]) (use f in auto)
  note o = cut_frame_others[OF d(1) conjunct2[OF client_valid[OF conjunct2[OF own]]]]
  have "int (length (the (rbf (buff_of m1 fd)))) = cap" using d(4,6) by (auto simp: client_ok_def conn_ok_def rbuff_ok_def window_ok_def)
  from keep_rest_ok[OF d(4) this] obtain m2 where m2: "keep_rest fd o1 m1 = Inr m2" "unread m2 fd = window m1 fd o1"
    "rbuff_ok cap (buff_of m2 fd)" "msglen (buff_of m2 fd) = msglen (buff_of m1 fd)" "rbf (buff_of m2 fd) \<noteq> None" "only_buff fd m1 m2" by blast
  have v1: "valid_fd m1 fd" using d(4) by (simp add: window_ok_def)
  note f2 = only_buff_frame[OF m2(6) v1]
  have c2: "cache_ok L m2" using cache_ok_cong(1)[OF f2(2,3)] o by simp
  have s2: "p_setting m2 = p_setting m1" "p_works m2 = p_works m1" "w_idx (wrap_of m2 fd) = w_idx (wrap_of m1 fd)"
    using m2(6) valid_fd_nat[OF v1] by (auto simp: only_buff_def)
  have cl: "client_ok L i cap m2 fd" using d(6) m2 f2 c2 s2 others_kept_valid[OF f2(1)] by (auto simp: client_ok_def conn_ok_def)
  have "core_inv L G i A g cap F fx (s\<lparr>sy_m := m2, sy_w := w1, sy_cut := None\<rparr>)" if "share i m2 (sy_w s) = Inr w1" for w1
  proof -
    let ?s = "s\<lparr>sy_m := m2, sy_w := w1, sy_cut := None\<rparr>"
    have "clients_inv L i g cap F ?s (sent @ map (data_msg i fd) ds)"
      by (rule others_inv[OF inv(1) fd])
        (use d fd cut o live_past[OF inv(1) fd] m2 cl c2 s2 others_kept_trans[of fd "sy_m s" m1 m2] f2(1) in \<open>auto simp: client_inv_def idle_ok_def\<close>)
    moreover have "q_holds m2 = q_holds m1" using s2 by (intro q_holds_works)
    ultimately show ?thesis
      by (intro master_step[OF E inv(2,3) _ _ _ no_open_msgs(1)[of i fd ds]]) (use d(2,3) that in simp_all)
  qed
  moreover have "i < int (length (p_works m2))" using d(2) s2(2) by (simp add: q_holds_def)
  ultimately show ?thesis using m2(1) by blast
qed

text \<open>A new client: its opening comes after all that is queued, and its number is new to the worker.\<close>

lemma opened_orderly:
  assumes "orderly i A fx sent" and "fst (foldl (serve A) fx sent) fd = None"
    and ms: "(\<exists>ip port. ms = [open_msg i fd ip port]) \<or> ms = [] \<or> ms = [close_msg i l]"
  shows "orderly i A fx (sent @ ms)" "\<And>j. j \<noteq> fd \<Longrightarrow> fst (foldl (serve A) fx sent) j = None \<Longrightarrow> fst (foldl (serve A) fx (sent @ ms)) j = None"
    "\<And>j. j \<noteq> l \<Longrightarrow> data_of j (sent @ ms) = data_of j sent \<and> past_of j (sent @ ms) = past_of j sent"
proof -
  have "orderly i A (foldl (serve A) fx sent) ms"
    using assms(2,3) orderly_no_open[OF no_open_msgs(3)[of i l], of i A "foldl (serve A) fx sent"]
    by (cases "foldl (serve A) fx sent") (auto simp: open_msg_def enc_addr_def fd_addr_len_def)
  then show "orderly i A fx (sent @ ms)" using assms(1) by (simp add: orderly_append)
  show "fst (foldl (serve A) fx (sent @ ms)) j = None" if "j \<noteq> fd" "fst (foldl (serve A) fx sent) j = None" for j
    using assms(3) that serve_no_open[OF no_open_msgs(3), of "foldl (serve A) fx sent" j]
    by (cases "foldl (serve A) fx sent") (auto simp: open_msg_def)
  show "data_of j (sent @ ms) = data_of j sent \<and> past_of j (sent @ ms) = past_of j sent" if "j \<noteq> l" for j using ms that by auto
qed

lemma opened_clients:
  assumes c: "clients_inv L i g cap F s sent" and cut: "sy_cut s = None" and new: "fd \<in> sy_new s" and l: "w_type (wrap_of (sy_m s) l) = fd_type_listen"
    and nw: "client_ok L i cap m1 fd" "unread m1 fd = []" "msglen (buff_of m1 fd) = 0" and st: "p_setting m1 = p_setting (sy_m s)"
    and k: "\<And>j. valid_fd (sy_m s) j \<Longrightarrow> j \<noteq> fd \<Longrightarrow> j \<noteq> l \<Longrightarrow> wrap_of m1 j = wrap_of (sy_m s) j \<and> valid_fd m1 j"
    and ms: "\<And>j. j \<noteq> l \<Longrightarrow> data_of j (sent @ ms) = data_of j sent \<and> past_of j (sent @ ms) = past_of j sent" and lis: "l = sy_lis s"
  shows "clients_inv L i g cap F (s\<lparr>sy_m := m1, sy_w := w1, sy_live := insert fd (sy_live s), sy_new := sy_new s - {fd}\<rparr>) (sent @ ms)"
    (is "clients_inv L i g cap F ?s _")
proof -
  have c: "max_buf_len (p_setting (sy_m s)) = cap" "sy_live s \<subseteq> F" "sy_new s \<subseteq> F - sy_live s" "\<And>j. j \<in> F \<Longrightarrow> client_inv L i g cap s sent j" "l \<notin> F"
    using c lis by (simp_all add: clients_inv_def)
  have "client_inv L i g cap ?s (sent @ ms) j" if j: "j \<in> F" for j
  proof (cases "j = fd")
    case True
    have "sy_read s fd = []" "data_of fd sent = []" "past_ok g (sy_past s fd) (past_of fd sent)"
      using c(3) c(4)[of fd] new by (auto simp: client_inv_def)
    moreover have "fd \<noteq> l" using True j c(5) by blast
    ultimately show ?thesis using True nw ms[of fd] cut by (simp add: client_inv_def idle_ok_def cut.simps)
  next
    case False
    have "j \<noteq> l" using j c(5) by blast
    note ms = ms[OF this]
    show ?thesis
    proof (cases "j \<in> sy_live s")
      case True
      have cj: "client_ok L i cap (sy_m s) j" "idle_ok g (sy_m s) j (data_of j sent) (sy_read s j)" using c(4)[OF j] True cut by (simp_all add: client_inv_def)
      have p: "past_ok g (sy_past s j) (past_of j sent)" using c(4)[OF j] by (simp add: client_inv_def)
      have jl: "j \<noteq> l" "valid_fd (sy_m s) j" using cj(1) l by (auto simp: client_ok_def conn_ok_def)
      have w1: "wrap_of m1 j = wrap_of (sy_m s) j" "valid_fd m1 j" using k[OF jl(2) False jl(1)] by simp_all
      have "client_ok L i cap m1 j" using cj(1) w1 nw(1) by (simp add: client_ok_def conn_ok_def)
      moreover have "idle_ok g m1 j (data_of j sent) (sy_read s j)" using cj(2) w1(1) unread_cong[of m1 j "sy_m s"] by (simp add: idle_ok_def)
      ultimately show ?thesis using True False ms cut p by (simp add: client_inv_def)
    qed (use c(4)[OF j] False ms in \<open>auto simp: client_inv_def\<close>)
  qed
  moreover have "max_buf_len (p_setting m1) = cap" using st c(1) by simp
  ultimately show ?thesis using c(2,3,5) lis new cut by (auto simp: clients_inv_def)
qed

lemma opened_step:
  assumes E: "sys_laws L S G i A g cap" and inv: "clients_inv L i g cap F s sent" "queue_inv i s sent" "worker_inv G A i fx s sent"
    and lo: "lists_ok L (sy_m s)" and cut: "sy_cut s = None" and l: "open_fd (sy_m s) l" "w_type (wrap_of (sy_m s) l) = fd_type_listen"
    "w_idx (wrap_of (sy_m s) l) = i" "is_cint l" and op: "do_fd_open L S l ((sy_m s)\<lparr>p_accepts := as, p_ctls := cs\<rparr>) = Inr (fd, m1)"
    and fd: "0 < fd" and new: "fd \<in> sy_new s" and lis: "l = sy_lis s" and sh: "share i m1 (sy_w s) = Inr w1"
  shows "core_inv L G i A g cap F fx (s\<lparr>sy_m := m1, sy_w := w1, sy_live := insert fd (sy_live s), sy_new := sy_new s - {fd}\<rparr>)"
    (is "core_inv L G i A g cap F fx ?s")
proof -
  let ?m = "(sy_m s)\<lparr>p_accepts := as, p_ctls := cs\<rparr>"
  have w: "list_all valid_msg sent" "orderly i A fx sent" "sq_ready i (sy_w s)" "sess_ids i (sess_map G (sy_w s))"
    "(sess_map G (sy_w s), lib_st A (sy_w s)) = foldl (serve A) fx (sy_done s)"
    "\<forall>fd\<in>sy_new s. is_cint fd \<and> fst (foldl (serve A) fx sent) fd = None" using inv(3) by (simp_all add: worker_inv_def)
  have c: "max_buf_len (p_setting (sy_m s)) = cap" using inv(1) by (simp add: clients_inv_def)
  have q: "q_holds (sy_m s) i (at_of (sy_at s)) sent (gone_of (sy_at s) (sy_done s))" using inv(2) by (simp add: queue_inv_def)
  have lo': "lists_ok L ?m" by (rule lists_ok_io[OF lo]) simp_all
  have q': "q_holds ?m i (at_of (sy_at s)) sent (gone_of (sy_at s) (sy_done s))" using q by (simp add: q_holds_def)
  have l': "open_fd ?m l" using l(1) open_fd_cong[of ?m "sy_m s" l] by simp
  obtain ms where h: "q_holds m1 i (at_of (sy_at s)) (sent @ ms) (gone_of (sy_at s) (sy_done s))" and nw: "client_ok L i cap m1 fd" "unread m1 fd = []"
    "msglen (buff_of m1 fd) = 0" and st: "p_setting m1 = p_setting ?m"
    and k: "\<And>j. valid_fd ?m j \<Longrightarrow> j \<noteq> fd \<Longrightarrow> j \<noteq> l \<Longrightarrow> wrap_of m1 j = wrap_of ?m j \<and> valid_fd m1 j" and vm: "list_all valid_msg ms"
    and ms: "(\<exists>ip port. ms = [open_msg i fd ip port]) \<or> ms = [] \<or> ms = [close_msg i l]"
    by (rule open_client[OF E l' _ _ l(4) lo' _ q' op]) (use l(2,3) c w(6) fd new in simp_all)
  have nf: "fst (foldl (serve A) fx sent) fd = None" using w(6) new by blast
  note o1 = opened_orderly[OF w(2) nf ms]
  have "clients_inv L i g cap F ?s (sent @ ms)"
    by (rule opened_clients[OF inv(1) cut new l(2) nw]) (use st k o1(3) lis in \<open>simp_all add: valid_fd_def\<close>)
  moreover have "worker_inv G A i fx ?s (sent @ ms) \<and> queue_inv i ?s (sent @ ms)"
  proof -
    have i: "0 \<le> i" using q by (simp add: q_holds_def)
    obtain ws where ws: "w1 = (sy_w s)\<lparr>p_works := ws\<rparr>" "length ws = length (p_works (sy_w s))"
      "wk_rq (ws ! nat i) = wk_rq (p_works m1 ! nat i)" "wk_sq (ws ! nat i) = wk_sq (p_works (sy_w s) ! nat i)"
      using works_shared[OF sh i] by blast
    have "lib_st A w1 = lib_st A (sy_w s)" using sys_lawsD(3)[OF E] ws(1) by (simp add: lib_laws_def)
    moreover have "sq_ready i w1 = sq_ready i (sy_w s)" using ws by (simp add: sq_ready_def sq_holds_def)
    ultimately show ?thesis using w ws vm o1(1,2) h inv(2) by (auto simp: worker_inv_def queue_inv_def sess_map_def)
  qed
  ultimately show ?thesis unfolding core_inv_def by blast
qed

end
