(* ===== verification/System_Work.thy ===== *)
theory System_Work
  imports System_Refine
begin

text \<open>
  The steps of the worker, and the invariant of the whole system: it holds in every state that the two processes reach, whatever the order
  of their steps.
\<close>

section \<open>Steps of the worker\<close>

text \<open>Nothing the worker does reaches the connections of the master.\<close>

lemma clients_inv_worker:
  assumes "clients_inv L i g cap F s sent" and "share i w1 (sy_m s) = Inr m1" and "0 \<le> i"
  shows "clients_inv L i g cap F (s\<lparr>sy_m := m1, sy_w := w1, sy_at := t, sy_done := d\<rparr>) sent"
proof -
  obtain ws where m1: "m1 = (sy_m s)\<lparr>p_works := ws\<rparr>" using works_shared[OF assms(2,3)] by blast
  have "client_ok L i cap m1 fd = client_ok L i cap (sy_m s) fd" for fd
    using cache_ok_cong(1)[of m1 "sy_m s" L] by (simp add: m1 client_ok_def conn_ok_def valid_fd_def)
  moreover have b: "p_fds m1 = p_fds (sy_m s)" "valid_fd m1 = valid_fd (sy_m s)" by (simp_all add: m1 fun_eq_iff valid_fd_def)
  have "idle_ok g m1 fd xs bs = idle_ok g (sy_m s) fd xs bs" "cut_ok g m1 fd off xs bs = cut_ok g (sy_m s) fd off xs bs" for fd off xs bs
    by (simp_all only: b idle_ok_def cut_ok_def unread_def window_def window_ok_def)
  ultimately show ?thesis using assms(1) by (simp add: clients_inv_def client_inv_def m1)
qed

lemma worker_step:
  assumes c: "clients_inv L i g cap F s sent" and q: "queue_inv i s sent" and w: "worker_inv G A i fx s' sent"
    and s': "s' = s\<lparr>sy_m := m1, sy_w := w1, sy_at := t, sy_done := d\<rparr>" and sh: "share i w1 (sy_m s) = Inr m1"
    and h: "mq.holds (wk_rq (p_works w1 ! nat i)) (at_of t) sent (gone_of t d)" and d: "\<exists>pend. sent = d @ pend" "\<forall>a. t = W_pop a \<longrightarrow> d \<noteq> []"
  shows "core_inv L G i A g cap F fx s'"
proof -
  have i: "0 \<le> i" using q by (auto simp: queue_inv_def q_holds_def)
  obtain ws where m1: "m1 = (sy_m s)\<lparr>p_works := ws\<rparr>" "length ws = length (p_works (sy_m s))" "i < int (length (p_works w1))"
    "i < int (length (p_works (sy_m s)))" "wk_rq (ws ! nat i) = wk_rq (p_works w1 ! nat i)" using works_shared[OF sh i] by blast
  have "queue_inv i s' sent" using i m1 h d by (simp add: queue_inv_def q_holds_def s')
  then show ?thesis using clients_inv_worker[OF c sh i] w s' unfolding core_inv_def by blast
qed

text \<open>The worker's own copy of the queue is the queue.\<close>

lemma worker_queue:
  assumes "queue_inv i s sent"
  shows "get_work (sy_w s) i = Inr (p_works (sy_w s) ! nat i)" "0 \<le> i" "i < int (length (p_works (sy_w s)))" "i < int (length (p_works (sy_m s)))"
    "mq.holds (wk_rq (p_works (sy_w s) ! nat i)) (at_of (sy_at s)) sent (gone_of (sy_at s) (sy_done s))"
  using assms by (auto simp: queue_inv_def q_holds_def)

lemma worker_inv_queue:
  assumes E: "sys_laws L S G i A g cap" and w: "worker_inv G A i fx s sent" and i: "0 \<le> i" "i < int (length (p_works (sy_w s)))"
    and w1: "set_rq i q (sy_w s) = Inr w1" and s': "sy_w s' = w1" "sy_done s' = sy_done s" "sy_new s' = sy_new s"
  shows "worker_inv G A i fx s' sent" "wk_rq (p_works w1 ! nat i) = q" "length (p_works w1) = length (p_works (sy_w s))"
proof -
  obtain ws where ws: "w1 = (sy_w s)\<lparr>p_works := ws\<rparr>" "length ws = length (p_works (sy_w s))" "wk_rq (ws ! nat i) = q"
    "sq_ready i w1 \<longleftrightarrow> sq_ready i (sy_w s)" using set_rq_ok[OF i, of q] w1 by auto
  have "lib_st A w1 = lib_st A (sy_w s)" using sys_lawsD(3)[OF E] ws(1) by (simp add: lib_laws_def)
  then show "worker_inv G A i fx s' sent" using w ws s' by (simp add: worker_inv_def sess_map_def)
  show "wk_rq (p_works w1 ! nat i) = q" "length (p_works w1) = length (p_works (sy_w s))" using ws by simp_all
qed

lemma empty_step:
  assumes E: "sys_laws L S G i A g cap" and inv: "clients_inv L i g cap F s sent" "queue_inv i s sent" "worker_inv G A i fx s sent"
    and at: "sy_at s = W_idle" and k: "get_work (sy_w s) i = Inr k" and q: "mq_get (wk_rq k) = Inr (a, q)" and w1: "set_rq i q (sy_w s) = Inr w1"
    and sh: "share i w1 (sy_m s) = Inr m1" and t: "t = (case a of None \<Rightarrow> W_idle | Some a \<Rightarrow> W_got a)"
  shows "core_inv L G i A g cap F fx (s\<lparr>sy_m := m1, sy_w := w1, sy_at := t\<rparr>)"
proof -
  note wq = worker_queue[OF inv(2)]
  let ?s = "s\<lparr>sy_m := m1, sy_w := w1, sy_at := t, sy_done := sy_done s\<rparr>"
  have w: "worker_inv G A i fx ?s sent" "wk_rq (p_works w1 ! nat i) = q"
    using worker_inv_queue[OF E inv(3) wq(2,3) w1, of ?s] by simp_all
  have h: "mq.holds (wk_rq k) None sent (sy_done s)" using wq k at by simp
  have "mq.holds q (at_of t) sent (gone_of t (sy_done s))"
    using mq.holds_get_none[OF h] mq.holds_get_some[OF h] q t by (cases a) auto
  moreover have "\<exists>pend. sent = sy_done s @ pend" using inv(2) by (simp add: queue_inv_def)
  moreover have "\<forall>a. t \<noteq> W_pop a" using t by (cases a) auto
  ultimately have "core_inv L G i A g cap F fx ?s" by (intro worker_step[OF inv(1,2) w(1) refl sh]) (use w in simp_all)
  then show ?thesis by simp
qed

lemma block_step:
  assumes E: "sys_laws L S G i A g cap" and inv: "clients_inv L i g cap F s sent" "queue_inv i s sent" "worker_inv G A i fx s sent"
    and at: "sy_at s = W_got a" and k: "get_work (sy_w s) i = Inr k"
  obtains x w1 m1 where "read_msg (wk_rq k) a = Inr x" "do_blk G S i a (sy_w s) = Inr w1" "share i w1 (sy_m s) = Inr m1"
    "wk_rq (p_works w1 ! nat i) = wk_rq k"
    "core_inv L G i A g cap F fx (s\<lparr>sy_m := m1, sy_w := w1, sy_at := W_pop a, sy_done := sy_done s @ [x]\<rparr>)"
proof -
  note wq = worker_queue[OF inv(2)]
  let ?q = "wk_rq (p_works (sy_w s) ! nat i)"
  obtain b d pend where x: "sent = sy_done s @ (b, d) # pend" "mq_front ?q (b, d) pend" "blk_is ?q a (b, d)"
    using wq(5) at by (auto simp: mq.holds_def)
  have w: "list_all valid_msg sent" "orderly i A fx sent" "sq_ready i (sy_w s)" "sess_ids i (sess_map G (sy_w s))"
    "(sess_map G (sy_w s), lib_st A (sy_w s)) = foldl (serve A) fx (sy_done s)"
    "\<forall>fd\<in>sy_new s. is_cint fd \<and> fst (foldl (serve A) fx sent) fd = None" using inv(3) by (simp_all add: worker_inv_def)
  have o: "orderly i A (sess_map G (sy_w s), lib_st A (sy_w s)) [(b, d)]" using w(2,5) x(1) by (simp add: orderly_append)
  have v: "valid_msg (b, d)" using w(1) x(1) by simp
  obtain w1 where w1: "do_blk G S i a (sy_w s) = Inr w1" "served G A i (serve A (sess_map G (sy_w s), lib_st A (sy_w s)) (b, d)) (sy_w s) w1"
    using do_blk_served[OF sys_lawsD(2,3)[OF E] w(3,4) wq(2,3) sys_lawsD(4)[OF E] x(3) v o] by blast
  have len: "i < int (length (p_works w1))" "wk_rq (p_works w1 ! nat i) = ?q" using w1(2) wq(3) by (simp_all add: served_def)
  obtain m1 where sh: "share i w1 (sy_m s) = Inr m1" using share_ok[OF wq(2) len(1) wq(4)] by blast
  let ?s = "s\<lparr>sy_m := m1, sy_w := w1, sy_at := W_pop a, sy_done := sy_done s @ [(b, d)]\<rparr>"
  have "worker_inv G A i fx ?s sent" using w w1(2) serve_ids[OF w(4) o]
    by (auto simp: worker_inv_def served_def foldl_append prod_eq_iff)
  moreover have "mq.holds (wk_rq (p_works w1 ! nat i)) (Some a) sent (sy_done s)" using wq(5) at len(2) by simp
  ultimately have "core_inv L G i A g cap F fx ?s" by (intro worker_step[OF inv(1,2) _ refl sh]) (use x(1) in simp_all)
  moreover have "read_msg (wk_rq k) a = Inr (b, d)" "wk_rq (p_works w1 ! nat i) = wk_rq k" using x(3) wq(1) k len(2) by (auto simp: blk_is_def)
  ultimately show thesis using that w1(1) sh by blast
qed

lemma popped_step:
  assumes E: "sys_laws L S G i A g cap" and inv: "clients_inv L i g cap F s sent" "queue_inv i s sent" "worker_inv G A i fx s sent"
    and at: "sy_at s = W_pop a" and k: "get_work (sy_w s) i = Inr k" and q: "mq_pop (wk_rq k) = Inr q" and w1: "set_rq i q (sy_w s) = Inr w1"
    and sh: "share i w1 (sy_m s) = Inr m1"
  shows "core_inv L G i A g cap F fx (s\<lparr>sy_m := m1, sy_w := w1, sy_at := W_idle\<rparr>)"
proof -
  note wq = worker_queue[OF inv(2)]
  let ?s = "s\<lparr>sy_m := m1, sy_w := w1, sy_at := W_idle, sy_done := sy_done s\<rparr>"
  have w: "worker_inv G A i fx ?s sent" "wk_rq (p_works w1 ! nat i) = q"
    using worker_inv_queue[OF E inv(3) wq(2,3) w1, of ?s] by simp_all
  obtain pend where p: "sent = sy_done s @ pend" "sy_done s \<noteq> []" using inv(2) at by (auto simp: queue_inv_def)
  obtain ds x where d: "sy_done s = ds @ [x]" using p(2) by (cases "sy_done s" rule: rev_cases) auto
  have h: "mq.holds (wk_rq k) (Some a) sent ds" using wq k at d by simp
  then have "blk_is (wk_rq k) a x" using p(1) d by (auto simp: mq.holds_def)
  from mq.holds_pop[OF h this q] have "mq.holds q None sent (sy_done s)" using d by simp
  then have "core_inv L G i A g cap F fx ?s" by (intro worker_step[OF inv(1,2) w(1) refl sh]) (use w p in simp_all)
  then show ?thesis by simp
qed

lemma answered_step:
  assumes E: "sys_laws L S G i A g cap" and inv: "clients_inv L i g cap F s sent" "queue_inv i s sent" "worker_inv G A i fx s sent"
    and w1: "sq_holds w1 i ys" "upd_work i (\<lambda>k. k\<lparr>wk_sq := q\<rparr>) (sy_w s) = Inr w1"
  shows "core_inv L G i A g cap F fx (s\<lparr>sy_w := w1\<rparr>)"
proof -
  note wq = worker_queue[OF inv(2)]
  obtain ws where ws: "w1 = (sy_w s)\<lparr>p_works := ws\<rparr>" "length ws = length (p_works (sy_w s))" "wk_rq (ws ! nat i) = wk_rq (p_works (sy_w s) ! nat i)"
    using w1(2) wq(2,3) by (auto simp: upd_work_def rbind_Inr_iff)
  have "lib_st A w1 = lib_st A (sy_w s)" using sys_lawsD(3)[OF E] ws(1) by (simp add: lib_laws_def)
  moreover have "sq_ready i w1" using w1(1) by (auto simp: sq_ready_def)
  ultimately have "worker_inv G A i fx (s\<lparr>sy_w := w1\<rparr>) sent" using inv(3) ws(1) by (simp add: worker_inv_def sess_map_def)
  moreover have "queue_inv i (s\<lparr>sy_w := w1\<rparr>) sent" using inv(2) ws by (simp add: queue_inv_def)
  moreover have "clients_inv L i g cap F (s\<lparr>sy_w := w1\<rparr>) sent" using inv(1) by (simp add: clients_inv_def client_inv_def)
  ultimately show ?thesis unfolding core_inv_def by blast
qed

lemma other_step:
  assumes inv: "clients_inv L i g cap F s sent" "queue_inv i s sent" "worker_inv G A i fx s sent"
    and cut: "sy_cut s = None" and o: "same_conns L i (sy_live s) (sy_m s) m1"
  shows "core_inv L G i A g cap F fx (s\<lparr>sy_m := m1\<rparr>)"
proof -
  have "client_inv L i g cap (s\<lparr>sy_m := m1\<rparr>) sent fd" if fd: "fd \<in> F" for fd
  proof (cases "fd \<in> sy_live s")
    case True
    have c: "client_ok L i cap (sy_m s) fd" "idle_ok g (sy_m s) fd (data_of fd sent) (sy_read s fd)"
      using inv(1) fd True cut by (auto simp: clients_inv_def client_inv_def)
    have b: "rbf (buff_of m1 fd) = rbf (buff_of (sy_m s) fd)" "rlen (buff_of m1 fd) = rlen (buff_of (sy_m s) fd)"
      using o True by (simp_all add: same_conns_def)
    then have e: "unread m1 fd = unread (sy_m s) fd" "rbuff_ok cap (buff_of m1 fd) = rbuff_ok cap (buff_of (sy_m s) fd)"
      by (simp_all only: unread_def rbuff_ok_def)
    show ?thesis using c e o True cut live_past[OF inv(1) True] by (simp add: client_inv_def client_ok_def idle_ok_def conn_ok_def same_conns_def lists_ok_def)
  next
    case False
    then show ?thesis using inv(1) fd cut by (simp add: clients_inv_def client_inv_def)
  qed
  then have "clients_inv L i g cap F (s\<lparr>sy_m := m1\<rparr>) sent" using inv(1) o by (simp add: clients_inv_def same_conns_def)
  moreover have "queue_inv i (s\<lparr>sy_m := m1\<rparr>) sent" using inv(2) o by (simp add: queue_inv_def q_holds_def same_conns_def)
  moreover have "worker_inv G A i fx (s\<lparr>sy_m := m1\<rparr>) sent" using inv(3) by (simp add: worker_inv_def)
  ultimately show ?thesis unfolding core_inv_def by blast
qed

section \<open>Every step, and every run\<close>

lemma sys_same: "sy_at s = t \<Longrightarrow> s\<lparr>sy_m := m, sy_w := w, sy_at := t\<rparr> = s\<lparr>sy_m := m, sy_w := w\<rparr>"
  by (cases s) simp

lemma left_same: "sy_cut s = None \<Longrightarrow> left_by t fd (s\<lparr>sy_m := m, sy_w := w, sy_cut := None\<rparr>) = left_by t fd (s\<lparr>sy_m := m, sy_w := w\<rparr>)"
  by (cases s) simp

lemma gone_step:
  assumes E: "sys_laws L S G i A g cap" and inv: "clients_inv L i g cap F s sent" "queue_inv i s sent" "worker_inv G A i fx s sent"
    and cut: "sy_cut s = None" and fd: "fd \<in> sy_live s" and rd: "handle_read L fd ((sy_m s)\<lparr>p_recvs := rs\<rparr>) = Inr (r0, m1)"
    and cl: "do_fd_close L S fd 1 m1 = Inr (r, m2)" "share i m2 (sy_w s) = Inr w1"
  shows "core_inv L G i A g cap F fx (left_by (queued i m1 m2) fd (s\<lparr>sy_m := m2, sy_w := w1\<rparr>))"
proof -
  have own: "client_ok L i cap (sy_m s) fd" using live_client[OF inv(1) fd] by simp
  note m1 = read_fails_client[OF E own rd]
  have "q_holds m1 i (at_of (sy_at s)) sent (gone_of (sy_at s) (sy_done s))" using inv(2) q_holds_works[OF m1(3)] by (simp add: queue_inv_def)
  then show ?thesis using closing_step[OF E inv fd, of m1 r m2 w1] cut cl m1(1,2) own by (simp add: own_buffer_def client_ok_def left_same)
qed

lemma shut_step:
  assumes E: "sys_laws L S G i A g cap" and inv: "clients_inv L i g cap F s sent" "queue_inv i s sent" "worker_inv G A i fx s sent"
    and cut: "sy_cut s = None" and fd: "fd \<in> sy_live s" and cl: "do_fd_close L S fd 1 (sy_m s) = Inr (r, m1)" "share i m1 (sy_w s) = Inr w1"
  shows "core_inv L G i A g cap F fx (left_by (queued i (sy_m s) m1) fd (s\<lparr>sy_m := m1, sy_w := w1\<rparr>))"
proof -
  have own: "client_ok L i cap (sy_m s) fd" using live_client[OF inv(1) fd] by simp
  have "q_holds (sy_m s) i (at_of (sy_at s)) sent (gone_of (sy_at s) (sy_done s))" using inv(2) by (simp add: queue_inv_def)
  then show ?thesis using closing_step[OF E inv fd, of "sy_m s" r m1 w1] cut cl own client_valid[OF own] by (simp add: client_ok_def left_same)
qed

lemma refused_step:
  assumes E: "sys_laws L S G i A g cap" and inv: "clients_inv L i g cap F s sent" "queue_inv i s sent" "worker_inv G A i fx s sent"
    and cut: "sy_cut s = Some (fd, off)" and fr: "frame_step S SERV_MASTER (push_data (S, i, [])) fd off (sy_m s) = Inr (Cut_refused, m1)"
    and cl: "do_fd_close L S fd 1 m1 = Inr (r, m2)" "share i m2 (sy_w s) = Inr w1"
  shows "core_inv L G i A g cap F fx (left_by (queued i m1 m2) fd (s\<lparr>sy_m := m2, sy_w := w1, sy_cut := None\<rparr>))"
proof -
  have fd: "fd \<in> sy_live s" using inv(1) cut by (auto simp: clients_inv_def)
  note own = live_client[OF inv(1) fd]
  have co: "cut_ok g (sy_m s) fd off (data_of fd sent) (sy_read s fd)" using own fd cut by (simp add: client_inv_def)
  have h: "q_holds (sy_m s) i (at_of (sy_at s)) sent (gone_of (sy_at s) (sy_done s))" using inv(2) by (simp add: queue_inv_def)
  have f: "cut_frame fd (sy_m s) m1 \<and> q_holds m1 i (at_of (sy_at s)) sent (gone_of (sy_at s) (sy_done s)) \<and> w_idx (wrap_of m1 fd) = i"
    by (rule cut_client[OF E conjunct2[OF own] co h]) (use fr in auto)
  note o = cut_frame_others[OF conjunct1[OF f] conjunct2[OF client_valid[OF conjunct2[OF own]]]]
  show ?thesis using closing_step[OF E inv fd, of m1 r m2 w1] cut cl f o own by (simp add: cut_frame_def client_ok_def)
qed

lemma sys_step_core:
  assumes E: "sys_laws L S G i A g cap" and st: "sys_step L S G i s s'" and "sys_inv L G i A g cap F fx s"
  shows "core_inv L G i A g cap F fx s'"
proof -
  obtain sent where inv: "clients_inv L i g cap F s sent" "queue_inv i s sent" "worker_inv G A i fx s sent"
    using assms(3) by (auto simp: sys_inv_def core_inv_def)
  from st show ?thesis
  proof cases
    case (read fd used rest r m1)
    then show ?thesis using read_step[OF E inv, of fd used rest r m1] by simp
  next
    case (gone fd rs m1 r m2 w1)
    then show ?thesis using gone_step[OF E inv, of fd rs "- 1" m1 r m2 w1] by simp
  next
    case (shut fd r m1 w1)
    then show ?thesis using shut_step[OF E inv, of fd r m1 w1] by simp
  next
    case (more fd off o1 m1 w1)
    then show ?thesis using more_step[OF E inv] by simp
  next
    case (rest fd off o1 m1 m2 w1)
    then show ?thesis using rest_step[OF E inv rest(2,3)] by auto
  next
    case (refused fd off m1 r m2 w1)
    then show ?thesis using refused_step[OF E inv, of fd off m1 r m2 w1] by simp
  next
    case (opened cs as fd m1 w1)
    then show ?thesis using opened_step[OF E inv] assms(3) by (simp add: sys_inv_def)
  next
    case (other m1)
    then show ?thesis using other_step[OF inv] by simp
  next
    case (empty k q w1 m1)
    then show ?thesis using empty_step[OF E inv, of k None q w1 m1 W_idle] by (simp add: sys_same)
  next
    case (got k a q w1 m1)
    then show ?thesis using empty_step[OF E inv, of k "Some a" q w1 m1 "W_got a"] by simp
  next
    case (block a k x w1 m1)
    obtain x' w1' m1' where "read_msg (wk_rq k) a = Inr x'" "do_blk G S i a (sy_w s) = Inr w1'" "share i w1' (sy_m s) = Inr m1'"
      "wk_rq (p_works w1' ! nat i) = wk_rq k" "core_inv L G i A g cap F fx (s\<lparr>sy_m := m1', sy_w := w1', sy_at := W_pop a, sy_done := sy_done s @ [x']\<rparr>)"
      by (rule block_step[OF E inv block(2,3)])
    then show ?thesis using block by simp
  next
    case (popped a k q w1 m1)
    then show ?thesis using popped_step[OF E inv, of a k q w1 m1] by simp
  next
    case (answered w1 ys q)
    then show ?thesis using answered_step[OF E inv] by simp
  qed
qed

text \<open>The lists of the master.\<close>

lemma frame_step_lists:
  assumes "lists_ok L p" and "frame_step S k (push_data c) fd off p = Inr (e, p1)"
  shows "lists_ok L p1"
proof -
  have push: "lists_ok L q1" if "lists_ok L q" "push_rq i b d q = Inr (r, q1)" for q i b d r q1
    using satD[OF push_lists[OF that(1)] that(2)] by simp
  have cons: "lists_ok L q1" if "lists_ok L q" "consume fd off q = Inr (r, q1)" for q r q1
    using satD[OF lists.consume_inv[OF that(1)] that(2)] by simp
  obtain q where q: "get_length S k fd off p = Inr q" and r: "e = Cut_rest off \<and> p1 = q \<or> (\<exists>i b d r p2. push_rq i b d q = Inr (r, p2) \<and>
      (p1 = p2 \<or> (\<exists>o2. consume fd off p2 = Inr (o2, p1))))"
    using assms(2) by (fastforce simp: frame_step_def push_data_def rbind_Inr_iff split: if_splits)
  have "lists_ok L q" using satD[OF lists.get_length_inv[OF assms(1)] q] .
  then show ?thesis using r push cons by blast
qed

lemma own_open: "lists_ok L m \<Longrightarrow> client_ok L i cap m fd \<Longrightarrow> open_fd m fd"
  by (simp add: lists_ok_def ids_ok_def client_ok_def conn_ok_def open_fd_def)

lemma sys_step_lists:
  assumes st: "sys_step L S G i s s'" and inv: "sys_inv L G i A g cap F fx s" and i: "0 \<le> i"
  shows "lists_ok L (sy_m s')"
proof -
  have l: "lists_ok L (sy_m s)" using inv by (simp add: sys_inv_def)
  have o: "open_fd (sy_m s) fd" if "fd \<in> sy_live s" for fd
    using inv that live_client own_open[OF l] by (fastforce simp: sys_inv_def core_inv_def)
  have sh: "lists_ok L m1" if "share i w (sy_m s) = Inr m1" for w m1
    using works_shared[OF that i] lists_ok_io[OF l, of m1] by auto
  have rd: "lists_ok L m1" if "handle_read L fd ((sy_m s)\<lparr>p_recvs := rs\<rparr>) = Inr (r, m1)" "fd \<in> sy_live s" for fd rs r m1
  proof -
    have "lists_ok L ((sy_m s)\<lparr>p_recvs := rs\<rparr>)" by (rule lists_ok_io[OF l]) simp_all
    moreover have "open_fd ((sy_m s)\<lparr>p_recvs := rs\<rparr>) fd"
      using o[OF that(2)] open_fd_cong[of "(sy_m s)\<lparr>p_recvs := rs\<rparr>" "sy_m s" fd] by simp
    ultimately have "lists_ok L ((sy_m s)\<lparr>p_recvs := rs\<rparr>)" "open_fd ((sy_m s)\<lparr>p_recvs := rs\<rparr>) fd" .
    from satD[OF lists.read_inv[OF this] that(1)] show ?thesis by simp
  qed
  have cl: "lists_ok L m2" if "do_fd_close L S fd 1 m1 = Inr (r, m2)" "lists_ok L m1" for fd m1 r m2
    using satD[OF lists.close_inv[OF that(2)] that(1)] by simp
  have fr: "lists_ok L m1" if "frame_step S SERV_MASTER (push_data (S, i, [])) fd off (sy_m s) = Inr (e, m1)" for fd off e m1
    using frame_step_lists[OF l that] .
  from st show ?thesis
  proof cases
    case (rest fd off o1 m1 m2 w1)
    then show ?thesis using satD[OF lists.keep_rest_inv[OF fr[OF rest(3)]] rest(4)] by simp
  next
    case (opened cs as fd m1 w1)
    have "lists_ok L ((sy_m s)\<lparr>p_accepts := as, p_ctls := cs\<rparr>)" by (rule lists_ok_io[OF l]) simp_all
    from satD[OF open_step[OF this] opened(7)] show ?thesis using opened(1) by (simp add: lists_step_def)
  qed (use l sh rd cl fr in \<open>auto simp: same_conns_def\<close>)
qed

lemma sys_step_inv:
  assumes "sys_laws L S G i A g cap" and "sys_step L S G i s s'" and inv: "sys_inv L G i A g cap F fx s"
  shows "sys_inv L G i A g cap F fx s'"
proof -
  have "0 \<le> i" using inv by (auto simp: sys_inv_def core_inv_def queue_inv_def q_holds_def)
  then show ?thesis using sys_step_core[OF assms] sys_step_lists[OF assms(2,3)] by (simp add: sys_inv_def)
qed

lemma sys_run_inv: "sys_run L S G i s s' \<Longrightarrow> sys_laws L S G i A g cap \<Longrightarrow> sys_inv L G i A g cap F fx s \<Longrightarrow> sys_inv L G i A g cap F fx s'"
  by (induction rule: rtranclp_induct) (blast dest: sys_step_inv)+

end
