(* ===== verification/System_Runs.thy ===== *)
theory System_Runs
  imports System_Work
begin

text \<open>
  What follows for master and worker together, whatever the order of their steps: the state of the worker is that of the abstract server
  after the blocks it has worked on, which are the first messages of each client; no step faults; and the two can always get to a
  state where nothing is left to do. The handler of the worker is a sequence of steps, as that of the master is.
\<close>

section \<open>Start and rest\<close>

text \<open>
  Clients that have been accepted and not read from; in the queue there may be the blocks that open them. The worker is idle, its
  sessions and its library in the state \<open>fx\<close>. \<open>F\<close>: the descriptors of these clients and those that further clients can get, of which the
  worker has no session; the listening descriptor is none of them.
\<close>

definition sys_start :: "'l nlist \<Rightarrow> ('h, int, fdsess) ghash \<Rightarrow> int \<Rightarrow> ('x, ('l, 'h) proc) lib_spec \<Rightarrow> int \<Rightarrow> int set \<Rightarrow>
    (int \<rightharpoonup> fdsess) \<times> 'x \<Rightarrow> ('l, 'h) sys \<Rightarrow> bool" where
  "sys_start L G i A cap F fx s \<longleftrightarrow> sy_cut s = None \<and> sy_at s = W_idle \<and> sy_done s = [] \<and>
     F = sy_live s \<union> sy_new s \<and> sy_live s \<inter> sy_new s = {} \<and> (\<forall>fd\<in>F. sy_read s fd = [] \<and> sy_past s fd = []) \<and> sy_lis s \<notin> F \<and>
     lists_ok L (sy_m s) \<and> max_buf_len (p_setting (sy_m s)) = cap \<and>
     (\<forall>fd\<in>sy_live s. client_ok L i cap (sy_m s) fd \<and> unread (sy_m s) fd = [] \<and> msglen (buff_of (sy_m s) fd) = 0) \<and>
     (\<exists>opens. rq_holds (sy_m s) i opens \<and> list_all valid_msg opens \<and> orderly i A fx opens \<and> (\<forall>fd\<in>F. data_of fd opens = [] \<and> past_of fd opens = []) \<and>
        (\<forall>fd\<in>sy_new s. is_cint fd \<and> fst (foldl (serve A) fx opens) fd = None)) \<and>
     i < int (length (p_works (sy_w s))) \<and> wk_rq (p_works (sy_w s) ! nat i) = wk_rq (p_works (sy_m s) ! nat i) \<and>
     sq_ready i (sy_w s) \<and> sess_ids i (sess_map G (sy_w s)) \<and> (sess_map G (sy_w s), lib_st A (sy_w s)) = fx"

definition sys_quiet :: "int \<Rightarrow> ('l, 'h) sys \<Rightarrow> bool" where
  "sys_quiet i s \<longleftrightarrow> sy_cut s = None \<and> sy_at s = W_idle \<and> (\<exists>q. mq_get (wk_rq (p_works (sy_w s) ! nat i)) = Inr (None, q))"

lemma sys_start_inv: "sys_start L G i A cap F fx s \<Longrightarrow> sys_inv L G i A g cap F fx s"
proof -
  assume s: "sys_start L G i A cap F fx s"
  then obtain opens where o: "rq_holds (sy_m s) i opens" "list_all valid_msg opens" "orderly i A fx opens" "\<forall>fd\<in>F. data_of fd opens = [] \<and> past_of fd opens = []"
    "\<forall>fd\<in>sy_new s. is_cint fd \<and> fst (foldl (serve A) fx opens) fd = None"
    unfolding sys_start_def by blast
  have "clients_inv L i g cap F s opens"
    using s o(4) by (auto simp: sys_start_def clients_inv_def client_inv_def idle_ok_def past_ok_def cut.simps)
  moreover have "queue_inv i s opens" using s o(1) by (auto simp: sys_start_def queue_inv_def q_holds_def rq_holds_def mq.holds_def)
  moreover have "worker_inv G A i fx s opens" using s o(2,3,5) by (auto simp: sys_start_def worker_inv_def)
  moreover have "lists_ok L (sy_m s)" using s by (simp add: sys_start_def)
  ultimately show ?thesis unfolding sys_inv_def core_inv_def by blast
qed

section \<open>No call faults\<close>

text \<open>The worker, at each of its places.\<close>

lemma worker_no_fault:
  assumes E: "sys_laws L S G i A g cap" and "sys_inv L G i A g cap F fx s"
  shows "case sy_at s of W_idle \<Rightarrow> ok (mq_get (wk_rq (p_works (sy_w s) ! nat i)))
    | W_got a \<Rightarrow> ok (read_msg (wk_rq (p_works (sy_w s) ! nat i)) a) \<and> ok (do_blk G S i a (sy_w s))
    | W_pop a \<Rightarrow> ok (mq_pop (wk_rq (p_works (sy_w s) ! nat i)))"
proof -
  obtain sent where inv: "clients_inv L i g cap F s sent" "queue_inv i s sent" "worker_inv G A i fx s sent"
    using assms(2) by (auto simp: sys_inv_def core_inv_def)
  note wq = worker_queue[OF inv(2)]
  show ?thesis
  proof (cases "sy_at s")
    case (W_got a)
    obtain x w1 m1 where "read_msg (wk_rq (p_works (sy_w s) ! nat i)) a = Inr x" "do_blk G S i a (sy_w s) = Inr w1" "share i w1 (sy_m s) = Inr m1"
      "wk_rq (p_works w1 ! nat i) = wk_rq (p_works (sy_w s) ! nat i)" "core_inv L G i A g cap F fx (s\<lparr>sy_m := m1, sy_w := w1, sy_at := W_pop a, sy_done := sy_done s @ [x]\<rparr>)"
      by (rule block_step[OF E inv W_got wq(1)])
    then show ?thesis using W_got by (simp add: ok_def)
  qed (use mq.holds_no_fault[OF wq(5)] in simp_all)
qed

text \<open>The master in \<open>handle_cli\<close>: there is a next step, and the rest in front of it is not growing.\<close>

lemma cutting_goes_on:
  assumes E: "sys_laws L S G i A g cap" and "sys_inv L G i A g cap F fx s" and cut: "sy_cut s = Some (fd, off)"
  obtains e m1 where "frame_step S SERV_MASTER (push_data (S, i, [])) fd off (sy_m s) = Inr (e, m1)" "i < int (length (p_works m1))"
    "case e of Cut_more o1 \<Rightarrow> 0 < rlen (buff_of m1 fd) \<and> rlen (buff_of m1 fd) < rlen (buff_of (sy_m s) fd)
      | Cut_rest o1 \<Rightarrow> \<exists>m2. keep_rest fd o1 m1 = Inr m2 \<and> i < int (length (p_works m2))
      | Cut_refused \<Rightarrow> \<exists>m2. do_fd_close L S fd 1 m1 = Inr (0, m2) \<and> i < int (length (p_works m2))"
proof -
  obtain sent where inv: "clients_inv L i g cap F s sent" "queue_inv i s sent" "worker_inv G A i fx s sent"
    using assms(2) by (auto simp: sys_inv_def core_inv_def)
  have fd: "fd \<in> sy_live s" using inv(1) cut by (auto simp: clients_inv_def)
  note own = live_client[OF inv(1) fd]
  have co: "cut_ok g (sy_m s) fd off (data_of fd sent) (sy_read s fd)" using own fd cut by (simp add: client_inv_def)
  have h: "q_holds (sy_m s) i (at_of (sy_at s)) sent (gone_of (sy_at s) (sy_done s))" using inv(2) by (simp add: queue_inv_def)
  show thesis
  proof (rule cut_client[OF E conjunct2[OF own] co h], goal_cases)
    case (1 o1 m1 d)
    then show ?case using that[of "Cut_more o1" m1] by (simp add: q_holds_def cut_ok_def)
  next
    case (2 o1 m1 ds)
    from rest_step[OF E inv cut 2(1)] 2 show ?case using that[of "Cut_rest o1" m1] by (auto simp: q_holds_def)
  next
    case (3 m1)
    note o = cut_frame_others[OF 3(2) conjunct2[OF client_valid[OF conjunct2[OF own]]]]
    have v: "valid_fd m1 fd" "w_type (wrap_of m1 fd) \<noteq> fd_type_null" "is_cint fd"
      using 3(2) own client_valid[OF conjunct2[OF own]] others_kept_valid[OF conjunct1[OF o]] by (auto simp: cut_frame_def client_ok_def)
    obtain r m2 where "do_fd_close L S fd 1 m1 = Inr (0, m2)"
      "q_holds m2 i (at_of (sy_at s)) (after_push r (close_msg i fd) sent) (gone_of (sy_at s) (sy_done s))"
      by (rule close_client[OF E v(1) _ v(2) 3(4) v(3) 3(3)]) (use o in auto)
    then show ?case using that[of Cut_refused m1] 3 by (auto simp: q_holds_def)
  qed
qed

lemma closing_no_fault:
  assumes E: "sys_laws L S G i A g cap" and "sys_inv L G i A g cap F fx s" and fd: "fd \<in> sy_live s"
  shows "ok (do_fd_close L S fd 1 (sy_m s))"
proof -
  obtain sent where inv: "clients_inv L i g cap F s sent" "queue_inv i s sent"
    using assms(2) by (auto simp: sys_inv_def core_inv_def)
  have c: "client_ok L i cap (sy_m s) fd" using live_client[OF inv(1) fd] by simp
  have h: "q_holds (sy_m s) i (at_of (sy_at s)) sent (gone_of (sy_at s) (sy_done s))" using inv(2) by (simp add: queue_inv_def)
  have v: "valid_fd (sy_m s) fd" "cache_ok L (sy_m s)" "w_type (wrap_of (sy_m s) fd) \<noteq> fd_type_null" "w_idx (wrap_of (sy_m s) fd) = i"
    "is_cint fd" using c client_valid[OF c] by (simp_all add: client_ok_def)
  show ?thesis by (rule close_client[OF E v h]) (simp add: ok_def)
qed

section \<open>Getting to rest\<close>

text \<open>What a step of the worker is not about.\<close>

definition same_master :: "('l, 'h) sys \<Rightarrow> ('l, 'h) sys \<Rightarrow> bool" where
  "same_master s s1 \<longleftrightarrow> sy_cut s1 = sy_cut s \<and> sy_read s1 = sy_read s \<and> sy_past s1 = sy_past s \<and> sy_live s1 = sy_live s"

definition todo :: "int \<Rightarrow> ('l, 'h) sys \<Rightarrow> nat" where
  "todo i s = 3 * nat (mq_blk_cnt (wk_rq (p_works (sy_w s) ! nat i))) - (case sy_at s of W_idle \<Rightarrow> 0 | W_got a \<Rightarrow> 1 | W_pop a \<Rightarrow> 2)"

text \<open>The worker can leave the queue in any state of its own.\<close>

lemma queue_moves:
  assumes "queue_inv i s sent"
  shows "\<exists>s1. set_rq i q1 (sy_w s) = Inr (sy_w s1) \<and> share i (sy_w s1) (sy_m s) = Inr (sy_m s1) \<and>
    s1 = s\<lparr>sy_m := sy_m s1, sy_w := sy_w s1, sy_at := t\<rparr> \<and> wk_rq (p_works (sy_w s1) ! nat i) = q1"
proof -
  note wq = worker_queue[OF assms]
  obtain ws where ws: "set_rq i q1 (sy_w s) = Inr ((sy_w s)\<lparr>p_works := ws\<rparr>)" "length ws = length (p_works (sy_w s))" "wk_rq (ws ! nat i) = q1"
    using set_rq_ok[OF wq(2,3), of q1] by blast
  obtain m1 where "share i ((sy_w s)\<lparr>p_works := ws\<rparr>) (sy_m s) = Inr m1" using share_ok[OF wq(2) _ wq(4)] ws(2) wq(3) by force
  then show ?thesis using ws by (intro exI[of _ "s\<lparr>sy_m := m1, sy_w := (sy_w s)\<lparr>p_works := ws\<rparr>, sy_at := t\<rparr>"]) simp
qed

lemma worker_goes_on:
  assumes E: "sys_laws L S G i A g cap" and inv0: "sys_inv L G i A g cap F fx s"
    and busy: "\<not> (sy_at s = W_idle \<and> (\<exists>q. mq_get (wk_rq (p_works (sy_w s) ! nat i)) = Inr (None, q)))"
  shows "\<exists>s1. sys_step L S G i s s1 \<and> same_master s s1 \<and> todo i s1 < todo i s"
proof -
  obtain sent where inv: "clients_inv L i g cap F s sent" "queue_inv i s sent" "worker_inv G A i fx s sent"
    using inv0 by (auto simp: sys_inv_def core_inv_def)
  note wq = worker_queue[OF inv(2)]
  let ?q = "wk_rq (p_works (sy_w s) ! nat i)"
  have n: "mq_blk_cnt ?q = int (length sent) - int (length (gone_of (sy_at s) (sy_done s)))" by (rule held_count[OF wq(5)])
  note pops = queue_moves[OF inv(2)]
  show ?thesis
  proof (cases "sy_at s")
    case W_idle
    then obtain a q1 where q1: "mq_get ?q = Inr (Some a, q1)" using mq.holds_no_fault(2)[OF wq(5)] busy
      by (cases "mq_get ?q") (auto simp: ok_def)
    obtain s1 where s1: "set_rq i q1 (sy_w s) = Inr (sy_w s1)" "share i (sy_w s1) (sy_m s) = Inr (sy_m s1)"
      "s1 = s\<lparr>sy_m := sy_m s1, sy_w := sy_w s1, sy_at := W_got a\<rparr>" "wk_rq (p_works (sy_w s1) ! nat i) = q1" using pops by blast
    have h: "mq.holds q1 (Some a) sent (sy_done s)" using mq.holds_get_some[OF _ q1] wq(5) W_idle by simp
    then have "length (sy_done s) < length sent" by (auto simp: mq.holds_def)
    then have "todo i s1 < todo i s" using n held_count[OF h] W_idle s1(4) by (subst s1(3)) (simp add: todo_def)
    moreover have "sys_step L S G i s s1" using sys_step.got[OF W_idle wq(1) q1 s1(1,2)] s1(3) by simp
    moreover have "same_master s s1" by (subst s1(3)) (simp add: same_master_def)
    ultimately show ?thesis by blast
  next
    case (W_got a)
    obtain x w1 m1 where x: "read_msg ?q a = Inr x" "do_blk G S i a (sy_w s) = Inr w1" "share i w1 (sy_m s) = Inr m1" "wk_rq (p_works w1 ! nat i) = ?q"
      by (rule block_step[OF E inv W_got wq(1)])
    have "length (sy_done s) < length sent" using wq(5) W_got by (auto simp: mq.holds_def)
    then have "todo i (s\<lparr>sy_m := m1, sy_w := w1, sy_at := W_pop a, sy_done := sy_done s @ [x]\<rparr>) < todo i s"
      using n W_got x(4) by (simp add: todo_def)
    then show ?thesis using sys_step.block[OF W_got wq(1) x(1-3)] by (fastforce simp: same_master_def)
  next
    case (W_pop a)
    then obtain q1 where q1: "mq_pop ?q = Inr q1" using mq.holds_no_fault(3)[OF wq(5)]
      by (cases "mq_pop ?q") (auto simp: ok_def)
    obtain s1 where s1: "set_rq i q1 (sy_w s) = Inr (sy_w s1)" "share i (sy_w s1) (sy_m s) = Inr (sy_m s1)"
      "s1 = s\<lparr>sy_m := sy_m s1, sy_w := sy_w s1, sy_at := W_idle\<rparr>" "wk_rq (p_works (sy_w s1) ! nat i) = q1" using pops by blast
    obtain x where "blk_is ?q a x" and h0: "mq.holds ?q (Some a) sent (butlast (sy_done s))" using wq(5) W_pop by (auto simp: mq.holds_def)
    from mq.holds_pop[OF h0 this(1) q1] have h: "mq.holds q1 None sent (butlast (sy_done s) @ [x])" .
    have "length (butlast (sy_done s)) < length sent" using h0 by (auto simp: mq.holds_def)
    then have "todo i s1 < todo i s" using held_count[OF h] held_count[OF h0] W_pop s1(4) by (subst s1(3)) (simp add: todo_def)
    moreover have "sys_step L S G i s s1" using sys_step.popped[OF W_pop wq(1) q1 s1(1,2)] s1(3) by simp
    moreover have "same_master s s1" by (subst s1(3)) (simp add: same_master_def)
    ultimately show ?thesis by blast
  qed
qed

lemma worker_rests:
  assumes E: "sys_laws L S G i A g cap" and "sys_inv L G i A g cap F fx s" and "sy_cut s = None"
  shows "\<exists>s1. sys_run L S G i s s1 \<and> same_master s s1 \<and> sys_quiet i s1"
  using assms(2,3)
proof (induction "todo i s" arbitrary: s rule: less_induct)
  case less
  show ?case
  proof (cases "sys_quiet i s")
    case False
    then obtain s1 where s1: "sys_step L S G i s s1" "same_master s s1" "todo i s1 < todo i s"
      using worker_goes_on[OF E less.prems(1)] less.prems(2) by (auto simp: sys_quiet_def)
    then obtain s2 where "sys_run L S G i s1 s2" "same_master s1 s2" "sys_quiet i s2"
      using less.hyps[OF s1(3) sys_step_inv[OF E s1(1) less.prems(1)]] less.prems(2) by (auto simp: same_master_def)
    then show ?thesis using s1(1,2) converse_rtranclp_into_rtranclp[of "sys_step L S G i"] by (fastforce simp: same_master_def)
  qed (auto simp: same_master_def)
qed

text \<open>The bytes of all clients that had a descriptor, the last of them those of the client that has it, or had it last.\<close>

definition streams :: "('l, 'h) sys \<Rightarrow> int \<Rightarrow> byte list list" where
  "streams s fd = sy_past s fd @ [sy_read s fd]"

text \<open>Without another read: at most the client that was being cut is closed.\<close>

definition no_read :: "('l, 'h) sys \<Rightarrow> ('l, 'h) sys \<Rightarrow> bool" where
  "no_read s s1 \<longleftrightarrow> sy_live s - fst ` set_option (sy_cut s) \<subseteq> sy_live s1 \<and> sy_live s1 \<subseteq> sy_live s \<and>
     (\<forall>fd. streams s1 fd = streams s fd \<or> fd \<notin> sy_live s1 \<and> streams s1 fd = streams s fd @ [[]])"

lemma no_read_same: "streams s1 = streams s \<Longrightarrow> sy_live s1 = sy_live s \<Longrightarrow> no_read s s1"
  by (simp add: no_read_def)

lemma no_read_left: "sy_cut s = Some (fd, off) \<Longrightarrow> no_read s (left_by t fd (s\<lparr>sy_m := m, sy_w := w, sy_cut := None\<rparr>))"
  by (auto simp: no_read_def streams_def)

lemma master_rests:
  assumes E: "sys_laws L S G i A g cap" and "sys_inv L G i A g cap F fx s"
  shows "\<exists>s1. sys_run L S G i s s1 \<and> no_read s s1 \<and> sy_cut s1 = None"
  using assms(2)
proof (induction "case sy_cut s of None \<Rightarrow> 0 | Some (fd, off) \<Rightarrow> nat (rlen (buff_of (sy_m s) fd))" arbitrary: s rule: less_induct)
  case less
  show ?case
  proof (cases "sy_cut s")
    case (Some c)
    obtain fd off where c: "sy_cut s = Some (fd, off)" using Some by (cases c) auto
    obtain e m1 where f: "frame_step S SERV_MASTER (push_data (S, i, [])) fd off (sy_m s) = Inr (e, m1)" "i < int (length (p_works m1))"
      and e: "case e of Cut_more o1 \<Rightarrow> 0 < rlen (buff_of m1 fd) \<and> rlen (buff_of m1 fd) < rlen (buff_of (sy_m s) fd)
        | Cut_rest o1 \<Rightarrow> \<exists>m2. keep_rest fd o1 m1 = Inr m2 \<and> i < int (length (p_works m2))
        | Cut_refused \<Rightarrow> \<exists>m2. do_fd_close L S fd 1 m1 = Inr (0, m2) \<and> i < int (length (p_works m2))"
      by (rule cutting_goes_on[OF E less.prems c])
    have i: "0 \<le> i" "i < int (length (p_works (sy_w s)))" using less.prems by (auto simp: sys_inv_def core_inv_def dest: worker_queue(2,3))
    have sh: "\<exists>w1. share i m (sy_w s) = Inr w1" if "i < int (length (p_works m))" for m using share_ok[OF i(1) that i(2)] by blast
    show ?thesis
    proof (cases e)
      case (Cut_more o1)
      obtain w1 where w1: "share i m1 (sy_w s) = Inr w1" using sh[OF f(2)] by blast
      let ?s = "s\<lparr>sy_m := m1, sy_w := w1, sy_cut := Some (fd, o1)\<rparr>"
      have st: "sys_step L S G i s ?s" using sys_step.more[OF c _ w1] f(1) Cut_more by simp
      have "nat (rlen (buff_of m1 fd)) < nat (rlen (buff_of (sy_m s) fd))" using e Cut_more by simp
      then obtain s1 where "sys_run L S G i ?s s1" "no_read ?s s1" "sy_cut s1 = None"
        using less.hyps[OF _ sys_step_inv[OF E st less.prems]] c by auto
      then show ?thesis using c converse_rtranclp_into_rtranclp[of "sys_step L S G i", OF st]
        by (intro exI[of _ s1]) (simp add: no_read_def streams_def)
    next
      case (Cut_rest o1)
      then obtain m2 where m2: "keep_rest fd o1 m1 = Inr m2" "i < int (length (p_works m2))" using e by auto
      obtain w1 where "share i m2 (sy_w s) = Inr w1" using sh[OF m2(2)] by blast
      then have "sys_step L S G i s (s\<lparr>sy_m := m2, sy_w := w1, sy_cut := None\<rparr>)" using sys_step.rest[OF c _ m2(1)] f(1) Cut_rest by blast
      then show ?thesis
        by (intro exI[of _ "s\<lparr>sy_m := m2, sy_w := w1, sy_cut := None\<rparr>"]) (auto simp: streams_def intro!: no_read_same)
    next
      case Cut_refused
      then obtain m2 where m2: "do_fd_close L S fd 1 m1 = Inr (0, m2)" "i < int (length (p_works m2))" using e by auto
      obtain w1 where "share i m2 (sy_w s) = Inr w1" using sh[OF m2(2)] by blast
      then have "sys_step L S G i s (left_by (queued i m1 m2) fd (s\<lparr>sy_m := m2, sy_w := w1, sy_cut := None\<rparr>))"
        using sys_step.refused[OF c _ m2(1)] f(1) Cut_refused by blast
      then show ?thesis using no_read_left[OF c]
        by (intro exI[of _ "left_by (queued i m1 m2) fd (s\<lparr>sy_m := m2, sy_w := w1, sy_cut := None\<rparr>)"]) simp
    qed
  qed (auto intro: no_read_same)
qed

lemma system_rests:
  assumes E: "sys_laws L S G i A g cap" and inv: "sys_inv L G i A g cap F fx s"
  shows "\<exists>s1. sys_run L S G i s s1 \<and> no_read s s1 \<and> sys_quiet i s1"
proof -
  obtain s1 where s1: "sys_run L S G i s s1" "no_read s s1" "sy_cut s1 = None" using master_rests[OF E inv] by blast
  obtain s2 where s2: "sys_run L S G i s1 s2" "same_master s1 s2" "sys_quiet i s2"
    using worker_rests[OF E sys_run_inv[OF s1(1) E inv] s1(3)] by blast
  have "no_read s s2" using s1(2) s2(2) by (simp add: no_read_def same_master_def streams_def)
  then show ?thesis using s1(1) s2(1,3) rtranclp_trans[of "sys_step L S G i" s s1 s2] by blast
qed

text \<open>What the worker has had of each client, at any time; and at rest.\<close>

definition served_of :: "(byte list \<Rightarrow> int) \<Rightarrow> ('l, 'h) sys \<Rightarrow> int \<Rightarrow> bool" where
  "served_of g s fd \<longleftrightarrow> length (segs fd (sy_done s)) \<le> length (streams s fd) \<and>
     (\<forall>k<length (segs fd (sy_done s)). \<exists>ys. fst (cut g 0 (streams s fd ! k)) = segs fd (sy_done s) ! k @ ys)"

lemma client_streams:
  assumes "client_inv L i g cap s sent fd"
  shows "length (segs fd sent) = length (streams s fd) \<and>
    (\<forall>k<length (segs fd sent). \<exists>ys. fst (cut g 0 (streams s fd ! k)) = segs fd sent ! k @ ys)"
proof -
  have "past_ok g (sy_past s fd) (past_of fd sent)" using assms by (simp add: client_inv_def)
  moreover obtain ys where "fst (cut g 0 (sy_read s fd)) = data_of fd sent @ ys" using live_prefix[OF assms] by blast
  ultimately have "past_ok g (streams s fd) (segs fd sent)" unfolding streams_def segs_def by (rule past_ok_snoc)
  then show ?thesis by (auto simp: past_ok_def list_all2_conv_all_nth)
qed

lemma always_served:
  assumes "sys_inv L G i A g cap F fx s" and "fd \<in> F"
  shows "served_of g s fd"
proof -
  obtain sent where inv: "clients_inv L i g cap F s sent" "queue_inv i s sent" using assms(1) by (auto simp: sys_inv_def core_inv_def)
  obtain pend where p: "sent = sy_done s @ pend" using inv(2) by (auto simp: queue_inv_def)
  have m: "length (segs fd sent) = length (streams s fd)"
    "\<forall>k<length (segs fd sent). \<exists>ys. fst (cut g 0 (streams s fd ! k)) = segs fd sent ! k @ ys"
    using client_streams[of L i g cap s sent fd] inv(1) assms(2) by (auto simp: clients_inv_def)
  have d: "length (segs fd (sy_done s)) \<le> length (segs fd sent)"
    "\<forall>k<length (segs fd (sy_done s)). \<exists>ys. segs fd sent ! k = segs fd (sy_done s) ! k @ ys"
    using segs_mono[of fd "sy_done s" pend] p by (simp_all add: grown_def)
  have "\<exists>ys. fst (cut g 0 (streams s fd ! k)) = segs fd (sy_done s) ! k @ ys" if k: "k < length (segs fd (sy_done s))" for k
  proof -
    obtain y where y: "segs fd sent ! k = segs fd (sy_done s) ! k @ y" using d(2) k by blast
    obtain z where "fst (cut g 0 (streams s fd ! k)) = segs fd sent ! k @ z" using m(2) d(1) k by (meson order_less_le_trans)
    then show ?thesis using y by simp
  qed
  then show ?thesis using m(1) d(1) by (simp add: served_of_def)
qed

lemma quiet_exact:
  assumes "sys_inv L G i A g cap F fx s" and q: "sys_quiet i s" and fd: "fd \<in> sy_live s"
  shows "length (segs fd (sy_done s)) = length (streams s fd) \<and>
    cut g 0 (sy_read s fd) = (data_of fd (sy_done s), unread (sy_m s) fd, msglen (buff_of (sy_m s) fd))"
proof -
  obtain sent where inv: "clients_inv L i g cap F s sent" "queue_inv i s sent" using assms(1) by (auto simp: sys_inv_def core_inv_def)
  have "mq.holds (wk_rq (p_works (sy_w s) ! nat i)) None sent (sy_done s)" using worker_queue(5)[OF inv(2)] q by (simp add: sys_quiet_def)
  then have "sent = sy_done s" using q mq.get_none_rel by (auto simp: mq.holds_def sys_quiet_def)
  then show ?thesis using live_client[OF inv(1) fd] client_streams fd q by (fastforce simp: client_inv_def idle_ok_def sys_quiet_def)
qed

section \<open>The handler of the worker as a sequence of steps\<close>

lemma mq_recv_steps:
  assumes E: "sys_laws L S G i A g cap" and "sys_inv L G i A g cap F fx s" and "sy_at s = W_idle"
    and "handle_mq_recv G S n i (sy_w s) = Inr (r, w1)"
  shows "\<exists>m1 d. share i w1 (sy_m s) = Inr m1 \<and> sys_run L S G i s (s\<lparr>sy_m := m1, sy_w := w1, sy_done := sy_done s @ d\<rparr>)"
  using assms(2-4)
proof (induction n arbitrary: s)
  case (Suc n)
  have ok: "i < int (length (p_works (sy_w s))) \<and> i < int (length (p_works (sy_m s))) \<and> 0 \<le> i" if "sys_inv L G i A g cap F fx s" for s :: "('a, 'b) sys"
    using that by (auto simp: sys_inv_def core_inv_def dest: worker_queue)
  obtain k b q1 p1 where p1: "get_work (sy_w s) i = Inr k" "mq_get (wk_rq k) = Inr (b, q1)" "set_rq i q1 (sy_w s) = Inr p1"
    and rest: "(case b of None \<Rightarrow> Inr (0, p1) | Some a \<Rightarrow> rbind (do_blk G S i a p1) (\<lambda>p2. rbind (get_work p2 i) (\<lambda>k2.
      rbind (mq_pop (wk_rq k2)) (\<lambda>q2. rbind (set_rq i q2 p2) (\<lambda>p3. handle_mq_recv G S n i p3))))) = Inr (r, w1)"
    using Suc.prems(3) by (auto simp: rbind_Inr_iff)
  obtain m1 where m1: "share i p1 (sy_m s) = Inr m1" using share_ok[of i p1 "sy_m s"] ok[OF Suc.prems(1)] set_rq_ok[of i "sy_w s" q1] p1(3) by auto
  show ?case
  proof (cases b)
    case None
    then have "sys_step L S G i s (s\<lparr>sy_m := m1, sy_w := p1\<rparr>)" using sys_step.empty[OF Suc.prems(2) p1(1) _ p1(3) m1] p1(2) by blast
    then show ?thesis using None rest m1 by (intro exI[of _ m1] exI[of _ "[]"]) auto
  next
    case (Some a)
    obtain p2 k2 q2 p3 where p2: "do_blk G S i a p1 = Inr p2" "get_work p2 i = Inr k2" "mq_pop (wk_rq k2) = Inr q2" "set_rq i q2 p2 = Inr p3"
      "handle_mq_recv G S n i p3 = Inr (r, w1)" using rest Some by (auto simp: rbind_Inr_iff)
    let ?s1 = "s\<lparr>sy_m := m1, sy_w := p1, sy_at := W_got a\<rparr>"
    have st1: "sys_step L S G i s ?s1" using sys_step.got[OF Suc.prems(2) p1(1) _ p1(3) m1] p1(2) Some by blast
    note i1 = sys_step_inv[OF E st1 Suc.prems(1)]
    obtain k1 x where x: "get_work p1 i = Inr k1" "read_msg (wk_rq k1) a = Inr x"
      using worker_no_fault[OF E i1] ok[OF i1] by (auto simp: ok_def get_work_def split: sum.splits)
    have "i < int (length (p_works p2))" "0 \<le> i" using p2(2) ok[OF i1] by (auto simp: get_work_def split: if_splits)
    then obtain m2 where m2: "share i p2 m1 = Inr m2" using share_ok[of i p2 m1] ok[OF i1] by auto
    let ?s2 = "s\<lparr>sy_m := m2, sy_w := p2, sy_at := W_pop a, sy_done := sy_done s @ [x]\<rparr>"
    have st2: "sys_step L S G i ?s1 ?s2" using sys_step.block[of ?s1 a i k1 x G S p2 m2 L] x p2(1) m2 by simp
    note i2 = sys_step_inv[OF E st2 i1]
    obtain m3 where m3: "share i p3 m2 = Inr m3"
      using share_ok[of i p3 m2] set_rq_ok[of i p2 q2] ok[OF i2] p2(4) by auto
    let ?s3 = "s\<lparr>sy_m := m3, sy_w := p3, sy_done := sy_done s @ [x]\<rparr>"
    have "?s2\<lparr>sy_m := m3, sy_w := p3, sy_at := W_idle\<rparr> = ?s3" using Suc.prems(2) by (cases s) simp
    then have st3: "sys_step L S G i ?s2 ?s3" using sys_step.popped[of ?s2 a i k2 q2 p3 m3 L S G] p2(2-4) m3 by simp
    obtain m4 d where m4: "share i w1 m3 = Inr m4" "sys_run L S G i ?s3 (?s3\<lparr>sy_m := m4, sy_w := w1, sy_done := sy_done ?s3 @ d\<rparr>)"
      using Suc.IH[OF sys_step_inv[OF E st3 i2]] Suc.prems(2) p2(5) by auto
    have "sys_run L S G i s ?s3" using st1 st2 st3 by (meson converse_rtranclp_into_rtranclp rtranclp.rtrancl_refl)
    then have "sys_run L S G i s (s\<lparr>sy_m := m4, sy_w := w1, sy_done := sy_done s @ x # d\<rparr>)" using m4(2) rtranclp_trans by fastforce
    moreover have "share i w1 (sy_m s) = Inr m4" using m4(1) share_again[OF m3] share_again[OF m2] share_again[OF m1] by simp
    ultimately show ?thesis by blast
  qed
qed simp

section \<open>A call of \<open>handle_cli\<close> after which the client is closed\<close>

lemma push_again_closes:
  assumes E: "sys_laws L S G i A g cap" and "sys_inv L G i A g cap F fx s" and "sy_cut s = Some (fd, off)"
    and "push_again S n fd off (sy_m s) = Inr (None, m1)" and cl: "do_fd_close L S fd 1 m1 = Inr (r, m2)"
  shows "\<exists>w1. share i m2 (sy_w s) = Inr w1 \<and>
    sys_run L S G i s (left_by (queued i m1 m2) fd (s\<lparr>sy_m := m2, sy_w := w1, sy_cut := None\<rparr>))"
  using assms(2-4)
proof (induction n arbitrary: off s)
  case (Suc n)
  obtain e p1 where f: "frame_step S SERV_MASTER (push_data (S, i, [])) fd off (sy_m s) = Inr (e, p1)" "i < int (length (p_works p1))"
    and e1: "case e of Cut_more o1 \<Rightarrow> 0 < rlen (buff_of p1 fd) \<and> rlen (buff_of p1 fd) < rlen (buff_of (sy_m s) fd)
      | Cut_rest o1 \<Rightarrow> \<exists>m2. keep_rest fd o1 p1 = Inr m2 \<and> i < int (length (p_works m2))
      | Cut_refused \<Rightarrow> \<exists>m2. do_fd_close L S fd 1 p1 = Inr (0, m2) \<and> i < int (length (p_works m2))"
    by (rule cutting_goes_on[OF E Suc.prems(1,2)])
  have e: "(case e of Cut_more o1 \<Rightarrow> push_again S n fd o1 p1 | Cut_rest o1 \<Rightarrow> Inr (Some o1, p1) | Cut_refused \<Rightarrow> Inr (None, p1)) = Inr (None, m1)"
    using Suc.prems(3) push_again_round[of "(S, i, [])", unfolded fst_conv] f(1) by simp
  have i: "0 \<le> i" "i < int (length (p_works (sy_w s)))" using Suc.prems(1) by (auto simp: sys_inv_def core_inv_def dest: worker_queue(2,3))
  show ?case
  proof (cases e)
    case (Cut_more o2)
    obtain w1 where w1: "share i p1 (sy_w s) = Inr w1" using share_ok[OF i(1) f(2) i(2)] by blast
    let ?s = "s\<lparr>sy_m := p1, sy_w := w1, sy_cut := Some (fd, o2)\<rparr>"
    have st: "sys_step L S G i s ?s" using sys_step.more[OF Suc.prems(2) _ w1] f(1) Cut_more by simp
    obtain w2 where w2: "share i m2 w1 = Inr w2" "sys_run L S G i ?s (left_by (queued i m1 m2) fd (?s\<lparr>sy_m := m2, sy_w := w2, sy_cut := None\<rparr>))"
      using Suc.IH[of ?s o2, OF sys_step_inv[OF E st Suc.prems(1)]] e Cut_more by auto
    then show ?thesis using share_again[OF w1, of m2] converse_rtranclp_into_rtranclp[of "sys_step L S G i", OF st] by auto
  next
    case Cut_refused
    then have "p1 = m1" "i < int (length (p_works m2))" using e e1 cl by auto
    moreover from share_ok[OF i(1) this(2) i(2)] obtain w2 where "share i m2 (sy_w s) = Inr w2" by blast
    ultimately show ?thesis using sys_step.refused[OF Suc.prems(2)] f(1) Cut_refused cl by blast
  qed (use e in simp)
qed simp

lemma handle_cli_closes:
  assumes E: "sys_laws L S G i A g cap" and inv: "sys_inv L G i A g cap F fx s"
    and run: "handle_cli L S n fd ((sy_m s)\<lparr>p_recvs := used @ rest\<rparr>) = Inr (- 1, m1)" "p_recvs m1 = rest"
    and s: "sy_cut s = None" "fd \<in> sy_live s" and cl: "do_fd_close L S fd 1 m1 = Inr (r, m2)"
  shows "\<exists>w1 bs. share i m2 (sy_w s) = Inr w1 \<and> (bs = [] \<or> bs = recv_bytes used) \<and>
    sys_run L S G i s (left_by (queued i m1 m2) fd (s\<lparr>sy_m := m2, sy_w := w1, sy_read := (sy_read s)(fd := sy_read s fd @ bs)\<rparr>))"
proof -
  obtain sent where cq: "clients_inv L i g cap F s sent" "queue_inv i s sent" using inv by (auto simp: sys_inv_def core_inv_def)
  note wq = worker_queue[OF cq(2)]
  obtain r' m0 where rd: "handle_read L fd ((sy_m s)\<lparr>p_recvs := used @ rest\<rparr>) = Inr (r', m0)"
    using run(1) by (auto simp: handle_cli_def rbind_Inr_iff)
  show ?thesis
  proof (cases "r' = - 1")
    case True
    then have m: "m0 = m1" using run(1) rd by (simp add: handle_cli_def)
    have c: "client_ok L i cap (sy_m s) fd" using live_client[OF cq(1) s(2)] by simp
    note m1 = read_fails_client[OF E c rd, unfolded m]
    have h: "q_holds m1 i (at_of (sy_at s)) sent (gone_of (sy_at s) (sy_done s))"
      using cq(2) q_holds_works[OF m1(3)] by (simp add: queue_inv_def)
    have v: "valid_fd m1 fd" "cache_ok L m1" "w_type (wrap_of m1 fd) \<noteq> fd_type_null" "w_idx (wrap_of m1 fd) = i" "is_cint fd"
      using m1(1) c by (simp_all add: own_buffer_def client_ok_def)
    have "i < int (length (p_works m2))" by (rule close_client[OF E v h]) (use cl in \<open>simp add: q_holds_def\<close>)
    then obtain w1 where w1: "share i m2 (sy_w s) = Inr w1" using share_ok[OF wq(2) _ wq(3)] by blast
    have "sys_step L S G i s (left_by (queued i m1 m2) fd (s\<lparr>sy_m := m2, sy_w := w1\<rparr>))"
      using sys_step.gone[OF s _ cl w1] rd m True by simp
    moreover have "s\<lparr>sy_m := m2, sy_w := w1, sy_read := (sy_read s)(fd := sy_read s fd @ [])\<rparr> = s\<lparr>sy_m := m2, sy_w := w1\<rparr>" by simp
    ultimately show ?thesis using w1 by (intro exI[of _ w1] exI[of _ "[]"]) auto
  next
    case False
    then have cut: "push_again S n fd 0 m0 = Inr (None, m1)" using run(1) rd
      by (auto simp: handle_cli_def rbind_Inr_iff split: option.splits)
    have "p_recvs m0 = rest" using push_again_recvs[OF cut] run(2) by simp
    let ?s = "s\<lparr>sy_m := m0, sy_cut := Some (fd, 0), sy_read := (sy_read s)(fd := sy_read s fd @ recv_bytes used)\<rparr>"
    have st: "sys_step L S G i s ?s" using sys_step.read[OF s rd False \<open>p_recvs m0 = rest\<close>] by simp
    obtain w1 where w1: "share i m2 (sy_w s) = Inr w1"
      "sys_run L S G i ?s (left_by (queued i m1 m2) fd (?s\<lparr>sy_m := m2, sy_w := w1, sy_cut := None\<rparr>))"
      using push_again_closes[OF E sys_step_inv[OF E st inv] _ _ cl, of 0 n] cut by auto
    have "?s\<lparr>sy_m := m2, sy_w := w1, sy_cut := None\<rparr> =
        s\<lparr>sy_m := m2, sy_w := w1, sy_read := (sy_read s)(fd := sy_read s fd @ recv_bytes used)\<rparr>"
      using s(1) by simp
    then show ?thesis using converse_rtranclp_into_rtranclp[of "sys_step L S G i", OF st w1(2)] w1(1)
      by (intro exI[of _ w1] exI[of _ "recv_bytes used"]) auto
  qed
qed

end
