(* ===== verification/System_Example.thy ===== *)
theory System_Example
  imports System_Runs
begin

text \<open>
  An example of master and worker together: a client connects, gets the descriptor 2, and sends five bytes to a server whose messages have
  four, and whose library refuses each.
\<close>

section \<open>The master\<close>

definition demo_master :: "(lnode \<Rightarrow> lnode list, int \<rightharpoonup> fdsess) proc" where
  "demo_master = (demo_proc [zero_wrap, demo_wrap fd_type_listen 1 demo_buff, zero_wrap])\<lparr>p_allocs := [True]\<rparr>"

definition demo_told :: mem_queue where
  "demo_told = demo_queue\<lparr>mq_head := 31, mq_blk_cnt := 1, mq_notes := 1,
     mq_shm := replicate 12 0 @ enc_head (fst (open_msg 0 2 5 6)) @ snd (open_msg 0 2 5 6) @ replicate 33 0\<rparr>"

definition demo_opened :: "(lnode \<Rightarrow> lnode list, int \<rightharpoonup> fdsess) proc" where
  "demo_opened = demo_master\<lparr>p_fds := [zero_wrap, demo_wrap fd_type_listen 1 demo_buff, zero_wrap\<lparr>w_type := fd_type_cli, w_idx := 0, w_fd := 2,
     w_addr := \<lparr>addr_ip = 5, addr_port = 6\<rparr>, w_flag := 0, w_buff := empty_buff\<rparr>],
     p_works := [demo_work\<lparr>wk_rq := demo_told\<rparr>], p_seq := 1, p_trace := [ENonblock 2, ECtlAdd 2 (reg_events fd_type_cli)]\<rparr>"

lemma demo_add:
  "add_fdinfo_to_epinfo 2 0 fd_type_cli 5 6 (demo_master\<lparr>p_ctls := [True], p_accepts := []\<rparr>) =
     Inr (0, demo_master\<lparr>p_fds := [zero_wrap, demo_wrap fd_type_listen 1 demo_buff, zero_wrap\<lparr>w_type := fd_type_cli, w_idx := 0, w_fd := 2,
     w_addr := \<lparr>addr_ip = 5, addr_port = 6\<rparr>, w_flag := 0, w_buff := empty_buff\<rparr>], p_ctls := [], p_seq := 1, p_trace := [ENonblock 2, ECtlAdd 2 (reg_events fd_type_cli)]\<rparr>)"
  by (simp add: demo_master_def demo_proc_def add_fdinfo_to_epinfo_def next_ctl_def upd_fdw_def fdw_def valid_fd_def eff_def)



lemma demo_told_push: "mq_push demo_queue (fst (open_msg 0 2 5 6)) (snd (open_msg 0 2 5 6)) = Inr (0, demo_told)"
  by (simp add: demo_told_def demo_queue_def mq_push_def mq_push_round write_blk_def open_msg_def enc_head_def enc_addr_def le32_def
  memcpy_src_def load_def store_def mapped_def blk_head_len_def mem_head_len_def fd_addr_len_def numeral_eq_Suc is_cint_def Let_def)

lemma demo_open: "do_fd_open demo_nlist strict_serv 1 (demo_master\<lparr>p_accepts := [ADone 2 5 6], p_ctls := [True, True]\<rparr>) = Inr (2, demo_opened)"
proof -
  let ?m = "demo_master\<lparr>p_ctls := [True], p_accepts := []\<rparr>"
  have o: "\<not> open_fd ?m 2" "fdw ?m 1 = Inr (demo_wrap fd_type_listen 1 demo_buff)" by (simp_all add: demo_master_def open_fd_def fdw_def zero_wrap_def)
  have p: "push_rq 0 (fst (open_msg 0 2 5 6)) (snd (open_msg 0 2 5 6)) (demo_opened\<lparr>p_works := [demo_work]\<rparr>) = Inr (0, demo_opened)"
    using demo_told_push by (simp add: push_rq_def get_work_def upd_work_def demo_opened_def demo_work_def demo_master_def)
  have a: "add_fdinfo_to_epinfo 2 0 fd_type_cli 5 6 ?m = Inr (0, demo_opened\<lparr>p_works := [demo_work]\<rparr>)"
    using demo_add by (simp add: demo_opened_def demo_master_def demo_proc_def)
  have f: "fdw (demo_opened\<lparr>p_works := [demo_work]\<rparr>) 2 = Inr (wrap_of demo_opened 2)" "w_idx (wrap_of demo_opened 2) = 0"
    "w_addr (wrap_of demo_opened 2) = \<lparr>addr_ip = 5, addr_port = 6\<rparr>" by (simp_all add: demo_opened_def fdw_def)
  show ?thesis using o p[unfolded open_msg_def fst_conv snd_conv] a f
    by (simp add: do_fd_open_def next_ctl_def safe_tcp_accept_def Let_def)
qed

definition demo_got :: "(lnode \<Rightarrow> lnode list, int \<rightharpoonup> fdsess) proc" where
  "demo_got = demo_opened\<lparr>p_fds := [zero_wrap, demo_wrap fd_type_listen 1 demo_buff, (wrap_of demo_opened 2)\<lparr>w_buff :=
     empty_buff\<lparr>rbf := Some ([1, 2, 3, 4, 5] @ replicate 11 0), rlen := 5\<rparr>\<rparr>], p_allocs := [],
     p_trace := [ENonblock 2, ECtlAdd 2 (reg_events fd_type_cli), EMmap 16]\<rparr>"

lemma demo_read: "handle_read demo_nlist 2 (demo_opened\<lparr>p_recvs := [RData [1, 2, 3, 4, 5], RErr EAGAIN] @ []\<rparr>) = Inr (5, demo_got)"
  by (simp add: handle_read_def map_rbf_def recv_more_def Let_def safe_tcp_recv_n_def store_def is_cint_def do_del_from_readlist_def fdw_def
      upd_buff_def upd_fdw_def CACHE_READ_def numeral_eq_Suc next_alloc_def empty_buff_def demo_got_def eff_def
    demo_opened_def demo_master_def demo_proc_def demo_setting_def zero_wrap_def)

definition demo_full :: mem_queue where
  "demo_full = demo_told\<lparr>mq_head := 48, mq_blk_cnt := 2, mq_notes := 2,
     mq_shm := replicate 12 0 @ (enc_head (fst (open_msg 0 2 5 6)) @ snd (open_msg 0 2 5 6)) @ enc_head (fst (data_msg 0 2 [1, 2, 3, 4])) @ [1, 2, 3, 4] @ replicate 16 0\<rparr>"

lemma demo_push2: "mq_push demo_told (fst (data_msg 0 2 [1, 2, 3, 4])) ([1, 2, 3, 4, 5] @ replicate 11 0) = Inr (0, demo_full)"
  by (simp add: demo_full_def demo_told_def demo_queue_def mq_push_def mq_push_round write_blk_def open_msg_def data_msg_def enc_head_def enc_addr_def le32_def
  memcpy_src_def load_def store_def mapped_def blk_head_len_def mem_head_len_def fd_addr_len_def numeral_eq_Suc is_cint_def Let_def)

definition demo_cut_state :: "int \<Rightarrow> int \<Rightarrow> mem_queue \<Rightarrow> (lnode \<Rightarrow> lnode list, int \<rightharpoonup> fdsess) proc" where
  "demo_cut_state r n q = demo_got\<lparr>p_fds := [zero_wrap, demo_wrap fd_type_listen 1 demo_buff, (wrap_of demo_opened 2)\<lparr>w_buff :=
     empty_buff\<lparr>rbf := Some ([1, 2, 3, 4, 5] @ replicate 11 0), rlen := r, msglen := n\<rparr>\<rparr>], p_works := [demo_work\<lparr>wk_rq := q\<rparr>]\<rparr>"

lemma demo_round: "push_again strict_serv (Suc n) 2 0 demo_got = push_again strict_serv n 2 4 (demo_cut_state 1 0 demo_full)"
proof -
  have g: "get_length strict_serv SERV_MASTER 2 0 demo_got = Inr (demo_cut_state 5 4 demo_told)"
    by (simp add: get_length_def fdw_def at_ptr_def demo_got_def demo_cut_state_def strict_serv_def demo_serv_def upd_buff_def upd_fdw_def demo_opened_def demo_master_def empty_buff_def zero_wrap_def)
  have b: "raw2blk 2 (demo_cut_state 5 4 demo_told) = Inr (fst (data_msg 0 2 [1, 2, 3, 4]))"
    by (simp add: raw2blk_def fdw_def demo_cut_state_def demo_got_def demo_opened_def demo_master_def data_msg_def is_cint_def blk_head_len_def)
  have p: "push_rq 0 (fst (data_msg 0 2 [1, 2, 3, 4])) ([1, 2, 3, 4, 5] @ replicate 11 0) (demo_cut_state 5 4 demo_told) = Inr (0, demo_cut_state 5 4 demo_full)"
    using demo_push2 by (simp add: push_rq_def get_work_def upd_work_def demo_cut_state_def demo_got_def)
  have c: "consume 2 0 (demo_cut_state 5 4 demo_full) = Inr (4, demo_cut_state 1 0 demo_full)"
    by (simp add: consume_def fdw_def demo_cut_state_def demo_got_def demo_opened_def demo_master_def is_cint_def upd_buff_def upd_fdw_def)
  have f: "fdw (demo_cut_state r k q) 2 = Inr ((wrap_of demo_opened 2)\<lparr>w_buff := empty_buff\<lparr>rbf := Some ([1, 2, 3, 4, 5] @ replicate 11 0), rlen := r, msglen := k\<rparr>\<rparr>)" for r k q
    by (simp add: demo_cut_state_def demo_got_def fdw_def demo_opened_def demo_master_def)
  show ?thesis using g b p c f by (simp add: at_ptr_def demo_opened_def)
qed


lemma demo_round2: "push_again strict_serv (Suc n) 2 4 (demo_cut_state 1 0 demo_full) = Inr (Some 4, demo_cut_state 1 4 demo_full)"
proof -
  have f: "fdw (demo_cut_state r k q) 2 = Inr ((wrap_of demo_opened 2)\<lparr>w_buff := empty_buff\<lparr>rbf := Some ([1, 2, 3, 4, 5] @ replicate 11 0), rlen := r, msglen := k\<rparr>\<rparr>)" for r k q
    by (simp add: demo_cut_state_def demo_got_def fdw_def demo_opened_def demo_master_def)
  have g: "get_length strict_serv SERV_MASTER 2 4 (demo_cut_state 1 0 demo_full) = Inr (demo_cut_state 1 4 demo_full)"
    by (simp add: get_length_def fdw_def at_ptr_def demo_got_def demo_cut_state_def strict_serv_def demo_serv_def upd_buff_def upd_fdw_def demo_opened_def demo_master_def)
  show ?thesis using g f by simp
qed

lemma demo_call:
  "\<exists>m. handle_cli demo_nlist strict_serv 17 2 (demo_opened\<lparr>p_recvs := [RData [1, 2, 3, 4, 5], RErr EAGAIN] @ []\<rparr>) = Inr (0, m) \<and> p_recvs m = []"
proof -
  have "\<exists>m. keep_rest 2 4 (demo_cut_state 1 4 demo_full) = Inr m"
    by (simp add: keep_rest_def fdw_def demo_cut_state_def demo_got_def demo_opened_def demo_master_def at_ptr_def memcpy_src_def load_def store_def upd_buff_def upd_fdw_def)
  then obtain m where m: "keep_rest 2 4 (demo_cut_state 1 4 demo_full) = Inr m" ..
  have "p_recvs m = []" using keep_rest_works[OF m]
    by (simp add: demo_cut_state_def demo_got_def demo_opened_def demo_master_def demo_proc_def)
  moreover have "push_again strict_serv 17 2 0 demo_got = Inr (Some 4, demo_cut_state 1 4 demo_full)"
    using demo_round[of 16] demo_round2[of 15] by (simp del: push_again.simps)
  ultimately show ?thesis using demo_read m by (simp add: handle_cli_def)
qed

section \<open>The two processes\<close>

definition demo_sys :: "(lnode \<Rightarrow> lnode list, int \<rightharpoonup> fdsess) sys" where
  "demo_sys = \<lparr>sy_m = demo_master, sy_cut = None, sy_w = demo_proc [], sy_at = W_idle, sy_read = (\<lambda>_. []), sy_past = (\<lambda>_. []), sy_done = [],
     sy_live = {}, sy_new = {2}, sy_lis = 1\<rparr>"


lemma strict_serv_len: "msg_len_law strict_serv kind fd (\<lambda>_. 4)"
  by (simp add: msg_len_law_def len_law_def strict_serv_def demo_serv_def)

lemma demo_sys_laws: "sys_laws demo_nlist strict_serv demo_ghash 0 strict_lib (\<lambda>_. 4) 16"
  by (simp add: sys_laws_def demo_nlist_laws demo_ghash_laws strict_laws strict_serv_len is_cint_def MSG_MAX_def MQ_MAX_def)

lemma demo_master_lists: "lists_ok demo_nlist demo_master"
proof -
  have "lists_ok demo_nlist demo_listen" by (rule demo_listen_lists)
  then show ?thesis by (rule lists_ok_io) (simp_all add: demo_master_def demo_listen_def)
qed

lemma demo_sys_start: "sys_start demo_nlist demo_ghash 0 strict_lib 16 {2} (Map.empty, ()) demo_sys"
proof -
  have q: "rq_holds demo_master 0 []" by (simp add: rq_holds_def demo_master_def demo_work_def demo_queue_rel)
  have w: "sq_ready 0 (demo_proc [] :: (lnode \<Rightarrow> lnode list, int \<rightharpoonup> fdsess) proc)"
    by (auto simp: sq_ready_def sq_holds_def demo_work_def intro: demo_queue_rel)
  have s: "sess_map demo_ghash (demo_proc [] :: (lnode \<Rightarrow> lnode list, int \<rightharpoonup> fdsess) proc) = Map.empty"
    by (simp add: sess_map_def demo_ghash_def)
  have m: "max_buf_len (p_setting demo_master) = 16" "wk_rq (p_works demo_master ! 0) = wk_rq (p_works (demo_proc []) ! 0)"
    by (simp_all add: demo_master_def demo_setting_def)
  show ?thesis using q w s m demo_master_lists
    by (auto simp: sys_start_def demo_sys_def strict_lib_def sess_ids_def is_cint_def intro!: exI[of _ "[]"])
qed

lemmas demo_sys_inv = sys_start_inv[OF demo_sys_start, where g = "\<lambda>_. 4"]

text \<open>The client has connected, and its bytes have been read and cut.\<close>

lemma demo_sys_open:
  obtains w where "share 0 demo_opened (demo_proc []) = Inr w" "0 < length (p_works w)"
    "sys_step demo_nlist strict_serv demo_ghash 0 demo_sys (demo_sys\<lparr>sy_m := demo_opened, sy_w := w, sy_live := {2}, sy_new := {}\<rparr>)"
proof -
  have l: "open_fd demo_master 1" "w_type (wrap_of demo_master 1) = fd_type_listen" "w_idx (wrap_of demo_master 1) = 0"
    by (simp_all add: demo_master_def open_fd_def valid_fd_def)
  obtain w where w: "share 0 demo_opened (demo_proc []) = Inr w" "length (p_works w) = 1"
    using share_ok[of 0 demo_opened "demo_proc []"] by (auto simp: demo_opened_def)
  have "sys_step demo_nlist strict_serv demo_ghash 0 demo_sys (demo_sys\<lparr>sy_m := demo_opened, sy_w := w, sy_live := insert 2 (sy_live demo_sys),
      sy_new := sy_new demo_sys - {2}\<rparr>)"
    by (rule sys_step.opened[where as = "[ADone 2 5 6]" and cs = "[True, True]"])
      (use l w demo_open in \<open>simp_all add: demo_sys_def is_cint_def\<close>)
  then show thesis using that[OF w(1)] w(2) by (simp add: demo_sys_def)
qed

lemma demo_sys_run:
  obtains s where "sys_run demo_nlist strict_serv demo_ghash 0 demo_sys s" "sy_read s 2 = [1, 2, 3, 4, 5]" "sy_cut s = None" "sy_live s = {2}"
proof -
  obtain w where w: "0 < length (p_works w)"
    "sys_step demo_nlist strict_serv demo_ghash 0 demo_sys (demo_sys\<lparr>sy_m := demo_opened, sy_w := w, sy_live := {2}, sy_new := {}\<rparr>)"
    by (rule demo_sys_open)
  obtain m where m: "handle_cli demo_nlist strict_serv 17 2 (demo_opened\<lparr>p_recvs := [RData [1, 2, 3, 4, 5], RErr EAGAIN] @ []\<rparr>) = Inr (0, m)" "p_recvs m = []"
    using demo_call by blast
  let ?s = "demo_sys\<lparr>sy_m := demo_opened, sy_w := w, sy_live := {2}, sy_new := {}\<rparr>"
  have h: "handle_cli demo_nlist strict_serv 17 2 ((sy_m ?s)\<lparr>p_recvs := [RData [1, 2, 3, 4, 5], RErr EAGAIN] @ []\<rparr>) = Inr (0, m)"
    using m(1) by (simp add: demo_sys_def)
  have i: "sy_cut ?s = None" "2 \<in> sy_live ?s" "(0 :: int) \<le> 0" "0 < int (length (p_works (sy_m ?s)))" "0 < int (length (p_works (sy_w ?s)))"
    using w(1) by (simp_all add: demo_sys_def demo_opened_def)
  obtain w1 where "sys_run demo_nlist strict_serv demo_ghash 0 ?s (?s\<lparr>sy_m := m, sy_w := w1,
      sy_read := (sy_read ?s)(2 := sy_read ?s 2 @ recv_bytes [RData [1, 2, 3, 4, 5], RErr EAGAIN])\<rparr>)"
    using handle_cli_steps[OF h m(2) i] by blast
  then have "sys_run demo_nlist strict_serv demo_ghash 0 demo_sys (?s\<lparr>sy_m := m, sy_w := w1,
      sy_read := (sy_read ?s)(2 := sy_read ?s 2 @ recv_bytes [RData [1, 2, 3, 4, 5], RErr EAGAIN])\<rparr>)"
    by (rule converse_rtranclp_into_rtranclp[of "sys_step demo_nlist strict_serv demo_ghash 0", OF w(2)])
  then show thesis by (rule that) (simp_all add: demo_sys_def)
qed

lemma demo_sys_served:
  obtains s where "sys_run demo_nlist strict_serv demo_ghash 0 demo_sys s" "sy_read s 2 = [1, 2, 3, 4, 5]" "sys_quiet 0 s" "sy_live s = {2}"
proof -
  obtain s where s: "sys_run demo_nlist strict_serv demo_ghash 0 demo_sys s" "sy_read s 2 = [1, 2, 3, 4, 5]" "sy_cut s = None" "sy_live s = {2}"
    by (rule demo_sys_run)
  obtain s1 where s1: "sys_run demo_nlist strict_serv demo_ghash 0 s s1" "no_read s s1" "sys_quiet 0 s1"
    using system_rests[OF demo_sys_laws sys_run_inv[OF s(1) demo_sys_laws demo_sys_inv]] by auto
  have "sy_live s1 = {2}" "streams s1 2 = streams s 2" using s1(2) s(3,4) by (auto simp: no_read_def)
  then have "sy_live s1 = {2}" "sy_read s1 2 = sy_read s 2" by (simp_all add: streams_def)
  then show thesis using that[of s1] rtranclp_trans[OF s(1) s1(1)] s s1 by simp
qed

section \<open>The next client with the same descriptor\<close>

definition demo_shut :: mem_queue where
  "demo_shut = demo_told\<lparr>mq_head := 44, mq_blk_cnt := 2, mq_notes := 2,
     mq_shm := replicate 12 0 @ (enc_head (fst (open_msg 0 2 5 6)) @ snd (open_msg 0 2 5 6)) @ enc_head (fst (close_msg 0 2)) @ replicate 20 0\<rparr>"

lemma demo_shut_push: "mq_push demo_told (fst (close_msg 0 2)) [] = Inr (0, demo_shut)"
  by (simp add: demo_shut_def demo_told_def demo_queue_def mq_push_def mq_push_round write_blk_def open_msg_def close_msg_def enc_head_def enc_addr_def le32_def
  memcpy_src_def load_def store_def mapped_def blk_head_len_def mem_head_len_def fd_addr_len_def numeral_eq_Suc is_cint_def Let_def)

lemma demo_again_push: "\<exists>q. mq_push demo_shut (fst (open_msg 0 2 5 6)) (snd (open_msg 0 2 5 6)) = Inr (0, q)"
  by (simp add: demo_shut_def demo_told_def demo_queue_def mq_push_def mq_push_round write_blk_def open_msg_def close_msg_def enc_head_def enc_addr_def le32_def
  memcpy_src_def load_def store_def mapped_def blk_head_len_def mem_head_len_def fd_addr_len_def numeral_eq_Suc is_cint_def Let_def)

text \<open>The client leaves, and the next one gets its descriptor.\<close>

lemma demo_close:
  obtains m where "do_fd_close demo_nlist strict_serv 2 1 demo_opened = Inr (0, m)" "p_works m = [demo_work\<lparr>wk_rq := demo_shut\<rparr>]"
    "others_kept 2 demo_opened m" "w_type (wrap_of m 2) = fd_type_null"
proof -
  let ?p = "demo_opened\<lparr>p_works := [demo_work\<lparr>wk_rq := demo_shut\<rparr>]\<rparr>"
  have lo: "cache_ok demo_nlist demo_opened"
  proof -
    have "lists_ok demo_nlist (demo_master\<lparr>p_accepts := [ADone 2 5 6], p_ctls := [True, True]\<rparr>)"
      by (rule lists_ok_io[OF demo_master_lists]) simp_all
    from satD[OF open_step[OF this] demo_open] show ?thesis by (simp add: lists_step_def lists_ok_def)
  qed
  have c: "cache_ok demo_nlist ?p" using lo cache_ok_cong(1)[of ?p demo_opened demo_nlist] by simp
  have v: "valid_fd demo_opened 2" "valid_fd ?p 2" "w_type (wrap_of demo_opened 2) \<noteq> fd_type_null" "w_idx (wrap_of demo_opened 2) = 0"
    by (simp_all add: demo_opened_def valid_fd_def)
  have "push_rq 0 (fst (close_msg 0 2)) [] demo_opened = Inr (0, ?p)"
    using demo_shut_push by (simp add: push_rq_def get_work_def upd_work_def demo_opened_def)
  then obtain m where "do_fd_close demo_nlist strict_serv 2 1 demo_opened = Inr (0, m)" "closed 2 ?p m"
    using do_fd_close_after[OF demo_nlist_laws c v(1-3), of 1 strict_serv] v(4) by (auto simp: close_msg_def)
  then show thesis using that[of m] by (simp add: closed_def others_kept_def)
qed

lemma demo_reopen:
  assumes w: "p_works m = [demo_work\<lparr>wk_rq := demo_shut\<rparr>]" and o: "others_kept 2 demo_opened m" and n: "w_type (wrap_of m 2) = fd_type_null"
  shows "\<exists>m1. do_fd_open demo_nlist strict_serv 1 (m\<lparr>p_accepts := [ADone 2 5 6], p_ctls := [True, True]\<rparr>) = Inr (2, m1) \<and> length (p_works m1) = 1"
proof -
  have f: "length (p_fds m) = 3" "wrap_of m 1 = demo_wrap fd_type_listen 1 demo_buff" using o by (auto simp: others_kept_def demo_opened_def)
  obtain q where q: "mq_push demo_shut (fst (open_msg 0 2 5 6)) (snd (open_msg 0 2 5 6)) = Inr (0, q)" using demo_again_push by blast
  show ?thesis using w f n q
    by (simp add: do_fd_open_def next_ctl_def safe_tcp_accept_def Let_def add_fdinfo_to_epinfo_def upd_fdw_def fdw_def valid_fd_def eff_def open_fd_def
      push_rq_def get_work_def upd_work_def open_msg_def demo_wrap_def)
qed

lemma demo_sys_reused:
  obtains s where "sys_run demo_nlist strict_serv demo_ghash 0 demo_sys s" "sy_live s = {2}" "streams s 2 = [[], []]"
proof -
  obtain w where w: "share 0 demo_opened (demo_proc []) = Inr w" "0 < length (p_works w)"
    "sys_step demo_nlist strict_serv demo_ghash 0 demo_sys (demo_sys\<lparr>sy_m := demo_opened, sy_w := w, sy_live := {2}, sy_new := {}\<rparr>)"
    by (rule demo_sys_open)
  obtain m where m: "do_fd_close demo_nlist strict_serv 2 1 demo_opened = Inr (0, m)" "p_works m = [demo_work\<lparr>wk_rq := demo_shut\<rparr>]"
    "others_kept 2 demo_opened m" "w_type (wrap_of m 2) = fd_type_null" by (rule demo_close)
  obtain m1 where m1: "do_fd_open demo_nlist strict_serv 1 (m\<lparr>p_accepts := [ADone 2 5 6], p_ctls := [True, True]\<rparr>) = Inr (2, m1)"
    "length (p_works m1) = 1" using demo_reopen[OF m(2-4)] by blast
  obtain w1 where w1: "share 0 m w = Inr w1" "length (p_works w1) = length (p_works w)" using share_ok[of 0 m w] w(2) m(2) by auto
  obtain w2 where w2: "share 0 m1 w1 = Inr w2" using share_ok[of 0 m1 w1] w(2) w1(2) m1(2) by auto
  let ?s = "demo_sys\<lparr>sy_m := demo_opened, sy_w := w, sy_live := {2}, sy_new := {}\<rparr>"
  let ?t = "left_by (queued 0 demo_opened m) 2 (?s\<lparr>sy_m := m, sy_w := w1\<rparr>)"
  have q: "queued 0 demo_opened m" using m(2) by (simp add: queued_def demo_opened_def demo_shut_def demo_told_def)
  have t: "sys_step demo_nlist strict_serv demo_ghash 0 ?s ?t"
    using sys_step.shut[of ?s 2 demo_nlist strict_serv 0 m 0 w1 demo_ghash] m(1) w1(1) by (simp add: demo_sys_def)
  have l: "open_fd m 1" "w_type (wrap_of m 1) = fd_type_listen" "w_idx (wrap_of m 1) = 0"
    using m(3) by (simp_all add: others_kept_def demo_opened_def open_fd_def valid_fd_def)
  let ?u = "?t\<lparr>sy_m := m1, sy_w := w2, sy_live := insert 2 (sy_live ?t), sy_new := sy_new ?t - {2}\<rparr>"
  have "sys_step demo_nlist strict_serv demo_ghash 0 ?t ?u"
    by (rule sys_step.opened[where as = "[ADone 2 5 6]" and cs = "[True, True]"])
      (use l m1(1) w2 q in \<open>simp_all add: demo_sys_def is_cint_def\<close>)
  then have "sys_run demo_nlist strict_serv demo_ghash 0 demo_sys ?u" using w(3) t by (meson rtranclp.rtrancl_refl rtranclp.rtrancl_into_rtrancl)
  then show thesis by (rule that) (use q in \<open>simp_all add: streams_def demo_sys_def\<close>)
qed

end
