(* ===== verification/System_Claims.thy ===== *)
theory System_Claims
  imports System_Example
begin

text \<open>
  The properties of master and worker together (\<open>System\<close> to \<open>System_Runs\<close>), each at the example of \<open>System_Example\<close>.
\<close>

section \<open>The two processes and the abstract server\<close>

text \<open>
  C2: Master and worker of one queue, with their calls in any order: accepting clients, reading from any number of them in any pieces,
  cutting, closing, accepting others with the same descriptors, getting, serving, popping. In every state that is reached, the sessions and the
  library of the worker are those of the abstract server after the blocks worked on. Of the clients that had a descriptor one after the
  other, these blocks are, between those that close it, the first messages that the bytes of each are cut into, in order.
  When both have nothing left to do, they are all messages of each connected client, and only its unfinished rest is in the buffer.
  What it needs: the library tells the length of a message, a positive one, from any of its first bytes, and its handlers return, each with an
  answer that its own state determines (\<open>sys_laws\<close>); a step is a whole call of the queue's functions; and a descriptor is given to another
  client when the block that closes the last one has been queued.
\<close>

theorem system_refines:
  assumes laws: "sys_laws L S G i A g cap" and start: "sys_start L G i A cap F fx s0" and run: "sys_run L S G i s0 s"
  shows "(sess_map G (sy_w s), lib_st A (sy_w s)) = foldl (serve A) fx (sy_done s) \<and>
    (\<forall>fd\<in>F. length (segs fd (sy_done s)) \<le> length (streams s fd) \<and>
       (\<forall>k<length (segs fd (sy_done s)). \<exists>ys. fst (cut g 0 (streams s fd ! k)) = segs fd (sy_done s) ! k @ ys)) \<and>
    (sys_quiet i s \<longrightarrow> (\<forall>fd\<in>sy_live s. length (segs fd (sy_done s)) = length (streams s fd) \<and>
       cut g 0 (sy_read s fd) = (data_of fd (sy_done s), unread (sy_m s) fd, msglen (buff_of (sy_m s) fd))))"
proof -
  have inv: "sys_inv L G i A g cap F fx s" by (rule sys_run_inv[OF run laws sys_start_inv[OF start]])
  then obtain sent where "worker_inv G A i fx s sent" by (auto simp: sys_inv_def core_inv_def)
  then show ?thesis using always_served[OF inv] quiet_exact[OF inv] by (auto simp: worker_inv_def served_of_def)
qed

theorem system_refines_witness:
  "(\<exists>s. sys_run demo_nlist strict_serv demo_ghash 0 demo_sys s \<and> sy_read s 2 = [1, 2, 3, 4, 5] \<and> sys_quiet 0 s \<and>
     data_of 2 (sy_done s) = [[1, 2, 3, 4]] \<and> unread (sy_m s) 2 = [5] \<and>
     foldl (serve (strict_lib :: (unit, (lnode \<Rightarrow> lnode list, int \<rightharpoonup> fdsess) proc) lib_spec)) (Map.empty, ()) (sy_done s) = (sess_map demo_ghash (sy_w s), ())) \<and>
   (\<exists>s. sys_run demo_nlist strict_serv demo_ghash 0 demo_sys s \<and> streams s 2 = [[], []] \<and> length (segs 2 (sy_done s)) \<le> 2)"
proof (rule conjI, goal_cases)
  case 1
  obtain s where s: "sys_run demo_nlist strict_serv demo_ghash 0 demo_sys s" "sy_read s 2 = [1, 2, 3, 4, 5]" "sys_quiet 0 s" "sy_live s = {2}"
    by (rule demo_sys_served)
  then show ?case using system_refines[OF demo_sys_laws demo_sys_start s(1)] demo_cut by (intro exI[of _ s]) simp
next
  case 2
  obtain s where s: "sys_run demo_nlist strict_serv demo_ghash 0 demo_sys s" "sy_live s = {2}" "streams s 2 = [[], []]" by (rule demo_sys_reused)
  then show ?case using system_refines[OF demo_sys_laws demo_sys_start s(1)] by (intro exI[of _ s]) simp
qed

section \<open>No fault\<close>

text \<open>
  C4: In no interleaving of the steps does a call of either process fault: neither a round of the loop of \<open>handle_cli\<close> nor what follows it, nor
  closing a client, and of the worker neither the functions of the queue nor its work on a block. What it needs is what \<open>system_refines\<close>
  does: lengths that are positive and told from any first bytes of a message (\<open>sample_negative_length\<close> is what others lead to), handlers of
  the library that return, and descriptors that are given out again only when the block that closes the last client has been queued (otherwise see
  \<open>refused_open_desync\<close>).
\<close>

theorem system_no_fault:
  assumes laws: "sys_laws L S G i A g cap" and start: "sys_start L G i A cap F fx s0" and run: "sys_run L S G i s0 s"
  shows "(case sy_cut s of
      None \<Rightarrow> \<forall>fd\<in>sy_live s. ok (do_fd_close L S fd 1 (sy_m s))
    | Some (fd, off) \<Rightarrow> \<exists>e m1. frame_step S SERV_MASTER (push_data (S, i, [])) fd off (sy_m s) = Inr (e, m1) \<and> (case e of
          Cut_more o1 \<Rightarrow> rlen (buff_of m1 fd) < rlen (buff_of (sy_m s) fd)
        | Cut_rest o1 \<Rightarrow> ok (keep_rest fd o1 m1)
        | Cut_refused \<Rightarrow> ok (do_fd_close L S fd 1 m1))) \<and>
    (case sy_at s of
      W_idle \<Rightarrow> ok (mq_get (wk_rq (p_works (sy_w s) ! nat i)))
    | W_got a \<Rightarrow> ok (read_msg (wk_rq (p_works (sy_w s) ! nat i)) a) \<and> ok (do_blk G S i a (sy_w s))
    | W_pop a \<Rightarrow> ok (mq_pop (wk_rq (p_works (sy_w s) ! nat i))))"
proof (rule conjI, goal_cases)
  have inv: "sys_inv L G i A g cap F fx s" by (rule sys_run_inv[OF run laws sys_start_inv[OF start]])
  case 1
  show ?case
  proof (cases "sy_cut s")
    case (Some c)
    obtain fd off where c: "sy_cut s = Some (fd, off)" using Some by (cases c) auto
    show ?thesis by (rule cutting_goes_on[OF laws inv c]) (use c in \<open>auto simp: ok_def split: frame_end.splits\<close>)
  qed (use closing_no_fault[OF laws inv] in simp)
next
  case 2
  show ?case by (rule worker_no_fault[OF laws sys_run_inv[OF run laws sys_start_inv[OF start]]])
qed

theorem system_no_fault_witness:
  "\<exists>s. sys_run demo_nlist strict_serv demo_ghash 0 demo_sys s \<and> sy_read s 2 = [1, 2, 3, 4, 5] \<and> ok (do_fd_close demo_nlist strict_serv 2 1 (sy_m s))"
proof -
  obtain s where s: "sys_run demo_nlist strict_serv demo_ghash 0 demo_sys s" "sy_read s 2 = [1, 2, 3, 4, 5]" "sy_cut s = None" "sy_live s = {2}"
    by (rule demo_sys_run)
  then show ?thesis using system_no_fault[OF demo_sys_laws demo_sys_start s(1)] by auto
qed

section \<open>Getting to rest\<close>

text \<open>
  C5: From every state that master and worker reach, they can get, without another read, to one where nothing is left to do: the buffer is
  cut, the queue is empty, and the worker has had exactly the messages of each connected client. At most the client whose
  messages were being cut is lost on the way, when the queue is full. What it needs is what \<open>system_refines\<close> does.
\<close>

theorem system_drains:
  assumes laws: "sys_laws L S G i A g cap" and start: "sys_start L G i A cap F fx s0" and run: "sys_run L S G i s0 s"
  shows "\<exists>s1. sys_run L S G i s s1 \<and> sys_quiet i s1 \<and>
    sy_live s - fst ` set_option (sy_cut s) \<subseteq> sy_live s1 \<and> sy_live s1 \<subseteq> sy_live s \<and>
    (\<forall>fd\<in>sy_live s1. streams s1 fd = streams s fd \<and> length (segs fd (sy_done s1)) = length (streams s fd) \<and>
       cut g 0 (sy_read s fd) = (data_of fd (sy_done s1), unread (sy_m s1) fd, msglen (buff_of (sy_m s1) fd)))"
proof -
  have inv: "sys_inv L G i A g cap F fx s" by (rule sys_run_inv[OF run laws sys_start_inv[OF start]])
  obtain s1 where s1: "sys_run L S G i s s1" "no_read s s1" "sys_quiet i s1" using system_rests[OF laws inv] by blast
  have "streams s1 fd = streams s fd \<and> sy_read s1 fd = sy_read s fd" if "fd \<in> sy_live s1" for fd
    using s1(2) that by (auto simp: no_read_def streams_def)
  then show ?thesis using s1 quiet_exact[OF sys_run_inv[OF s1(1) laws inv] s1(3)] by (intro exI[of _ s1]) (simp add: no_read_def)
qed

theorem system_drains_witness:
  "\<exists>s s1. sys_run demo_nlist strict_serv demo_ghash 0 demo_sys s \<and> sys_run demo_nlist strict_serv demo_ghash 0 s s1 \<and>
     sys_quiet 0 s1 \<and> data_of 2 (sy_done s1) = [[1, 2, 3, 4]] \<and> unread (sy_m s1) 2 = [5]"
proof -
  obtain s where s: "sys_run demo_nlist strict_serv demo_ghash 0 demo_sys s" "sy_read s 2 = [1, 2, 3, 4, 5]" "sy_cut s = None" "sy_live s = {2}"
    by (rule demo_sys_run)
  obtain s1 where s1: "sys_run demo_nlist strict_serv demo_ghash 0 s s1" "sys_quiet 0 s1" "2 \<in> sy_live s1"
    "\<forall>fd\<in>sy_live s1. cut (\<lambda>_. 4) 0 (sy_read s fd) = (data_of fd (sy_done s1), unread (sy_m s1) fd, msglen (buff_of (sy_m s1) fd))"
    using system_drains[OF demo_sys_laws demo_sys_start s(1)] unfolding s(3,4) by auto
  then have "cut (\<lambda>_. 4) 0 (sy_read s 2) = (data_of 2 (sy_done s1), unread (sy_m s1) 2, msglen (buff_of (sy_m s1) 2))" by blast
  then show ?thesis using s(1) s1(1,2) demo_cut unfolding s(2) by (intro exI[of _ s] exI[of _ s1]) simp
qed

section \<open>The handlers\<close>

text \<open>
  C6: The steps are those of the code. In every state that is reached between calls, a call of \<open>handle_cli\<close> that returns 0 is a sequence of them,
  so is one that returns -1 together with the closing of the client that follows, after which its descriptor is free if the block that tells the
  worker of it was queued, and so is a call of \<open>handle_mq_recv\<close>.
\<close>

theorem handlers_are_steps:
  assumes laws: "sys_laws L S G i A g cap" and start: "sys_start L G i A cap F fx s0" and run: "sys_run L S G i s0 s"
  shows "(sy_cut s = None \<and> fd \<in> sy_live s \<and> p_recvs m1 = rest \<longrightarrow>
      (handle_cli L S n fd ((sy_m s)\<lparr>p_recvs := used @ rest\<rparr>) = Inr (0, m1) \<longrightarrow> (\<exists>w1. share i m1 (sy_w s) = Inr w1 \<and>
         sys_run L S G i s (s\<lparr>sy_m := m1, sy_w := w1, sy_read := (sy_read s)(fd := sy_read s fd @ recv_bytes used)\<rparr>))) \<and>
      (handle_cli L S n fd ((sy_m s)\<lparr>p_recvs := used @ rest\<rparr>) = Inr (- 1, m1) \<and> do_fd_close L S fd 1 m1 = Inr (r, m2) \<longrightarrow>
         (\<exists>w1 bs. share i m2 (sy_w s) = Inr w1 \<and> (bs = [] \<or> bs = recv_bytes used) \<and>
         sys_run L S G i s (left_by (queued i m1 m2) fd (s\<lparr>sy_m := m2, sy_w := w1, sy_read := (sy_read s)(fd := sy_read s fd @ bs)\<rparr>))))) \<and>
    (sy_at s = W_idle \<and> handle_mq_recv G S k i (sy_w s) = Inr (r, w) \<longrightarrow>
      (\<exists>m d. share i w (sy_m s) = Inr m \<and> sys_run L S G i s (s\<lparr>sy_m := m, sy_w := w, sy_done := sy_done s @ d\<rparr>)))"
proof -
  have inv: "sys_inv L G i A g cap F fx s" by (rule sys_run_inv[OF run laws sys_start_inv[OF start]])
  then obtain sent where "queue_inv i s sent" by (auto simp: sys_inv_def core_inv_def)
  note wq = worker_queue[OF this]
  show ?thesis
    using handle_cli_steps[OF _ _ _ _ wq(2,4,3), of L S n fd used rest m1 G] handle_cli_closes[OF laws inv, of n fd used rest m1 r m2]
      mq_recv_steps[OF laws inv, of k r w] by blast
qed

theorem handlers_are_steps_witness:
  "\<exists>s m1 w1 s1. sys_run demo_nlist strict_serv demo_ghash 0 demo_sys s \<and>
     handle_cli demo_nlist strict_serv 17 2 ((sy_m s)\<lparr>p_recvs := [RData [1, 2, 3, 4, 5], RErr EAGAIN] @ []\<rparr>) = Inr (0, m1) \<and>
     share 0 m1 (sy_w s) = Inr w1 \<and> sys_run demo_nlist strict_serv demo_ghash 0 s s1 \<and> sy_m s1 = m1 \<and> sy_w s1 = w1 \<and> sy_read s1 2 = [1, 2, 3, 4, 5]"
proof -
  obtain w where st: "sys_step demo_nlist strict_serv demo_ghash 0 demo_sys (demo_sys\<lparr>sy_m := demo_opened, sy_w := w, sy_live := {2}, sy_new := {}\<rparr>)"
    by (rule demo_sys_open)
  obtain m where m: "handle_cli demo_nlist strict_serv 17 2 (demo_opened\<lparr>p_recvs := [RData [1, 2, 3, 4, 5], RErr EAGAIN] @ []\<rparr>) = Inr (0, m)" "p_recvs m = []"
    using demo_call by blast
  let ?s = "demo_sys\<lparr>sy_m := demo_opened, sy_w := w, sy_live := {2}, sy_new := {}\<rparr>"
  have run: "sys_run demo_nlist strict_serv demo_ghash 0 demo_sys ?s" using st by blast
  have l: "sy_cut ?s = None \<and> 2 \<in> sy_live ?s \<and> p_recvs m = []" "sy_m ?s = demo_opened" using m(2) by (simp_all add: demo_sys_def)
  obtain w1 where w1: "share 0 m (sy_w ?s) = Inr w1" "sys_run demo_nlist strict_serv demo_ghash 0 ?s (?s\<lparr>sy_m := m, sy_w := w1,
      sy_read := (sy_read ?s)(2 := sy_read ?s 2 @ recv_bytes [RData [1, 2, 3, 4, 5], RErr EAGAIN])\<rparr>)"
    using handlers_are_steps[OF demo_sys_laws demo_sys_start run, of 2 m "[]" 17 "[RData [1, 2, 3, 4, 5], RErr EAGAIN]"] l m(1) by metis
  then show ?thesis using m(1) run
    by (intro exI[of _ ?s] exI[of _ m] exI[of _ w1] exI[of _ "?s\<lparr>sy_m := m, sy_w := w1,
      sy_read := (sy_read ?s)(2 := sy_read ?s 2 @ recv_bytes [RData [1, 2, 3, 4, 5], RErr EAGAIN])\<rparr>"]) (auto simp: demo_sys_def)
qed

end
