(* ===== verification/Mem_Queue_Fine.thy ===== *)
theory Mem_Queue_Fine
  imports Mem_Queue_Chan
begin

text \<open>
  The two processes at one queue of \<^verbatim>\<open>mem_queue.c\<close> at the granularity of their accesses to the
  shared fields. \<open>head\<close>, \<open>tail\<close> and \<open>blk_cnt\<close> are volatile: every test of the code reads them
  again, and between two accesses of one process the other one may go on. \<open>push_step\<close> and
  \<open>get_step\<close> are the statements of \<open>mq_push\<close>, \<open>mq_get\<close> and \<open>mq_pop\<close>, one access to a shared field
  per step (\<open>++\<close> and \<open>--\<close> on the count are a read and a write); run without interruption they are
  the functions of \<open>Mem_Queue\<close> (\<open>push_alone_mq_push\<close>, \<open>get_alone_mq_get\<close>, \<open>pop_alone_mq_pop\<close>).
  The copying of a block and the fill block are one step each: the consumer never reads the bytes
  behind the head. The accesses of a process become visible in the order of the program, as they
  do on the x86-64 the program is built for.

  Order and completeness survive this interleaving with one exception, which the code has and
  calls as steps hide: when the tail is reset between the two tests of \<open>mq_push\<close> neither branch
  runs, the call returns 0 and the message is in no queue.
\<close>

section \<open>The statements of the three calls\<close>

text \<open>
  Where the producer stands: at the label \<open>push_again\<close>, before the fill block, before the test
  for a full queue, before the jump, at the second test of head against tail, at the test for room
  behind it, before the copying, before the update of the head, before the two halves of
  \<open>++blk_cnt\<close>, before the notification, at the \<open>return\<close>.
\<close>

datatype push_pc = P_idle | P_start | P_fill | P_full | P_wrap | P_less | P_room | P_copy | P_head
  | P_count | P_store int | P_note | P_done int

definition copy_blk :: "mem_queue \<Rightarrow> mem_block \<Rightarrow> byte list \<Rightarrow> mem_queue res" where
  "copy_blk q b data =
     rbind (store (mq_shm q) (mq_head q) (enc_head b)) (\<lambda>m1.
     rbind (memcpy_src data (blk_len b - blk_head_len)) (\<lambda>d.
     rbind (store m1 (mq_head q + blk_head_len) d) (\<lambda>m2. Inr (q\<lparr>mq_shm := m2\<rparr>))))"

fun push_step :: "push_pc \<Rightarrow> mem_queue \<Rightarrow> msg \<Rightarrow> (push_pc \<times> mem_queue) res" where
  "push_step P_idle q m = Inr (P_idle, q)"
| "push_step P_start q m =
     (if mq_tail q \<le> mq_head q then
        rbind (cint (mq_head q + blk_len (fst m))) (\<lambda>e.
          Inr (if mq_len q \<le> e then P_fill else P_copy, q))
      else Inr (P_less, q))"
| "push_step P_fill q m = rbind (mark_align q) (\<lambda>q1. Inr (P_full, q1))"
| "push_step P_full q m = Inr (if mem_head_len = mq_tail q then P_done (- 1) else P_wrap, q)"
| "push_step P_wrap q m = Inr (P_start, q\<lparr>mq_head := mem_head_len\<rparr>)"
| "push_step P_less q m = Inr (if mq_head q < mq_tail q then P_room else P_done 0, q)"
| "push_step P_room q m =
     rbind (cint (mq_head q + blk_len (fst m))) (\<lambda>e.
       Inr (if mq_tail q \<le> e then P_done (- 1) else P_copy, q))"
| "push_step P_copy q m = rbind (copy_blk q (fst m) (snd m)) (\<lambda>q1. Inr (P_head, q1))"
| "push_step P_head q m =
     rbind (cint (mq_head q + blk_len (fst m))) (\<lambda>h. Inr (P_count, q\<lparr>mq_head := h\<rparr>))"
| "push_step P_count q m = Inr (P_store (mq_blk_cnt q), q)"
| "push_step (P_store c) q m = rbind (cint (c + 1)) (\<lambda>c1. Inr (P_note, q\<lparr>mq_blk_cnt := c1\<rparr>))"
| "push_step P_note q m = Inr (P_done 0, q\<lparr>mq_notes := Suc (mq_notes q)\<rparr>)"
| "push_step (P_done r) q m = Inr (P_done r, q)"

text \<open>
  The consumer: idle, at \<open>get_again\<close>, behind the test \<open>head > tail\<close> with either result, at the
  tests for the end of the ring, before the reset of the tail, with a block in hand (\<open>mq_get\<close> has
  returned its offset), and before the two halves of \<open>--blk_cnt\<close>.
\<close>

datatype get_pc = C_idle | C_start | C_more | C_less | C_block | C_reset | C_held int
  | C_count | C_store int

fun get_step :: "get_pc \<Rightarrow> mem_queue \<Rightarrow> (get_pc \<times> mem_queue) res" where
  "get_step C_idle q = Inr (C_start, q)"
| "get_step C_start q = Inr (if mq_tail q < mq_head q then C_more else C_less, q)"
| "get_step C_more q =
     rbind (cint (mq_tail q + blk_head_len)) (\<lambda>t.
       Inr (if t \<le> mq_head q then C_held (mq_tail q) else C_idle, q))"
| "get_step C_less q = Inr (if mq_head q < mq_tail q then C_block else C_idle, q)"
| "get_step C_block q =
     rbind (cint (mq_tail q + blk_head_len)) (\<lambda>t.
     if mq_len q < t then Inr (C_reset, q)
     else rbind (load (mq_shm q) (mq_tail q + 8) 1) (\<lambda>ty.
       Inr (if ty = [blk_code BLK_ALIGN] then C_reset else C_held (mq_tail q), q)))"
| "get_step C_reset q = Inr (C_start, q\<lparr>mq_tail := mem_head_len\<rparr>)"
| "get_step (C_held a) q =
     rbind (load (mq_shm q) (mq_tail q + 9) 4) (\<lambda>l.
     rbind (cint (mq_tail q + get32 l)) (\<lambda>t. Inr (C_count, q\<lparr>mq_tail := t\<rparr>)))"
| "get_step C_count q = Inr (C_store (mq_blk_cnt q), q)"
| "get_step (C_store c) q = rbind (cint (c - 1)) (\<lambda>c1. Inr (C_idle, q\<lparr>mq_blk_cnt := c1\<rparr>))"

section \<open>Without interruption the steps are the calls\<close>

fun push_alone :: "nat \<Rightarrow> push_pc \<Rightarrow> mem_queue \<Rightarrow> msg \<Rightarrow> (int \<times> mem_queue) res" where
  "push_alone n (P_done r) q m = Inr (r, q)"
| "push_alone 0 pc q m = Inl Exhausted"
| "push_alone (Suc n) pc q m = rbind (push_step pc q m) (\<lambda>(pc1, q1). push_alone n pc1 q1 m)"

fun get_alone :: "nat \<Rightarrow> get_pc \<Rightarrow> mem_queue \<Rightarrow> (int option \<times> mem_queue) res" where
  "get_alone n (C_held a) q = Inr (Some a, q)"
| "get_alone n C_idle q = Inr (None, q)"
| "get_alone 0 pc q = Inl Exhausted"
| "get_alone (Suc n) pc q = rbind (get_step pc q) (\<lambda>(pc1, q1). get_alone n pc1 q1)"

lemma write_blk_steps:
  "write_blk q b d = rbind (copy_blk q b d) (\<lambda>q1. rbind (cint (mq_head q1 + blk_len b)) (\<lambda>h.
     rbind (cint (mq_blk_cnt q1 + 1)) (\<lambda>c.
       Inr (q1\<lparr>mq_head := h, mq_blk_cnt := c, mq_notes := Suc (mq_notes q1)\<rparr>))))"
  by (simp add: write_blk_def copy_blk_def rbind_assoc)

lemma push_alone_copy:
  "push_alone (5 + n) P_copy q (b, d) = rbind (write_blk q b d) (\<lambda>q1. Inr (0, q1))"
  by (simp add: write_blk_steps rbind_assoc eval_nat_numeral)

lemma push_alone_room:
  "push_alone (6 + n) P_room q (b, d) = rbind (cint (mq_head q + blk_len b)) (\<lambda>e.
     if mq_tail q \<le> e then Inr (- 1, q) else rbind (write_blk q b d) (\<lambda>q1. Inr (0, q1)))"
  using push_alone_copy[of n q b d]
  by (auto simp: rbind_def split: sum.splits simp del: push_step.simps(8) simp add: eval_nat_numeral)

lemma push_alone_start:
  assumes "push_step P_start q (b, d) = Inr (P_less, q)"
  shows "push_alone (8 + n) P_start q (b, d) = rbind (cint (mq_head q + blk_len b)) (\<lambda>e.
     if mq_tail q \<le> e then Inr (- 1, q) else rbind (write_blk q b d) (\<lambda>q1. Inr (0, q1)))"
proof -
  have "mq_head q < mq_tail q" using assms by (auto simp: rbind_def split: sum.splits if_splits)
  then have "push_alone (8 + n) P_start q (b, d) = push_alone (6 + n) P_room q (b, d)"
    by (simp add: eval_nat_numeral)
  then show ?thesis by (simp only: push_alone_room)
qed

lemma push_alone_first:
  assumes "mq_tail q \<le> mq_head q"
  shows "push_alone (Suc n) P_start q m = rbind (cint (mq_head q + blk_len (fst m))) (\<lambda>e.
    if mq_len q \<le> e then push_alone n P_fill q m else push_alone n P_copy q m)"
  using assms by (cases "cint (mq_head q + blk_len (fst m))") simp_all

lemma push_alone_fill:
  "push_alone (3 + n) P_fill q m = rbind (mark_align q) (\<lambda>q1.
    if mem_head_len = mq_tail q1 then Inr (- 1, q1)
    else push_alone n P_start (q1\<lparr>mq_head := mem_head_len\<rparr>) m)"
  by (cases "mark_align q") (simp_all add: eval_nat_numeral)

lemma push_alone_mq_push:
  assumes "mapped q" and "mem_head_len \<le> mq_tail q"
  shows "push_alone 12 P_start q (b, d) = mq_push q b d"
proof -
  have two: "mq_push q b d = mq_push_loop (Suc (Suc 0)) q b d"
    using assms(1) by (simp add: mq_push_def numeral_2_eq_2)
  have copy: "push_alone 11 P_copy q (b, d) = rbind (write_blk q b d) (\<lambda>q1. Inr (0, q1))"
    using push_alone_copy[of 6 q b d] by simp
  note start = push_alone_start[of _ b d]
  consider "mq_head q < mq_tail q" | "mq_tail q \<le> mq_head q" by linarith
  then show ?thesis
  proof cases
    case 1
    then show ?thesis using start[of q 4] two by (simp add: mq_push_round)
  next
    case 2
    have first: "push_alone 12 P_start q (b, d) = rbind (cint (mq_head q + blk_len b)) (\<lambda>e.
        if mq_len q \<le> e then push_alone 11 P_fill q (b, d) else push_alone 11 P_copy q (b, d))"
      using push_alone_first[OF 2, of 11 "(b, d)"] by simp
    have "push_alone 11 P_fill q (b, d) = rbind (mark_align q) (\<lambda>q1.
        if mem_head_len = mq_tail q1 then Inr (- 1, q1)
        else push_alone 8 P_start (q1\<lparr>mq_head := mem_head_len\<rparr>) (b, d))"
      using push_alone_fill[of 8 q "(b, d)"] by simp
    moreover have "push_alone 8 P_start (q1\<lparr>mq_head := mem_head_len\<rparr>) (b, d)
        = mq_push_loop (Suc 0) (q1\<lparr>mq_head := mem_head_len\<rparr>) b d"
      if "mark_align q = Inr q1" "mem_head_len \<noteq> mq_tail q1" for q1
      using that assms(2) start[of "q1\<lparr>mq_head := mem_head_len\<rparr>" 0] mark_align_frame[OF that(1)]
      by (simp add: mq_push_round)
    ultimately have "push_alone 11 P_fill q (b, d) = rbind (mark_align q) (\<lambda>q1.
        if mem_head_len = mq_tail q1 then Inr (- 1, q1)
        else mq_push_loop (Suc 0) (q1\<lparr>mq_head := mem_head_len\<rparr>) b d)"
      by (cases "mark_align q") simp_all
    then show ?thesis
      using 2 copy two first by (cases "cint (mq_head q + blk_len b)") (simp_all add: mq_push_round[of "Suc 0"])
  qed
qed

lemma get_alone_step:
  "get_alone (Suc n) C_block q = rbind (get_step C_block q) (\<lambda>(pc1, q1). get_alone n pc1 q1)"
  "get_alone n (C_held a) q = Inr (Some a, q)"
  by simp_all

lemma get_alone_more:
  assumes "mq_tail q < mq_head q"
  shows "get_alone (Suc (Suc n)) C_start q = mq_get_loop (Suc 0) q"
  using assms by (cases "cint (mq_tail q + blk_head_len)") (simp_all add: mq_get_round)

lemma get_alone_reset:
  assumes "mq_tail q = mem_head_len" and "mem_head_len \<le> mq_head q"
  shows "get_alone (Suc (Suc n)) C_start q = mq_get_loop (Suc 0) q"
  using assms get_alone_more[of q n] by (cases "mq_tail q < mq_head q") (simp_all add: mq_get_round)

lemma get_alone_block:
  assumes "mem_head_len \<le> mq_head q"
  shows "get_alone (Suc (Suc (Suc (Suc n)))) C_block q = rbind (cint (mq_tail q + blk_head_len)) (\<lambda>t.
    if mq_len q < t then mq_get_loop (Suc 0) (q\<lparr>mq_tail := mem_head_len\<rparr>)
    else rbind (load (mq_shm q) (mq_tail q + 8) 1) (\<lambda>ty.
      if ty = [blk_code BLK_ALIGN] then mq_get_loop (Suc 0) (q\<lparr>mq_tail := mem_head_len\<rparr>)
      else Inr (Some (mq_tail q), q)))"
proof -
  have "get_alone (Suc (Suc n)) C_start (q\<lparr>mq_tail := mem_head_len\<rparr>)
      = mq_get_loop (Suc 0) (q\<lparr>mq_tail := mem_head_len\<rparr>)"
    using assms by (intro get_alone_reset) simp_all
  then have r: "get_alone (Suc (Suc (Suc n))) C_reset q = mq_get_loop (Suc 0) (q\<lparr>mq_tail := mem_head_len\<rparr>)"
    by (simp only: get_alone.simps get_step.simps rbind_simps prod.case)
  show ?thesis
  proof (cases "cint (mq_tail q + blk_head_len)")
    case (Inr t)
    then show ?thesis using r
      by (cases "mq_len q < t"; cases "load (mq_shm q) (mq_tail q + 8) 1")
        (auto simp del: get_alone.simps simp add: get_alone_step)
  qed simp
qed

lemma get_alone_mq_get:
  assumes "mapped q" and "mem_head_len \<le> mq_head q"
  shows "get_alone 6 C_start q = mq_get q"
proof -
  have g: "mq_get q = mq_get_loop (Suc (Suc 0)) q" using assms(1) by (simp add: mq_get_def numeral_2_eq_2)
  consider "mq_tail q < mq_head q" | "mq_head q < mq_tail q" | "mq_head q = mq_tail q" by linarith
  then show ?thesis
  proof cases
    case 1
    then show ?thesis using get_alone_more[of q 4] g by (simp add: mq_get_round)
  next
    case 2
    then have "get_alone 6 C_start q = get_alone (Suc (Suc (Suc (Suc 0)))) C_block q"
      by (simp add: eval_nat_numeral)
    then show ?thesis using 2 g by (simp only: get_alone_block[OF assms(2)]) (simp add: mq_get_round[of "Suc 0"])
  qed (use g in \<open>simp add: mq_get_round eval_nat_numeral\<close>)
qed

lemma pop_alone_mq_pop:
  assumes "mapped q"
  shows "rbind (get_step (C_held a) q) (\<lambda>(pc1, q1). rbind (get_step pc1 q1) (\<lambda>(pc2, q2).
    rbind (get_step pc2 q2) (\<lambda>(pc3, q3). Inr q3))) = mq_pop q"
  using assms by (simp add: mq_pop_def rbind_assoc)

section \<open>Any interleaving of the accesses\<close>

text \<open>
  \<open>f_acc\<close>, \<open>f_del\<close> and \<open>f_ret\<close> record what happened: the messages the head was moved behind, the
  ones popped, and for each call of \<open>mq_push\<close> that returned its message, its value and whether it
  moved the head (\<open>f_moved\<close> while the call runs).
\<close>

record fine =
  f_q :: mem_queue
  f_push :: push_pc
  f_msg :: msg
  f_moved :: bool
  f_get :: get_pc
  f_acc :: "msg list"
  f_del :: "msg list"
  f_ret :: "(msg \<times> int \<times> bool) list"

inductive fine_step :: "fine \<Rightarrow> fine \<Rightarrow> bool" where
  call: "f_push c = P_idle \<Longrightarrow> valid_msg m \<Longrightarrow>
     fine_step c (c\<lparr>f_push := P_start, f_msg := m, f_moved := False\<rparr>)"
| push: "f_push c \<noteq> P_head \<Longrightarrow> push_step (f_push c) (f_q c) (f_msg c) = Inr (pc, q) \<Longrightarrow>
     fine_step c (c\<lparr>f_push := pc, f_q := q\<rparr>)"
| move: "f_push c = P_head \<Longrightarrow> push_step P_head (f_q c) (f_msg c) = Inr (pc, q) \<Longrightarrow>
     fine_step c (c\<lparr>f_push := pc, f_q := q, f_moved := True, f_acc := f_acc c @ [f_msg c]\<rparr>)"
| return: "f_push c = P_done r \<Longrightarrow>
     fine_step c (c\<lparr>f_push := P_idle, f_ret := f_ret c @ [(f_msg c, r, f_moved c)]\<rparr>)"
| get: "(\<And>a. f_get c \<noteq> C_held a) \<Longrightarrow> get_step (f_get c) (f_q c) = Inr (pc, q) \<Longrightarrow>
     fine_step c (c\<lparr>f_get := pc, f_q := q\<rparr>)"
| pop: "f_get c = C_held a \<Longrightarrow> read_msg (f_q c) a = Inr m \<Longrightarrow>
     get_step (C_held a) (f_q c) = Inr (pc, q) \<Longrightarrow>
     fine_step c (c\<lparr>f_get := pc, f_q := q, f_del := f_del c @ [m]\<rparr>)"

definition fine_start :: "mem_queue \<Rightarrow> msg \<Rightarrow> fine" where
  "fine_start q m = \<lparr>f_q = q, f_push = P_idle, f_msg = m, f_moved = False, f_get = C_idle,
     f_acc = [], f_del = [], f_ret = []\<rparr>"

inductive fine_reach :: "int \<Rightarrow> fine \<Rightarrow> bool" for sz where
  start: "mq_init q0 sz ty pfd True = Inr (0, q) \<Longrightarrow> fine_reach sz (fine_start q m)"
| step: "fine_reach sz c \<Longrightarrow> fine_step c c' \<Longrightarrow> fine_reach sz c'"

section \<open>What each side may rely on\<close>

text \<open>\<open>ring\<close> is \<open>mq_rel\<close> without the count, which both processes update and neither uses.\<close>

definition ring :: "mem_queue \<Rightarrow> msg list \<Rightarrow> bool" where
  "ring q xs \<longleftrightarrow> mq_wf q \<and> (unwrapped q xs \<or> wrapped q xs)"

definition fits :: "mem_queue \<Rightarrow> mem_block \<Rightarrow> bool" where
  "fits q b \<longleftrightarrow> (if mq_tail q \<le> mq_head q then mq_head q + blk_len b < mq_len q
     else mq_head q + blk_len b < mq_tail q)"

text \<open>The assertions at the labels; each is stable under the steps of the other process.\<close>

fun push_at :: "push_pc \<Rightarrow> mem_queue \<Rightarrow> msg \<Rightarrow> bool" where
  "push_at P_fill q m \<longleftrightarrow> mq_tail q \<le> mq_head q"
| "push_at P_full q m \<longleftrightarrow> mq_tail q \<le> mq_head q \<and> end_mark q (mq_head q)"
| "push_at P_wrap q m \<longleftrightarrow> mq_tail q \<le> mq_head q \<and> end_mark q (mq_head q) \<and> mem_head_len \<noteq> mq_tail q"
| "push_at P_copy q m \<longleftrightarrow> fits q (fst m)"
| "push_at P_head q m \<longleftrightarrow> fits q (fst m) \<and>
     chain (mq_shm q) (mq_head q) [m] (mq_head q + blk_len (fst m))"
| "push_at pc q m \<longleftrightarrow> True"

fun get_at :: "get_pc \<Rightarrow> mem_queue \<Rightarrow> msg list \<Rightarrow> bool" where
  "get_at C_block q xs \<longleftrightarrow> mq_head q < mq_tail q"
| "get_at C_reset q xs \<longleftrightarrow> mq_head q < mq_tail q \<and> end_mark q (mq_tail q)"
| "get_at (C_held a) q xs \<longleftrightarrow> a = mq_tail q \<and> xs \<noteq> [] \<and>
     (mq_head q < mq_tail q \<longrightarrow> \<not> end_mark q (mq_tail q))"
| "get_at pc q xs \<longleftrightarrow> True"

text \<open>Carrying the lemmas on \<open>mq_rel\<close> over: the count does not matter to the shape.\<close>

abbreviation counted :: "mem_queue \<Rightarrow> msg list \<Rightarrow> mem_queue" where
  "counted q xs \<equiv> q\<lparr>mq_blk_cnt := int (length xs)\<rparr>"

lemma shape_cnt [simp]:
  "mq_wf (q\<lparr>mq_blk_cnt := n\<rparr>) = mq_wf q" "unwrapped (q\<lparr>mq_blk_cnt := n\<rparr>) xs = unwrapped q xs"
  "wrapped (q\<lparr>mq_blk_cnt := n\<rparr>) xs = wrapped q xs" "end_mark (q\<lparr>mq_blk_cnt := n\<rparr>) e = end_mark q e"
  "mq_wf (q\<lparr>mq_notes := k\<rparr>) = mq_wf q" "unwrapped (q\<lparr>mq_notes := k\<rparr>) xs = unwrapped q xs"
  "wrapped (q\<lparr>mq_notes := k\<rparr>) xs = wrapped q xs" "end_mark (q\<lparr>mq_notes := k\<rparr>) e = end_mark q e"
  by (auto simp: mq_wf_def unwrapped_def wrapped_def end_mark_def)

lemma ring_rel: "ring q xs \<longleftrightarrow> mq_rel (counted q xs) xs"
  by (simp add: ring_def mq_rel_def)

lemma ring_cnt [simp]: "ring (q\<lparr>mq_blk_cnt := n\<rparr>) xs = ring q xs" "ring (q\<lparr>mq_notes := k\<rparr>) xs = ring q xs"
  by (auto simp: ring_def)

lemma ring_wf: "ring q xs \<Longrightarrow> mq_wf q"
  by (simp add: ring_def)

lemma ring_unwrapped: "ring q xs \<Longrightarrow> mq_tail q \<le> mq_head q \<Longrightarrow> unwrapped q xs"
  by (auto simp: ring_def wrapped_def)

lemma ring_wrapped: "ring q xs \<Longrightarrow> mq_head q < mq_tail q \<Longrightarrow> wrapped q xs"
  by (auto simp: ring_def unwrapped_def)

lemma get_at_cnt [simp]: "get_at g (q\<lparr>mq_blk_cnt := n\<rparr>) xs = get_at g q xs"
    "get_at g (q\<lparr>mq_notes := k\<rparr>) xs = get_at g q xs"
  by (cases g; simp)+

section \<open>The steps of the producer\<close>

lemma copy_blk_ring:
  assumes r: "ring q xs" and v: "valid_msg (b, d)" and f: "fits q b"
  shows "\<exists>m. copy_blk q b d = Inr (q\<lparr>mq_shm := m\<rparr>) \<and> ring (q\<lparr>mq_shm := m\<rparr>) xs \<and>
    chain m (mq_head q) [(b, d)] (mq_head q + blk_len b) \<and>
    (mq_head q < mq_tail q \<longrightarrow> end_mark (q\<lparr>mq_shm := m\<rparr>) (mq_tail q) = end_mark q (mq_tail q))"
proof -
  note wf = ring_wf[OF r]
  let ?q = "q\<lparr>mq_blk_cnt := 0\<rparr>"
  have "blk_room ?q b" using f wf mq_push_cint[OF wf v]
    by (auto simp: blk_room_def fits_def mq_wf_def mem_head_len_def is_cint_def split: if_splits)
  then obtain m where m: "write_blk ?q b d = Inr (?q\<lparr>mq_shm := m, mq_head := mq_head ?q + blk_len b,
        mq_blk_cnt := mq_blk_cnt ?q + 1, mq_notes := Suc (mq_notes ?q)\<rparr>)"
    "length m = length (mq_shm q)"
    "chain m (mq_head q) [(b, d)] (mq_head q + blk_len b)"
    "\<And>a n. a + n \<le> mq_head q \<or> mq_head q + blk_len b \<le> a \<Longrightarrow> load m a n = load (mq_shm q) a n"
    "\<And>a xs e. chain (mq_shm q) a xs e \<Longrightarrow> e \<le> mq_head q \<or> mq_head q + blk_len b \<le> a \<Longrightarrow> chain m a xs e"
    using write_blk_ok[OF v, of ?q] by auto
  have c: "copy_blk q b d = Inr (q\<lparr>mq_shm := m\<rparr>)"
    using m(1) unfolding write_blk_steps
    by (auto simp: rbind_Inr_iff copy_blk_def dest!: arg_cong[where f = mq_shm])
  have e: "end_mark (q\<lparr>mq_shm := m\<rparr>) k = end_mark q k" if "mq_head q + blk_len b \<le> k" for k
    using m(4)[of "k + 8" 1] that by (simp add: end_mark_def)
  have "unwrapped (q\<lparr>mq_shm := m\<rparr>) xs \<or> wrapped (q\<lparr>mq_shm := m\<rparr>) xs"
  proof (cases "mq_tail q \<le> mq_head q")
    case True
    then show ?thesis using m(5)[of "mq_tail q" xs "mq_head q"] ring_unwrapped[OF r]
      by (simp add: unwrapped_def)
  next
    case False
    then obtain xs1 xs2 k where k: "xs = xs1 @ xs2" "chain (mq_shm q) (mq_tail q) xs1 k" "k < mq_len q"
      "end_mark q k" "chain (mq_shm q) mem_head_len xs2 (mq_head q)"
      using ring_wrapped[OF r] by (auto simp: wrapped_def)
    moreover have "mq_head q + blk_len b \<le> mq_tail q" "mq_tail q \<le> k"
      using False f chain_extent[OF k(2)] by (auto simp: fits_def)
    ultimately have "wrapped (q\<lparr>mq_shm := m\<rparr>) xs"
      using False m(5) e unfolding wrapped_def
      by (intro conjI exI[of _ xs1] exI[of _ xs2] exI[of _ k]) auto
    then show ?thesis ..
  qed
  moreover have "mq_wf (q\<lparr>mq_shm := m\<rparr>)" using wf by (simp add: mq_wf_def m(2))
  ultimately show ?thesis using c m(3) e[of "mq_tail q"] f by (auto simp: ring_def fits_def)
qed

lemma move_head_ring:
  assumes r: "ring q xs" and v: "valid_msg m" and p: "push_at P_head q m"
  shows "ring (q\<lparr>mq_head := mq_head q + blk_len (fst m)\<rparr>) (xs @ [m])"
proof -
  let ?h = "mq_head q + blk_len (fst m)"
  have f: "fits q (fst m)" and c: "chain (mq_shm q) (mq_head q) [m] ?h" using p by auto
  note wf = ring_wf[OF r]
  have l: "13 \<le> blk_len (fst m)" using valid_msg_len[OF v] by simp
  have "mq_wf (q\<lparr>mq_head := ?h\<rparr>)" using wf f l by (auto simp: mq_wf_def fits_def split: if_splits)
  moreover have "unwrapped (q\<lparr>mq_head := ?h\<rparr>) (xs @ [m])" if "mq_tail q \<le> mq_head q"
    using ring_unwrapped[OF r that] c l by (auto simp: unwrapped_def chain_append simp del: chain.simps)
  moreover have "wrapped (q\<lparr>mq_head := ?h\<rparr>) (xs @ [m])" if w: "mq_head q < mq_tail q"
  proof -
    obtain xs1 xs2 k where k: "xs = xs1 @ xs2" "chain (mq_shm q) (mq_tail q) xs1 k" "k < mq_len q"
      "end_mark q k" "chain (mq_shm q) mem_head_len xs2 (mq_head q)"
      using ring_wrapped[OF r w] by (auto simp: wrapped_def)
    have "chain (mq_shm q) mem_head_len (xs2 @ [m]) ?h"
      using k(5) c by (auto simp: chain_append simp del: chain.simps)
    then show ?thesis using k f w unfolding wrapped_def
      by (intro conjI exI[of _ xs1] exI[of _ "xs2 @ [m]"] exI[of _ k])
        (auto simp: fits_def end_mark_def)
  qed
  ultimately show ?thesis by (cases "mq_tail q \<le> mq_head q") (simp_all add: ring_def)
qed

lemma mark_align_ring:
  assumes r: "ring q xs" and u: "mq_tail q \<le> mq_head q" and s: "mark_align q = Inr q1"
  shows "ring q1 xs" "mq_tail q1 = mq_tail q" "mq_head q1 = mq_head q" "end_mark q1 (mq_head q1)"
proof -
  obtain n where n: "q1 = q\<lparr>mq_shm := n\<rparr>" "length n = length (mq_shm q)" "end_mark q1 (mq_head q)"
    "\<And>a xs e. chain (mq_shm q) a xs e \<Longrightarrow> e \<le> mq_head q \<Longrightarrow> chain n a xs e"
    using mark_align_ok[OF ring_wf[OF r]] s by auto
  show "ring q1 xs" using ring_unwrapped[OF r u] ring_wf[OF r] n(4)[of "mq_tail q" xs "mq_head q"]
    by (auto simp: ring_def unwrapped_def mq_wf_def n(1,2))
  show "end_mark q1 (mq_head q1)" using n(1,3) by simp
qed (rule mark_align_frame[OF s])+

lemma wrap_head_ring:
  assumes r: "ring q xs" and p: "push_at P_wrap q m"
  shows "ring (q\<lparr>mq_head := mem_head_len\<rparr>) xs" "mem_head_len < mq_tail q"
    "xs \<noteq> [] \<Longrightarrow> \<not> end_mark q (mq_tail q)"
proof -
  have u: "chain (mq_shm q) (mq_tail q) xs (mq_head q)" and e: "end_mark q (mq_head q)"
    and wf: "mq_wf q" and t: "mem_head_len \<noteq> mq_tail q"
    using p r ring_unwrapped[OF r] by (auto simp: unwrapped_def ring_def)
  show lt: "mem_head_len < mq_tail q" using wf t by (simp add: mq_wf_def)
  have "wrapped (q\<lparr>mq_head := mem_head_len\<rparr>) xs"
    unfolding wrapped_def using lt u e wf
    by (intro conjI exI[of _ xs] exI[of _ "[]"] exI[of _ "mq_head q"])
      (auto simp: mq_wf_def end_mark_def)
  then show "ring (q\<lparr>mq_head := mem_head_len\<rparr>) xs" using wf by (auto simp: ring_def mq_wf_def)
  show "xs \<noteq> [] \<Longrightarrow> \<not> end_mark q (mq_tail q)"
    using not_end_mark[of q "mq_tail q" "hd xs" "tl xs" "mq_head q"] u wf
    by (cases xs) (auto simp: mq_wf_def)
qed

lemma end_mark_move [simp]: "end_mark (q\<lparr>mq_head := h\<rparr>) e = end_mark q e"
    "end_mark (q\<lparr>mq_tail := h\<rparr>) e = end_mark q e"
  by (simp_all add: end_mark_def)

lemma push_step_ring:
  assumes r: "ring q xs" and v: "valid_msg m" and p: "push_at pc q m" and g: "get_at g q xs"
    and s: "push_step pc q m = Inr (pc1, q1)"
  shows "ring q1 (if pc = P_head then xs @ [m] else xs) \<and> push_at pc1 q1 m \<and>
    get_at g q1 (if pc = P_head then xs @ [m] else xs)"
proof (cases pc)
  case P_fill
  then have u: "mq_tail q \<le> mq_head q" and k: "mark_align q = Inr q1" "pc1 = P_full"
    using p s by (auto simp: rbind_Inr_iff)
  then show ?thesis using P_fill mark_align_ring[OF r u k(1)] g u by (cases g) auto
next
  case P_wrap
  then show ?thesis using wrap_head_ring[OF r, of m] p s g r by (cases g) (auto simp: ring_def mq_wf_def)
next
  case P_copy
  then obtain n where "copy_blk q (fst m) (snd m) = Inr (q\<lparr>mq_shm := n\<rparr>)" "ring (q\<lparr>mq_shm := n\<rparr>) xs"
    "chain n (mq_head q) [m] (mq_head q + blk_len (fst m))"
    "mq_head q < mq_tail q \<longrightarrow> end_mark (q\<lparr>mq_shm := n\<rparr>) (mq_tail q) = end_mark q (mq_tail q)"
    using copy_blk_ring[OF r, of "fst m" "snd m"] v p by auto
  then show ?thesis using P_copy p s g by (cases g) (auto simp: fits_def simp del: chain.simps)
next
  case P_head
  then have h: "q1 = q\<lparr>mq_head := mq_head q + blk_len (fst m)\<rparr>" "pc1 = P_count"
    using s by (auto simp: rbind_Inr_iff cint_Inr_iff)
  have "fits q (fst m)" "13 \<le> blk_len (fst m)" using P_head p valid_msg_len[OF v] by auto
  then show ?thesis using P_head move_head_ring[OF r v] p g h
    by (cases g) (auto simp: fits_def split: if_splits)
qed (use assms valid_msg_len[OF v] in \<open>auto simp: rbind_Inr_iff cint_Inr_iff fits_def split: if_splits\<close>)

section \<open>The steps of the consumer\<close>

lemma reset_tail_ring:
  assumes r: "ring q xs" and g: "get_at C_reset q xs"
  shows "ring (q\<lparr>mq_tail := mem_head_len\<rparr>) xs"
proof -
  have "mq_rel (counted q xs\<lparr>mq_tail := mem_head_len\<rparr>) xs \<and>
      unwrapped (counted q xs\<lparr>mq_tail := mem_head_len\<rparr>) xs"
    by (rule skip_end_mark) (use r ring_wrapped[OF r] g in \<open>auto simp: ring_rel\<close>)
  then show ?thesis by (auto simp: ring_def mq_rel_def mq_wf_def unwrapped_def)
qed

lemma get_step_ring:
  assumes r: "ring q xs" and g: "get_at g q xs" and p: "push_at pc q m"
    and n: "\<And>a. g \<noteq> C_held a" and s: "get_step g q = Inr (g1, q1)"
  shows "ring q1 xs \<and> get_at g1 q1 xs \<and> push_at pc q1 m"
proof (cases g)
  case C_more
  have "xs \<noteq> []" if "mq_tail q < mq_head q"
    using ring_unwrapped[OF r] that by (auto simp: unwrapped_def)
  then show ?thesis using C_more s r p by (auto simp: rbind_Inr_iff cint_Inr_iff blk_head_len_def)
next
  case C_block
  then have w: "wrapped q xs" using ring_wrapped[OF r] g by simp
  have "end_mark q (mq_tail q)" if "xs = []" using w that by (auto simp: wrapped_def)
  then show ?thesis using C_block s r p g
    by (auto simp: rbind_Inr_iff cint_Inr_iff end_mark_def split: if_splits)
next
  case C_reset
  then have q1: "q1 = q\<lparr>mq_tail := mem_head_len\<rparr>" "g1 = C_start" using s by auto
  have "mem_head_len \<le> mq_head q" "mq_tail q < mq_len q" "mq_head q < mq_tail q"
    using ring_wf[OF r] g C_reset by (auto simp: mq_wf_def)
  then have "push_at pc q1 m" using p by (cases pc) (auto simp: q1 fits_def)
  then show ?thesis using reset_tail_ring[OF r] g C_reset q1 by simp
next
  case (C_store c)
  then show ?thesis using s r p by (cases pc) (auto simp: rbind_Inr_iff cint_Inr_iff fits_def)
qed (use n s r p in \<open>auto split: if_splits\<close>)

lemma held_front:
  assumes "ring q (x # xs)" and "get_at (C_held a) q (x # xs)"
  shows "mq_front (counted q (x # xs)) x xs" "read_msg q a = Inr x"
proof -
  show f: "mq_front (counted q (x # xs)) x xs"
    using assms unfolding ring_rel mq_front_def by simp
  show "read_msg q a = Inr x"
    using mq_front_blk_is[OF f] assms(2) by (simp add: blk_is_def read_msg_def read_head_def read_data_def)
qed

lemma pop_step_ring:
  assumes r: "ring q (x # xs)" and g: "get_at (C_held a) q (x # xs)" and p: "push_at pc q m"
    and s: "get_step (C_held a) q = Inr (g1, q1)"
  shows "ring q1 xs \<and> get_at g1 q1 xs \<and> push_at pc q1 m"
proof -
  let ?q = "counted q (x # xs)"
  note f = held_front[OF r g]
  obtain t where t: "q1 = q\<lparr>mq_tail := t\<rparr>" "g1 = C_count"
    "rbind (load (mq_shm q) (mq_tail q + 9) 4) (\<lambda>l. cint (mq_tail q + get32 l)) = Inr t"
    using s by (auto simp: rbind_Inr_iff cint_Inr_iff)
  obtain q2 where q2: "mq_pop ?q = Inr q2" "mq_rel q2 xs" using mq_pop_rel[OF f(1)] by blast
  have "q2 = q1\<lparr>mq_blk_cnt := mq_blk_cnt q2\<rparr>"
    using q2(1) t by (auto simp: mq_pop_def rbind_Inr_iff cint_Inr_iff split: if_splits)
  then have "ring q1 xs"
    using q2(2) ring_cnt(1)[where q = q1 and n = "mq_blk_cnt q2"] by (simp add: ring_def mq_rel_def)
  obtain ys e where c: "chain (mq_shm ?q) (mq_tail ?q) (x # ys) e"
    "mq_tail ?q \<le> mq_head ?q \<Longrightarrow> ys = xs \<and> e = mq_head ?q"
    using mq_front_chain[OF f(1)] by metis
  then have "13 \<le> blk_len (fst x)" "is_cint (blk_len (fst x))" "mq_tail q + blk_len (fst x) \<le> e"
    using valid_msg_len[of x] chain_extent[of "mq_shm q" "mq_tail q + blk_len (fst x)" ys e]
    by (auto simp: valid_msg_def cint_head_def split: prod.splits)
  moreover from this have "t = mq_tail q + blk_len (fst x)"
    using t(3) chain_type(2)[OF c(1)] by (auto simp: rbind_Inr_iff cint_Inr_iff)
  ultimately have "mq_tail q + 13 \<le> t" "mq_tail q \<le> mq_head q \<Longrightarrow> t \<le> mq_head q" using c(2) by auto
  then have "push_at pc q1 m" using p ring_wf[OF r] ring_wf[OF \<open>ring q1 xs\<close>]
    by (cases pc) (auto simp: t fits_def mq_wf_def split: if_splits)
  then show ?thesis using \<open>ring q1 xs\<close> by (simp add: t(2))
qed

section \<open>The invariant of all interleavings\<close>

text \<open>What is recorded of the calls fits together: see \<open>fine_fifo\<close>.\<close>

definition running :: "push_pc \<Rightarrow> bool" where
  "running pc \<longleftrightarrow> pc \<noteq> P_idle"

definition written :: "fine \<Rightarrow> msg list" where
  "written c = map fst (filter (\<lambda>(m, r, w). w) (f_ret c)) @
     (if running (f_push c) \<and> f_moved c then [f_msg c] else [])"

fun moved_at :: "push_pc \<Rightarrow> bool \<Rightarrow> bool" where
  "moved_at P_idle w \<longleftrightarrow> True"
| "moved_at P_count w \<longleftrightarrow> w"
| "moved_at (P_store c) w \<longleftrightarrow> w"
| "moved_at P_note w \<longleftrightarrow> w"
| "moved_at (P_done r) w \<longleftrightarrow> (r = 0 \<or> r = - 1 \<and> \<not> w)"
| "moved_at pc w \<longleftrightarrow> \<not> w"

definition fine_inv :: "fine \<Rightarrow> bool" where
  "fine_inv c \<longleftrightarrow> (\<exists>pend. f_acc c = f_del c @ pend \<and> ring (f_q c) pend \<and>
     push_at (f_push c) (f_q c) (f_msg c) \<and> get_at (f_get c) (f_q c) pend) \<and>
     (running (f_push c) \<longrightarrow> valid_msg (f_msg c)) \<and>
     f_acc c = written c \<and> moved_at (f_push c) (f_moved c) \<and>
     (\<forall>(m, r, w) \<in> set (f_ret c). valid_msg m \<and> (r = 0 \<or> r = - 1 \<and> \<not> w))"

lemma push_step_moved:
  assumes "push_step pc q m = Inr (pc1, q1)" and "moved_at pc w" and "pc \<noteq> P_head"
  shows "moved_at pc1 w"
  using assms by (cases pc) (auto simp: rbind_Inr_iff split: if_splits)

lemma push_step_running: "push_step pc q m = Inr (pc1, q1) \<Longrightarrow> running pc1 \<longleftrightarrow> running pc"
  by (cases pc) (auto simp: rbind_Inr_iff running_def split: if_splits)

lemma fine_step_inv:
  assumes "fine_step c c'" and inv: "fine_inv c" shows "fine_inv c'"
proof -
  obtain pend where pe: "f_acc c = f_del c @ pend" "ring (f_q c) pend"
    "push_at (f_push c) (f_q c) (f_msg c)" "get_at (f_get c) (f_q c) pend"
    using inv by (auto simp: fine_inv_def)
  have v: "running (f_push c) \<Longrightarrow> valid_msg (f_msg c)" and w: "f_acc c = written c"
    and mv: "moved_at (f_push c) (f_moved c)"
    and ret: "\<forall>(m, r, w) \<in> set (f_ret c). valid_msg m \<and> (r = 0 \<or> r = - 1 \<and> \<not> w)"
    using inv by (auto simp: fine_inv_def)
  from assms(1) show ?thesis
  proof cases
    case (call m)
    then show ?thesis using pe w ret by (auto simp: fine_inv_def written_def running_def)
  next
    case (push pc q)
    show ?thesis
    proof (cases "running (f_push c)")
      case True
      note st = push_step_ring[OF pe(2) v[OF True] pe(3,4) push(3)]
      then show ?thesis
        using push(1,2) pe(1) v w mv ret push_step_moved[OF push(3)] push_step_running[OF push(3)]
        by (auto simp: fine_inv_def written_def)
    next
      case False
      then show ?thesis using push pe w mv ret by (auto simp: running_def fine_inv_def written_def)
    qed
  next
    case (move pc q)
    have r: "running (f_push c)" using move(2) by (simp add: running_def)
    note st = push_step_ring[OF pe(2) v[OF r] pe(3,4), unfolded move(2), OF move(3)]
    have "pc = P_count" using move(3) by (auto simp: rbind_Inr_iff)
    then show ?thesis using st move pe(1) v[OF r] w mv ret
      by (auto simp: fine_inv_def written_def running_def)
  next
    case (return r)
    then show ?thesis using pe v w mv ret by (auto simp: fine_inv_def written_def running_def)
  next
    case (get pc q)
    then show ?thesis using get_step_ring[OF pe(2,4,3) get(2,3)] pe(1) v w mv ret
      by (auto simp: fine_inv_def written_def)
  next
    case (pop a m pc q)
    then obtain x xs where x: "pend = x # xs" using pe(4) by (cases pend) auto
    have "ring (f_q c) (x # xs)" "get_at (C_held a) (f_q c) (x # xs)" using pe pop x by auto
    note h = held_front(2)[OF this] pop_step_ring[OF this pe(3) pop(4)]
    then show ?thesis using pop pe(1) x v w mv ret by (auto simp: fine_inv_def written_def)
  qed
qed

lemma fine_reach_inv:
  assumes "mem_head_len < sz" and "sz \<le> MQ_MAX"
  shows "fine_reach sz c \<Longrightarrow> fine_inv c"
proof (induction rule: fine_reach.induct)
  case (start q0 ty pfd q m)
  then have "mq_rel q []" using mq_init_rel[OF assms, of q0 ty pfd] by auto
  then show ?case
    by (simp add: fine_start_def fine_inv_def ring_def mq_rel_def written_def running_def)
next
  case (step c c')
  then show ?case using fine_step_inv by blast
qed

section \<open>Every call returns\<close>

text \<open>
  What a call has still to do, whatever the other process does in between: it jumps back to
  \<open>push_again\<close> once at most, because the head is then at the start.
\<close>

fun push_left :: "push_pc \<Rightarrow> mem_queue \<Rightarrow> nat" where
  "push_left P_start q = (if mq_head q = mem_head_len then 10 else 20)"
| "push_left P_fill q = (if mq_head q = mem_head_len then 9 else 19)"
| "push_left P_full q = (if mq_head q = mem_head_len then 8 else 18)"
| "push_left P_wrap q = 17"
| "push_left P_less q = 9"
| "push_left P_room q = 8"
| "push_left P_copy q = 7"
| "push_left P_head q = 6"
| "push_left P_count q = 5"
| "push_left (P_store c) q = 4"
| "push_left P_note q = 3"
| "push_left (P_done r) q = 2"
| "push_left P_idle q = 0"

lemma push_step_left:
  assumes r: "ring q xs" and p: "push_at pc q m" and s: "push_step pc q m = Inr (pc1, q1)"
    and n: "running pc" "\<And>r. pc \<noteq> P_done r"
  shows "push_left pc1 q1 < push_left pc q"
proof (cases pc)
  case P_fill
  then show ?thesis using s mark_align_frame(1) by (auto simp: rbind_Inr_iff)
next
  case P_full
  then show ?thesis using p s ring_wf[OF r] by (auto simp: mq_wf_def)
next
  case P_copy
  then show ?thesis using s by (auto simp: rbind_Inr_iff)
qed (use assms in \<open>auto simp: rbind_Inr_iff running_def split: if_splits\<close>)

lemma push_step_ok:
  assumes r: "ring q xs" and v: "valid_msg m" and p: "push_at pc q m"
    and n: "pc \<noteq> P_store INT_MAX" and c: "\<And>c. pc = P_store c \<Longrightarrow> is_cint c"
  shows "ok (push_step pc q m)"
proof -
  note wf = ring_wf[OF r] and int = mq_push_cint[OF ring_wf[OF r], of "fst m" "snd m"]
  show ?thesis
  proof (cases pc)
    case P_fill
    obtain n where "mark_align q = Inr (q\<lparr>mq_shm := n\<rparr>)" by (rule mark_align_ok[OF wf])
    then show ?thesis using P_fill by simp
  next
    case P_copy
    then show ?thesis using copy_blk_ring[OF r, of "fst m" "snd m"] v p by auto
  next
    case (P_store c)
    then show ?thesis using n c by (auto simp: is_cint_def)
  qed (use int v in auto)
qed

section \<open>A run, step by step\<close>

text \<open>The steps as a function of the side that moves, to follow a given interleaving.\<close>

datatype action = Call msg | Push | Return | Take

fun fine_do :: "action \<Rightarrow> fine \<Rightarrow> fine option" where
  "fine_do (Call m) c = (if f_push c = P_idle \<and> valid_msg m
     then Some (c\<lparr>f_push := P_start, f_msg := m, f_moved := False\<rparr>) else None)"
| "fine_do Push c = (case push_step (f_push c) (f_q c) (f_msg c) of Inl e \<Rightarrow> None
     | Inr (pc, q) \<Rightarrow> Some (if f_push c = P_head
         then c\<lparr>f_push := pc, f_q := q, f_moved := True, f_acc := f_acc c @ [f_msg c]\<rparr>
         else c\<lparr>f_push := pc, f_q := q\<rparr>))"
| "fine_do Return c = (case f_push c of
       P_done r \<Rightarrow> Some (c\<lparr>f_push := P_idle, f_ret := f_ret c @ [(f_msg c, r, f_moved c)]\<rparr>)
     | _ \<Rightarrow> None)"
| "fine_do Take c = (case f_get c of
       C_held a \<Rightarrow> (case read_msg (f_q c) a of Inl e \<Rightarrow> None
         | Inr m \<Rightarrow> (case get_step (C_held a) (f_q c) of Inl e \<Rightarrow> None
           | Inr (pc, q) \<Rightarrow> Some (c\<lparr>f_get := pc, f_q := q, f_del := f_del c @ [m]\<rparr>)))
     | g \<Rightarrow> (case get_step g (f_q c) of Inl e \<Rightarrow> None
         | Inr (pc, q) \<Rightarrow> Some (c\<lparr>f_get := pc, f_q := q\<rparr>)))"

fun fine_run :: "action list \<Rightarrow> fine \<Rightarrow> fine option" where
  "fine_run [] c = Some c"
| "fine_run (a # as) c = (case fine_do a c of None \<Rightarrow> None | Some c1 \<Rightarrow> fine_run as c1)"

lemma fine_do_step: "fine_do a c = Some c' \<Longrightarrow> fine_step c c'"
proof (cases a)
  case (Call m)
  then show "fine_do a c = Some c' \<Longrightarrow> ?thesis"
    using fine_step.call[of c m] by (auto split: if_splits)
next
  case Push
  then show "fine_do a c = Some c' \<Longrightarrow> ?thesis"
    using fine_step.push[of c] fine_step.move[of c]
    by (auto split: sum.splits prod.splits if_splits simp del: push_step.simps)
next
  case Return
  then show "fine_do a c = Some c' \<Longrightarrow> ?thesis"
    using fine_step.return[of c] by (auto split: push_pc.splits)
next
  case Take
  then show "fine_do a c = Some c' \<Longrightarrow> ?thesis"
    using fine_step.get[of c] fine_step.pop[of c]
    by (auto split: get_pc.splits sum.splits prod.splits simp del: get_step.simps)
qed

lemma fine_run_reach: "fine_run as c = Some c' \<Longrightarrow> fine_reach sz c \<Longrightarrow> fine_reach sz c'"
  by (induction as arbitrary: c) (auto split: option.splits dest: fine_reach.step fine_do_step)

text \<open>
  A message of 33 bytes passes through the ring of 64; a second one does not fit behind the head
  and is refused, which leaves the head at the start. Then the consumer looks for a block, finds
  the end mark and is about to reset the tail while the producer, with a third message, is
  between its two tests.
\<close>

definition demo_sched :: "action list" where
  "demo_sched = Call demo_big # replicate 7 Push @ [Return] @ replicate 6 Take @
     Call demo_big # replicate 7 Push @ [Return] @ replicate 4 Take @ [Call demo_msg, Push]"

definition demo_between :: fine where
  "demo_between = the (fine_run demo_sched (fine_start demo_queue demo_msg))"

lemma demo_between_run: "fine_run demo_sched (fine_start demo_queue demo_msg) = Some demo_between"
proof -
  have "fine_run demo_sched (fine_start demo_queue demo_msg) \<noteq> None" by code_simp
  then show ?thesis by (auto simp: demo_between_def)
qed

lemma demo_between_reach: "fine_reach 64 demo_between"
  by (rule fine_run_reach[OF demo_between_run]) (rule fine_reach.start[OF demo_queue_init])

lemma demo_between_state:
  "f_push demo_between = P_less" "f_get demo_between = C_reset" "f_acc demo_between = [demo_big]"
  "f_del demo_between = [demo_big]" "f_ret demo_between = [(demo_big, 0, True), (demo_big, - 1, False)]"
  "f_msg demo_between = demo_msg" "f_moved demo_between = False"
  unfolding demo_between_def by code_simp+

section \<open>Order, completeness and the lost message\<close>

text \<open>
  C1: whatever the interleaving of the single accesses of \<open>mq_push\<close>, \<open>mq_get\<close> and \<open>mq_pop\<close> to
  the shared fields, on any queue size, the messages written into the ring are delivered in the
  order they were written, each once; the rest is in the ring, and the block the consumer has in
  hand reads as the next message, whatever the producer does meanwhile. The messages written are
  those of the calls of \<open>mq_push\<close> that moved the head, all of which return 0; every other call
  writes nothing and returns -1, or 0 when it found neither of its tests true (\<open>push_lost\<close>).
\<close>

theorem fine_fifo:
  assumes "mem_head_len < sz" and "sz \<le> MQ_MAX" and "fine_reach sz c"
  shows "\<exists>pend. f_acc c = f_del c @ pend \<and> ring (f_q c) pend \<and>
    (\<forall>a. f_get c = C_held a \<longrightarrow> pend \<noteq> [] \<and> read_msg (f_q c) a = Inr (hd pend)) \<and>
    f_acc c = map fst (filter (\<lambda>(m, r, w). w) (f_ret c)) @
      (if f_push c \<noteq> P_idle \<and> f_moved c then [f_msg c] else []) \<and>
    (\<forall>(m, r, w) \<in> set (f_ret c). r = 0 \<or> r = - 1 \<and> \<not> w)"
proof -
  have inv: "fine_inv c" by (rule fine_reach_inv[OF assms])
  then obtain pend where p: "f_acc c = f_del c @ pend" "ring (f_q c) pend" "get_at (f_get c) (f_q c) pend"
    by (auto simp: fine_inv_def)
  have "pend \<noteq> [] \<and> read_msg (f_q c) a = Inr (hd pend)" if "f_get c = C_held a" for a
    using held_front(2)[of "f_q c" "hd pend" "tl pend" a] p that by (cases pend) auto
  moreover have "f_acc c = map fst (filter (\<lambda>(m, r, w). w) (f_ret c)) @
      (if f_push c \<noteq> P_idle \<and> f_moved c then [f_msg c] else [])"
    using inv by (simp only: fine_inv_def written_def running_def)
  moreover have "\<forall>(m, r, w) \<in> set (f_ret c). r = 0 \<or> r = - 1 \<and> \<not> w"
    using inv unfolding fine_inv_def by blast
  ultimately show ?thesis using p(1,2) by blast
qed

theorem fine_fifo_witness:
  "\<exists>pend. [demo_big] = f_del demo_between @ pend \<and> ring (f_q demo_between) pend"
proof -
  have sz: "mem_head_len < 64" "(64::int) \<le> MQ_MAX" by (simp_all add: mem_head_len_def MQ_MAX_def)
  show ?thesis using fine_fifo[OF sz demo_between_reach] by (auto simp: demo_between_state)
qed

text \<open>
  C27: when the consumer resets the tail at the end mark after the first test of \<open>mq_push\<close> (head
  behind the tail) and before the second one (head in front of it), neither branch runs: the call
  returns 0 like one that was accepted, but the ring holds what it held and the message is lost.
\<close>

theorem push_lost:
  assumes "mem_head_len < sz" and "sz \<le> MQ_MAX" and "fine_reach sz c"
    and "f_push c = P_less" and "f_get c = C_reset"
  shows "\<exists>c' pend. fine_run [Take, Push, Return] c = Some c' \<and>
    f_ret c' = f_ret c @ [(f_msg c, 0, False)] \<and> f_push c' = P_idle \<and>
    f_acc c' = f_acc c \<and> f_del c' = f_del c \<and> f_acc c = f_del c @ pend \<and> ring (f_q c') pend"
proof -
  have inv: "fine_inv c" by (rule fine_reach_inv[OF assms(1-3)])
  then obtain pend where p: "f_acc c = f_del c @ pend" "ring (f_q c) pend" "get_at C_reset (f_q c) pend"
    using assms(5) by (auto simp: fine_inv_def)
  have m: "\<not> f_moved c" using inv assms(4) by (simp add: fine_inv_def)
  have "mem_head_len \<le> mq_head (f_q c)" using ring_wf[OF p(2)] by (simp add: mq_wf_def)
  then show ?thesis using reset_tail_ring[OF p(2,3)] p(1) assms(4,5) m by simp
qed

theorem push_lost_witness:
  "\<exists>c'. fine_run [Take, Push, Return] demo_between = Some c' \<and>
    f_ret c' = [(demo_big, 0, True), (demo_big, - 1, False), (demo_msg, 0, False)] \<and>
    f_acc c' = [demo_big] \<and> ring (f_q c') []"
proof -
  have sz: "mem_head_len < 64" "(64::int) \<le> MQ_MAX" by (simp_all add: mem_head_len_def MQ_MAX_def)
  obtain c' pend where c: "fine_run [Take, Push, Return] demo_between = Some c'"
    "f_ret c' = f_ret demo_between @ [(f_msg demo_between, 0, False)]"
    "f_acc c' = f_acc demo_between" "f_acc demo_between = f_del demo_between @ pend" "ring (f_q c') pend"
    using push_lost[OF sz demo_between_reach demo_between_state(1,2)] by blast
  then have "pend = []" by (simp add: demo_between_state)
  then show ?thesis using c by (simp only: demo_between_state) auto
qed

end
