(* ===== verification/Spec2Isabelle.thy ===== *)
theory Spec2Isabelle
  imports Master_Stream Mcast_Reload Server Restart Master_End Master_Shape Worker_Sessions
    Sample_Faults Mcast_Tools Test_Clients Server_Stream Master_Queues Worker_Queues Housekeeping System_Claims
    Mem_Queue_Fine
begin

text \<open>
  A model of \<^verbatim>\<open>sserver\<close>, a framework for TCP servers in C (\<^verbatim>\<open>src/\<close>), and what can be proved of it.

  \<^bold>\<open>The program.\<close> One master process accepts the clients of all workers, one worker process per line of \<^verbatim>\<open>work.conf\<close> runs the
  business library (a shared object). Between the master and each worker there are two queues in shared memory: the
  receive queue \<open>wk_rq\<close> from the master to the worker and the send queue \<open>wk_sq\<close> back, each with a pipe to wake the other
  side. The master cuts the bytes of a client into messages with the library's \<open>get_msg_len\<close>, and queues them; the worker
  keeps a session per client and calls \<open>proc_cli_msg\<close>; answers come back through the send queue. Workers announce their
  addresses by multicast, and a multicast packet can have the library reloaded.

  \<^bold>\<open>Theories and code.\<close>
  \<^item> \<open>Prelude\<close>: results \<open>fault + 'a\<close>, memory of bytes (\<open>load\<close>, \<open>store\<close>), C integers (\<open>cint\<close>), little endian fields.
  \<^item> \<open>Mem_Queue\<close>, \<open>Mem_Queue_Fifo\<close>, \<open>Mem_Queue_Chan\<close>: \<^verbatim>\<open>mem_queue.c\<close>; the contract of a block queue (locale
    \<open>block_queue\<close>, interpreted on \<open>mq_push\<close>, \<open>mq_get\<close>, \<open>mq_pop\<close>) and the two processes at one queue in any interleaving of their calls.
  \<^item> \<open>Mem_Queue_Fine\<close>: the same functions access by access (\<open>push_step\<close>, \<open>get_step\<close>), since the fields they share are volatile and
    read again; alone they are the whole calls, together their single accesses interleave in any order.
  \<^item> \<open>Tcp_IO\<close>: the socket helpers of \<^verbatim>\<open>net_util.c\<close>.
  \<^item> \<open>Net_State\<close>: the data of \<^verbatim>\<open>net_util.h\<close>, \<^verbatim>\<open>fds.h\<close> and \<^verbatim>\<open>outer.h\<close>, and the state of a process (\<open>proc\<close>: \<open>epinfo\<close>, \<open>workmgr\<close>,
    \<open>setting\<close>, the sessions, \<open>stop\<close>, \<open>chl_pids\<close>, the answers of the kernel to come and the system calls made).
  \<^item> \<open>Net_Util\<close>, with \<open>Net_Lists\<close>, \<open>Net_Send\<close>, \<open>Net_Recv\<close>, \<open>Net_Close\<close> for its properties: the connection table and the
    buffers of \<^verbatim>\<open>net_util.c\<close>. \<open>Work_Queues\<close>: the queues inside the state.
  \<^item> \<open>Framing\<close>, \<open>Stream_Reader\<close>: cutting bytes into messages, and reading a stream with it (locales \<open>frame_loop\<close> and
    \<open>stream_reader\<close>). \<open>Master_Stream\<close> interprets them on \<open>handle_cli\<close> of \<^verbatim>\<open>master.c\<close>, \<open>Server_Stream\<close> on \<open>do_proc_svr\<close> of \<^verbatim>\<open>work.c\<close>.
  \<^item> \<open>Master\<close>: the other handlers of \<^verbatim>\<open>master.c\<close>. \<open>Worker\<close>: the handlers of \<^verbatim>\<open>work.c\<close> and \<^verbatim>\<open>fds.c\<close>. \<open>Worker_Sessions\<close>: what
    \<open>handle_mq_recv\<close> makes of the messages.
  \<^item> \<open>Answer_Path\<close>: the way of an answer through the send queue and the master to the client.
  \<^item> \<open>Conf\<close>, \<open>Conf_Load\<close>, \<open>Settings\<close>: \<^verbatim>\<open>conf.c\<close>, with the pages its files are mapped to (\<open>conf_map\<close>), and \<open>init_setting\<close>. \<open>Outer\<close>: \<^verbatim>\<open>outer.c\<close>.
  \<^item> \<open>Mcast\<close>, \<open>Mcast_Discovery\<close>, \<open>Mcast_Reload\<close>: \<^verbatim>\<open>mcast.c\<close> and the handlers of \<^verbatim>\<open>work.c\<close> for it.
  \<^item> \<open>Startup\<close>, \<open>Worker_Start\<close>, \<open>Dispatch\<close>, \<open>Server\<close>: start, restart and end of the processes, their loops, \<open>main\<close>
    (\<^verbatim>\<open>util.c\<close>, \<^verbatim>\<open>master.c\<close>, \<^verbatim>\<open>work.c\<close>, \<^verbatim>\<open>simple_svr.c\<close>).
  \<^item> \<open>Entry_Inv\<close>: how a predicate is followed through the operations on one connection (locale \<open>entry_inv\<close>);
    \<open>Master_Loop\<close>: the same for the whole loop of the master (locales \<open>master_ops\<close>, \<open>master_inv\<close>). \<open>Master_Lists\<close>, \<open>Master_Shape\<close>
    and \<open>Master_Queues\<close> interpret them for three invariants: the lists, the sizes of the tables, the contents of the queues.
    \<open>Worker_Loop\<close> does it for the loop of a worker (locale \<open>work_inv\<close>), \<open>Worker_Queues\<close> interprets that with the sample library.
    \<open>Restart\<close>, \<open>Master_End\<close>: restart of a worker, end of the master, signals.
  \<^item> \<open>Sample_Lib\<close>, \<open>Sample_Echo\<close>, \<open>Sample_Faults\<close>: the business library that comes with the server (\<^verbatim>\<open>test_sserv\<close>), and what the
    whole server does with it.
  \<^item> \<open>System\<close>: master and worker as one step relation (\<open>sys_step\<close>) over two states that share a queue; its master steps are rounds of
    the loop of \<open>handle_cli\<close> (\<open>frame_step\<close>), \<open>handle_read\<close>, \<open>do_fd_open\<close> and \<open>do_fd_close\<close>, its worker steps the calls in \<open>handle_mq_recv\<close>.
    \<open>System_Inv\<close>, \<open>System_Refine\<close>, \<open>System_Work\<close>: its invariant; \<open>System_Runs\<close>, \<open>System_Claims\<close>: what follows, and that the handlers
    are runs of it, at the example of \<open>System_Example\<close>.
  \<^item> \<open>Housekeeping\<close>: signals, limits, printing and freeing (\<^verbatim>\<open>util.c\<close>, \<^verbatim>\<open>conf.c\<close>, \<^verbatim>\<open>master.c\<close>).
  \<^item> \<open>Mcast_Tools\<close>: the programs in \<^verbatim>\<open>test_mcast\<close>. \<open>Test_Clients\<close>: \<^verbatim>\<open>epoll_cli.cpp\<close> and \<^verbatim>\<open>pingpong.cpp\<close>.

  \<^bold>\<open>What is shown.\<close> The queue delivers what is written into it, in order, in any interleaving of single accesses (\<open>fine_fifo\<close>), and its calls do not fault; what a producer can lose
  on the way is one message whose call returns 0 without writing it (\<open>push_lost\<close>). The
  messages queued for a worker are those of the client's stream, in whatever pieces it arrives; the worker serves the
  queue as an abstract server would; both together (end of this theory) give that the library sees the
  messages of the stream, and its answers reach the clients (\<open>Answer_Path\<close>). That holds in any interleaving of the calls of the two processes, for any
  number of clients that come and go and get the descriptors of those before: at every moment the worker has had a prefix of each client's messages, no step of
  cutting, closing or serving faults, and the two can always finish what has been read (\<open>System_Claims\<close>, under the conditions named there). With the sample library in the place of the
  parameter the whole chain is an echo (\<open>Sample_Echo\<close>), which the test client is content with. Sending, reading, closing and the two lists of connections have their complete effect stated,
  the lists and the queues an invariant over any run of the master's loop, what a worker sends one over any run of its own. What servers send to a worker reaches the
  library as what clients send does. Configuration files and announcements have round trips.
  The theorems named after errors show what the code does where it does not do what it means to.

  \<^bold>\<open>Conventions.\<close> A fault (access out of bounds or to freed memory, an \<open>int\<close> out of range, a negative size, ...) ends a run
  with \<open>Inl\<close>. \<open>Exhausted\<close> is not a fault of the program: the list of answers or the number of rounds given was too short.
  Loops take a number of rounds only where they may need more than the data shows; two are enough for \<open>mq_get\<close> and
  \<open>mq_push\<close> (\<open>mq_get_loop_fuel\<close>, \<open>mq_push_loop_fuel\<close>), one more than the size of the buffer for the cutting loops
  (\<open>handle_cli_total\<close>), one more than the messages for \<open>handle_mq_recv\<close>.

  \<^bold>\<open>What is outside.\<close> libnanc's lists (\<open>nlist_laws\<close>), GLib's hash tables (\<open>ghash_laws\<close>), the loader, the business library
  (\<open>serv_if\<close>; \<open>len_law\<close>, \<open>msg_len_law\<close>, \<open>lib_laws\<close> say what is relied on) and the C library's address functions are arguments. The answers of
  the kernel are lists in the state or arguments. A process is interrupted by signals only where \<open>epoll_wait\<close> returns.
  What is relied on of the business library, where a theorem says so: it tells the length of a message, a positive one, from any of its
  first bytes, and its handlers return, with answers that its own state determines. The sample library is none of these (its lengths may be negative,
  see \<open>sample_negative_length\<close>, need four bytes, see \<open>sample_split_length\<close>, and it refuses a message when the send queue is full): its own
  theorems are in \<open>Sample_Echo\<close> and \<open>Sample_Faults\<close>, and \<open>Worker_Queues\<close>.

  In \<open>sys_step\<close> a step is a whole call of the queue's functions. A descriptor is given to the next client when the block that closes the last one
  was queued; when it was not, since the queue was full, the descriptor stays unused there, and \<open>refused_open_desync\<close> shows what its next use does. What else the
  master does is any change that leaves the connections read from alone (\<open>same_conns\<close>), and taking answers is any change of the send queue to
  one that holds whole messages.

  \<^bold>\<open>Not modelled.\<close> Log and trace output; \<open>daemon\<close>, which is the C library's; a new title of a worker process; the contents of
  pipes (only the number of notices); memory that is freed together with a hash table; the times the test clients print.
  The receive queue of a worker is not an invariant of its loop,
  since a refused open breaks it (\<open>refused_open_desync\<close>).
\<close>

section \<open>From the bytes of a client to the business library\<close>

lemma chain_valid: "chain m a xs e \<Longrightarrow> list_all valid_msg xs"
  by (induction xs arbitrary: a) auto

lemma mq_rel_valid: "mq_rel q xs \<Longrightarrow> list_all valid_msg xs"
  by (auto simp: mq_rel_def unwrapped_def wrapped_def dest: chain_valid)

text \<open>
  What the library sees of one client: its messages in order, up to the first it refuses, with which the session ends.
\<close>

fun feed :: "('x, 'w) lib_spec \<Rightarrow> fdsess \<Rightarrow> int \<Rightarrow> 'x \<Rightarrow> byte list list \<Rightarrow> bool \<times> 'x" where
  "feed A s fd x [] = (True, x)"
| "feed A s fd x (d # ds) = (case lib_msg A x s d of (r, x1) \<Rightarrow>
     if r \<noteq> 0 then (False, lib_closed A x1 fd) else feed A s fd x1 ds)"

lemma serve_data:
  "serve A (fm, x) (data_msg i fd d) = (case fm fd of None \<Rightarrow> (fm, x) | Some s \<Rightarrow> (case lib_msg A x s d of (r, x1) \<Rightarrow>
     if r \<noteq> 0 then (fm(fd := None), lib_closed A x1 fd) else (fm, x1)))"
  by (cases "fm fd") (simp_all add: data_msg_def split: prod.split)

lemma serve_without_session: "fm fd = None \<Longrightarrow> foldl (serve A) (fm, x) (map (data_msg i fd) fs) = (fm, x)"
  by (induction fs) (simp_all add: serve_data)

lemma serve_feed:
  "fm fd = Some s \<Longrightarrow> foldl (serve A) (fm, x) (map (data_msg i fd) fs) =
    (case feed A s fd x fs of (kept, x1) \<Rightarrow> (if kept then fm else fm(fd := None), x1))"
proof (induction fs arbitrary: x)
  case (Cons d fs)
  then show ?case using serve_without_session[of "fm(fd := None)" fd A]
    by (auto simp: serve_data split: prod.split)
qed simp

lemma orderly_data: "orderly i A fx (map (data_msg i fd) fs)"
  by (induction fs arbitrary: fx) (auto simp: data_msg_def)

text \<open>
  C3: From the bytes of a client to the business library. The master reads the bytes of a client in any pieces; the worker,
  which shares the queue with it, then calls \<open>handle_mq_recv\<close>. The library is given, in order and with the session of the
  client, exactly the messages its own lengths cut the bytes into, up to the first message it refuses; then the session is
  gone. Afterwards the queue is empty. The library has to tell the length of a message, a positive one, from any of its first bytes, and its
  handlers have to return, with answers its own state determines and the queue to the worker and the sessions left alone (\<open>lib_laws\<close>).
\<close>

theorem client_bytes_reach_library:
  assumes run: "cli_run L S n fd pm us pm'" and ok: "readable L cap fd pm i []"
    and fresh: "unread pm fd = []" "msglen (buff_of pm fd) = 0"
    and g: "msg_len_law S SERV_MASTER fd g" "\<And>bs ds. bs \<noteq> [] \<Longrightarrow> g (bs @ ds) = g bs" and n: "cap < int n"
    and ct: "cut g 0 (concat us) = (fs, rest, k)"
    and shared: "i < int (length (p_works pw))" "wk_rq (p_works pw ! nat i) = wk_rq (p_works pm' ! nat i)"
    and worker: "ghash_laws G" "lib_laws i A S'" "sq_ready i pw" "sess_ids i (sess_map G pw)" "sess_map G pw fd = Some s"
    and rounds: "length fs < m"
  shows "\<exists>pw'. handle_mq_recv G S' m i pw = Inr (0, pw') \<and> rq_holds pw' i [] \<and>
    (sess_map G pw', lib_st A pw') = (case feed A s fd (lib_st A pw) fs of (kept, x) \<Rightarrow>
       (if kept then sess_map G pw else (sess_map G pw)(fd := None), x))"
proof -
  have "rq_holds pm' i (map (data_msg i fd) fs)"
    using cli_run_stream[OF run ok fresh g n ct] by (simp add: readable_def)
  then have q: "rq_holds pw i (map (data_msg i fd) fs)" using shared by (simp add: rq_holds_def)
  then have v: "list_all valid_msg (map (data_msg i fd) fs)" by (auto simp: rq_holds_def dest: mq_rel_valid)
  have i: "is_cint i" using ok by (simp add: readable_def)
  show ?thesis
    using mq_recv_serves[OF worker(1,2) q i worker(3,4) v orderly_data, of m] rounds serve_feed[where fm = "sess_map G pw" and A = A and x = "lib_st A pw" and i = i and fs = fs, of fd s] worker(5)
    by auto
qed

lemma client_bytes_reach_library_witness:
  "\<exists>pm' (pw :: (lnode \<Rightarrow> lnode list, int \<rightharpoonup> fdsess) proc) pw'.
     cli_run demo_nlist demo_serv 17 1 (demo_cli []) [[1, 2, 3, 4, 5]] pm' \<and> wk_rq (p_works pw ! 0) = wk_rq (p_works pm' ! 0)
     \<and> handle_mq_recv demo_ghash strict_serv 5 0 pw = Inr (0, pw') \<and> rq_holds pw' 0 [] \<and> sess_map demo_ghash pw' = Map.empty"
proof -
  let ?rs = "[RData [1, 2, 3, 4, 5], RErr EAGAIN]"
  obtain p' where p': "handle_cli demo_nlist demo_serv 17 1 (demo_cli ?rs) = Inr (0, p')" "p_recvs p' = []"
    using demo_cli_run by blast
  have e: "demo_cli ?rs = (demo_cli [])\<lparr>p_recvs := ?rs @ []\<rparr>" by (simp add: demo_cli_def)
  have run: "cli_run demo_nlist demo_serv 17 1 (demo_cli []) [recv_bytes ?rs] p'"
    by (rule one_call[where used = ?rs and rest = "[]"]) (use p' e in \<open>auto intro: no_call\<close>)
  have fresh: "unread (demo_cli []) 1 = []" "msglen (buff_of (demo_cli []) 1) = 0"
    by (simp_all add: unread_def demo_cli_def demo_buff_def)
  define s where "s = sess_of demo_open"
  define pw :: "(lnode \<Rightarrow> lnode list, int \<rightharpoonup> fdsess) proc" where
    "pw = (demo_proc [])\<lparr>p_works := [demo_work\<lparr>wk_rq := wk_rq (p_works p' ! 0)\<rparr>], p_sess := [1 \<mapsto> s]\<rparr>"
  have w: "sq_ready 0 pw" "sess_map demo_ghash pw = [1 \<mapsto> s]"
    by (auto simp: pw_def sq_ready_def sq_holds_def demo_work_def sess_map_def demo_ghash_def intro: demo_queue_rel)
  have "\<exists>pw'. handle_mq_recv demo_ghash strict_serv 5 0 pw = Inr (0, pw') \<and> rq_holds pw' 0 [] \<and> sess_map demo_ghash pw' = Map.empty"
    using client_bytes_reach_library[OF run demo_cli_readable fresh demo_serv_len _ _ _ _ _ demo_ghash_laws strict_laws w(1),
        of "[[1, 2, 3, 4]]" "[5]" 4 s 5] demo_cut w(2)
    by (auto simp: pw_def strict_lib_def sess_ids_def s_def sess_of_def demo_open_def Let_def)
  then obtain pw' where "handle_mq_recv demo_ghash strict_serv 5 0 pw = Inr (0, pw')" "rq_holds pw' 0 []"
    "sess_map demo_ghash pw' = Map.empty" by blast
  moreover have "wk_rq (p_works pw ! 0) = wk_rq (p_works p' ! 0)" by (simp add: pw_def)
  ultimately show ?thesis using run by (intro exI[of _ p'] exI[of _ pw] exI[of _ pw']) simp
qed

end
